(* ===== verification/VAC_Prelude.thy ===== *)
theory VAC_Prelude
  imports Main "HOL-Library.Sublist"
begin

text \<open>
  Shared vocabulary of the development: the parts of Go's strings and strconv packages
  that the modelled code calls, 64-bit integers, and a small state-and-exception calculus
  with its Hoare triples for the stateful components.

  A Go string is a byte string, here the type \<open>string\<close>. The case mapping and the white
  space functions are given for the ASCII range, which is the alphabet of the names, tags and
  settings they are applied to.
\<close>

named_theorems go_eval \<open>definitions of the Go library functions, for evaluating closed terms\<close>
named_theorems vac_wp \<open>Hoare triples of the primitive state operations\<close>

section \<open>Strings\<close>

text \<open>strings.HasPrefix and strings.HasSuffix.\<close>

definition has_prefix :: "string \<Rightarrow> string \<Rightarrow> bool" where
  "has_prefix s p = prefix p s"

definition has_suffix :: "string \<Rightarrow> string \<Rightarrow> bool" where
  "has_suffix s p = suffix p s"

definition trim_prefix :: "string \<Rightarrow> string \<Rightarrow> string" where
  "trim_prefix s p = (if has_prefix s p then drop (length p) s else s)"

text \<open>strings.Contains: some suffix starts with the needle.\<close>

fun contains_str :: "string \<Rightarrow> string \<Rightarrow> bool" where
  "contains_str [] sub = (sub = [])"
| "contains_str (c # s) sub = (prefix sub (c # s) \<or> contains_str s sub)"

text \<open>The text before the first occurrence of a byte: s[:i] when i = strings.IndexByte(s, c)
  is not negative, and s otherwise.\<close>

definition before_byte :: "char \<Rightarrow> string \<Rightarrow> string" where
  "before_byte c s = takeWhile (\<lambda>x. x \<noteq> c) s"

text \<open>strings.Cut with a one byte separator.\<close>

definition cut_byte :: "char \<Rightarrow> string \<Rightarrow> (string \<times> string) option" where
  "cut_byte c s = (if c \<in> set s then Some (before_byte c s, drop (Suc (length (before_byte c s))) s)
                   else None)"

text \<open>Cutting at the last occurrence: s[:i], s[i+1:] when i = strings.LastIndexByte(s, c).\<close>

definition last_cut_byte :: "char \<Rightarrow> string \<Rightarrow> (string \<times> string) option" where
  "last_cut_byte c s = (case cut_byte c (rev s) of None \<Rightarrow> None | Some (a, b) \<Rightarrow> Some (rev b, rev a))"

text \<open>strings.Split with a one byte separator.\<close>

fun split_byte :: "char \<Rightarrow> string \<Rightarrow> string list" where
  "split_byte c [] = [[]]"
| "split_byte c (x # xs) =
     (if x = c then [] # split_byte c xs
      else (case split_byte c xs of [] \<Rightarrow> [[x]] | y # ys \<Rightarrow> (x # y) # ys))"

text \<open>strings.Join.\<close>

fun join_str :: "string \<Rightarrow> string list \<Rightarrow> string" where
  "join_str sep [] = []"
| "join_str sep [x] = x"
| "join_str sep (x # y # ys) = x @ sep @ join_str sep (y # ys)"

definition is_space :: "char \<Rightarrow> bool" where
  "is_space c = (c \<in> {CHR '' '', CHR 0x09, CHR 0x0A, CHR 0x0B, CHR 0x0C, CHR 0x0D})"

text \<open>strings.TrimSpace and strings.TrimRight with a one byte cutset.\<close>

definition trim_space :: "string \<Rightarrow> string" where
  "trim_space s = rev (dropWhile is_space (rev (dropWhile is_space s)))"

definition trim_right_byte :: "char \<Rightarrow> string \<Rightarrow> string" where
  "trim_right_byte c s = rev (dropWhile (\<lambda>x. x = c) (rev s))"

definition lower_char :: "char \<Rightarrow> char" where
  "lower_char c = (if 65 \<le> (of_char c :: nat) \<and> (of_char c :: nat) \<le> 90
                   then char_of ((of_char c :: nat) + 32) else c)"

definition upper_char :: "char \<Rightarrow> char" where
  "upper_char c = (if 97 \<le> (of_char c :: nat) \<and> (of_char c :: nat) \<le> 122
                   then char_of ((of_char c :: nat) - 32) else c)"

text \<open>strings.ToLower and strings.ToUpper.\<close>

definition to_lower :: "string \<Rightarrow> string" where
  "to_lower s = map lower_char s"

definition to_upper :: "string \<Rightarrow> string" where
  "to_upper s = map upper_char s"

text \<open>The bytes of the two non-ASCII characters of the messages: the em dash and the bullet.\<close>

definition em_dash :: string where
  "em_dash = [CHR 0xE2, CHR 0x80, CHR 0x94]"

definition bullet :: string where
  "bullet = [CHR 0xE2, CHR 0x80, CHR 0xA2]"

lemmas string_defs [go_eval] =
  has_prefix_def has_suffix_def trim_prefix_def before_byte_def cut_byte_def last_cut_byte_def
  trim_space_def trim_right_byte_def lower_char_def upper_char_def to_lower_def to_upper_def
  is_space_def em_dash_def bullet_def

lemma to_lower_idem [simp]: "to_lower (to_lower s) = to_lower s"
proof -
  have "lower_char (lower_char c) = lower_char c" for c
  proof (cases "65 \<le> (of_char c :: nat) \<and> (of_char c :: nat) \<le> 90")
    case True
    then have "(of_char (char_of ((of_char c :: nat) + 32) :: char) :: nat) = of_char c + 32" by simp
    with True show ?thesis by (simp add: lower_char_def)
  next
    case False
    then show ?thesis by (auto simp: lower_char_def)
  qed
  then show ?thesis by (simp add: to_lower_def)
qed

lemma contains_str_sublist: "contains_str s sub = sublist sub s"
  by (induction s) (auto simp: sublist_Cons_right)

lemma before_byte_Cons [simp]:
  "before_byte c (x # xs) = (if x = c then [] else x # before_byte c xs)"
  "before_byte c [] = []"
  by (simp_all add: before_byte_def)

lemma before_byte_append [simp]: "c \<notin> set s \<Longrightarrow> before_byte c (s @ c # t) = s"
  by (induction s) auto

lemma before_byte_id [simp]: "c \<notin> set s \<Longrightarrow> before_byte c s = s"
  by (induction s) auto

lemma before_byte_notin: "c \<notin> set (before_byte c s)"
  by (auto simp: before_byte_def dest: set_takeWhileD)

lemma cut_byte_append [simp]: "c \<notin> set s \<Longrightarrow> cut_byte c (s @ c # t) = Some (s, t)"
  by (simp add: cut_byte_def)

lemma cut_byte_None [simp]: "cut_byte c s = None \<longleftrightarrow> c \<notin> set s"
  by (simp add: cut_byte_def)

lemma last_cut_byte_append [simp]: "c \<notin> set t \<Longrightarrow> last_cut_byte c (s @ c # t) = Some (s, t)"
  using cut_byte_append [of c "rev t" "rev s"] by (simp add: last_cut_byte_def)

lemma last_cut_byte_None [simp]: "c \<notin> set s \<Longrightarrow> last_cut_byte c s = None"
  by (simp add: last_cut_byte_def cut_byte_def)

lemma split_byte_nonempty [simp]: "split_byte c s \<noteq> []"
  by (induction s) (auto split: list.splits)

lemma split_byte_single [simp]: "c \<notin> set s \<Longrightarrow> split_byte c s = [s]"
  by (induction s) auto

lemma split_byte_append [simp]:
  "c \<notin> set s \<Longrightarrow> split_byte c (s @ c # t) = s # split_byte c t"
  by (induction s) (auto split: list.splits)

lemma trim_space_id: "list_all (\<lambda>c. \<not> is_space c) s \<Longrightarrow> trim_space s = s"
proof -
  assume a: "list_all (\<lambda>c. \<not> is_space c) s"
  then have "dropWhile is_space s = s" by (cases s) auto
  moreover have "dropWhile is_space (rev s) = rev s"
    using a by (cases s rule: rev_cases) auto
  ultimately show ?thesis by (simp add: trim_space_def)
qed

section \<open>Numbers\<close>

text \<open>Go's int and int64 are 64 bits wide.\<close>

definition max_int64 :: int where
  "max_int64 = 9223372036854775807"

definition min_int64 :: int where
  "min_int64 = - 9223372036854775808"

definition wrap64 :: "int \<Rightarrow> int" where
  "wrap64 x = (x + 9223372036854775808) mod 18446744073709551616 - 9223372036854775808"

definition in_int64 :: "int \<Rightarrow> bool" where
  "in_int64 x = (min_int64 \<le> x \<and> x \<le> max_int64)"

lemma wrap64_id: "in_int64 x \<Longrightarrow> wrap64 x = x"
  by (simp add: wrap64_def in_int64_def min_int64_def max_int64_def)

lemma wrap64_in_int64: "in_int64 (wrap64 x)"
proof -
  have "0 \<le> (x + 9223372036854775808) mod 18446744073709551616"
    "(x + 9223372036854775808) mod 18446744073709551616 < 18446744073709551616" by simp_all
  then show ?thesis by (simp add: wrap64_def in_int64_def min_int64_def max_int64_def)
qed

definition is_digit :: "char \<Rightarrow> bool" where
  "is_digit c = (48 \<le> (of_char c :: nat) \<and> (of_char c :: nat) \<le> 57)"

definition digit_val :: "char \<Rightarrow> int" where
  "digit_val c = (of_char c :: int) - 48"

fun digits_val :: "int \<Rightarrow> string \<Rightarrow> int" where
  "digits_val acc [] = acc"
| "digits_val acc (c # cs) = digits_val (10 * acc + digit_val c) cs"

text \<open>strconv.Atoi: an optional sign and decimal digits. The value that accompanies an error
  is 0 for a syntax error and the nearest bound for a range error; callers that drop the error
  see it. The second component says whether the error is nil.\<close>

definition atoi :: "string \<Rightarrow> int \<times> bool" where
  "atoi s =
     (let neg = (case s of [] \<Rightarrow> False | c # _ \<Rightarrow> c = CHR ''-'');
          ds = (case s of [] \<Rightarrow> [] | c # cs \<Rightarrow> if c = CHR ''-'' \<or> c = CHR ''+'' then cs else s)
      in if ds = [] \<or> \<not> list_all is_digit ds then (0, False)
         else (let n = digits_val 0 ds; v = (if neg then - n else n)
               in if v > max_int64 then (max_int64, False)
                  else if v < min_int64 then (min_int64, False) else (v, True)))"

definition digit_char :: "nat \<Rightarrow> char" where
  "digit_char n = char_of (48 + n)"

fun show_nat :: "nat \<Rightarrow> string" where
  "show_nat n = (if n < 10 then [digit_char n] else show_nat (n div 10) @ [digit_char (n mod 10)])"

declare show_nat.simps [simp del]

text \<open>strconv.Itoa and the verb d of fmt.\<close>

definition show_int :: "int \<Rightarrow> string" where
  "show_int x = (if x < 0 then CHR ''-'' # show_nat (nat (- x)) else show_nat (nat x))"

lemmas number_defs [go_eval] =
  max_int64_def min_int64_def is_digit_def digit_val_def atoi_def digit_char_def show_int_def

lemma of_digit_char [simp]: "n < 10 \<Longrightarrow> (of_char (digit_char n) :: nat) = 48 + n"
  by (simp add: digit_char_def)

lemma is_digit_digit_char [simp]: "n < 10 \<Longrightarrow> is_digit (digit_char n)"
  by (simp add: is_digit_def)

lemma digit_val_digit_char [simp]: "n < 10 \<Longrightarrow> digit_val (digit_char n) = int n"
proof -
  assume "n < 10"
  then have "(of_char (digit_char n) :: int) = int (48 + n)"
    using of_digit_char [of n] by (metis of_nat_of_char)
  then show ?thesis by (simp add: digit_val_def)
qed

lemma digits_val_append: "digits_val acc (s @ [c]) = 10 * digits_val acc s + digit_val c"
  by (induction s arbitrary: acc) auto

lemma show_nat_nonempty [simp]: "show_nat n \<noteq> []"
  by (subst show_nat.simps) simp

lemma show_nat_digits: "list_all is_digit (show_nat n)"
proof (induction n rule: show_nat.induct)
  case (1 n)
  then show ?case by (cases "n < 10") (simp_all add: show_nat.simps [of n])
qed

lemma digits_val_show_nat: "digits_val 0 (show_nat n) = int n"
proof (induction n rule: show_nat.induct)
  case (1 n)
  show ?case
  proof (cases "n < 10")
    case True
    then show ?thesis by (simp add: show_nat.simps [of n])
  next
    case False
    then have "digits_val 0 (show_nat n) = 10 * int (n div 10) + int (n mod 10)"
      using 1 by (simp add: show_nat.simps [of n] digits_val_append)
    also have "\<dots> = int n"
      by (metis mult_div_mod_eq of_nat_add of_nat_mult of_nat_numeral)
    finally show ?thesis .
  qed
qed

lemma digit_not_special:
  "is_digit c \<Longrightarrow> c \<noteq> CHR ''-'' \<and> c \<noteq> CHR ''+'' \<and> c \<noteq> CHR '':'' \<and> c \<noteq> CHR ''/'' \<and> \<not> is_space c"
  by (auto simp: is_digit_def is_space_def)

lemma show_nat_no_special:
  "CHR ''-'' \<notin> set (show_nat n)" "CHR '':'' \<notin> set (show_nat n)" "CHR ''/'' \<notin> set (show_nat n)"
  using show_nat_digits [of n] digit_not_special by (auto simp: list_all_iff)

lemma trim_space_show_nat [simp]: "trim_space (show_nat n) = show_nat n"
  by (rule trim_space_id) (use show_nat_digits [of n] digit_not_special in \<open>auto simp: list_all_iff\<close>)

lemma atoi_digits:
  assumes "list_all is_digit s" and "s \<noteq> []" and "digits_val 0 s \<le> max_int64"
    and "0 \<le> digits_val 0 s"
  shows "atoi s = (digits_val 0 s, True)"
proof -
  obtain c cs where s: "s = c # cs" using assms(2) by (cases s) auto
  then have "c \<noteq> CHR ''-''" "c \<noteq> CHR ''+''" using assms(1) digit_not_special by auto
  with s assms show ?thesis
    by (simp add: atoi_def Let_def min_int64_def max_int64_def del: digits_val.simps)
qed

lemma atoi_show_nat: "int n \<le> max_int64 \<Longrightarrow> atoi (show_nat n) = (int n, True)"
  using atoi_digits [of "show_nat n"] by (simp add: show_nat_digits digits_val_show_nat)

text \<open>The result is an int64, whatever the text.\<close>

lemma atoi_in_int64: "in_int64 (fst (atoi s))"
  by (simp add: atoi_def in_int64_def min_int64_def max_int64_def Let_def)

text \<open>The verb q of fmt (strconv.Quote): the double quote and the backslash are escaped, control
  characters have their short or hexadecimal form.\<close>

definition hex_digit :: "nat \<Rightarrow> char" where
  "hex_digit n = (if n < 10 then char_of (48 + n) else char_of (87 + n))"

definition quote_char :: "char \<Rightarrow> string" where
  "quote_char c =
     (if c = CHR 0x22 then [CHR 0x5C, CHR 0x22]
      else if c = CHR 0x5C then [CHR 0x5C, CHR 0x5C]
      else if c = CHR 0x07 then [CHR 0x5C, CHR ''a'']
      else if c = CHR 0x08 then [CHR 0x5C, CHR ''b'']
      else if c = CHR 0x0C then [CHR 0x5C, CHR ''f'']
      else if c = CHR 0x0A then [CHR 0x5C, CHR ''n'']
      else if c = CHR 0x0D then [CHR 0x5C, CHR ''r'']
      else if c = CHR 0x09 then [CHR 0x5C, CHR ''t'']
      else if c = CHR 0x0B then [CHR 0x5C, CHR ''v'']
      else if (of_char c :: nat) < 32 \<or> (of_char c :: nat) = 127
        then [CHR 0x5C, CHR ''x'', hex_digit ((of_char c :: nat) div 16), hex_digit ((of_char c :: nat) mod 16)]
      else [c])"

definition quote_str :: "string \<Rightarrow> string" where
  "quote_str s = [CHR 0x22] @ concat (map quote_char s) @ [CHR 0x22]"

section \<open>State and exceptions\<close>

text \<open>A stateful Go function that may return early is a function from the state to a result and
  the new state: \<open>Inl\<close> for the early return, \<open>Inr\<close> for the value with which the code continues.\<close>

type_synonym ('s, 'e, 'a) sem = "'s \<Rightarrow> ('e + 'a) \<times> 's"

definition ret :: "'a \<Rightarrow> ('s, 'e, 'a) sem" where
  "ret x = (\<lambda>s. (Inr x, s))"

definition throw :: "'e \<Rightarrow> ('s, 'e, 'a) sem" where
  "throw e = (\<lambda>s. (Inl e, s))"

definition and_then :: "('s, 'e, 'a) sem \<Rightarrow> ('a \<Rightarrow> ('s, 'e, 'b) sem) \<Rightarrow> ('s, 'e, 'b) sem" where
  "and_then m f = (\<lambda>s. case m s of (Inl e, s') \<Rightarrow> (Inl e, s') | (Inr x, s') \<Rightarrow> f x s')"

text \<open>A call whose error the code inspects itself.\<close>

definition attempt :: "('s, 'e, 'a) sem \<Rightarrow> ('s, 'f, 'e + 'a) sem" where
  "attempt m = (\<lambda>s. case m s of (r, s') \<Rightarrow> (Inr r, s'))"

definition map_err :: "('e \<Rightarrow> 'f) \<Rightarrow> ('s, 'e, 'a) sem \<Rightarrow> ('s, 'f, 'a) sem" where
  "map_err g m = (\<lambda>s. case m s of (Inl e, s') \<Rightarrow> (Inl (g e), s') | (Inr x, s') \<Rightarrow> (Inr x, s'))"

text \<open>A call whose error the code drops, as in the assignment of a result to the blank identifier.\<close>

definition ignore :: "('s, 'e, 'a) sem \<Rightarrow> ('s, 'f, unit) sem" where
  "ignore m = (\<lambda>s. (Inr (), snd (m s)))"

definition act :: "('s \<Rightarrow> 's) \<Rightarrow> ('s, 'e, unit) sem" where
  "act f = (\<lambda>s. (Inr (), f s))"

definition reads :: "('s \<Rightarrow> 'a) \<Rightarrow> ('s, 'e, 'a) sem" where
  "reads f = (\<lambda>s. (Inr (f s), s))"

fun for_each :: "'a list \<Rightarrow> ('a \<Rightarrow> ('s, 'e, unit) sem) \<Rightarrow> ('s, 'e, unit) sem" where
  "for_each [] f = ret ()"
| "for_each (x # xs) f = and_then (f x) (\<lambda>_. for_each xs f)"

lemmas sem_defs = ret_def throw_def and_then_def attempt_def map_err_def ignore_def act_def reads_def

text \<open>The laws of the monad, and the inversion of a sequence that succeeds.\<close>

lemma and_then_assoc: "and_then (and_then m f) g = and_then m (\<lambda>x. and_then (f x) g)"
  by (rule ext) (auto simp: and_then_def split: prod.splits sum.splits)

lemma and_then_ret [simp]: "and_then (ret x) f = f x"
  by (rule ext) (simp add: sem_defs)

lemma and_then_ret_right [simp]: "and_then m ret = m"
  by (rule ext) (simp add: sem_defs split: prod.split sum.split)

lemma and_then_throw [simp]: "and_then (throw e) f = throw e"
  by (rule ext) (simp add: sem_defs)

lemma and_then_Inr: "and_then q f s = (Inr y, s2) \<Longrightarrow> \<exists>x s1. q s = (Inr x, s1) \<and> f x s1 = (Inr y, s2)"
  by (auto simp: and_then_def split: prod.splits sum.splits)

text \<open>A triple: from a state that satisfies \<open>P\<close>, a normal result satisfies \<open>Q\<close> and an early
  return satisfies \<open>E\<close>.\<close>

definition triple ::
  "('s \<Rightarrow> bool) \<Rightarrow> ('s, 'e, 'a) sem \<Rightarrow> ('a \<Rightarrow> 's \<Rightarrow> bool) \<Rightarrow> ('e \<Rightarrow> 's \<Rightarrow> bool) \<Rightarrow> bool" where
  "triple P m Q E \<longleftrightarrow>
     (\<forall>s. P s \<longrightarrow> (case m s of (Inl e, s') \<Rightarrow> E e s' | (Inr x, s') \<Rightarrow> Q x s'))"

text \<open>An operation that keeps a state predicate on every exit.\<close>

definition keeps :: "('s \<Rightarrow> bool) \<Rightarrow> ('s, 'e, 'a) sem \<Rightarrow> bool" where
  "keeps I m \<longleftrightarrow> (\<forall>s. I s \<longrightarrow> I (snd (m s)))"

lemma keepsD: "keeps I m \<Longrightarrow> I s \<Longrightarrow> I (snd (m s))"
  by (simp add: keeps_def)

lemma keeps_ret [vac_wp]: "keeps I (ret x)"
  by (simp add: keeps_def ret_def)

lemma keeps_throw [vac_wp]: "keeps I (throw e)"
  by (simp add: keeps_def throw_def)

lemma keeps_reads [vac_wp]: "keeps I (reads f)"
  by (simp add: keeps_def reads_def)

lemma keeps_and_then [vac_wp]:
  "keeps I m \<Longrightarrow> (\<And>x. keeps I (f x)) \<Longrightarrow> keeps I (and_then m f)"
  unfolding keeps_def and_then_def
  by (fastforce split: prod.splits sum.splits)

lemma keeps_and_then_Inr:
  "keeps I m \<Longrightarrow> (\<And>x s s'. m s = (Inr x, s') \<Longrightarrow> I s' \<Longrightarrow> I (snd (f x s'))) \<Longrightarrow> keeps I (and_then m f)"
  unfolding keeps_def and_then_def
  by (fastforce split: prod.splits sum.splits)

lemma keeps_attempt [vac_wp]: "keeps I m \<Longrightarrow> keeps I (attempt m)"
  unfolding keeps_def attempt_def by (fastforce split: prod.splits)

lemma keeps_map_err [vac_wp]: "keeps I m \<Longrightarrow> keeps I (map_err g m)"
  unfolding keeps_def map_err_def by (fastforce split: prod.splits sum.splits)

lemma keeps_ignore [vac_wp]: "keeps I m \<Longrightarrow> keeps I (ignore m)"
  by (simp add: keeps_def ignore_def)

lemma keeps_act: "(\<And>s. I s \<Longrightarrow> I (f s)) \<Longrightarrow> keeps I (act f)"
  by (simp add: keeps_def act_def)

lemma keeps_if [vac_wp]: "(b \<Longrightarrow> keeps I m) \<Longrightarrow> (\<not> b \<Longrightarrow> keeps I n) \<Longrightarrow> keeps I (if b then m else n)"
  by simp

lemma keeps_case_option [vac_wp]:
  "(x = None \<Longrightarrow> keeps I m) \<Longrightarrow> (\<And>y. x = Some y \<Longrightarrow> keeps I (f y)) \<Longrightarrow>
   keeps I (case x of None \<Rightarrow> m | Some y \<Rightarrow> f y)"
  by (cases x) auto

lemma keeps_case_sum [vac_wp]:
  "(\<And>e. x = Inl e \<Longrightarrow> keeps I (f e)) \<Longrightarrow> (\<And>y. x = Inr y \<Longrightarrow> keeps I (g y)) \<Longrightarrow>
   keeps I (case x of Inl e \<Rightarrow> f e | Inr y \<Rightarrow> g y)"
  by (cases x) auto

lemma keeps_case_prod [vac_wp]: "(\<And>a b. keeps I (f a b)) \<Longrightarrow> keeps I (case p of (a, b) \<Rightarrow> f a b)"
  by (cases p) simp

lemma keeps_case_list [vac_wp]:
  "keeps I m \<Longrightarrow> (\<And>y ys. keeps I (f y ys)) \<Longrightarrow> keeps I (case xs of [] \<Rightarrow> m | y # ys \<Rightarrow> f y ys)"
  by (cases xs) simp_all

lemma keeps_for_each [vac_wp]: "(\<And>x. keeps I (f x)) \<Longrightarrow> keeps I (for_each xs f)"
  by (induction xs) (auto intro: vac_wp)

lemma keeps_for_each_mem:
  "(\<And>x. x \<in> set xs \<Longrightarrow> keeps I (f x)) \<Longrightarrow> keeps I (for_each xs f)"
  by (induction xs) (auto intro: vac_wp)

lemma triple_and_then:
  "triple P m R E \<Longrightarrow> (\<And>x. triple (R x) (f x) Q E) \<Longrightarrow> triple P (and_then m f) Q E"
  unfolding triple_def and_then_def
  by (fastforce split: prod.splits sum.splits)

lemma tripleD:
  "triple P m Q E \<Longrightarrow> P s \<Longrightarrow> m s = (Inr x, s') \<Longrightarrow> Q x s'"
  "triple P m Q E \<Longrightarrow> P s \<Longrightarrow> m s = (Inl e, s') \<Longrightarrow> E e s'"
  by (fastforce simp: triple_def)+

lemma triple_weaken:
  "triple P m Q E \<Longrightarrow> (\<And>s. P' s \<Longrightarrow> P s) \<Longrightarrow> (\<And>x s. Q x s \<Longrightarrow> Q' x s) \<Longrightarrow>
   (\<And>e s. E e s \<Longrightarrow> E' e s) \<Longrightarrow> triple P' m Q' E'"
  unfolding triple_def by (fastforce split: prod.splits sum.splits)

text \<open>An operation that keeps a predicate, as a triple; and triples whose two exits agree.\<close>

lemma triple_keeps: "keeps I m \<Longrightarrow> triple I m (\<lambda>_. I) (\<lambda>_. I)"
  unfolding triple_def keeps_def by (fastforce split: prod.splits sum.splits)

lemma triple_map_err: "triple P m Q (\<lambda>_. E) \<Longrightarrow> triple P (map_err g m) Q (\<lambda>_. E)"
  unfolding triple_def map_err_def by (fastforce split: prod.splits sum.splits)

lemma triple_attempt:
  "triple P m Q E \<Longrightarrow> triple P (attempt m) (\<lambda>r s. case r of Inl e \<Rightarrow> E e s | Inr x \<Rightarrow> Q x s) F"
  unfolding triple_def attempt_def by (fastforce split: prod.splits sum.splits)

lemma triple_if:
  "(b \<Longrightarrow> triple P m Q E) \<Longrightarrow> (\<not> b \<Longrightarrow> triple P n Q E) \<Longrightarrow> triple P (if b then m else n) Q E"
  by simp

lemma triple_pre: "(\<And>s. P s \<Longrightarrow> R s) \<Longrightarrow> triple R m Q E \<Longrightarrow> triple P m Q E"
  by (simp add: triple_def)

lemma triple_post:
  "triple P m Q E \<Longrightarrow> (\<And>x s. Q x s \<Longrightarrow> Q' x s) \<Longrightarrow> (\<And>e s. E e s \<Longrightarrow> E' e s) \<Longrightarrow> triple P m Q' E'"
  unfolding triple_def by (fastforce split: prod.splits sum.splits)

lemma triple_throw: "(\<And>s. P s \<Longrightarrow> E e s) \<Longrightarrow> triple P (throw e) Q E"
  by (simp add: triple_def throw_def)

lemma triple_ret: "(\<And>s. P s \<Longrightarrow> Q x s) \<Longrightarrow> triple P (ret x) Q E"
  by (simp add: triple_def ret_def)

lemma keeps_triple: "triple I m (\<lambda>_. I) (\<lambda>_. I) \<Longrightarrow> keeps I m"
  unfolding triple_def keeps_def by (fastforce split: prod.splits sum.splits)

section \<open>Lists\<close>

lemma filter_update_other:
  "\<not> P (f x) \<Longrightarrow> \<not> P x \<Longrightarrow> filter P (map (\<lambda>y. if y = x then f y else y) xs) =
     filter P xs"
  by (induction xs) auto

lemma find_append: "find p (xs @ ys) = (case find p xs of Some x \<Rightarrow> Some x | None \<Rightarrow> find p ys)"
  by (induction xs) auto

lemma sorted_wrt_snoc_le: "sorted_wrt R (xs @ [y]) \<longleftrightarrow> sorted_wrt R xs \<and> (\<forall>x\<in>set xs. R x y)"
  by (induction xs) auto

section \<open>In-flight guards\<close>

text \<open>The contract of an in-flight set: what a dispatcher needs to start a run at most once.\<close>

locale flight_guard =
  fixes mark :: "string \<Rightarrow> 'f \<Rightarrow> bool \<times> 'f" and clear :: "string \<Rightarrow> 'f \<Rightarrow> 'f" and flying :: "'f \<Rightarrow> string set"
  assumes mark_free: "i \<notin> flying f \<Longrightarrow> fst (mark i f) \<and> flying (snd (mark i f)) = insert i (flying f)"
    and mark_taken: "i \<in> flying f \<Longrightarrow> \<not> fst (mark i f) \<and> flying (snd (mark i f)) = flying f"
    and clear_frees: "flying (clear i f) = flying f - {i}"
begin

text \<open>Starting a run only when the mark succeeds keeps the runs distinct and marked.\<close>

definition guarded :: "'f \<Rightarrow> string list \<Rightarrow> bool" where
  "guarded f runs = (distinct runs \<and> set runs = flying f)"

lemma guarded_start: "guarded f runs \<Longrightarrow> fst (mark i f) \<Longrightarrow> guarded (snd (mark i f)) (runs @ [i])"
  using mark_free [of i f] mark_taken [of i f] by (auto simp: guarded_def)

lemma guarded_skip: "guarded f runs \<Longrightarrow> \<not> fst (mark i f) \<Longrightarrow> i \<in> set runs \<and> guarded (snd (mark i f)) runs"
  using mark_free [of i f] mark_taken [of i f] by (auto simp: guarded_def)

lemma guarded_end: "guarded f runs \<Longrightarrow> guarded (clear i f) (remove1 i runs)"
  by (auto simp: guarded_def clear_frees)

end

end
