(* ===== verification/Go_Time.thy ===== *)
theory Go_Time
  imports VAC_Prelude
begin

text \<open>
  The part of Go's time package that the scheduling code uses. An instant is the number of
  nanoseconds since the Unix epoch, a duration is an int64 number of nanoseconds, and a
  location is the UTC offset in seconds that applies at each Unix second (the content of the
  time zone database, which is not part of the program, comes in through such functions).
  Calendar dates only appear as day numbers: the code takes the year, month and day of an
  instant and builds a new time from the same three values.
\<close>

type_synonym instant = int
type_synonym duration = int
type_synonym location = "int \<Rightarrow> int"

abbreviation second :: int where "second \<equiv> 1000000000"
abbreviation minute :: int where "minute \<equiv> 60000000000"
abbreviation hour :: int where "hour \<equiv> 3600000000000"

definition utc :: location where
  "utc = (\<lambda>_. 0)"

definition unix_sec :: "instant \<Rightarrow> int" where
  "unix_sec t = t div second"

text \<open>Seconds of the local clock, the local day number and the time of day (Time.In, Hour, Minute).\<close>

definition local_sec :: "location \<Rightarrow> instant \<Rightarrow> int" where
  "local_sec loc t = unix_sec t + loc (unix_sec t)"

definition local_day :: "location \<Rightarrow> instant \<Rightarrow> int" where
  "local_day loc t = local_sec loc t div 86400"

definition clock_hour :: "location \<Rightarrow> instant \<Rightarrow> int" where
  "clock_hour loc t = local_sec loc t mod 86400 div 3600"

definition clock_minute :: "location \<Rightarrow> instant \<Rightarrow> int" where
  "clock_minute loc t = local_sec loc t mod 3600 div 60"

text \<open>Time.Weekday: day 0 of the epoch was a Thursday, Sunday is 0.\<close>

definition day_weekday :: "int \<Rightarrow> int" where
  "day_weekday d = (d + 4) mod 7"

definition weekday :: "location \<Rightarrow> instant \<Rightarrow> int" where
  "weekday loc t = day_weekday (local_day loc t)"

text \<open>time.Date: the instant at which the local clock shows the given second. The offset is looked
  up at the local second read as UTC, then once more at the corrected second.\<close>

definition date_in :: "location \<Rightarrow> int \<Rightarrow> int \<Rightarrow> instant" where
  "date_in loc lsec nsec =
     (let o1 = loc lsec
      in (if o1 \<noteq> 0 then lsec - loc (lsec - o1) else lsec) * second + nsec)"

text \<open>Time.AddDate(0, 0, n): the same clock time, n calendar days later.\<close>

definition add_days :: "location \<Rightarrow> instant \<Rightarrow> int \<Rightarrow> instant" where
  "add_days loc t n = date_in loc (local_sec loc t + 86400 * n) (t mod second)"

text \<open>Time.Sub saturates at the ends of the int64 range; durations multiply with wrap-around.\<close>

definition time_sub :: "instant \<Rightarrow> instant \<Rightarrow> duration" where
  "time_sub t u = max min_int64 (min max_int64 (t - u))"

definition dur_mul :: "int \<Rightarrow> duration \<Rightarrow> duration" where
  "dur_mul n d = wrap64 (n * d)"

text \<open>Integer division truncates towards zero.\<close>

definition go_div :: "int \<Rightarrow> int \<Rightarrow> int" where
  "go_div a b = sgn a * sgn b * (\<bar>a\<bar> div \<bar>b\<bar>)"

definition go_mod :: "int \<Rightarrow> int \<Rightarrow> int" where
  "go_mod a b = a - b * go_div a b"

text \<open>Duration.String: hours, minutes and seconds from a second up, a smaller unit below.\<close>

definition dur_frac :: "nat \<Rightarrow> nat \<Rightarrow> string" where
  "dur_frac prec v =
     (let digits = show_nat v; padded = replicate (prec - length digits) CHR ''0'' @ digits;
          kept = rev (dropWhile (\<lambda>c. c = CHR ''0'') (rev padded))
      in if kept = [] then [] else CHR ''.'' # kept)"

definition duration_string :: "duration \<Rightarrow> string" where
  "duration_string d =
     (let u = nat \<bar>d\<bar>; secs = u div 1000000000;
          body = (if u = 0 then ''0s''
                  else if u < 1000 then show_nat u @ ''ns''
                  else if u < 1000000 then show_nat (u div 1000) @ dur_frac 3 (u mod 1000) @ [CHR 0xC2, CHR 0xB5] @ ''s''
                  else if u < 1000000000 then show_nat (u div 1000000) @ dur_frac 6 (u mod 1000000) @ ''ms''
                  else (if secs \<ge> 3600 then show_nat (secs div 3600) @ ''h'' else [])
                       @ (if secs \<ge> 60 then show_nat (secs div 60 mod 60) @ ''m'' else [])
                       @ show_nat (secs mod 60) @ dur_frac 9 (u mod 1000000000) @ ''s'')
      in if d < 0 then CHR ''-'' # body else body)"

lemmas time_defs [go_eval] =
  utc_def unix_sec_def local_sec_def local_day_def clock_hour_def clock_minute_def
  day_weekday_def weekday_def date_in_def add_days_def time_sub_def dur_mul_def go_div_def go_mod_def

lemma go_div_nonneg: "0 \<le> a \<Longrightarrow> 0 < b \<Longrightarrow> go_div a b = a div b"
  by (cases "a = 0") (simp_all add: go_div_def sgn_if)

lemma go_mod_nonneg: "0 \<le> a \<Longrightarrow> 0 < b \<Longrightarrow> go_mod a b = a mod b"
  by (simp add: go_mod_def go_div_nonneg minus_mult_div_eq_mod)

lemma day_weekday_range: "0 \<le> day_weekday d \<and> day_weekday d \<le> 6"
  by (simp add: day_weekday_def)

lemma weekday_range: "0 \<le> weekday loc t \<and> weekday loc t \<le> 6"
  by (simp add: weekday_def day_weekday_range)

text \<open>The minute of the local day, the quantity a deploy window is compared with.\<close>

lemma clock_minutes:
  "clock_hour loc t * 60 + clock_minute loc t = local_sec loc t div 60 mod 1440"
proof -
  define x where "x = local_sec loc t"
  have h: "x mod 86400 div 3600 = x div 3600 mod 24"
    using zmod_zmult2_eq [of 24 x 3600] by simp
  have m: "x mod 3600 div 60 = x div 60 mod 60"
    using zmod_zmult2_eq [of 60 x 60] by simp
  have "x div 60 div 60 = x div 3600"
    using zdiv_zmult2_eq [of 60 x 60] by simp
  then have "x div 60 mod 1440 = 60 * (x div 3600 mod 24) + x div 60 mod 60"
    using zmod_zmult2_eq [of 24 "x div 60" 60] by simp
  with h m show ?thesis by (simp add: clock_hour_def clock_minute_def x_def)
qed

text \<open>A location with one fixed offset: the clock shows what time.Date was given.\<close>

definition fixed_zone :: "int \<Rightarrow> location" where
  "fixed_zone k = (\<lambda>_. k)"

lemma utc_fixed: "utc = fixed_zone 0"
  by (simp add: utc_def fixed_zone_def)

lemma local_sec_date_fixed:
  "0 \<le> nsec \<Longrightarrow> nsec < second \<Longrightarrow> local_sec (fixed_zone k) (date_in (fixed_zone k) lsec nsec) = lsec"
  by (auto simp: local_sec_def date_in_def fixed_zone_def unix_sec_def Let_def)

lemma local_sec_add_days_fixed:
  "local_sec (fixed_zone k) (add_days (fixed_zone k) t n) = local_sec (fixed_zone k) t + 86400 * n"
  by (simp add: add_days_def local_sec_date_fixed)

lemma local_day_add_days_fixed:
  "local_day (fixed_zone k) (add_days (fixed_zone k) t n) = local_day (fixed_zone k) t + n"
  by (simp add: local_day_def local_sec_add_days_fixed add.commute)

end
