(* ===== verification/Deploy_Status.thy ===== *)
theory Deploy_Status
  imports VAC_Prelude
begin

text \<open>
  The status enumerations of api/internal/deploy/status.go and the derivation of an app's
  status from the statuses of its services. The Go constants are strings; they are the
  constructors of two datatypes here, and \<open>dstatus_text\<close> gives the stored text of a deployment
  status. A service row may in principle hold any text: \<open>St_Other\<close> stands for the texts
  outside the enumeration.
\<close>

datatype dstatus =
    Queued | Cloning | Building | Deploying | HealthChecking
  | Running | Errored | Interrupted | Canceled | Scheduled | PendingApproval

fun dstatus_text :: "dstatus \<Rightarrow> string" where
  "dstatus_text Queued = ''queued''"
| "dstatus_text Cloning = ''cloning''"
| "dstatus_text Building = ''building''"
| "dstatus_text Deploying = ''deploying''"
| "dstatus_text HealthChecking = ''health-checking''"
| "dstatus_text Running = ''running''"
| "dstatus_text Errored = ''error''"
| "dstatus_text Interrupted = ''interrupted''"
| "dstatus_text Canceled = ''canceled''"
| "dstatus_text Scheduled = ''scheduled''"
| "dstatus_text PendingApproval = ''pending-approval''"

text \<open>IsTerminalDeploymentStatus.\<close>

definition is_terminal :: "dstatus \<Rightarrow> bool" where
  "is_terminal s = (case s of Running \<Rightarrow> True | Errored \<Rightarrow> True | Interrupted \<Rightarrow> True
                    | Canceled \<Rightarrow> True | _ \<Rightarrow> False)"

datatype stack_status =
    St_Created | St_Building | St_Deploying | St_Running | St_Degraded
  | St_CrashLoop | St_Stopped | St_Error | St_Other string

text \<open>
  DeriveAppStatus: one pass over the services with five flags; a crash-looping service ends the
  pass at once.
\<close>

fun derive_scan ::
  "stack_status list \<Rightarrow> bool \<Rightarrow> bool \<Rightarrow> bool \<Rightarrow> bool \<Rightarrow> bool \<Rightarrow> stack_status" where
  "derive_scan [] allRunning hasBuilding hasDeploying hasError hasDegraded =
     (if allRunning then St_Running
      else if hasBuilding then St_Building
      else if hasDeploying then St_Deploying
      else if hasError then St_Error
      else if hasDegraded then St_Degraded
      else St_Degraded)"
| "derive_scan (s # ss) allRunning hasBuilding hasDeploying hasError hasDegraded =
     (let allRunning' = (if s \<noteq> St_Running then False else allRunning)
      in case s of
           St_CrashLoop \<Rightarrow> St_CrashLoop
         | St_Building \<Rightarrow> derive_scan ss allRunning' True hasDeploying hasError hasDegraded
         | St_Deploying \<Rightarrow> derive_scan ss allRunning' hasBuilding True hasError hasDegraded
         | St_Error \<Rightarrow> derive_scan ss allRunning' hasBuilding hasDeploying True hasDegraded
         | St_Stopped \<Rightarrow> derive_scan ss allRunning' hasBuilding hasDeploying hasError True
         | St_Degraded \<Rightarrow> derive_scan ss allRunning' hasBuilding hasDeploying hasError True
         | _ \<Rightarrow> derive_scan ss allRunning' hasBuilding hasDeploying hasError hasDegraded)"

definition derive_app_status :: "stack_status list \<Rightarrow> stack_status" where
  "derive_app_status services =
     (if services = [] then St_Created else derive_scan services True False False False False)"

text \<open>MapPsStateToServiceStatus.\<close>

definition map_ps_state :: "string \<Rightarrow> stack_status" where
  "map_ps_state state =
     (if state = ''running'' then St_Running
      else if state = ''exited'' \<or> state = ''dead'' then St_Stopped
      else if state = ''restarting'' then St_Deploying
      else if state = ''paused'' then St_Stopped
      else if state = ''created'' then St_Created
      else St_Created)"

text \<open>The rule the code implements, as a priority over the set of statuses present.\<close>

definition derive_spec :: "stack_status set \<Rightarrow> stack_status" where
  "derive_spec S =
     (if S = {} then St_Created
      else if St_CrashLoop \<in> S then St_CrashLoop
      else if S = {St_Running} then St_Running
      else if St_Building \<in> S then St_Building
      else if St_Deploying \<in> S then St_Deploying
      else if St_Error \<in> S then St_Error
      else St_Degraded)"

lemma dstatus_text_inj: "dstatus_text a = dstatus_text b \<longleftrightarrow> a = b"
  by (cases a; cases b) simp_all

lemma derive_scan_priority:
  "derive_scan ss r b d e g =
     (if St_CrashLoop \<in> set ss then St_CrashLoop
      else if r \<and> set ss \<subseteq> {St_Running} then St_Running
      else if b \<or> St_Building \<in> set ss then St_Building
      else if d \<or> St_Deploying \<in> set ss then St_Deploying
      else if e \<or> St_Error \<in> set ss then St_Error
      else St_Degraded)"
proof (induction ss arbitrary: r b d e g)
  case Nil
  show ?case by simp
next
  case (Cons s ss)
  then show ?case by (cases s) (simp_all add: Let_def)
qed

lemma derive_app_status_set: "derive_app_status ss = derive_spec (set ss)"
proof (cases ss)
  case Nil
  then show ?thesis by (simp add: derive_app_status_def derive_spec_def)
next
  case (Cons s rest)
  have "set ss \<subseteq> {St_Running} \<longleftrightarrow> set ss = {St_Running}"
    using Cons by (auto simp: subset_singleton_iff)
  then show ?thesis
    using Cons by (simp only: derive_app_status_def derive_scan_priority derive_spec_def) simp
qed

text \<open>
  The one-pass DeriveAppStatus computes the documented priority over the set of service
  statuses: created for no service, crash-loop whenever one service crash-loops, running
  exactly when every service runs, then building, deploying, error, and degraded for the rest.
  In particular the order and multiplicity of the services do not matter.
\<close>

theorem derive_app_status_priority:
  "derive_app_status ss = derive_spec (set ss)
   \<and> (derive_app_status ss = St_Running \<longleftrightarrow> (ss \<noteq> [] \<and> list_all (\<lambda>s. s = St_Running) ss))
   \<and> (derive_app_status ss = St_CrashLoop \<longleftrightarrow> St_CrashLoop \<in> set ss)"
proof -
  have r: "derive_spec S = St_Running \<longleftrightarrow> S = {St_Running}"
    and c: "derive_spec S = St_CrashLoop \<longleftrightarrow> St_CrashLoop \<in> S" for S
    by (auto simp: derive_spec_def)
  have "set ss = {St_Running} \<longleftrightarrow> ss \<noteq> [] \<and> list_all (\<lambda>s. s = St_Running) ss"
    by (cases ss) (auto simp: list_all_iff)
  with r c show ?thesis by (simp add: derive_app_status_set)
qed

end
