(* ===== verification/Store_Base.thy ===== *)
theory Store_Base
  imports Go_Time Deploy_Status "HOL-Library.List_Lexorder" "HOL-Library.Char_ord"
begin

text \<open>
  The database as the store package (api/internal/store) sees it: the tables apps, services and
  deployments with the columns the modelled code reads or writes, the clock behind NOW(), and the
  operations on apps and services. A query can fail for reasons outside the program (a lost
  connection, a cancelled context): \<open>db_fault\<close> says which of the calls, counted by
  \<open>db_calls\<close>, fail, and every statement quantifies over it. A failed call changes nothing.
  The updated_at columns are left out.
\<close>

record app =
  a_id :: string
  a_name :: string
  a_slug :: string
  a_git_url :: string
  a_git_branch :: string
  a_compose_file :: string
  a_build_kind :: string
  a_build_config :: string
  a_status :: stack_status
  a_mem_limit :: "int option"
  a_source :: string
  a_template_id :: "string option"
  a_maintenance_mode :: bool
  a_maintenance_auto :: bool
  a_maintenance_active :: bool
  a_deploy_window :: string
  a_suspended :: bool
  a_registry_auth :: string
  a_webhook_secret :: string
  a_disk_limit :: "int option"
  a_created_at :: instant
  a_is_preview :: bool
  a_parent :: "string option"
  a_last_preview_push :: "instant option"
  a_maintenance_html :: "string option"
  a_idle_suspend :: bool
  a_idle_timeout :: "int option"
  a_last_traffic :: "instant option"
  a_rate_limit :: "int option"

record service =
  s_app :: string
  s_name :: string
  s_container :: "string option"
  s_exposed_port :: "int option"
  s_internal_port :: "int option"
  s_health_path :: "string option"
  s_status :: stack_status
  s_restarts :: int
  s_exit_code :: "int option"
  s_oom_killed :: int
  s_has_volumes :: bool
  s_private :: bool
  s_requires_auth :: bool
  s_guest_code :: "string option"   \<comment> \<open>the sealed shared access code\<close>

record deployment =
  d_id :: string
  d_app :: string
  d_status :: dstatus
  d_triggered_at :: instant
  d_triggered_by :: string
  d_rolled_back_from :: "string option"
  d_started_at :: "instant option"
  d_finished_at :: "instant option"
  d_compose_hash :: "string option"
  d_commit_sha :: "string option"
  d_commit_message :: "string option"
  d_error :: "string option"

record db =
  apps :: "app list"
  services :: "service list"
  deployments :: "deployment list"
  db_now :: instant
  db_fault :: "nat \<Rightarrow> bool"
  db_calls :: nat

datatype store_err =
    ErrNotFound | ErrActiveDeploymentExists | ErrRollbackSourceInvalid
  | ErrUnique | ErrConflict | ErrDB

type_synonym 'a dbop = "(db, store_err, 'a) sem"

text \<open>One round trip to the database.\<close>

definition db_call :: "'a dbop \<Rightarrow> 'a dbop" where
  "db_call m = (\<lambda>s. let s' = s\<lparr>db_calls := Suc (db_calls s)\<rparr>
                     in if db_fault s (db_calls s) then (Inl ErrDB, s') else m s')"

text \<open>SQL COALESCE of a parameter and a column.\<close>

definition coalesce :: "'a option \<Rightarrow> 'a option \<Rightarrow> 'a option" where
  "coalesce x y = (case x of Some v \<Rightarrow> Some v | None \<Rightarrow> y)"

section \<open>Apps\<close>

definition get_app :: "string \<Rightarrow> app dbop" where
  "get_app i = db_call (\<lambda>s. case find (\<lambda>a. a_id a = i) (apps s) of
     None \<Rightarrow> (Inl ErrNotFound, s) | Some a \<Rightarrow> (Inr a, s))"

definition get_app_by_slug :: "string \<Rightarrow> app dbop" where
  "get_app_by_slug slug = db_call (\<lambda>s. case find (\<lambda>a. a_slug a = slug) (apps s) of
     None \<Rightarrow> (Inl ErrNotFound, s) | Some a \<Rightarrow> (Inr a, s))"

text \<open>ListApps, newest first.\<close>

definition list_apps :: "app list dbop" where
  "list_apps = db_call (\<lambda>s. (Inr (sort_key (\<lambda>a. - a_created_at a) (apps s)), s))"

text \<open>An UPDATE of apps; the number of affected rows is the result.\<close>

definition update_apps :: "(app \<Rightarrow> bool) \<Rightarrow> (app \<Rightarrow> app) \<Rightarrow> nat dbop" where
  "update_apps p f = db_call (\<lambda>s. (Inr (length (filter p (apps s))),
     s\<lparr>apps := map (\<lambda>a. if p a then f a else a) (apps s)\<rparr>))"

text \<open>The common tail of the writes: no affected row is ErrNotFound.\<close>

definition or_not_found :: "nat dbop \<Rightarrow> unit dbop" where
  "or_not_found m = and_then m (\<lambda>n. if n = 0 then throw ErrNotFound else ret ())"

definition set_app_status :: "string \<Rightarrow> stack_status \<Rightarrow> unit dbop" where
  "set_app_status i status = or_not_found (update_apps (\<lambda>a. a_id a = i) (\<lambda>a. a\<lparr>a_status := status\<rparr>))"

definition set_app_suspended :: "string \<Rightarrow> bool \<Rightarrow> unit dbop" where
  "set_app_suspended i b = or_not_found (update_apps (\<lambda>a. a_id a = i) (\<lambda>a. a\<lparr>a_suspended := b\<rparr>))"

definition set_app_maintenance :: "string \<Rightarrow> bool \<Rightarrow> bool \<Rightarrow> unit dbop" where
  "set_app_maintenance i mode auto = or_not_found (update_apps (\<lambda>a. a_id a = i)
     (\<lambda>a. a\<lparr>a_maintenance_mode := mode, a_maintenance_auto := auto, a_maintenance_active := mode\<rparr>))"

definition set_app_maintenance_html :: "string \<Rightarrow> string option \<Rightarrow> unit dbop" where
  "set_app_maintenance_html i html = or_not_found (update_apps (\<lambda>a. a_id a = i) (\<lambda>a. a\<lparr>a_maintenance_html := html\<rparr>))"

definition set_app_rate_limit :: "string \<Rightarrow> int option \<Rightarrow> unit dbop" where
  "set_app_rate_limit i rpm = or_not_found (update_apps (\<lambda>a. a_id a = i) (\<lambda>a. a\<lparr>a_rate_limit := rpm\<rparr>))"

definition set_app_deploy_window :: "string \<Rightarrow> string \<Rightarrow> unit dbop" where
  "set_app_deploy_window i w = or_not_found (update_apps (\<lambda>a. a_id a = i) (\<lambda>a. a\<lparr>a_deploy_window := w\<rparr>))"

definition set_app_maintenance_active :: "string \<Rightarrow> bool \<Rightarrow> unit dbop" where
  "set_app_maintenance_active i active = or_not_found (update_apps (\<lambda>a. a_id a = i)
     (\<lambda>a. a\<lparr>a_maintenance_active := active\<rparr>))"

definition clear_maintenance_if_manual_off :: "string \<Rightarrow> bool dbop" where
  "clear_maintenance_if_manual_off i =
     and_then (update_apps (\<lambda>a. a_id a = i \<and> \<not> a_maintenance_mode a \<and> a_maintenance_active a)
                 (\<lambda>a. a\<lparr>a_maintenance_active := False\<rparr>))
       (\<lambda>n. ret (n > 0))"

definition get_app_registry_auth :: "string \<Rightarrow> string dbop" where
  "get_app_registry_auth i = and_then (get_app i) (\<lambda>a. ret (a_registry_auth a))"

definition get_app_webhook_secret :: "string \<Rightarrow> string dbop" where
  "get_app_webhook_secret i = and_then (get_app i) (\<lambda>a. ret (a_webhook_secret a))"

section \<open>Services\<close>

definition svc_key :: "string \<Rightarrow> string \<Rightarrow> service \<Rightarrow> bool" where
  "svc_key app name v = (s_app v = app \<and> s_name v = name)"

definition new_service ::
  "string \<Rightarrow> string \<Rightarrow> string option \<Rightarrow> int option \<Rightarrow> int option \<Rightarrow> stack_status \<Rightarrow> bool \<Rightarrow> service" where
  "new_service app name cid exposed internal status vols =
     \<lparr>s_app = app, s_name = name, s_container = cid, s_exposed_port = exposed,
      s_internal_port = internal, s_health_path = None, s_status = status, s_restarts = 0,
      s_exit_code = None, s_oom_killed = 0, s_has_volumes = vols, s_private = False,
      s_requires_auth = False, s_guest_code = None\<rparr>"

text \<open>UpsertService: the internal port survives an upsert that detects none.\<close>

definition upsert_row ::
  "string option \<Rightarrow> int option \<Rightarrow> int option \<Rightarrow> stack_status \<Rightarrow> bool \<Rightarrow> service \<Rightarrow> service" where
  "upsert_row cid exposed internal status vols v =
     v\<lparr>s_container := cid, s_exposed_port := exposed,
       s_internal_port := coalesce internal (s_internal_port v),
       s_status := status, s_has_volumes := vols\<rparr>"

definition upsert_service ::
  "string \<Rightarrow> string \<Rightarrow> string option \<Rightarrow> int option \<Rightarrow> int option \<Rightarrow> stack_status \<Rightarrow> bool \<Rightarrow> unit dbop" where
  "upsert_service app name cid exposed internal status vols = db_call (\<lambda>s. (Inr (),
     s\<lparr>services :=
        (if list_ex (svc_key app name) (services s)
         then map (\<lambda>v. if svc_key app name v then upsert_row cid exposed internal status vols v else v) (services s)
         else services s @ [new_service app name cid exposed internal status vols])\<rparr>))"

definition get_service :: "string \<Rightarrow> string \<Rightarrow> service dbop" where
  "get_service app name = db_call (\<lambda>s. case find (svc_key app name) (services s) of
     None \<Rightarrow> (Inl ErrNotFound, s) | Some v \<Rightarrow> (Inr v, s))"

definition list_services_for_app :: "string \<Rightarrow> service list dbop" where
  "list_services_for_app app = db_call (\<lambda>s.
     (Inr (sort_key s_name (filter (\<lambda>v. s_app v = app) (services s))), s))"

definition update_services :: "(service \<Rightarrow> bool) \<Rightarrow> (service \<Rightarrow> service) \<Rightarrow> nat dbop" where
  "update_services p f = db_call (\<lambda>s. (Inr (length (filter p (services s))),
     s\<lparr>services := map (\<lambda>v. if p v then f v else v) (services s)\<rparr>))"

definition update_service_status :: "string \<Rightarrow> string \<Rightarrow> stack_status \<Rightarrow> int option \<Rightarrow> unit dbop" where
  "update_service_status app name status exitCode = or_not_found (update_services (svc_key app name)
     (\<lambda>v. v\<lparr>s_status := status, s_exit_code := coalesce exitCode (s_exit_code v)\<rparr>))"

definition increment_service_restart :: "string \<Rightarrow> string \<Rightarrow> unit dbop" where
  "increment_service_restart app name = or_not_found (update_services (svc_key app name)
     (\<lambda>v. v\<lparr>s_restarts := s_restarts v + 1\<rparr>))"

definition increment_service_oom :: "string \<Rightarrow> string \<Rightarrow> int option \<Rightarrow> unit dbop" where
  "increment_service_oom app name exitCode = or_not_found (update_services (svc_key app name)
     (\<lambda>v. v\<lparr>s_oom_killed := s_oom_killed v + 1, s_exit_code := coalesce exitCode (s_exit_code v)\<rparr>))"

text \<open>SetServiceConfig, all five optional fields; the updated row is returned.\<close>

definition set_service_config ::
  "string \<Rightarrow> string \<Rightarrow> int option \<Rightarrow> int option \<Rightarrow> string option \<Rightarrow> bool option \<Rightarrow> bool option \<Rightarrow> service dbop" where
  "set_service_config app name exposed internal health private auth =
     and_then (or_not_found (update_services (svc_key app name)
       (\<lambda>v. v\<lparr>s_exposed_port := coalesce exposed (s_exposed_port v),
               s_internal_port := coalesce internal (s_internal_port v),
               s_health_path := coalesce health (s_health_path v),
               s_private := (case private of Some b \<Rightarrow> b | None \<Rightarrow> s_private v),
               s_requires_auth := (case auth of Some b \<Rightarrow> b | None \<Rightarrow> s_requires_auth v)\<rparr>)))
     (\<lambda>_. reads (\<lambda>s. the (find (svc_key app name) (services s))))"

definition get_service_guest_code :: "string \<Rightarrow> string \<Rightarrow> string option dbop" where
  "get_service_guest_code app name = and_then (get_service app name) (\<lambda>v. ret (s_guest_code v))"

definition set_service_guest_code :: "string \<Rightarrow> string \<Rightarrow> string option \<Rightarrow> unit dbop" where
  "set_service_guest_code app name enc =
     or_not_found (update_services (svc_key app name) (\<lambda>v. v\<lparr>s_guest_code := enc\<rparr>))"

definition delete_service :: "string \<Rightarrow> string \<Rightarrow> unit dbop" where
  "delete_service app name = or_not_found (db_call (\<lambda>s.
     (Inr (length (filter (svc_key app name) (services s))),
      s\<lparr>services := filter (\<lambda>v. \<not> svc_key app name v) (services s)\<rparr>)))"

lemmas app_ops = get_app_def get_app_by_slug_def update_apps_def or_not_found_def set_app_status_def
  set_app_suspended_def set_app_maintenance_def set_app_maintenance_active_def
  clear_maintenance_if_manual_off_def get_app_registry_auth_def get_app_webhook_secret_def

lemmas service_ops = upsert_service_def get_service_def list_services_for_app_def update_services_def
  update_service_status_def increment_service_restart_def increment_service_oom_def
  set_service_config_def delete_service_def

section \<open>Lemmas\<close>

text \<open>A database call keeps what its body keeps, if a call that fails keeps it.\<close>

definition call_stable :: "(db \<Rightarrow> bool) \<Rightarrow> bool" where
  "call_stable I = (\<forall>s n. I (s\<lparr>db_calls := n\<rparr>) = I s)"

lemma keeps_db_call:
  assumes "call_stable I" and "keeps I m"
  shows "keeps I (db_call m)"
  using assms by (simp add: keeps_def db_call_def call_stable_def Let_def)

lemma keeps_or_not_found [vac_wp]: "keeps I m \<Longrightarrow> keeps I (or_not_found m)"
  unfolding or_not_found_def by (intro vac_wp)

text \<open>The operations on apps and services leave the deployments table alone.\<close>

definition same_deployments :: "deployment list \<Rightarrow> db \<Rightarrow> bool" where
  "same_deployments ds s = (deployments s = ds)"

lemma call_stable_same [simp]: "call_stable (same_deployments ds)"
  by (simp add: call_stable_def same_deployments_def)

lemma keeps_update_apps [vac_wp]: "keeps (same_deployments ds) (update_apps p f)"
  unfolding update_apps_def
  by (rule keeps_db_call) (simp_all add: keeps_def same_deployments_def)

lemma keeps_update_services [vac_wp]: "keeps (same_deployments ds) (update_services p f)"
  unfolding update_services_def
  by (rule keeps_db_call) (simp_all add: keeps_def same_deployments_def)

lemma keeps_get_app [vac_wp]: "call_stable I \<Longrightarrow> keeps I (get_app i)"
  unfolding get_app_def by (rule keeps_db_call) (simp_all add: keeps_def split: option.split)

lemma keeps_get_app_by_slug [vac_wp]: "call_stable I \<Longrightarrow> keeps I (get_app_by_slug i)"
  unfolding get_app_by_slug_def by (rule keeps_db_call) (simp_all add: keeps_def split: option.split)

lemma keeps_get_service [vac_wp]: "call_stable I \<Longrightarrow> keeps I (get_service a n)"
  unfolding get_service_def by (rule keeps_db_call) (simp_all add: keeps_def split: option.split)

lemma keeps_list_services [vac_wp]: "call_stable I \<Longrightarrow> keeps I (list_services_for_app a)"
  unfolding list_services_for_app_def by (rule keeps_db_call) (simp_all add: keeps_def)

lemma keeps_upsert_service [vac_wp]:
  "keeps (same_deployments ds) (upsert_service a n c e i st v)"
  unfolding upsert_service_def
  by (rule keeps_db_call) (simp_all add: keeps_def same_deployments_def)

lemma keeps_delete_service [vac_wp]: "keeps (same_deployments ds) (delete_service a n)"
  unfolding delete_service_def
  by (intro vac_wp keeps_db_call) (simp_all add: keeps_def same_deployments_def)

lemma keeps_app_writes [vac_wp]:
  "keeps (same_deployments ds) (set_app_status i st)"
  "keeps (same_deployments ds) (set_app_suspended i b)"
  "keeps (same_deployments ds) (set_app_maintenance i b c)"
  "keeps (same_deployments ds) (set_app_maintenance_active i b)"
  "keeps (same_deployments ds) (clear_maintenance_if_manual_off i)"
  "keeps (same_deployments ds) (update_service_status a n st e)"
  "keeps (same_deployments ds) (increment_service_restart a n)"
  "keeps (same_deployments ds) (increment_service_oom a n e)"
  "keeps (same_deployments ds) (set_service_config a n ep ip hp pr au)"
  unfolding set_app_status_def set_app_suspended_def set_app_maintenance_def
    set_app_maintenance_active_def clear_maintenance_if_manual_off_def update_service_status_def
    increment_service_restart_def increment_service_oom_def set_service_config_def
  by (intro vac_wp)+

definition raise_then_clear :: "string \<Rightarrow> db \<Rightarrow> db" where
  "raise_then_clear i s = snd (clear_maintenance_if_manual_off i (snd (set_app_maintenance_active i True s)))"

text \<open>
  Auto-maintenance never overrides the operator. Without database faults, raising the page
  at the start of a deploy and clearing it at the end leaves every app's effective flag equal to
  its manual flag for the deployed app, and unchanged for the others; the manual flags are never
  written.
\<close>

theorem maintenance_restored:
  assumes "\<And>n. \<not> db_fault s n"
  shows "map a_maintenance_mode (apps (raise_then_clear i s)) = map a_maintenance_mode (apps s)
    \<and> map a_maintenance_active (apps (raise_then_clear i s))
        = map (\<lambda>a. if a_id a = i then a_maintenance_mode a else a_maintenance_active a) (apps s)"
  using assms
  by (simp add: raise_then_clear_def app_ops db_call_def sem_defs Let_def split: sum.split prod.split)

definition maint_app :: "string \<Rightarrow> bool \<Rightarrow> app" where
  "maint_app i mode = \<lparr>a_id = i, a_name = i, a_slug = i, a_git_url = [], a_git_branch = ''main'',
     a_compose_file = ''compose.yaml'', a_build_kind = ''auto'', a_build_config = [],
     a_status = St_Running, a_mem_limit = None, a_source = ''git'', a_template_id = None,
     a_maintenance_mode = mode, a_maintenance_auto = True, a_maintenance_active = mode,
     a_deploy_window = [], a_suspended = False, a_registry_auth = [], a_webhook_secret = [],
     a_disk_limit = None, a_created_at = 0, a_is_preview = False, a_parent = None,
     a_last_preview_push = None, a_maintenance_html = None, a_idle_suspend = False,
     a_idle_timeout = None, a_last_traffic = None, a_rate_limit = None\<rparr>"

definition empty_db :: db where
  "empty_db = \<lparr>apps = [], services = [], deployments = [], db_now = 0, db_fault = (\<lambda>_. False), db_calls = 0\<rparr>"

theorem maintenance_restored_witness:
  "map a_maintenance_active (apps (raise_then_clear ''a''
      (empty_db\<lparr>apps := [maint_app ''a'' True, maint_app ''b'' False]\<rparr>))) = [True, False]"
proof -
  have "\<And>n. \<not> db_fault (empty_db\<lparr>apps := [maint_app ''a'' True, maint_app ''b'' False]\<rparr>) n"
    by (simp add: empty_db_def)
  from maintenance_restored [OF this, of "''a''"] show ?thesis by (simp add: maint_app_def)
qed

end
