(* ===== verification/Deployment_Store.thy ===== *)
theory Deployment_Store
  imports Store_Base "HOL-Library.Multiset"
begin

text \<open>
  The deployments table: api/internal/store/deployments.go. Each SQL statement is one
  operation on the list of rows. The partial unique index one_active_deploy_per_app of migration
  00076 is checked by every write; the identifier of a new row, which the database generates, is
  the argument \<open>i\<close> of the inserts. Where a query leaves the order of ties open, the order of
  the rows decides.
\<close>

section \<open>The unique index\<close>

definition is_active :: "dstatus \<Rightarrow> bool" where
  "is_active s = (s \<in> {Queued, Cloning, Building, Deploying, HealthChecking, Scheduled, PendingApproval})"

text \<open>The five statuses that the queries of the store list as in progress.\<close>

definition in_progress :: "dstatus \<Rightarrow> bool" where
  "in_progress s = (s \<in> {Queued, Cloning, Building, Deploying, HealthChecking})"

definition active_apps :: "deployment list \<Rightarrow> string list" where
  "active_apps rows = map d_app (filter (\<lambda>d. is_active (d_status d)) rows)"

definition index_ok :: "deployment list \<Rightarrow> bool" where
  "index_ok rows = (distinct (map d_id rows) \<and> distinct (active_apps rows))"

section \<open>Statements\<close>

text \<open>INSERT of one row: the primary key and the partial index raise a unique violation, the
  foreign key to apps any other error.\<close>

definition insert_deployment :: "deployment \<Rightarrow> deployment dbop" where
  "insert_deployment d = db_call (\<lambda>s.
     if \<not> list_ex (\<lambda>a. a_id a = d_app d) (apps s) then (Inl ErrDB, s)
     else if \<not> index_ok (deployments s @ [d]) then (Inl ErrUnique, s)
     else (Inr d, s\<lparr>deployments := deployments s @ [d]\<rparr>))"

text \<open>UPDATE: the number of affected rows, or a unique violation and no change.\<close>

definition update_deployments ::
  "(deployment \<Rightarrow> bool) \<Rightarrow> (deployment \<Rightarrow> deployment) \<Rightarrow> nat dbop" where
  "update_deployments p f = db_call (\<lambda>s.
     let rows = map (\<lambda>d. if p d then f d else d) (deployments s)
     in if index_ok rows then (Inr (length (filter p (deployments s))), s\<lparr>deployments := rows\<rparr>)
        else (Inl ErrUnique, s))"

text \<open>UPDATE ... RETURNING for a condition that determines one row.\<close>

definition update_returning ::
  "(deployment \<Rightarrow> bool) \<Rightarrow> (instant \<Rightarrow> deployment \<Rightarrow> deployment) \<Rightarrow> deployment dbop" where
  "update_returning p f = db_call (\<lambda>s.
     case find p (deployments s) of
       None \<Rightarrow> (Inl ErrNotFound, s)
     | Some d \<Rightarrow>
         (let now = db_now s; rows = map (\<lambda>d. if p d then f now d else d) (deployments s)
          in if index_ok rows then (Inr (f now d), s\<lparr>deployments := rows\<rparr>) else (Inl ErrUnique, s)))"

definition new_deployment ::
  "string \<Rightarrow> string \<Rightarrow> dstatus \<Rightarrow> instant \<Rightarrow> string \<Rightarrow> string option \<Rightarrow> string option \<Rightarrow> string option
   \<Rightarrow> deployment" where
  "new_deployment i app status now by from sha msg =
     \<lparr>d_id = i, d_app = app, d_status = status, d_triggered_at = now, d_triggered_by = by,
      d_rolled_back_from = from, d_started_at = None, d_finished_at = None, d_compose_hash = None,
      d_commit_sha = sha, d_commit_message = msg, d_error = None\<rparr>"

definition unique_to_active :: "store_err \<Rightarrow> store_err" where
  "unique_to_active e = (if e = ErrUnique then ErrActiveDeploymentExists else e)"

definition triggered_manual :: string where "triggered_manual = ''manual''"
definition triggered_push :: string where "triggered_push = ''push''"
definition triggered_tag :: string where "triggered_tag = ''tag''"
definition triggered_rollback :: string where "triggered_rollback = ''rollback''"

section \<open>Creating deployments\<close>

definition create_deployment ::
  "string \<Rightarrow> string \<Rightarrow> string \<Rightarrow> string option \<Rightarrow> deployment dbop" where
  "create_deployment i app triggeredBy rolledBackFrom =
     (let by = (if triggeredBy = [] then triggered_manual else triggeredBy)
      in map_err unique_to_active
           (and_then (reads db_now)
             (\<lambda>now. insert_deployment (new_deployment i app Queued now by rolledBackFrom None None))))"

definition create_deployment_with_status ::
  "string \<Rightarrow> string \<Rightarrow> string \<Rightarrow> dstatus \<Rightarrow> string option \<Rightarrow> deployment dbop" where
  "create_deployment_with_status i app triggeredBy status rolledBackFrom =
     (let by = (if triggeredBy = [] then triggered_manual else triggeredBy)
      in map_err unique_to_active
           (and_then (reads db_now)
             (\<lambda>now. insert_deployment (new_deployment i app status now by rolledBackFrom None None))))"

definition get_deployment :: "string \<Rightarrow> deployment dbop" where
  "get_deployment i = db_call (\<lambda>s. case find (\<lambda>d. d_id d = i) (deployments s) of
     None \<Rightarrow> (Inl ErrNotFound, s) | Some d \<Rightarrow> (Inr d, s))"

definition create_rollback_deployment :: "string \<Rightarrow> string \<Rightarrow> string \<Rightarrow> deployment dbop" where
  "create_rollback_deployment i app source =
     and_then (get_deployment source) (\<lambda>src.
       if d_app src \<noteq> app \<or> d_status src \<noteq> Running \<or> d_commit_sha src = None
       then throw ErrRollbackSourceInvalid
       else map_err unique_to_active
              (and_then (reads db_now)
                (\<lambda>now. insert_deployment (new_deployment i app Queued now triggered_rollback
                   (Some source) (d_commit_sha src) (d_commit_message src)))))"

section \<open>Parked deployments\<close>

record scheduled_deploy =
  sd_deployment :: string
  sd_app :: string
  sd_triggered_by :: string
  sd_window :: string

definition list_scheduled_deployments :: "scheduled_deploy list dbop" where
  "list_scheduled_deployments = db_call (\<lambda>s. (Inr (concat (map (\<lambda>d.
      case find (\<lambda>a. a_id a = d_app d) (apps s) of
        None \<Rightarrow> []
      | Some a \<Rightarrow> [\<lparr>sd_deployment = d_id d, sd_app = d_app d, sd_triggered_by = d_triggered_by d,
                    sd_window = a_deploy_window a\<rparr>])
      (sort_key d_triggered_at (filter (\<lambda>d. d_status d = Scheduled) (deployments s))))), s))"

definition release_scheduled_deployment :: "string \<Rightarrow> unit dbop" where
  "release_scheduled_deployment i = or_not_found
     (update_deployments (\<lambda>d. d_id d = i \<and> d_status d = Scheduled) (\<lambda>d. d\<lparr>d_status := Queued\<rparr>))"

definition unqueue_scheduled :: "string \<Rightarrow> unit dbop" where
  "unqueue_scheduled i = and_then
     (update_deployments (\<lambda>d. d_id d = i \<and> d_status d = Queued) (\<lambda>d. d\<lparr>d_status := Scheduled\<rparr>))
     (\<lambda>_. ret ())"

definition list_pending_approvals :: "string \<Rightarrow> deployment list dbop" where
  "list_pending_approvals app = db_call (\<lambda>s. (Inr (sort_key d_triggered_at
     (filter (\<lambda>d. d_app d = app \<and> d_status d = PendingApproval) (deployments s))), s))"

definition approve_deployment :: "string \<Rightarrow> string \<Rightarrow> deployment dbop" where
  "approve_deployment app i = update_returning
     (\<lambda>d. d_id d = i \<and> d_app d = app \<and> d_status d = PendingApproval)
     (\<lambda>_ d. d\<lparr>d_status := Queued\<rparr>)"

definition reject_deployment :: "string \<Rightarrow> string \<Rightarrow> deployment dbop" where
  "reject_deployment app i = update_returning
     (\<lambda>d. d_id d = i \<and> d_app d = app \<and> d_status d = PendingApproval)
     (\<lambda>now d. d\<lparr>d_status := Canceled, d_error := Some ''rejected by operator'', d_finished_at := Some now\<rparr>)"

definition unqueue_approval :: "string \<Rightarrow> string \<Rightarrow> unit dbop" where
  "unqueue_approval app i = and_then
     (update_deployments (\<lambda>d. d_id d = i \<and> d_app d = app \<and> d_status d = Queued)
        (\<lambda>d. d\<lparr>d_status := PendingApproval\<rparr>))
     (\<lambda>_. ret ())"

definition fail_queued_deployment :: "string \<Rightarrow> string \<Rightarrow> unit dbop" where
  "fail_queued_deployment i reason = and_then (reads db_now) (\<lambda>now. and_then
     (update_deployments (\<lambda>d. d_id d = i \<and> d_status d = Queued)
        (\<lambda>d. d\<lparr>d_status := Errored, d_error := Some reason, d_finished_at := Some now\<rparr>))
     (\<lambda>_. ret ()))"

section \<open>Queries\<close>

definition list_deployments_for_app :: "string \<Rightarrow> deployment list dbop" where
  "list_deployments_for_app app = db_call (\<lambda>s. (Inr (take 100
     (sort_key (\<lambda>d. - d_triggered_at d) (filter (\<lambda>d. d_app d = app) (deployments s)))), s))"

definition list_active_deployments :: "(deployment \<times> string \<times> string) list dbop" where
  "list_active_deployments = db_call (\<lambda>s. (Inr (concat (map (\<lambda>d.
      case find (\<lambda>a. a_id a = d_app d) (apps s) of
        None \<Rightarrow> [] | Some a \<Rightarrow> [(d, a_name a, a_slug a)])
      (sort_key d_triggered_at (filter (\<lambda>d. in_progress (d_status d)) (deployments s))))), s))"

definition has_active_deployment :: "string \<Rightarrow> bool dbop" where
  "has_active_deployment app = db_call (\<lambda>s.
     (Inr (list_ex (\<lambda>d. d_app d = app \<and> in_progress (d_status d)) (deployments s)), s))"

definition active_deployment_ids_for_app :: "string \<Rightarrow> string list dbop" where
  "active_deployment_ids_for_app app = db_call (\<lambda>s.
     (Inr (map d_id (filter (\<lambda>d. d_app d = app \<and> in_progress (d_status d)) (deployments s))), s))"

section \<open>Progress of a deployment\<close>

definition update_deployment_status :: "string \<Rightarrow> dstatus \<Rightarrow> string option \<Rightarrow> unit dbop" where
  "update_deployment_status i status err = or_not_found (update_deployments (\<lambda>d. d_id d = i)
     (\<lambda>d. d\<lparr>d_status := status, d_error := coalesce err (d_error d)\<rparr>))"

definition mark_deployment_started :: "string \<Rightarrow> unit dbop" where
  "mark_deployment_started i = and_then (reads db_now) (\<lambda>now. or_not_found
     (update_deployments (\<lambda>d. d_id d = i \<and> d_started_at d = None) (\<lambda>d. d\<lparr>d_started_at := Some now\<rparr>)))"

definition mark_deployment_finished :: "string \<Rightarrow> dstatus \<Rightarrow> string option \<Rightarrow> unit dbop" where
  "mark_deployment_finished i status err = and_then (reads db_now) (\<lambda>now. or_not_found
     (update_deployments (\<lambda>d. d_id d = i)
        (\<lambda>d. d\<lparr>d_status := status, d_error := coalesce err (d_error d), d_finished_at := Some now\<rparr>)))"

definition set_deployment_commit :: "string \<Rightarrow> string option \<Rightarrow> string option \<Rightarrow> unit dbop" where
  "set_deployment_commit i sha msg = or_not_found (update_deployments (\<lambda>d. d_id d = i)
     (\<lambda>d. d\<lparr>d_commit_sha := coalesce sha (d_commit_sha d),
            d_commit_message := coalesce msg (d_commit_message d)\<rparr>))"

definition set_deployment_compose_hash :: "string \<Rightarrow> string \<Rightarrow> unit dbop" where
  "set_deployment_compose_hash i hash = or_not_found (update_deployments (\<lambda>d. d_id d = i)
     (\<lambda>d. d\<lparr>d_compose_hash := Some hash\<rparr>))"

section \<open>Sweeps\<close>

definition reap_message :: string where
  "reap_message = ''deploy timed out '' @ em_dash @ '' no progress for too long''"

definition since :: "deployment \<Rightarrow> instant" where
  "since d = (case d_started_at d of Some t \<Rightarrow> t | None \<Rightarrow> d_triggered_at d)"

definition reap_stuck_deployments :: "duration \<Rightarrow> nat dbop" where
  "reap_stuck_deployments olderThan = and_then (reads db_now) (\<lambda>now.
     let cutoff = now - olderThan
     in update_deployments (\<lambda>d. in_progress (d_status d) \<and> since d < cutoff)
          (\<lambda>d. d\<lparr>d_status := Errored, d_error := coalesce (d_error d) (Some reap_message),
                 d_finished_at := coalesce (d_finished_at d) (Some now)\<rparr>))"

definition mark_in_progress_interrupted :: "nat dbop" where
  "mark_in_progress_interrupted = and_then (reads db_now) (\<lambda>now.
     update_deployments (\<lambda>d. in_progress (d_status d))
       (\<lambda>d. d\<lparr>d_status := Interrupted, d_error := coalesce (d_error d) (Some ''vac-api restarted mid-deploy''),
              d_finished_at := coalesce (d_finished_at d) (Some now)\<rparr>))"

text \<open>PruneDeployments: the kept identifiers, and the delete. Deleting a row clears the
  rolled_back_from pointers to it (the foreign key of migration 00020).\<close>

definition newest_first :: "deployment list \<Rightarrow> deployment list" where
  "newest_first rows = sort_key (\<lambda>d. - d_triggered_at d) rows"

definition keep_ids :: "nat \<Rightarrow> deployment list \<Rightarrow> string list" where
  "keep_ids keepN rows = concat (map (\<lambda>app.
      map d_id (take keepN (newest_first (filter (\<lambda>d. d_app d = app) rows)))
      @ map d_id (take 1 (newest_first (filter (\<lambda>d. d_app d = app \<and> d_status d = Running) rows))))
      (remdups (map d_app rows)))"

definition prunable :: "nat \<Rightarrow> deployment list \<Rightarrow> deployment \<Rightarrow> bool" where
  "prunable keepN rows d = (\<not> in_progress (d_status d) \<and> d_id d \<notin> set (keep_ids keepN rows))"

definition clear_pointer :: "string list \<Rightarrow> deployment \<Rightarrow> deployment" where
  "clear_pointer gone d = (case d_rolled_back_from d of
     Some i \<Rightarrow> if i \<in> set gone then d\<lparr>d_rolled_back_from := None\<rparr> else d
   | None \<Rightarrow> d)"

definition prune_deployments :: "int \<Rightarrow> nat dbop" where
  "prune_deployments keepN =
     (if keepN \<le> 0 then ret 0
      else db_call (\<lambda>s.
        let rows = deployments s;
            gone = filter (prunable (nat keepN) rows) rows
        in (Inr (length gone),
            s\<lparr>deployments := map (clear_pointer (map d_id gone))
                 (filter (\<lambda>d. \<not> prunable (nat keepN) rows d) rows)\<rparr>)))"

lemmas insert_ops = create_deployment_def create_deployment_with_status_def create_rollback_deployment_def
lemmas row_ops = release_scheduled_deployment_def unqueue_scheduled_def unqueue_approval_def
  fail_queued_deployment_def update_deployment_status_def mark_deployment_started_def
  mark_deployment_finished_def set_deployment_commit_def set_deployment_compose_hash_def
  reap_stuck_deployments_def mark_in_progress_interrupted_def
lemmas returning_ops = approve_deployment_def reject_deployment_def
lemmas query_ops = get_deployment_def list_scheduled_deployments_def list_pending_approvals_def
  list_deployments_for_app_def list_active_deployments_def has_active_deployment_def
  active_deployment_ids_for_app_def

section \<open>The table invariant\<close>

definition db_inv :: "db \<Rightarrow> bool" where
  "db_inv s = index_ok (deployments s)"

lemma call_stable_db_inv [simp]: "call_stable db_inv"
  by (simp add: call_stable_def db_inv_def)

lemma keeps_insert [vac_wp]: "keeps db_inv (insert_deployment d)"
  unfolding insert_deployment_def
  by (rule keeps_db_call) (simp_all add: keeps_def db_inv_def)

lemma keeps_update [vac_wp]: "keeps db_inv (update_deployments p f)"
  unfolding update_deployments_def
  by (rule keeps_db_call) (simp_all add: keeps_def db_inv_def Let_def)

lemma keeps_returning [vac_wp]: "keeps db_inv (update_returning p f)"
  unfolding update_returning_def
  by (rule keeps_db_call) (simp_all add: keeps_def db_inv_def Let_def split: option.split)

lemma keeps_inserts [vac_wp]:
  "keeps db_inv (create_deployment i a t r)"
  "keeps db_inv (create_deployment_with_status i a t st r)"
  unfolding insert_ops Let_def by (intro vac_wp)+

lemma keeps_get_deployment [vac_wp]: "call_stable I \<Longrightarrow> keeps I (get_deployment i)"
  unfolding get_deployment_def by (rule keeps_db_call) (simp_all add: keeps_def split: option.split)

lemma keeps_rollback [vac_wp]: "keeps db_inv (create_rollback_deployment i a src)"
  unfolding create_rollback_deployment_def by (intro vac_wp) simp

lemma keeps_row_ops [vac_wp]:
  "keeps db_inv (release_scheduled_deployment i)" "keeps db_inv (unqueue_scheduled i)"
  "keeps db_inv (unqueue_approval a i)" "keeps db_inv (fail_queued_deployment i m)"
  "keeps db_inv (update_deployment_status i st e)" "keeps db_inv (mark_deployment_started i)"
  "keeps db_inv (mark_deployment_finished i st e)" "keeps db_inv (set_deployment_commit i sha msg)"
  "keeps db_inv (set_deployment_compose_hash i h)" "keeps db_inv (reap_stuck_deployments t)"
  "keeps db_inv mark_in_progress_interrupted"
  unfolding row_ops Let_def by (intro vac_wp)+

lemma keeps_returning_ops [vac_wp]:
  "keeps db_inv (approve_deployment a i)" "keeps db_inv (reject_deployment a i)"
  unfolding returning_ops by (intro vac_wp)+

lemma keeps_queries [vac_wp]:
  "call_stable I \<Longrightarrow> keeps I list_scheduled_deployments"
  "call_stable I \<Longrightarrow> keeps I (list_pending_approvals a)"
  "call_stable I \<Longrightarrow> keeps I (list_deployments_for_app a)"
  "call_stable I \<Longrightarrow> keeps I list_active_deployments"
  "call_stable I \<Longrightarrow> keeps I (has_active_deployment a)"
  "call_stable I \<Longrightarrow> keeps I (active_deployment_ids_for_app a)"
  unfolding query_ops by (rule keeps_db_call; simp add: keeps_def)+

lemma clear_pointer_simps [simp]:
  "d_id (clear_pointer g d) = d_id d" "d_app (clear_pointer g d) = d_app d"
  "d_status (clear_pointer g d) = d_status d" "d_triggered_at (clear_pointer g d) = d_triggered_at d"
  by (simp_all add: clear_pointer_def split: option.split)

lemma active_apps_map:
  "(\<And>d. d_app (f d) = d_app d \<and> d_status (f d) = d_status d) \<Longrightarrow> active_apps (map f rows) = active_apps rows"
  by (induction rows) (auto simp: active_apps_def)

lemma index_ok_filter: "index_ok rows \<Longrightarrow> index_ok (filter p rows)"
  by (induction rows) (auto simp: index_ok_def active_apps_def)

lemma index_ok_map:
  "(\<And>d. d_id (f d) = d_id d \<and> d_app (f d) = d_app d \<and> d_status (f d) = d_status d) \<Longrightarrow>
   index_ok (map f rows) = index_ok rows"
  by (simp add: index_ok_def active_apps_map comp_def)

lemma keeps_prune [vac_wp]: "keeps db_inv (prune_deployments k)"
  unfolding prune_deployments_def
  by (intro vac_wp keeps_db_call)
    (simp_all add: keeps_def db_inv_def Let_def index_ok_map index_ok_filter)


section \<open>Histories\<close>

text \<open>One step of the database: an operation of the store, an arbitrary change of the other two
  tables, or the passing of time.\<close>

inductive store_step :: "db \<Rightarrow> db \<Rightarrow> bool" where
  st_create: "store_step s (snd (create_deployment i a t r s))"
| st_create_status: "store_step s (snd (create_deployment_with_status i a t st r s))"
| st_rollback: "store_step s (snd (create_rollback_deployment i a src s))"
| st_release: "store_step s (snd (release_scheduled_deployment i s))"
| st_unqueue_scheduled: "store_step s (snd (unqueue_scheduled i s))"
| st_approve: "store_step s (snd (approve_deployment a i s))"
| st_reject: "store_step s (snd (reject_deployment a i s))"
| st_unqueue_approval: "store_step s (snd (unqueue_approval a i s))"
| st_fail_queued: "store_step s (snd (fail_queued_deployment i m s))"
| st_update_status: "store_step s (snd (update_deployment_status i st e s))"
| st_started: "store_step s (snd (mark_deployment_started i s))"
| st_finished: "store_step s (snd (mark_deployment_finished i st e s))"
| st_commit: "store_step s (snd (set_deployment_commit i sha msg s))"
| st_hash: "store_step s (snd (set_deployment_compose_hash i h s))"
| st_reap: "store_step s (snd (reap_stuck_deployments age s))"
| st_interrupt: "store_step s (snd (mark_in_progress_interrupted s))"
| st_prune: "store_step s (snd (prune_deployments k s))"
| st_other: "deployments t = deployments s \<Longrightarrow> store_step s t"

inductive store_reachable :: "db \<Rightarrow> bool" where
  sr_init: "deployments s = [] \<Longrightarrow> store_reachable s"
| sr_step: "store_reachable s \<Longrightarrow> store_step s t \<Longrightarrow> store_reachable t"

inductive_cases store_stepE: "store_step s t"

lemma db_inv_snd: "keeps db_inv m \<Longrightarrow> db_inv s \<Longrightarrow> db_inv (snd (m s))"
  by (rule keepsD)

lemma store_step_inv: "store_step s t \<Longrightarrow> db_inv s \<Longrightarrow> db_inv t"
proof (induction rule: store_step.induct)
  case (st_other t s)
  then show ?case by (simp add: db_inv_def)
qed (rule db_inv_snd, rule vac_wp, assumption)+

lemma store_reachable_inv: "store_reachable s \<Longrightarrow> db_inv s"
proof (induction rule: store_reachable.induct)
  case (sr_init s)
  then show ?case by (simp add: db_inv_def index_ok_def active_apps_def)
next
  case (sr_step s t)
  then show ?case by (blast intro: store_step_inv)
qed

lemma active_apps_count:
  "count_list (active_apps rows) a = length (filter (\<lambda>d. d_app d = a \<and> is_active (d_status d)) rows)"
  by (induction rows) (auto simp: active_apps_def)

lemma distinct_count_le_1: "distinct xs \<Longrightarrow> count_list xs x \<le> 1"
  by (induction xs) (auto simp: count_list_0_iff)


definition demo_db :: db where
  "demo_db = empty_db\<lparr>apps := [maint_app ''a'' False]\<rparr>"


section \<open>Creating\<close>

lemma index_ok_snoc:
  "index_ok (rows @ [d]) \<longleftrightarrow> index_ok rows \<and> d_id d \<notin> d_id ` set rows
     \<and> (is_active (d_status d) \<longrightarrow> \<not> (\<exists>e\<in>set rows. d_app e = d_app d \<and> is_active (d_status e)))"
proof -
  have "d_app d \<in> set (active_apps rows) \<longleftrightarrow> (\<exists>e\<in>set rows. d_app e = d_app d \<and> is_active (d_status e))"
    by (auto simp: active_apps_def image_iff)
  then show ?thesis by (auto simp: index_ok_def active_apps_def)
qed

lemma new_deployment_simps [simp]:
  "d_id (new_deployment i a st now by r sha m) = i" "d_app (new_deployment i a st now by r sha m) = a"
  "d_status (new_deployment i a st now by r sha m) = st"
  "d_commit_sha (new_deployment i a st now by r sha m) = sha"
  "d_rolled_back_from (new_deployment i a st now by r sha m) = r"
  "d_triggered_by (new_deployment i a st now by r sha m) = by"
  by (simp_all add: new_deployment_def)

text \<open>The outcome of the insert, when the database answers.\<close>

lemma insert_deployment_eq:
  assumes "db_inv s" and "\<not> db_fault s (db_calls s)" and "d_app d \<in> a_id ` set (apps s)"
    and "d_id d \<notin> d_id ` set (deployments s)" and "is_active (d_status d)"
  shows "insert_deployment d s =
    (if \<exists>e\<in>set (deployments s). d_app e = d_app d \<and> is_active (d_status e)
     then (Inl ErrUnique, s\<lparr>db_calls := Suc (db_calls s)\<rparr>)
     else (Inr d, s\<lparr>db_calls := Suc (db_calls s), deployments := deployments s @ [d]\<rparr>))"
proof -
  have "list_ex (\<lambda>a. a_id a = d_app d) (apps s)"
    using assms(3) by (auto simp: list_ex_iff)
  then show ?thesis
    using assms by (simp add: insert_deployment_def db_call_def db_inv_def index_ok_snoc Let_def)
qed

lemma create_with_status_eq:
  assumes "db_inv s" and "\<not> db_fault s (db_calls s)" and "a \<in> a_id ` set (apps s)"
    and "i \<notin> d_id ` set (deployments s)" and "is_active st"
  shows "create_deployment_with_status i a by st r s =
    (let d = new_deployment i a st (db_now s) (if by = [] then triggered_manual else by) r None None
     in if \<exists>e\<in>set (deployments s). d_app e = a \<and> is_active (d_status e)
        then (Inl ErrActiveDeploymentExists, s\<lparr>db_calls := Suc (db_calls s)\<rparr>)
        else (Inr d, s\<lparr>db_calls := Suc (db_calls s), deployments := deployments s @ [d]\<rparr>))"
  using assms
  by (simp add: create_deployment_with_status_def map_err_def and_then_def reads_def Let_def
      insert_deployment_eq unique_to_active_def)

lemma create_deployment_queued:
  "create_deployment i a by r = create_deployment_with_status i a by Queued r"
  by (simp add: create_deployment_def create_deployment_with_status_def)

lemma create_busy:
  assumes "db_inv s" and "\<not> db_fault s (db_calls s)" and "a \<in> a_id ` set (apps s)"
    and "i \<notin> d_id ` set (deployments s)" and "is_active st"
    and "e \<in> set (deployments s)" and "d_app e = a" and "is_active (d_status e)"
  shows "create_deployment_with_status i a by st r s
    = (Inl ErrActiveDeploymentExists, s\<lparr>db_calls := Suc (db_calls s)\<rparr>)"
  using assms(6-8) create_with_status_eq [OF assms(1-5), of "by" r] by (auto simp: Let_def)

lemma create_free:
  assumes "db_inv s" and "\<not> db_fault s (db_calls s)" and "a \<in> a_id ` set (apps s)"
    and "i \<notin> d_id ` set (deployments s)" and "is_active st"
    and "\<And>e. e \<in> set (deployments s) \<Longrightarrow> d_app e = a \<Longrightarrow> \<not> is_active (d_status e)"
  shows "\<exists>d. create_deployment_with_status i a by st r s
      = (Inr d, s\<lparr>db_calls := Suc (db_calls s), deployments := deployments s @ [d]\<rparr>)
    \<and> d_id d = i \<and> d_app d = a \<and> d_status d = st"
  using assms(6) create_with_status_eq [OF assms(1-5), of "by" r] by (auto simp: Let_def)

text \<open>
  Creating a deployment is guarded by the app's lane. When the database answers, the insert
  of a fresh row for a known app succeeds exactly when the app has no non-terminal deployment and
  then appends one queued row; otherwise it is refused with ErrActiveDeploymentExists and no row
  changes. Parking a deployment (scheduled or pending approval) is guarded in the same way.
\<close>

lemma create_deployment_guarded:
  assumes "db_inv s" and "\<not> db_fault s (db_calls s)" and "a \<in> a_id ` set (apps s)"
    and "i \<notin> d_id ` set (deployments s)" and "st \<in> {Queued, Scheduled, PendingApproval}"
  shows "if \<exists>e\<in>set (deployments s). d_app e = a \<and> is_active (d_status e)
    then create_deployment i a by r s = (Inl ErrActiveDeploymentExists, s\<lparr>db_calls := Suc (db_calls s)\<rparr>)
       \<and> create_deployment_with_status i a by st r s
           = (Inl ErrActiveDeploymentExists, s\<lparr>db_calls := Suc (db_calls s)\<rparr>)
    else (\<exists>d. create_deployment i a by r s
             = (Inr d, s\<lparr>db_calls := Suc (db_calls s), deployments := deployments s @ [d]\<rparr>)
           \<and> d_id d = i \<and> d_app d = a \<and> d_status d = Queued)
       \<and> (\<exists>d. create_deployment_with_status i a by st r s
             = (Inr d, s\<lparr>db_calls := Suc (db_calls s), deployments := deployments s @ [d]\<rparr>)
           \<and> d_id d = i \<and> d_app d = a \<and> d_status d = st)"
  using assms(5) create_busy [OF assms(1-4)] create_free [OF assms(1-4)]
  by (auto simp: create_deployment_queued is_active_def)

lemma create_deployment_guarded_example:
  "create_deployment ''2'' ''a'' [] None (snd (create_deployment ''1'' ''a'' [] None demo_db))
     = (Inl ErrActiveDeploymentExists,
        snd (create_deployment ''1'' ''a'' [] None demo_db)\<lparr>db_calls := 2\<rparr>)"
proof -
  let ?s = "snd (create_deployment ''1'' ''a'' [] None demo_db)"
  have s: "?s = demo_db\<lparr>db_calls := 1, deployments := [new_deployment ''1'' ''a'' Queued 0 triggered_manual None None None]\<rparr>"
    by (simp add: create_deployment_def insert_deployment_def db_call_def sem_defs demo_db_def
        empty_db_def maint_app_def index_ok_def active_apps_def)
  have "db_inv ?s" "\<not> db_fault ?s (db_calls ?s)" "''a'' \<in> a_id ` set (apps ?s)"
    "''2'' \<notin> d_id ` set (deployments ?s)" "Queued \<in> {Queued, Scheduled, PendingApproval}"
    "\<exists>e\<in>set (deployments ?s). d_app e = ''a'' \<and> is_active (d_status e)"
    unfolding s by (simp_all add: db_inv_def index_ok_def active_apps_def demo_db_def empty_db_def
        maint_app_def is_active_def)
  with create_deployment_guarded [of ?s "''a''" "''2''" Queued "[]" None]
  have "create_deployment ''2'' ''a'' [] None ?s = (Inl ErrActiveDeploymentExists, ?s\<lparr>db_calls := Suc (db_calls ?s)\<rparr>)"
    by presburger
  then show ?thesis unfolding s by simp
qed

section \<open>Settled rows\<close>

definition has_rows :: "deployment set \<Rightarrow> db \<Rightarrow> bool" where
  "has_rows D s = (D \<subseteq> set (deployments s))"

lemma call_stable_has_rows [simp]: "call_stable (has_rows D)"
  by (simp add: call_stable_def has_rows_def)

lemma keeps_rows_update:
  assumes "\<And>d. d \<in> D \<Longrightarrow> \<not> p d"
  shows "keeps (has_rows D) (update_deployments p f)"
  unfolding update_deployments_def
  using assms by (intro keeps_db_call) (force simp: keeps_def has_rows_def Let_def)+

lemma keeps_rows_returning:
  assumes "\<And>d. d \<in> D \<Longrightarrow> \<not> p d"
  shows "keeps (has_rows D) (update_returning p f)"
  unfolding update_returning_def
  using assms by (intro keeps_db_call) (force simp: keeps_def has_rows_def Let_def split: option.split)+

text \<open>
  The scoped writes never touch a settled deployment. Releasing, approving, rejecting,
  reverting to a parked status, failing a queued row, reaping and the boot sweep leave every row
  whose status is terminal exactly as it is.
\<close>

theorem settled_rows_untouched:
  assumes "\<And>d. d \<in> D \<Longrightarrow> is_terminal (d_status d)"
  shows "keeps (has_rows D) (release_scheduled_deployment i)
    \<and> keeps (has_rows D) (unqueue_scheduled i)
    \<and> keeps (has_rows D) (approve_deployment a i)
    \<and> keeps (has_rows D) (reject_deployment a i)
    \<and> keeps (has_rows D) (unqueue_approval a i)
    \<and> keeps (has_rows D) (fail_queued_deployment i m)
    \<and> keeps (has_rows D) (reap_stuck_deployments age)
    \<and> keeps (has_rows D) mark_in_progress_interrupted"
proof -
  have t: "d \<in> D \<Longrightarrow> d_status d \<noteq> Scheduled" "d \<in> D \<Longrightarrow> d_status d \<noteq> PendingApproval"
    "d \<in> D \<Longrightarrow> d_status d \<noteq> Queued" "d \<in> D \<Longrightarrow> \<not> in_progress (d_status d)" for d
    using assms [of d] by (auto simp: is_terminal_def in_progress_def)
  show ?thesis
    unfolding row_ops returning_ops Let_def
    using t by (intro conjI vac_wp keeps_rows_update keeps_rows_returning) auto
qed

theorem settled_rows_untouched_witness:
  "keeps (has_rows {new_deployment ''1'' ''a'' Running 0 [] None None None}) (reap_stuck_deployments 5)"
  using settled_rows_untouched [of "{new_deployment ''1'' ''a'' Running 0 [] None None None}"]
  by (simp add: is_terminal_def)

section \<open>The lane of an app\<close>

text \<open>
  The abstract content of the table for one app: its non-terminal deployment, if any, with its
  status. The scoped writes are moves of this lane.
\<close>

definition lane :: "db \<Rightarrow> string \<Rightarrow> (string \<times> dstatus) option" where
  "lane s a = map_option (\<lambda>d. (d_id d, d_status d))
     (find (\<lambda>d. d_app d = a \<and> is_active (d_status d)) (deployments s))"

fun lane_move :: "string \<Rightarrow> dstatus \<Rightarrow> dstatus \<Rightarrow> (string \<times> dstatus) option \<Rightarrow> (string \<times> dstatus) option" where
  "lane_move i from to None = None"
| "lane_move i from to (Some (j, st)) =
     (if j = i \<and> st = from then (if is_active to then Some (i, to) else None) else Some (j, st))"

lemma lane_move_id: "x \<noteq> Some (i, from) \<Longrightarrow> lane_move i from to x = x"
  by (cases "(i, from, to, x)" rule: lane_move.cases) auto

lemma active_unique:
  assumes "index_ok rows" and "d \<in> set rows" and "e \<in> set rows" and "d_app d = d_app e"
    and "is_active (d_status d)" and "is_active (d_status e)"
  shows "d = e"
proof -
  have "distinct (map d_app (filter (\<lambda>d. is_active (d_status d)) rows))"
    using assms(1) by (simp add: index_ok_def active_apps_def)
  then show ?thesis
    using assms(2-6) by (auto simp: distinct_map dest!: inj_onD)
qed

lemma lane_Some:
  assumes "index_ok (deployments s)"
  shows "lane s a = Some (i, st) \<longleftrightarrow>
    (\<exists>d\<in>set (deployments s). d_app d = a \<and> d_id d = i \<and> d_status d = st \<and> is_active st)"
proof -
  have "lane s a = Some (i, st) \<longleftrightarrow>
      (\<exists>d. find (\<lambda>d. d_app d = a \<and> is_active (d_status d)) (deployments s) = Some d
         \<and> d_id d = i \<and> d_status d = st)"
    by (auto simp: lane_def)
  moreover have "find (\<lambda>d. d_app d = a \<and> is_active (d_status d)) (deployments s) = Some d \<longleftrightarrow>
      d \<in> set (deployments s) \<and> d_app d = a \<and> is_active (d_status d)" for d
  proof
    assume "find (\<lambda>d. d_app d = a \<and> is_active (d_status d)) (deployments s) = Some d"
    then show "d \<in> set (deployments s) \<and> d_app d = a \<and> is_active (d_status d)"
      by (auto simp: find_Some_iff)
  next
    assume d: "d \<in> set (deployments s) \<and> d_app d = a \<and> is_active (d_status d)"
    then obtain e where e: "find (\<lambda>d. d_app d = a \<and> is_active (d_status d)) (deployments s) = Some e"
      by (metis (mono_tags, lifting) find_None_iff option.exhaust)
    then have "e \<in> set (deployments s) \<and> d_app e = a \<and> is_active (d_status e)"
      by (auto simp: find_Some_iff)
    with d e show "find (\<lambda>d. d_app d = a \<and> is_active (d_status d)) (deployments s) = Some d"
      using active_unique [OF assms] by metis
  qed
  ultimately show ?thesis by auto
qed

lemma id_unique:
  "index_ok rows \<Longrightarrow> d \<in> set rows \<Longrightarrow> e \<in> set rows \<Longrightarrow> d_id d = d_id e \<Longrightarrow> d = e"
  by (auto simp: index_ok_def distinct_map dest: inj_onD)

text \<open>A write scoped to one row and one status moves the lane of that row's app.\<close>

lemma lane_update:
  assumes ok: "index_ok (deployments s)" and ok': "index_ok rows'"
    and rows': "rows' = map (\<lambda>d. if p d then f d else d) (deployments s)"
    and p: "\<And>d. p d \<Longrightarrow> d_id d = i \<and> d_status d = from \<and> d_app d = a"
    and p': "\<And>d. d \<in> set (deployments s) \<Longrightarrow> d_id d = i \<Longrightarrow> d_status d = from \<Longrightarrow> d_app d = a \<Longrightarrow> p d"
    and f: "\<And>d. d_id (f d) = d_id d \<and> d_app (f d) = d_app d \<and> d_status (f d) = to"
    and act: "is_active from"
  shows "lane (s\<lparr>deployments := rows', db_calls := n\<rparr>) b = (if b = a then lane_move i from to (lane s b) else lane s b)"
proof (cases "\<exists>d\<in>set (deployments s). p d")
  case False
  then have "rows' = deployments s" unfolding rows' by (intro map_idI) auto
  then have "lane (s\<lparr>deployments := rows', db_calls := n\<rparr>) b = lane s b" by (simp add: lane_def)
  moreover have "lane s a \<noteq> Some (i, from)"
    using False p' by (auto simp: lane_Some [OF ok])
  ultimately show ?thesis by (simp add: lane_move_id)
next
  case True
  let ?t = "s\<lparr>deployments := rows', db_calls := n\<rparr>"
  obtain d where d: "d \<in> set (deployments s)" "p d" using True by blast
  then have da: "d_id d = i" "d_status d = from" "d_app d = a" using p by blast+
  have rows: "e \<in> set rows' \<longleftrightarrow> (\<exists>c\<in>set (deployments s). e = (if p c then f c else c))" for e
    by (auto simp: rows')
  have only: "c = d" if "c \<in> set (deployments s)" "d_app c = a" "is_active (d_status c)" for c
    using active_unique [OF ok that(1) d(1)] that da act by simp
  have okt: "index_ok (deployments ?t)" using ok' by simp
  show ?thesis
  proof (cases "b = a")
    case False
    have "find (\<lambda>d. d_app d = b \<and> is_active (d_status d)) (map (\<lambda>d. if p d then f d else d) ds)
        = find (\<lambda>d. d_app d = b \<and> is_active (d_status d)) ds" for ds
      using False p f by (induction ds) auto
    with False show ?thesis by (simp add: lane_def rows')
  next
    case True
    have "lane s a = Some (i, from)" using d da act by (auto simp: lane_Some [OF ok])
    moreover have "lane ?t a = (if is_active to then Some (i, to) else None)"
    proof (cases "is_active to")
      case True
      have "f d \<in> set rows'" using d by (auto simp: rows)
      then have "lane ?t a = Some (i, to)" using True da f by (auto simp: lane_Some [OF okt])
      with True show ?thesis by simp
    next
      case False
      have "lane ?t a \<noteq> Some (j, st)" for j st
      proof
        assume "lane ?t a = Some (j, st)"
        then obtain c where c: "c \<in> set (deployments s)" "d_app (if p c then f c else c) = a"
          "is_active (d_status (if p c then f c else c))"
          by (auto simp: lane_Some [OF okt] rows)
        with False f have "\<not> p c" "d_app c = a" "is_active (d_status c)" by (auto split: if_splits)
        with only [of c] c d show False by auto
      qed
      with False show ?thesis by (metis not_None_eq prod.collapse)
    qed
    ultimately show ?thesis using True by simp
  qed
qed


text \<open>The two forms of a scoped write, on a database that answers.\<close>

lemma index_ok_active_update:
  assumes "index_ok rows" and "\<And>d. p d \<Longrightarrow> is_active (d_status d)"
    and "\<And>d. p d \<Longrightarrow> d_id (f d) = d_id d \<and> d_app (f d) = d_app d"
  shows "index_ok (map (\<lambda>d. if p d then f d else d) rows)"
proof -
  let ?g = "\<lambda>d. if p d then f d else d"
  have le: "set (active_apps (map ?g ds)) \<subseteq> set (active_apps ds)" for ds
    using assms(2,3) by (auto simp: active_apps_def image_iff split: if_splits)
  have "distinct (active_apps ds) \<Longrightarrow> distinct (active_apps (map ?g ds))" for ds
  proof (induction ds)
    case Nil
    then show ?case by (simp add: active_apps_def)
  next
    case (Cons d ds)
    then show ?case
      using le [of ds] assms(2,3) [of d] by (auto simp: active_apps_def split: if_splits)
  qed
  moreover have "map d_id (map ?g ds) = map d_id ds" for ds using assms(3) by (induction ds) auto
  ultimately show ?thesis using assms(1) unfolding index_ok_def by metis
qed

text \<open>An update of active rows that keeps their identifiers and apps never meets the index.\<close>

lemma update_active_ok:
  assumes "db_inv s" and "\<not> db_fault s (db_calls s)" and "\<And>d. p d \<Longrightarrow> is_active (d_status d)"
    and "\<And>d. p d \<Longrightarrow> d_id (f d) = d_id d \<and> d_app (f d) = d_app d"
  shows "update_deployments p f s = (Inr (length (filter p (deployments s))),
    s\<lparr>deployments := map (\<lambda>d. if p d then f d else d) (deployments s), db_calls := Suc (db_calls s)\<rparr>)"
  using assms(1,2) index_ok_active_update [of "deployments s" p f] assms(3,4)
  by (simp add: update_deployments_def db_call_def db_inv_def Let_def)

lemma update_deployments_lane:
  assumes inv: "db_inv s" and nf: "\<not> db_fault s (db_calls s)"
    and p: "\<And>d. p d \<longleftrightarrow> d_id d = i \<and> d_status d = from \<and> (d_app d = a \<or> \<not> scoped)"
    and f: "\<And>d. d_id (f d) = d_id d \<and> d_app (f d) = d_app d \<and> d_status (f d) = to"
    and act: "is_active from" and here: "\<And>d. d \<in> set (deployments s) \<Longrightarrow> d_id d = i \<Longrightarrow> d_app d = a"
  shows "lane (snd (update_deployments p f s)) b = (if b = a then lane_move i from to (lane s b) else lane s b)"
proof -
  let ?rows = "map (\<lambda>d. if p d then f d else d) (deployments s)"
  have ok: "index_ok (deployments s)" using inv by (simp add: db_inv_def)
  let ?p = "\<lambda>d. p d \<and> d_app d = a"
  have same: "?rows = map (\<lambda>d. if ?p d then f d else d) (deployments s)"
    using here p by (intro map_cong) auto
  have "index_ok ?rows"
    by (rule index_ok_active_update [OF ok]) (use p f act in auto)
  then have "snd (update_deployments p f s) = s\<lparr>deployments := ?rows, db_calls := Suc (db_calls s)\<rparr>"
    using nf by (simp add: update_deployments_def db_call_def Let_def)
  moreover have "lane (s\<lparr>deployments := ?rows, db_calls := Suc (db_calls s)\<rparr>) b
      = (if b = a then lane_move i from to (lane s b) else lane s b)"
    using \<open>index_ok ?rows\<close>
    by (intro lane_update [OF ok _ same, of i "from" a to]) (auto simp: p f act)
  ultimately show ?thesis by simp
qed

lemma returning_as_update:
  "index_ok (deployments s) \<Longrightarrow> snd (update_returning p f s) = snd (update_deployments p (f (db_now s)) s)"
  by (auto simp: update_returning_def update_deployments_def db_call_def Let_def find_None_iff
      map_idI split: option.split)

lemma snd_and_then_ret: "snd (and_then m (\<lambda>_. ret ()) s) = snd (m s)"
  by (simp add: and_then_def ret_def split: prod.split sum.split)

lemma snd_or_not_found: "snd (or_not_found m s) = snd (m s)"
  by (simp add: or_not_found_def and_then_def ret_def throw_def split: prod.split sum.split)

lemma snd_reads: "snd (and_then (reads g) h s) = snd (h (g s) s)"
  by (simp add: and_then_def reads_def)

lemma fail_queued_lane:
  assumes "db_inv s" and "\<not> db_fault s (db_calls s)" and "\<And>d. d \<in> set (deployments s) \<Longrightarrow> d_id d = i \<Longrightarrow> d_app d = a"
  shows "lane (snd (fail_queued_deployment i m s)) a = lane_move i Queued Errored (lane s a)"
  unfolding fail_queued_deployment_def snd_reads snd_and_then_ret
  using update_deployments_lane [OF assms(1,2), where i = i and a = a and b = a and scoped = False
      and p = "\<lambda>d. d_id d = i \<and> d_status d = Queued"] assms(3)
  by (simp add: is_active_def)

text \<open>
  C26: the scoped writes implement moves of the lane. On a database that answers, releasing and
  reverting a parked row, approving, rejecting and reverting an approval, and failing a queued
  row change the lane of the row's app as the abstract move says (and only when the row is in the
  expected status), and leave the lane of every other app alone.
\<close>

theorem scoped_writes_move_lane:
  assumes "db_inv s" and "\<not> db_fault s (db_calls s)"
    and "\<And>d. d \<in> set (deployments s) \<Longrightarrow> d_id d = i \<Longrightarrow> d_app d = a"
  shows "lane (snd (release_scheduled_deployment i s)) b
      = (if b = a then lane_move i Scheduled Queued (lane s b) else lane s b)
    \<and> lane (snd (unqueue_scheduled i s)) b
      = (if b = a then lane_move i Queued Scheduled (lane s b) else lane s b)
    \<and> lane (snd (approve_deployment a i s)) b
      = (if b = a then lane_move i PendingApproval Queued (lane s b) else lane s b)
    \<and> lane (snd (reject_deployment a i s)) b
      = (if b = a then lane_move i PendingApproval Canceled (lane s b) else lane s b)
    \<and> lane (snd (unqueue_approval a i s)) b
      = (if b = a then lane_move i Queued PendingApproval (lane s b) else lane s b)
    \<and> lane (snd (fail_queued_deployment i m s)) b
      = (if b = a then lane_move i Queued Errored (lane s b) else lane s b)"
proof -
  have ok: "index_ok (deployments s)" using assms(1) by (simp add: db_inv_def)
  note upd = update_deployments_lane [OF assms(1,2), where i = i and a = a and b = b]
  show ?thesis
    unfolding row_ops returning_ops snd_or_not_found snd_and_then_ret snd_reads returning_as_update [OF ok]
    by (intro conjI upd [where scoped = False] upd [where scoped = True])
      (use assms(3) in \<open>auto simp: is_active_def\<close>)
qed

theorem scoped_writes_move_lane_witness:
  "lane (snd (release_scheduled_deployment ''1''
      (demo_db\<lparr>deployments := [new_deployment ''1'' ''a'' Scheduled 0 [] None None None]\<rparr>))) ''a''
   = Some (''1'', Queued)"
proof -
  let ?s = "demo_db\<lparr>deployments := [new_deployment ''1'' ''a'' Scheduled 0 [] None None None]\<rparr>"
  have "db_inv ?s" "\<not> db_fault ?s (db_calls ?s)"
    "\<And>d. d \<in> set (deployments ?s) \<Longrightarrow> d_id d = ''1'' \<Longrightarrow> d_app d = ''a''"
    by (simp_all add: db_inv_def index_ok_def active_apps_def demo_db_def empty_db_def)
  from scoped_writes_move_lane [OF this, where b = "''a''"]
  have "lane (snd (release_scheduled_deployment ''1'' ?s)) ''a'' = lane_move ''1'' Scheduled Queued (lane ?s ''a'')"
    by simp
  then show ?thesis by (simp add: lane_def is_active_def)
qed

section \<open>Pruning\<close>

lemma prune_deployments_eq:
  assumes "\<not> db_fault s (db_calls s)" and "0 < k"
  shows "d_id ` set (deployments (snd (prune_deployments k s)))
    = d_id ` {d \<in> set (deployments s). \<not> prunable (nat k) (deployments s) d}"
  using assms by (auto simp: prune_deployments_def db_call_def Let_def image_image)

lemma keep_ids_newest:
  "d \<in> set (take n (newest_first (filter (\<lambda>d. d_app d = a) rows))) \<Longrightarrow> d_id d \<in> set (keep_ids n rows)"
proof -
  assume d: "d \<in> set (take n (newest_first (filter (\<lambda>d. d_app d = a) rows)))"
  then have "a \<in> set (map d_app rows)"
    by (auto simp: newest_first_def dest!: in_set_takeD)
  with d show ?thesis by (auto simp: keep_ids_def)
qed

lemma keep_ids_running:
  "d \<in> set (take 1 (newest_first (filter (\<lambda>d. d_app d = a \<and> d_status d = Running) rows))) \<Longrightarrow>
   d_id d \<in> set (keep_ids n rows)"
proof -
  assume d: "d \<in> set (take 1 (newest_first (filter (\<lambda>d. d_app d = a \<and> d_status d = Running) rows)))"
  then have "a \<in> set (map d_app rows)"
    by (auto simp: newest_first_def dest!: in_set_takeD)
  with d show ?thesis by (auto simp: keep_ids_def)
qed

lemma newest_first_take:
  assumes "d \<in> set rows" and "d \<notin> set (take n (newest_first rows))"
    and "e \<in> set (take n (newest_first rows))"
  shows "d_triggered_at d \<le> d_triggered_at e"
proof -
  have "d \<in> set (drop n (newest_first rows))"
    using assms(1,2) by (metis Un_iff append_take_drop_id newest_first_def set_append set_sort)
  moreover have "sorted (map (\<lambda>d. - d_triggered_at d) (take n (newest_first rows) @ drop n (newest_first rows)))"
    by (simp add: newest_first_def)
  ultimately show ?thesis
    using assms(3) unfolding map_append sorted_append by fastforce
qed

text \<open>
  Pruning keeps what a rollback needs. With a positive limit and a database that answers,
  an in-progress row is never deleted; a row is deleted only if the limit's number of other rows
  of the same app, none of them older, is kept; and the newest running deployment of every app
  survives, so that an app with a running row never loses its rollback target.
\<close>

theorem prune_keeps_history:
  assumes "db_inv s" and "\<not> db_fault s (db_calls s)" and "0 < k" and "d \<in> set (deployments s)"
  defines "left \<equiv> d_id ` set (deployments (snd (prune_deployments k s)))"
  shows "(in_progress (d_status d) \<longrightarrow> d_id d \<in> left)
    \<and> (d_id d \<notin> left \<longrightarrow> (\<exists>ks. length ks = nat k \<and> distinct (map d_id ks)
         \<and> (\<forall>e\<in>set ks. e \<in> set (deployments s) \<and> d_id e \<in> left \<and> d_app e = d_app d
              \<and> d_triggered_at d \<le> d_triggered_at e)))
    \<and> (d_status d = Running \<longrightarrow> (\<exists>e\<in>set (deployments s). d_id e \<in> left \<and> d_app e = d_app d
         \<and> d_status e = Running \<and> d_triggered_at d \<le> d_triggered_at e))"
proof -
  let ?rows = "deployments s"
  let ?F = "filter (\<lambda>e. d_app e = d_app d) ?rows"
  let ?R = "filter (\<lambda>e. d_app e = d_app d \<and> d_status e = Running) ?rows"
  have ok: "index_ok ?rows" using assms(1) by (simp add: db_inv_def)
  have left: "left = d_id ` {e \<in> set ?rows. \<not> prunable (nat k) ?rows e}"
    unfolding left_def by (rule prune_deployments_eq [OF assms(2,3)])
  have kept: "d_id e \<in> left" if "e \<in> set ?rows" "d_id e \<in> set (keep_ids (nat k) ?rows)" for e
    using that by (auto simp: left prunable_def)
  have gone: "prunable (nat k) ?rows d" if "d_id d \<notin> left"
    using that assms(4) by (auto simp: left)
  have sub: "set (newest_first ds) = set ds" for ds by (simp add: newest_first_def)
  have "\<exists>ks. length ks = nat k \<and> distinct (map d_id ks)
         \<and> (\<forall>e\<in>set ks. e \<in> set ?rows \<and> d_id e \<in> left \<and> d_app e = d_app d
              \<and> d_triggered_at d \<le> d_triggered_at e)" if "d_id d \<notin> left"
  proof (intro exI conjI ballI)
    let ?ks = "take (nat k) (newest_first ?F)"
    have nd: "d \<notin> set ?ks" using gone [OF that] keep_ids_newest by (auto simp: prunable_def)
    moreover have "d \<in> set (newest_first ?F)" using assms(4) sub by simp
    ultimately show "length ?ks = nat k" by (metis length_take linorder_not_less min.absorb2 nless_le take_all)
    have "distinct (map d_id (newest_first ?F))"
      using ok distinct_map_filter [of d_id ?rows] by (simp add: index_ok_def newest_first_def distinct_map)
    then show "distinct (map d_id ?ks)" by (simp add: take_map distinct_take flip: take_map)
    fix e assume e: "e \<in> set ?ks"
    then have "e \<in> set ?F" using sub by (auto dest: in_set_takeD)
    then show "e \<in> set ?rows" "d_app e = d_app d" by auto
    then show "d_id e \<in> left" using kept keep_ids_newest [OF e] by blast
    show "d_triggered_at d \<le> d_triggered_at e"
      using newest_first_take [OF _ nd e] assms(4) by simp
  qed
  moreover have "\<exists>e\<in>set ?rows. d_id e \<in> left \<and> d_app e = d_app d \<and> d_status e = Running
      \<and> d_triggered_at d \<le> d_triggered_at e" if r: "d_status d = Running"
  proof -
    have d: "d \<in> set ?R" using r assms(4) by simp
    then obtain e es where es: "newest_first ?R = e # es"
      using sub by (metis list.exhaust list.set_cases empty_iff empty_set)
    then have e: "e \<in> set (take 1 (newest_first ?R))" "e \<in> set ?R" using sub [of ?R] by auto
    have "d_triggered_at d \<le> d_triggered_at e"
      using newest_first_take [OF d _ e(1)] es by (cases "d = e") auto
    then show ?thesis using e kept keep_ids_running [OF e(1)] by auto
  qed
  moreover have "in_progress (d_status d) \<longrightarrow> d_id d \<in> left"
    using assms(4) by (auto simp: left prunable_def)
  ultimately show ?thesis by blast
qed

definition prune_demo :: db where
  "prune_demo = demo_db\<lparr>deployments :=
     [new_deployment ''1'' ''a'' Running 1 [] None None None,
      new_deployment ''2'' ''a'' Errored 2 [] None None None,
      new_deployment ''3'' ''a'' Errored 3 [] None None None]\<rparr>"

theorem prune_keeps_history_witness:
  "\<exists>e\<in>set (deployments prune_demo). d_id e \<in> d_id ` set (deployments (snd (prune_deployments 1 prune_demo)))
     \<and> d_status e = Running"
proof -
  have "db_inv prune_demo" "\<not> db_fault prune_demo (db_calls prune_demo)"
    "new_deployment ''1'' ''a'' Running 1 [] None None None \<in> set (deployments prune_demo)"
    by (simp_all add: prune_demo_def demo_db_def empty_db_def db_inv_def index_ok_def active_apps_def is_active_def)
  from prune_keeps_history [OF this(1,2) _ this(3), of 1] show ?thesis
    by (auto simp del: prune_demo_def)
qed

text \<open>
  The query behind the webhook's coalescing check sees fewer rows than the index. For an app
  whose only non-terminal deployment is parked (scheduled, or waiting for approval),
  HasActiveDeployment reports false, ListActiveDeployments omits the row, and yet every further
  deployment of the app is refused.
\<close>

theorem parked_deploy_invisible:
  assumes "db_inv s" and "\<And>n. \<not> db_fault s n" and "d \<in> set (deployments s)"
    and "d_status d = Scheduled \<or> d_status d = PendingApproval" and "d_app d \<in> a_id ` set (apps s)"
    and "i \<notin> d_id ` set (deployments s)"
  shows "fst (has_active_deployment (d_app d) s) = Inr False
    \<and> (\<forall>x\<in>set (case fst (list_active_deployments s) of Inr l \<Rightarrow> l). d_app (fst x) \<noteq> d_app d)
    \<and> fst (create_deployment i (d_app d) by r s) = Inl ErrActiveDeploymentExists"
proof -
  have ok: "index_ok (deployments s)" using assms(1) by (simp add: db_inv_def)
  have act: "is_active (d_status d)" "\<not> in_progress (d_status d)"
    using assms(4) by (auto simp: is_active_def in_progress_def)
  have other: "\<not> in_progress (d_status e)" if "e \<in> set (deployments s)" "d_app e = d_app d" for e
    using active_unique [OF ok that(1) assms(3) that(2)] act
    by (auto simp: is_active_def in_progress_def)
  then have "fst (has_active_deployment (d_app d) s) = Inr False"
    using assms(2) by (auto simp: has_active_deployment_def db_call_def list_ex_iff Let_def)
  moreover have "\<forall>x\<in>set (case fst (list_active_deployments s) of Inr l \<Rightarrow> l). d_app (fst x) \<noteq> d_app d"
    using assms(2) other
    by (auto simp: list_active_deployments_def db_call_def Let_def split: option.splits)
  moreover have "fst (create_deployment i (d_app d) by r s) = Inl ErrActiveDeploymentExists"
    using create_busy [OF assms(1) _ assms(5,6) _ assms(3), of Queued "by" r] assms(2) act
    by (simp add: create_deployment_queued is_active_def)
  ultimately show ?thesis by blast
qed

theorem parked_deploy_invisible_witness:
  "fst (has_active_deployment ''a'' (demo_db\<lparr>deployments := [new_deployment ''1'' ''a'' Scheduled 0 [] None None None]\<rparr>))
     = Inr False
   \<and> fst (create_deployment ''2'' ''a'' [] None
        (demo_db\<lparr>deployments := [new_deployment ''1'' ''a'' Scheduled 0 [] None None None]\<rparr>))
     = Inl ErrActiveDeploymentExists"
proof -
  let ?d = "new_deployment ''1'' ''a'' Scheduled 0 [] None None None"
  let ?s = "demo_db\<lparr>deployments := [?d]\<rparr>"
  have "db_inv ?s" "\<And>n. \<not> db_fault ?s n" "?d \<in> set (deployments ?s)"
    "d_status ?d = Scheduled \<or> d_status ?d = PendingApproval" "d_app ?d \<in> a_id ` set (apps ?s)"
    "''2'' \<notin> d_id ` set (deployments ?s)"
    by (simp_all add: db_inv_def index_ok_def active_apps_def demo_db_def empty_db_def maint_app_def)
  from parked_deploy_invisible [OF this, of "[]" None] show ?thesis by simp
qed

end
