(* ===== verification/Deploy_Worker.thy ===== *)
theory Deploy_Worker
  imports Deployment_Store
begin

text \<open>
  The deploy worker: api/internal/deploy/worker.go. A bounded queue of deployment identifiers is
  drained by a fixed pool of goroutines; each running deployment has its own cancellable context,
  registered in the map inflight. Goroutines interleave freely: the pool is a labelled step
  relation, and the methods called from outside are functions on the worker state. The change
  notifications are counted; logging is left out.
\<close>

section \<open>State\<close>

text \<open>\<open>wk_idle\<close> counts the goroutines waiting in their loop, \<open>wk_running\<close> lists the ones inside
  process with the number of their context; \<open>wk_canceled\<close> holds the contexts whose cancel
  function was called.\<close>

record worker =
  wk_queue :: "string list"
  wk_capacity :: nat
  wk_concurrency :: nat
  wk_inflight :: "string \<rightharpoonup> nat"
  wk_idle :: nat
  wk_running :: "(string \<times> nat) list"
  wk_canceled :: "nat list"
  wk_next_ctx :: nat
  wk_published :: nat
  wk_stopped :: bool

datatype worker_err = ErrQueueFull | ErrEnqueueOther

definition max_concurrency :: int where
  "max_concurrency = 8"

text \<open>clampConcurrency.\<close>

definition clamp_concurrency :: "int \<Rightarrow> int" where
  "clamp_concurrency n = (if n < 1 then 1 else if n > max_concurrency then max_concurrency else n)"

text \<open>NewWorker, and Start with its pool of waiting goroutines.\<close>

definition new_worker :: "int \<Rightarrow> int \<Rightarrow> worker" where
  "new_worker capacity concurrency =
     (let capacity' = (if capacity \<le> 0 then 32 else capacity)
      in \<lparr>wk_queue = [], wk_capacity = nat capacity', wk_concurrency = nat (clamp_concurrency concurrency),
          wk_inflight = Map.empty, wk_idle = 0, wk_running = [], wk_canceled = [], wk_next_ctx = 0,
          wk_published = 0, wk_stopped = False\<rparr>)"

definition start_worker :: "worker \<Rightarrow> worker" where
  "start_worker w = w\<lparr>wk_idle := wk_concurrency w\<rparr>"

text \<open>Start first settles the rows a prior process left behind; the outcome of the sweep is only
  logged.\<close>

definition boot_sweep :: "unit dbop" where
  "boot_sweep = ignore mark_in_progress_interrupted"

section \<open>Methods\<close>

definition publish_changed :: "worker \<Rightarrow> worker" where
  "publish_changed w = w\<lparr>wk_published := Suc (wk_published w)\<rparr>"

text \<open>Enqueue: a non-blocking send.\<close>

definition enqueue :: "string \<Rightarrow> (worker, worker_err, unit) sem" where
  "enqueue i = (\<lambda>w. if length (wk_queue w) < wk_capacity w
     then (Inr (), publish_changed (w\<lparr>wk_queue := wk_queue w @ [i]\<rparr>))
     else (Inl ErrQueueFull, w))"

text \<open>Cancel: reports whether the deployment was running here.\<close>

definition cancel_deploy :: "string \<Rightarrow> (worker, worker_err, bool) sem" where
  "cancel_deploy i = (\<lambda>w. case wk_inflight w i of
     None \<Rightarrow> (Inr False, w)
   | Some c \<Rightarrow> (Inr True, w\<lparr>wk_canceled := c # wk_canceled w\<rparr>))"

definition notify_changed :: "(worker, worker_err, unit) sem" where
  "notify_changed = act publish_changed"

text \<open>The two halves of process: registering the cancel function of a fresh context, and the
  deferred clean-up.\<close>

definition process_begin :: "string \<Rightarrow> worker \<Rightarrow> worker" where
  "process_begin i w = w\<lparr>wk_inflight := (wk_inflight w)(i \<mapsto> wk_next_ctx w),
     wk_running := wk_running w @ [(i, wk_next_ctx w)], wk_next_ctx := Suc (wk_next_ctx w)\<rparr>"

definition process_end :: "string \<Rightarrow> nat \<Rightarrow> worker \<Rightarrow> worker" where
  "process_end i c w = publish_changed (w\<lparr>wk_inflight := (wk_inflight w)(i := None),
     wk_running := remove1 (i, c) (wk_running w), wk_canceled := c # wk_canceled w\<rparr>)"

text \<open>The context of a deployment is dead when its cancel function was called or the process is
  shutting down.\<close>

definition ctx_dead :: "worker \<Rightarrow> nat \<Rightarrow> bool" where
  "ctx_dead w c = (wk_stopped w \<or> c \<in> set (wk_canceled w))"

text \<open>handlePanic: what the recovered panic of a deployment does to its row.\<close>

definition handle_panic :: "string \<Rightarrow> string \<Rightarrow> unit dbop" where
  "handle_panic i r = ignore (mark_deployment_finished i Errored
     (Some (''deploy aborted: internal panic ('' @ r @ '')'')))"

section \<open>The pool\<close>

datatype wevent = WEnqueue string | WStart string | WFinish string nat | WCancel string | WStop | WExit

inductive worker_step :: "worker \<Rightarrow> wevent \<Rightarrow> worker \<Rightarrow> bool" where
  ws_enqueue: "enqueue i w = (Inr (), w') \<Longrightarrow> worker_step w (WEnqueue i) w'"
| ws_start: "0 < wk_idle w \<Longrightarrow> wk_queue w = i # q \<Longrightarrow>
     worker_step w (WStart i) (process_begin i (w\<lparr>wk_queue := q, wk_idle := wk_idle w - 1\<rparr>))"
| ws_finish: "(i, c) \<in> set (wk_running w) \<Longrightarrow>
     worker_step w (WFinish i c) ((process_end i c w)\<lparr>wk_idle := Suc (wk_idle w)\<rparr>)"
| ws_cancel: "cancel_deploy i w = (Inr b, w') \<Longrightarrow> worker_step w (WCancel i) w'"
| ws_stop: "worker_step w WStop (w\<lparr>wk_stopped := True\<rparr>)"
| ws_exit: "0 < wk_idle w \<Longrightarrow> wk_stopped w \<Longrightarrow> worker_step w WExit (w\<lparr>wk_idle := wk_idle w - 1\<rparr>)"

inductive worker_run :: "worker \<Rightarrow> wevent list \<Rightarrow> worker \<Rightarrow> bool" where
  wr_nil: "worker_run w [] w"
| wr_snoc: "worker_run w tr w' \<Longrightarrow> worker_step w' e w'' \<Longrightarrow> worker_run w (tr @ [e]) w''"

inductive_cases worker_stepE: "worker_step w e w'"

text \<open>The identifiers accepted by Enqueue and the ones taken up by the pool, in order.\<close>

definition accepted :: "wevent list \<Rightarrow> string list" where
  "accepted tr = concat (map (\<lambda>e. case e of WEnqueue i \<Rightarrow> [i] | _ \<Rightarrow> []) tr)"

definition started :: "wevent list \<Rightarrow> string list" where
  "started tr = concat (map (\<lambda>e. case e of WStart i \<Rightarrow> [i] | _ \<Rightarrow> []) tr)"

definition worker_inv :: "worker \<Rightarrow> bool" where
  "worker_inv w \<longleftrightarrow>
     wk_idle w + length (wk_running w) \<le> wk_concurrency w
     \<and> length (wk_queue w) \<le> wk_capacity w
     \<and> distinct (map snd (wk_running w))
     \<and> (\<forall>(i, c)\<in>set (wk_running w). c < wk_next_ctx w)
     \<and> (\<forall>i c. wk_inflight w i = Some c \<longrightarrow> (i, c) \<in> set (wk_running w))"

lemma publish_changed_simps [simp]:
  "wk_queue (publish_changed w) = wk_queue w" "wk_capacity (publish_changed w) = wk_capacity w"
  "wk_concurrency (publish_changed w) = wk_concurrency w" "wk_inflight (publish_changed w) = wk_inflight w"
  "wk_idle (publish_changed w) = wk_idle w" "wk_running (publish_changed w) = wk_running w"
  "wk_canceled (publish_changed w) = wk_canceled w" "wk_next_ctx (publish_changed w) = wk_next_ctx w"
  "wk_stopped (publish_changed w) = wk_stopped w"
  by (simp_all add: publish_changed_def)

lemma worker_step_inv: "worker_step w e w' \<Longrightarrow> worker_inv w \<Longrightarrow> worker_inv w'"
proof (induction rule: worker_step.induct)
  case (ws_enqueue i w w')
  then show ?case by (auto simp: enqueue_def worker_inv_def split: if_splits)
next
  case (ws_start w i q)
  then show ?case by (auto simp: worker_inv_def process_begin_def)
next
  case (ws_finish i c w)
  have "distinct (map snd (remove1 (i, c) (wk_running w)))"
    using ws_finish(2) by (auto simp: worker_inv_def distinct_map distinct_remove1 inj_on_def dest: in_set_remove1 notin_set_remove1)
  moreover have "(j, d) \<in> set (remove1 (i, c) (wk_running w))" if "(j, d) \<in> set (wk_running w)" "j \<noteq> i" for j d
    using that by simp
  moreover have "Suc (length (remove1 (i, c) (wk_running w))) = length (wk_running w)"
    using ws_finish(1) length_pos_if_in_set [OF ws_finish(1)] by (simp add: length_remove1)
  ultimately show ?case
    using ws_finish by (auto simp: worker_inv_def process_end_def simp del: length_remove1 dest: notin_set_remove1)
next
  case (ws_cancel i w b w')
  then show ?case by (auto simp: cancel_deploy_def worker_inv_def split: option.splits)
next
  case (ws_stop w)
  then show ?case by (simp add: worker_inv_def)
next
  case (ws_exit w)
  then show ?case by (auto simp: worker_inv_def)
qed

lemma worker_run_inv: "worker_run w tr w' \<Longrightarrow> worker_inv w \<Longrightarrow> worker_inv w'"
  by (induction rule: worker_run.induct) (auto intro: worker_step_inv)

lemma worker_step_const:
  "worker_step w e w' \<Longrightarrow> wk_capacity w' = wk_capacity w \<and> wk_concurrency w' = wk_concurrency w"
  by (induction rule: worker_step.induct)
    (auto simp: enqueue_def process_begin_def process_end_def cancel_deploy_def split: if_splits option.splits)

lemma worker_run_const:
  "worker_run w tr w' \<Longrightarrow> wk_capacity w' = wk_capacity w \<and> wk_concurrency w' = wk_concurrency w"
  by (induction rule: worker_run.induct) (auto dest: worker_step_const)

lemma worker_step_fifo:
  "worker_step w e w' \<Longrightarrow> started [e] @ wk_queue w' = wk_queue w @ accepted [e]"
  by (induction rule: worker_step.induct)
    (auto simp: started_def accepted_def enqueue_def process_begin_def process_end_def cancel_deploy_def
      split: if_splits option.splits)

lemma worker_run_fifo: "worker_run w tr w' \<Longrightarrow> started tr @ wk_queue w' = wk_queue w @ accepted tr"
proof (induction rule: worker_run.induct)
  case (wr_nil w)
  then show ?case by (simp add: started_def accepted_def)
next
  case (wr_snoc w tr w' e w'')
  have "started (tr @ [e]) = started tr @ started [e]" "accepted (tr @ [e]) = accepted tr @ accepted [e]"
    by (simp_all add: started_def accepted_def)
  with wr_snoc.IH worker_step_fifo [OF wr_snoc.hyps(2)] show ?case
    by (metis append.assoc)
qed

lemma start_worker_inv: "worker_inv (start_worker (new_worker cap conc))"
  by (simp add: worker_inv_def start_worker_def new_worker_def Let_def)

section \<open>The enqueuer interface\<close>

text \<open>
  What the handlers and the window sweeper use of the worker (the Go interfaces
  DeploymentEnqueuer and WindowEnqueuer): an accepted identifier is appended to the pending
  ones, and a refusal leaves them as they were.
\<close>

locale enqueuer =
  fixes enq :: "string \<Rightarrow> ('w, 'e, unit) sem"
    and pending :: "'w \<Rightarrow> string list"
  assumes enq_accepts: "enq i w = (Inr (), w') \<Longrightarrow> pending w' = pending w @ [i]"
    and enq_refuses: "enq i w = (Inl e, w') \<Longrightarrow> pending w' = pending w"
begin

lemma pending_mono: "set (pending w) \<subseteq> set (pending (snd (enq i w)))"
  by (cases "enq i w"; cases "fst (enq i w)") (auto dest: enq_accepts enq_refuses)

lemma pending_iff_accepted:
  "i \<notin> set (pending w) \<Longrightarrow> i \<in> set (pending (snd (enq i w))) \<longleftrightarrow> fst (enq i w) = Inr ()"
  by (cases "enq i w"; cases "fst (enq i w)") (auto dest: enq_accepts enq_refuses)

end

interpretation wq: enqueuer enqueue wk_queue
  by unfold_locales (auto simp: enqueue_def split: if_splits)

section \<open>Properties\<close>

text \<open>
  C30: the pool. In every interleaving of enqueues, pool goroutines, cancels and shutdown, at most
  the clamped concurrency (between 1 and 8) of deployments run at once, the queue never exceeds
  its capacity, and deployments are taken up first in, first out: the started identifiers
  followed by the queued ones are the accepted ones, in order.
\<close>

theorem worker_pool_bounded_fifo:
  assumes "worker_run (start_worker (new_worker cap conc)) tr w"
  shows "length (wk_running w) \<le> nat (clamp_concurrency conc)
    \<and> 1 \<le> clamp_concurrency conc \<and> clamp_concurrency conc \<le> 8
    \<and> length (wk_queue w) \<le> (if cap \<le> 0 then 32 else nat cap)
    \<and> started tr @ wk_queue w = accepted tr"
proof -
  have "worker_inv w" by (rule worker_run_inv [OF assms start_worker_inv])
  moreover have "wk_capacity w = (if cap \<le> 0 then 32 else nat cap)"
    "wk_concurrency w = nat (clamp_concurrency conc)"
    using worker_run_const [OF assms] by (auto simp: start_worker_def new_worker_def Let_def)
  moreover have "started tr @ wk_queue w = accepted tr"
    using worker_run_fifo [OF assms] by (simp add: start_worker_def new_worker_def Let_def)
  ultimately show ?thesis
    by (auto simp: worker_inv_def clamp_concurrency_def max_concurrency_def)
qed

theorem worker_pool_bounded_fifo_witness:
  "\<exists>tr w. worker_run (start_worker (new_worker 0 1)) tr w \<and> started tr = [''d1'']
     \<and> started tr @ wk_queue w = accepted tr"
proof -
  let ?w0 = "start_worker (new_worker 0 1)"
  let ?w1 = "snd (enqueue ''d1'' ?w0)"
  have e: "enqueue ''d1'' ?w0 = (Inr (), ?w1)"
    by (simp add: enqueue_def start_worker_def new_worker_def)
  have q: "wk_queue ?w1 = ''d1'' # []" "0 < wk_idle ?w1"
    by (simp_all add: enqueue_def start_worker_def new_worker_def clamp_concurrency_def max_concurrency_def)
  have r: "worker_run ?w0 ([] @ [WEnqueue ''d1''] @ [WStart ''d1''])
      (process_begin ''d1'' (?w1\<lparr>wk_queue := [], wk_idle := wk_idle ?w1 - 1\<rparr>))"
    unfolding append.assoc [symmetric]
    by (rule wr_snoc, rule wr_snoc [OF wr_nil ws_enqueue [OF e]], rule ws_start [OF q(2,1)])
  show ?thesis
    by (rule exI [of _ "[] @ [WEnqueue ''d1''] @ [WStart ''d1'']"], rule exI, rule conjI [OF r])
      (use worker_pool_bounded_fifo [OF r] in \<open>simp add: started_def\<close>)
qed

text \<open>
  Cancelling is targeted. In every reachable state of the pool, Cancel reports true only for a
  deployment that is running, and then kills the context of that deployment alone: every other
  running deployment keeps its context as it was; otherwise Cancel changes nothing.
\<close>

theorem cancel_targets_one_deploy:
  assumes "worker_run (start_worker (new_worker cap conc)) tr w"
    and "cancel_deploy i w = (Inr hit, w')"
  shows "if hit then (\<exists>c. (i, c) \<in> set (wk_running w) \<and> ctx_dead w' c
             \<and> (\<forall>(j, d)\<in>set (wk_running w). (j, d) \<noteq> (i, c) \<longrightarrow> ctx_dead w' d = ctx_dead w d))
         else w' = w"
proof -
  have inv: "worker_inv w" by (rule worker_run_inv [OF assms(1) start_worker_inv])
  show ?thesis
  proof (cases "wk_inflight w i")
    case None
    then show ?thesis using assms(2) by (simp add: cancel_deploy_def)
  next
    case (Some c)
    then have run: "(i, c) \<in> set (wk_running w)" using inv by (simp add: worker_inv_def)
    have "inj_on snd (set (wk_running w))" using inv by (simp add: worker_inv_def distinct_map)
    then have "d \<noteq> c" if "(j, d) \<in> set (wk_running w)" "(j, d) \<noteq> (i, c)" for j d
      using that run inj_onD [of snd "set (wk_running w)" "(j, d)" "(i, c)"] by auto
    then have "\<forall>(j, d)\<in>set (wk_running w). (j, d) \<noteq> (i, c) \<longrightarrow> d \<noteq> c" by auto
    moreover have w': "hit" "w' = w\<lparr>wk_canceled := c # wk_canceled w\<rparr>"
      using Some assms(2) by (auto simp: cancel_deploy_def)
    ultimately have "\<forall>(j, d)\<in>set (wk_running w). (j, d) \<noteq> (i, c) \<longrightarrow> ctx_dead w' d = ctx_dead w d"
      by (fastforce simp: ctx_dead_def)
    moreover have "ctx_dead w' c" using w' by (simp add: ctx_dead_def)
    ultimately show ?thesis using w'(1) run by auto
  qed
qed

theorem cancel_targets_one_deploy_witness:
  "cancel_deploy ''x'' (start_worker (new_worker 4 2)) = (Inr False, start_worker (new_worker 4 2))"
proof -
  let ?w = "start_worker (new_worker 4 2)"
  have c: "cancel_deploy ''x'' ?w = (Inr False, snd (cancel_deploy ''x'' ?w))"
    by (simp add: cancel_deploy_def start_worker_def new_worker_def)
  from cancel_targets_one_deploy [OF wr_nil c] have "snd (cancel_deploy ''x'' ?w) = ?w" by simp
  with c show ?thesis by simp
qed

lemma ball_map_if:
  "(\<And>x. p x \<Longrightarrow> Q (f x)) \<Longrightarrow> (\<And>x. \<not> p x \<Longrightarrow> Q x) \<Longrightarrow> \<forall>x\<in>set (map (\<lambda>x. if p x then f x else x) xs). Q x"
  by (induction xs) auto

lemma mark_finished_eq:
  assumes "db_inv s" and "\<not> db_fault s (db_calls s)" and "d \<in> set (deployments s)"
    and "d_id d = i" and "is_terminal st"
  shows "mark_deployment_finished i st e s = (Inr (), s\<lparr>db_calls := Suc (db_calls s),
    deployments := map (\<lambda>d. if d_id d = i
      then d\<lparr>d_status := st, d_error := coalesce e (d_error d), d_finished_at := Some (db_now s)\<rparr>
      else d) (deployments s)\<rparr>)"
proof -
  let ?f = "\<lambda>d. d\<lparr>d_status := st, d_error := coalesce e (d_error d), d_finished_at := Some (db_now s)\<rparr>"
  let ?rows = "map (\<lambda>d. if d_id d = i then ?f d else d) (deployments s)"
  have ok: "index_ok (deployments s)" using assms(1) by (simp add: db_inv_def)
  have inact: "\<not> is_active st" using assms(5) by (cases st) (auto simp: is_terminal_def is_active_def)
  have apps: "active_apps (map (\<lambda>d. if d_id d = i then ?f d else d) ds)
      = active_apps (filter (\<lambda>d. d_id d \<noteq> i) ds)" for ds
    using inact by (induction ds) (auto simp: active_apps_def)
  have ids: "map d_id (map (\<lambda>d. if d_id d = i then ?f d else d) ds) = map d_id ds" for ds
    by (induction ds) simp_all
  have "index_ok (filter (\<lambda>d. d_id d \<noteq> i) (deployments s))" by (rule index_ok_filter [OF ok])
  then have okr: "index_ok ?rows"
    using ok unfolding index_ok_def apps ids by blast
  have ne: "filter (\<lambda>d. d_id d = i) (deployments s) \<noteq> []"
    using assms(3,4) by (auto simp: filter_empty_conv)
  show ?thesis
    using assms(2) okr ne
    by (simp add: mark_deployment_finished_def or_not_found_def update_deployments_def db_call_def
        sem_defs Let_def)
qed

lemma mark_finished_lane:
  assumes "db_inv s" and "\<not> db_fault s (db_calls s)" and "d \<in> set (deployments s)"
    and "d_id d = i" and "is_terminal st"
  shows "\<forall>d\<in>set (deployments (snd (mark_deployment_finished i st e s))). d_id d = i \<longrightarrow> d_status d = st"
proof -
  let ?f = "\<lambda>d. d\<lparr>d_status := st, d_error := coalesce e (d_error d), d_finished_at := Some (db_now s)\<rparr>"
  have "\<forall>d\<in>set (map (\<lambda>d. if d_id d = i then ?f d else d) (deployments s)). d_id d = i \<longrightarrow> d_status d = st"
    by (rule ball_map_if) simp_all
  moreover have rows: "deployments (snd (mark_deployment_finished i st e s))
      = map (\<lambda>d. if d_id d = i then ?f d else d) (deployments s)"
    unfolding mark_finished_eq [OF assms] by (simp del: set_map)
  ultimately show ?thesis unfolding rows by blast
qed

text \<open>
  A panic never wedges an app. When the pipeline of a deployment panics and the database
  answers, the recovery settles the deployment's row as an error, so that its app can deploy
  again.
\<close>

theorem panic_frees_lane:
  assumes "db_inv s" and "\<not> db_fault s (db_calls s)" and "d \<in> set (deployments s)"
    and "is_active (d_status d)"
  shows "lane (snd (handle_panic (d_id d) r s)) (d_app d) = None"
proof -
  let ?t = "snd (handle_panic (d_id d) r s)"
  have ok: "index_ok (deployments s)" using assms(1) by (simp add: db_inv_def)
  have t: "?t = snd (mark_deployment_finished (d_id d) Errored (Some (''deploy aborted: internal panic ('' @ r @ '')'')) s)"
    by (simp add: handle_panic_def ignore_def)
  have inv: "db_inv ?t" unfolding t by (rule db_inv_snd [OF keeps_row_ops(7) assms(1)])
  have fin: "e \<in> set (deployments ?t) \<Longrightarrow> d_id e = d_id d \<Longrightarrow> d_status e = Errored" for e
    using mark_finished_lane [OF assms(1-3) refl, of Errored] unfolding t by (auto simp: is_terminal_def)
  have origin: "\<exists>c\<in>set (deployments s). e = c \<or> d_id e = d_id d \<and> d_id c = d_id d" if "e \<in> set (deployments ?t)" for e
    using that unfolding t
    by (auto simp: mark_deployment_finished_def or_not_found_def update_deployments_def db_call_def
        sem_defs Let_def split: if_splits prod.splits)
  have "lane ?t (d_app d) \<noteq> Some (j, st)" for j st
  proof
    assume "lane ?t (d_app d) = Some (j, st)"
    then obtain e where e: "e \<in> set (deployments ?t)" "d_app e = d_app d" "is_active (d_status e)"
      using inv by (auto simp: lane_Some db_inv_def)
    then have ne: "d_id e \<noteq> d_id d" using fin by (auto simp: is_active_def)
    with origin [OF e(1)] have "e \<in> set (deployments s)" by auto
    with active_unique [OF ok _ assms(3) e(2) e(3) assms(4)] ne show False by auto
  qed
  then show ?thesis by (metis not_None_eq prod.collapse)
qed

theorem panic_frees_lane_witness:
  "lane (snd (handle_panic ''1'' ''nil map''
      (demo_db\<lparr>deployments := [new_deployment ''1'' ''a'' Building 0 [] None None None]\<rparr>))) ''a'' = None"
proof -
  let ?d = "new_deployment ''1'' ''a'' Building 0 [] None None None"
  let ?s = "demo_db\<lparr>deployments := [?d]\<rparr>"
  have "db_inv ?s" "\<not> db_fault ?s (db_calls ?s)" "?d \<in> set (deployments ?s)" "is_active (d_status ?d)"
    by (simp_all add: db_inv_def index_ok_def active_apps_def demo_db_def empty_db_def is_active_def)
  from panic_frees_lane [OF this] show ?thesis by simp
qed

end
