(* ===== verification/Webhook_Match.thy ===== *)
theory Webhook_Match
  imports VAC_Prelude
begin

text \<open>
  The decision of an inbound Git webhook: api/internal/webhook/webhook.go. A delivery is
  authenticated against the app's secret, its ref is classified, and the ref is matched with the
  app's deploy triggers. The HMAC-SHA256 function and the JSON decoders of the two payload
  structs are parameters; hexadecimal decoding, ref parsing and glob matching are defined here.
\<close>

section \<open>Refs\<close>

datatype event = EvPush | EvTag | EvManual | EvPreview

definition refs_heads :: string where "refs_heads = ''refs/heads/''"
definition refs_tags :: string where "refs_tags = ''refs/tags/''"

text \<open>ParseRef.\<close>

definition parse_ref :: "string \<Rightarrow> event \<times> string" where
  "parse_ref ref =
     (if has_prefix ref refs_heads then (EvPush, trim_prefix ref refs_heads)
      else if has_prefix ref refs_tags then (EvTag, trim_prefix ref refs_tags)
      else (EvPush, ref))"

section \<open>Globs\<close>

text \<open>
  globMatch translates the glob, character by character, to an anchored regular expression: a
  star to dot star, a question mark to a dot, every other character to itself quoted. The pieces
  of that expression are the constructors; the dot of Go's regexp package does not match a
  newline.
\<close>

datatype piece = DotStar | Dot | Lit char

fun glob_piece :: "char \<Rightarrow> piece" where
  "glob_piece r = (if r = CHR ''*'' then DotStar else if r = CHR ''?'' then Dot else Lit r)"

definition compile_glob :: "string \<Rightarrow> piece list" where
  "compile_glob pattern = map glob_piece pattern"

abbreviation newline :: char where "newline \<equiv> CHR 0x0A"

text \<open>Matching of the anchored expression.\<close>

fun re_match :: "piece list \<Rightarrow> string \<Rightarrow> bool" where
  "re_match [] s = (s = [])"
| "re_match (Lit c # ps) [] = False"
| "re_match (Lit c # ps) (x # xs) = (x = c \<and> re_match ps xs)"
| "re_match (Dot # ps) [] = False"
| "re_match (Dot # ps) (x # xs) = (x \<noteq> newline \<and> re_match ps xs)"
| "re_match (DotStar # ps) [] = re_match ps []"
| "re_match (DotStar # ps) (x # xs) = (re_match ps (x # xs) \<or> (x \<noteq> newline \<and> re_match (DotStar # ps) xs))"

definition glob_match :: "string \<Rightarrow> string \<Rightarrow> bool" where
  "glob_match pattern s = re_match (compile_glob pattern) s"

section \<open>Triggers\<close>

record trigger =
  t_id :: string
  t_app :: string
  t_event :: event
  t_filter :: string
  t_require_approval :: bool

text \<open>MatchTriggers and MatchingTrigger.\<close>

fun match_triggers :: "trigger list \<Rightarrow> event \<Rightarrow> string \<Rightarrow> bool" where
  "match_triggers [] kind name = False"
| "match_triggers (t # ts) kind name =
     (if t_event t \<noteq> kind then match_triggers ts kind name
      else if t_filter t = [] \<or> glob_match (t_filter t) name then True
      else match_triggers ts kind name)"

fun matching_trigger :: "trigger list \<Rightarrow> event \<Rightarrow> string \<Rightarrow> trigger option" where
  "matching_trigger [] kind name = None"
| "matching_trigger (t # ts) kind name =
     (if t_event t \<noteq> kind then matching_trigger ts kind name
      else if t_filter t = [] \<or> glob_match (t_filter t) name then Some t
      else matching_trigger ts kind name)"

section \<open>Payloads\<close>

text \<open>isAllZeroSHA and IsBranchDelete. \<open>decode\<close> is the JSON decoding of the two fields
  "after" and "deleted", None when it fails.\<close>

definition is_all_zero_sha :: "string \<Rightarrow> bool" where
  "is_all_zero_sha s = (if s = [] then False else list_all (\<lambda>c. c = CHR ''0'') s)"

definition is_branch_delete :: "(string \<Rightarrow> (string \<times> bool) option) \<Rightarrow> string \<Rightarrow> bool" where
  "is_branch_delete decode body =
     (if body = [] then False
      else (case decode body of
              None \<Rightarrow> False
            | Some (after, deleted) \<Rightarrow> if deleted then True else is_all_zero_sha after))"

text \<open>ExtractRef: the decoded "ref" field (empty when the body does not decode), or else the
  query parameter; None is ErrNoRef.\<close>

definition extract_ref :: "(string \<Rightarrow> string) \<Rightarrow> string \<Rightarrow> string \<Rightarrow> string option" where
  "extract_ref decode_ref query_ref body =
     (let p = (if body \<noteq> [] then decode_ref body else [])
      in if p \<noteq> [] then Some p
         else if query_ref \<noteq> [] then Some query_ref
         else None)"

section \<open>Authentication\<close>

record headers =
  hub_signature :: string   \<comment> \<open>X-Hub-Signature-256\<close>
  gitlab_token :: string    \<comment> \<open>X-Gitlab-Token\<close>
  vac_token :: string       \<comment> \<open>X-VAC-Token\<close>

definition hex_val :: "char \<Rightarrow> nat option" where
  "hex_val c = (let n = (of_char c :: nat)
     in if 48 \<le> n \<and> n \<le> 57 then Some (n - 48)
        else if 97 \<le> n \<and> n \<le> 102 then Some (n - 87)
        else if 65 \<le> n \<and> n \<le> 70 then Some (n - 55)
        else None)"

text \<open>hex.DecodeString: an odd length or a foreign character is an error.\<close>

fun hex_decode :: "string \<Rightarrow> string option" where
  "hex_decode [] = Some []"
| "hex_decode [c] = None"
| "hex_decode (a # b # s) =
     (case (hex_val a, hex_val b, hex_decode s) of
        (Some x, Some y, Some r) \<Rightarrow> Some (char_of (16 * x + y) # r)
      | _ \<Rightarrow> None)"

text \<open>hex.EncodeToString.\<close>

definition hex_encode :: "string \<Rightarrow> string" where
  "hex_encode s = concat (map (\<lambda>c. [hex_digit ((of_char c :: nat) div 16), hex_digit ((of_char c :: nat) mod 16)]) s)"

definition sha_prefix :: string where "sha_prefix = ''sha256=''"

text \<open>verifyGitHub, constEq and Verify. \<open>hmac\<close> is HMAC-SHA256, key first.\<close>

definition verify_github ::
  "(string \<Rightarrow> string \<Rightarrow> string) \<Rightarrow> string \<Rightarrow> string \<Rightarrow> string \<Rightarrow> bool" where
  "verify_github hmac secret body sigHeader =
     (if \<not> has_prefix sigHeader sha_prefix then False
      else (case hex_decode (trim_prefix sigHeader sha_prefix) of
              None \<Rightarrow> False
            | Some want \<Rightarrow> want = hmac secret body))"

definition const_eq :: "string \<Rightarrow> string \<Rightarrow> bool" where
  "const_eq a b = (a = b)"

definition verify_delivery ::
  "(string \<Rightarrow> string \<Rightarrow> string) \<Rightarrow> string \<Rightarrow> string \<Rightarrow> headers \<Rightarrow> bool" where
  "verify_delivery hmac secret body r =
     (if hub_signature r \<noteq> [] then verify_github hmac secret body (hub_signature r)
      else if gitlab_token r \<noteq> [] then const_eq (gitlab_token r) secret
      else vac_token r \<noteq> [] \<and> const_eq (vac_token r) secret)"

section \<open>Lemmas\<close>

text \<open>The language of a glob as a relation: the specification of the matcher.\<close>

inductive glob_lang :: "string \<Rightarrow> string \<Rightarrow> bool" where
  gl_nil: "glob_lang [] []"
| gl_star: "newline \<notin> set u \<Longrightarrow> glob_lang p s \<Longrightarrow> glob_lang (CHR ''*'' # p) (u @ s)"
| gl_any: "x \<noteq> newline \<Longrightarrow> glob_lang p s \<Longrightarrow> glob_lang (CHR ''?'' # p) (x # s)"
| gl_lit: "c \<noteq> CHR ''*'' \<Longrightarrow> c \<noteq> CHR ''?'' \<Longrightarrow> glob_lang p s \<Longrightarrow> glob_lang (c # p) (c # s)"

inductive_cases glob_lang_NilE: "glob_lang [] s"
inductive_cases glob_lang_ConsE: "glob_lang (c # p) s"

lemma re_match_star: "re_match (DotStar # ps) s \<longleftrightarrow> (\<exists>u v. s = u @ v \<and> newline \<notin> set u \<and> re_match ps v)"
proof (induction s)
  case Nil
  show ?case by simp
next
  case (Cons x xs)
  show ?case
  proof
    assume "re_match (DotStar # ps) (x # xs)"
    then show "\<exists>u v. x # xs = u @ v \<and> newline \<notin> set u \<and> re_match ps v"
      using Cons
      by (metis append_Cons append_Nil empty_iff list.set(1) re_match.simps(7) set_ConsD)
  next
    assume "\<exists>u v. x # xs = u @ v \<and> newline \<notin> set u \<and> re_match ps v"
    then obtain u v where u: "x # xs = u @ v" "newline \<notin> set u" "re_match ps v" by blast
    then show "re_match (DotStar # ps) (x # xs)"
      using Cons by (cases u) auto
  qed
qed

lemma glob_match_Nil: "glob_match [] s \<longleftrightarrow> s = []"
  by (simp add: glob_match_def compile_glob_def)

lemma glob_match_star:
  "glob_match (CHR ''*'' # p) s \<longleftrightarrow> (\<exists>u v. s = u @ v \<and> newline \<notin> set u \<and> glob_match p v)"
  by (simp add: glob_match_def compile_glob_def re_match_star)

lemma glob_match_any:
  "glob_match (CHR ''?'' # p) s \<longleftrightarrow> (\<exists>x v. s = x # v \<and> x \<noteq> newline \<and> glob_match p v)"
  by (cases s) (simp_all add: glob_match_def compile_glob_def)

lemma glob_match_lit:
  "c \<noteq> CHR ''*'' \<Longrightarrow> c \<noteq> CHR ''?'' \<Longrightarrow>
   glob_match (c # p) s \<longleftrightarrow> (\<exists>v. s = c # v \<and> glob_match p v)"
  by (cases s) (auto simp: glob_match_def compile_glob_def)

lemma glob_match_lang: "glob_match p s \<longleftrightarrow> glob_lang p s"
proof (induction p arbitrary: s)
  case Nil
  show ?case by (auto simp: glob_match_Nil intro: gl_nil elim: glob_lang_NilE)
next
  case (Cons c p)
  consider "c = CHR ''*''" | "c = CHR ''?''" | "c \<noteq> CHR ''*''" "c \<noteq> CHR ''?''" by blast
  then show ?case
  proof cases
    case 1
    then show ?thesis
      by (auto simp: glob_match_star Cons intro: gl_star elim!: glob_lang_ConsE)
  next
    case 2
    then show ?thesis
      by (auto simp: glob_match_any Cons intro: gl_any elim!: glob_lang_ConsE)
  next
    case 3
    then show ?thesis
      by (auto simp: glob_match_lit Cons intro: gl_lit elim!: glob_lang_ConsE)
  qed
qed

lemma matching_trigger_Some:
  "matching_trigger ts kind name = Some t \<Longrightarrow>
   t \<in> set ts \<and> t_event t = kind \<and> (t_filter t = [] \<or> glob_match (t_filter t) name)"
  by (induction ts) (auto split: if_splits)

lemma matching_trigger_None:
  "matching_trigger ts kind name = None \<longleftrightarrow>
   (\<forall>t\<in>set ts. t_event t = kind \<longrightarrow> t_filter t \<noteq> [] \<and> \<not> glob_match (t_filter t) name)"
  by (induction ts) auto

lemma match_triggers_iff:
  "match_triggers ts kind name \<longleftrightarrow> matching_trigger ts kind name \<noteq> None"
  by (induction ts) auto

lemma hex_val_digit: "n < 16 \<Longrightarrow> hex_val (hex_digit n) = Some n"
  by (auto simp: hex_val_def hex_digit_def Let_def)

lemma hex_decode_encode: "hex_decode (hex_encode s) = Some s"
proof (induction s)
  case Nil
  show ?case by (simp add: hex_encode_def)
next
  case (Cons c s)
  have b: "(of_char c :: nat) < 256" by simp
  then have "(of_char c :: nat) div 16 < 16" by (simp only: less_mult_imp_div_less)
  moreover have "(of_char c :: nat) mod 16 < 16" by simp
  moreover have "16 * ((of_char c :: nat) div 16) + (of_char c :: nat) mod 16 = of_char c" by simp
  ultimately show ?case using Cons by (simp add: hex_encode_def hex_val_digit)
qed


text \<open>
  Authentication of a delivery. A GitHub delivery is accepted exactly when its signature
  header is the prefix sha256= followed by hexadecimal text that decodes to the HMAC of the body,
  and the canonical signature is accepted; the presence of that header decides alone, so a wrong
  signature is refused even next to a correct token; a token header is accepted only if it is the
  secret; a delivery without any credential is refused.
\<close>

theorem verify_delivery_decides:
  "verify_delivery hmac secret body
      \<lparr>hub_signature = sha_prefix @ hex_encode (hmac secret body), gitlab_token = g, vac_token = v\<rparr>
   \<and> (verify_delivery hmac secret body
        \<lparr>hub_signature = sha_prefix @ sig, gitlab_token = g, vac_token = v\<rparr>
      \<longleftrightarrow> hex_decode sig = Some (hmac secret body))
   \<and> \<not> (\<not> has_prefix (c # bad) sha_prefix \<and> verify_delivery hmac secret body
        \<lparr>hub_signature = c # bad, gitlab_token = g, vac_token = v\<rparr>)
   \<and> (verify_delivery hmac secret body \<lparr>hub_signature = [], gitlab_token = g, vac_token = v\<rparr>
      \<longleftrightarrow> (if g \<noteq> [] then g = secret else v \<noteq> [] \<and> v = secret))"
  by (auto simp: verify_delivery_def verify_github_def const_eq_def has_prefix_def trim_prefix_def
      sha_prefix_def hex_decode_encode split: option.splits)

text \<open>
  Classifying a ref inverts building it: a branch ref is a push of that branch and a tag ref
  a tag of that name, whatever the name; and a name without one of the two prefixes is taken as a
  branch unchanged.
\<close>

lemma parse_ref_roundtrip:
  "parse_ref (refs_heads @ name) = (EvPush, name)
   \<and> parse_ref (refs_tags @ name) = (EvTag, name)
   \<and> (has_prefix ref refs_heads \<or> has_prefix ref refs_tags \<or> parse_ref ref = (EvPush, ref))"
  by (simp add: parse_ref_def has_prefix_def trim_prefix_def refs_heads_def refs_tags_def)

end
