(* ===== verification/Deploy_Window.thy ===== *)
theory Deploy_Window
  imports Go_Time
begin

text \<open>
  Deploy windows: api/internal/webhook/deploywindow.go. A window is a set of weekdays with a
  start and an end time of day in a time zone; a window whose end is before its start runs past
  midnight. The decoding of the JSON column and the time zone database are parameters
  (\<open>unmarshal\<close> and \<open>load\<close>).
\<close>

record window =
  w_days :: "int list"
  w_start :: string
  w_end :: string
  w_tz :: string

text \<open>ParseWindows.\<close>

definition parse_windows ::
  "(string \<Rightarrow> string + window list) \<Rightarrow> string \<Rightarrow> string + window list" where
  "parse_windows unmarshal raw =
     (if raw = [] \<or> raw = ''null'' then Inr []
      else (case unmarshal raw of
              Inl err \<Rightarrow> Inl (''deploy window: '' @ err)
            | Inr ws \<Rightarrow> Inr ws))"

fun day_matches_loop :: "int list \<Rightarrow> int \<Rightarrow> bool" where
  "day_matches_loop [] day = False"
| "day_matches_loop (d # ds) day = (if d = day then True else day_matches_loop ds day)"

definition day_matches :: "int list \<Rightarrow> int \<Rightarrow> bool" where
  "day_matches days day = (if days = [] then True else day_matches_loop days day)"

text \<open>parseHM.\<close>

definition parse_hm :: "string \<Rightarrow> int \<times> bool" where
  "parse_hm s =
     (case cut_byte (CHR '':'') s of
        None \<Rightarrow> (0, False)
      | Some (h, m) \<Rightarrow>
          (let (hh, ok1) = atoi h; (mm, ok2) = atoi m
           in if \<not> ok1 \<or> \<not> ok2 \<or> hh < 0 \<or> hh > 23 \<or> mm < 0 \<or> mm > 59 then (0, False)
              else (hh * 60 + mm, True)))"

text \<open>Window.contains.\<close>

definition window_contains :: "(string \<Rightarrow> location option) \<Rightarrow> window \<Rightarrow> instant \<Rightarrow> bool" where
  "window_contains load w now =
     (let loc = (if w_tz w \<noteq> [] then (case load (w_tz w) of Some l \<Rightarrow> l | None \<Rightarrow> utc) else utc);
          (start, okStart) = parse_hm (w_start w);
          (fin, okEnd) = parse_hm (w_end w)
      in if \<not> okStart \<or> \<not> okEnd \<or> start = fin then False
         else (let mins = clock_hour loc now * 60 + clock_minute loc now;
                   today = weekday loc now
               in if start < fin then day_matches (w_days w) today \<and> mins \<ge> start \<and> mins < fin
                  else if mins \<ge> start then day_matches (w_days w) today
                  else if mins < fin
                    then day_matches (w_days w) (weekday loc (add_days loc now (- 1)))
                  else False))"

fun allows_loop :: "(string \<Rightarrow> location option) \<Rightarrow> instant \<Rightarrow> window list \<Rightarrow> bool" where
  "allows_loop load now [] = False"
| "allows_loop load now (w # ws) = (if window_contains load w now then True else allows_loop load now ws)"

text \<open>Allows.\<close>

definition allows :: "(string \<Rightarrow> location option) \<Rightarrow> instant \<Rightarrow> window list \<Rightarrow> bool" where
  "allows load now windows = (if windows = [] then True else allows_loop load now windows)"

fun bad_weekday :: "int list \<Rightarrow> int option" where
  "bad_weekday [] = None"
| "bad_weekday (d # ds) = (if d < 0 \<or> d > 6 then Some d else bad_weekday ds)"

text \<open>ValidateWindows: the message of the first problem, or None. \<open>i\<close> is the index of the first
  window of the list.\<close>

fun validate_windows_from ::
  "(string \<Rightarrow> location option) \<Rightarrow> nat \<Rightarrow> window list \<Rightarrow> string option" where
  "validate_windows_from load i [] = None"
| "validate_windows_from load i (w # ws) =
     (if \<not> snd (parse_hm (w_start w)) then
        Some (''window '' @ show_nat (i + 1) @ '': invalid start time '' @ quote_str (w_start w) @ '' (want HH:MM)'')
      else if \<not> snd (parse_hm (w_end w)) then
        Some (''window '' @ show_nat (i + 1) @ '': invalid end time '' @ quote_str (w_end w) @ '' (want HH:MM)'')
      else if w_start w = w_end w then
        Some (''window '' @ show_nat (i + 1) @ '': start and end are equal'')
      else (case bad_weekday (w_days w) of
              Some d \<Rightarrow> Some (''window '' @ show_nat (i + 1) @ '': invalid weekday '' @ show_int d @ '' (want 0-6)'')
            | None \<Rightarrow>
                if w_tz w \<noteq> [] \<and> load (w_tz w) = None then
                  Some (''window '' @ show_nat (i + 1) @ '': unknown timezone '' @ quote_str (w_tz w))
                else validate_windows_from load (i + 1) ws))"

definition validate_windows :: "(string \<Rightarrow> location option) \<Rightarrow> window list \<Rightarrow> string option" where
  "validate_windows load windows = validate_windows_from load 0 windows"

section \<open>Lemmas\<close>

lemma day_matches_iff: "day_matches days day \<longleftrightarrow> days = [] \<or> day \<in> set days"
proof -
  have "day_matches_loop ds day \<longleftrightarrow> day \<in> set ds" for ds
    by (induction ds) auto
  then show ?thesis by (simp add: day_matches_def)
qed

lemma allows_iff: "allows load now ws \<longleftrightarrow> ws = [] \<or> (\<exists>w\<in>set ws. window_contains load w now)"
proof -
  have "allows_loop load now vs \<longleftrightarrow> (\<exists>w\<in>set vs. window_contains load w now)" for vs
    by (induction vs) auto
  then show ?thesis by (simp add: allows_def)
qed

lemma parse_hm_range: "parse_hm s = (n, True) \<Longrightarrow> 0 \<le> n \<and> n < 1440"
  by (auto simp: parse_hm_def Let_def split: option.splits prod.splits if_splits)

lemma bad_weekday_None: "bad_weekday ds = None \<longleftrightarrow> (\<forall>d\<in>set ds. 0 \<le> d \<and> d \<le> 6)"
  by (induction ds) auto

lemma validate_windows_from_None:
  "validate_windows_from load i ws = None \<longleftrightarrow>
     (\<forall>w\<in>set ws. snd (parse_hm (w_start w)) \<and> snd (parse_hm (w_end w)) \<and> w_start w \<noteq> w_end w
        \<and> (\<forall>d\<in>set (w_days w). 0 \<le> d \<and> d \<le> 6) \<and> (w_tz w \<noteq> [] \<longrightarrow> load (w_tz w) \<noteq> None))"
  by (induction ws arbitrary: i)
    (auto simp: bad_weekday_None [symmetric] simp del: not_None_eq split: option.split)

lemmas validate_windows_None = validate_windows_from_None [of _ 0, folded validate_windows_def]

text \<open>
  What a window means: the union over the days it opens on of one interval of minutes, from its
  start to its end, the end falling on the next day when it is before the start. Minutes are
  counted from the epoch on the local clock.
\<close>

definition window_interval :: "window \<Rightarrow> int \<Rightarrow> int \<Rightarrow> bool" where
  "window_interval w m day =
     (day_matches (w_days w) (day_weekday day)
      \<and> day * 1440 + fst (parse_hm (w_start w)) \<le> m
      \<and> m < day * 1440 + fst (parse_hm (w_end w))
            + (if fst (parse_hm (w_end w)) < fst (parse_hm (w_start w)) then 1440 else 0))"

lemma window_interval_days:
  assumes s: "0 \<le> fst (parse_hm (w_start w))" "fst (parse_hm (w_start w)) < 1440"
    and e: "0 \<le> fst (parse_hm (w_end w))" "fst (parse_hm (w_end w)) < 1440"
    and i: "window_interval w m day"
  shows "day = m div 1440 \<or> day = m div 1440 - 1"
proof -
  have lo: "day * 1440 \<le> m" and hi: "m < day * 1440 + 2880"
    using s e i by (auto simp: window_interval_def split: if_splits)
  have "m = m div 1440 * 1440 + m mod 1440" "0 \<le> m mod 1440" "m mod 1440 < 1440" by simp_all
  with lo hi show ?thesis by linarith
qed

text \<open>The zone a window is read in, when its data base entry has one fixed offset.\<close>

definition window_zone :: "(string \<Rightarrow> location option) \<Rightarrow> window \<Rightarrow> location" where
  "window_zone load w =
     (if w_tz w \<noteq> [] then (case load (w_tz w) of Some l \<Rightarrow> l | None \<Rightarrow> utc) else utc)"

lemma window_contains_spec:
  assumes "snd (parse_hm (w_start w))" and "snd (parse_hm (w_end w))"
    and ne: "fst (parse_hm (w_start w)) \<noteq> fst (parse_hm (w_end w))"
    and zone: "window_zone load w = fixed_zone k"
  shows "window_contains load w now \<longleftrightarrow>
    (\<exists>day. window_interval w (local_sec (fixed_zone k) now div 60) day)"
proof -
  define m where "m = local_sec (fixed_zone k) now div 60"
  define d where "d = m div 1440"
  define r where "r = m mod 1440"
  obtain s where ps: "parse_hm (w_start w) = (s, True)" using assms(1) by (metis prod.collapse)
  obtain e where pe: "parse_hm (w_end w) = (e, True)" using assms(2) by (metis prod.collapse)
  have se: "0 \<le> s" "s < 1440" "0 \<le> e" "e < 1440" "s \<noteq> e"
    using parse_hm_range [OF ps] parse_hm_range [OF pe] ne ps pe by auto
  have m: "m = d * 1440 + r" and r: "0 \<le> r" "r < 1440"
    by (simp_all add: d_def r_def)
  have day: "local_day (fixed_zone k) now = d"
    using zdiv_zmult2_eq [of 1440 "local_sec (fixed_zone k) now" 60]
    by (simp add: local_day_def d_def m_def)
  have "window_contains load w now \<longleftrightarrow>
      (if s < e then day_matches (w_days w) (day_weekday d) \<and> s \<le> r \<and> r < e
       else if s \<le> r then day_matches (w_days w) (day_weekday d)
       else r < e \<and> day_matches (w_days w) (day_weekday (d - 1)))"
    using zone ps pe se
    by (simp add: window_contains_def window_zone_def [symmetric] clock_minutes m_def [symmetric]
        r_def [symmetric] local_day_add_days_fixed day weekday_def Let_def)
  also have "\<dots> \<longleftrightarrow> window_interval w m d \<or> window_interval w m (d - 1)"
    using se r unfolding window_interval_def ps pe m by auto
  also have "\<dots> \<longleftrightarrow> (\<exists>day. window_interval w m day)"
    using window_interval_days [of w m] ps pe se unfolding d_def by auto
  finally show ?thesis by (simp add: m_def)
qed

section \<open>Properties\<close>

lemma allows_nonempty:
  "ws \<noteq> [] \<Longrightarrow> allows load now ws \<longleftrightarrow> (\<exists>w\<in>set ws. window_contains load w now)"
  by (auto simp: allows_iff)

lemma parse_hm_snd: "snd (parse_hm s) \<Longrightarrow> 0 \<le> fst (parse_hm s) \<and> fst (parse_hm s) < 1440"
  using parse_hm_range [of s "fst (parse_hm s)"] by (metis prod.collapse)

text \<open>
  What a schedule allows. For a schedule whose windows have parseable, different start and end
  times and zones with a fixed offset, a deploy is allowed exactly when there is no window, or
  when the minute on the local clock lies in the interval that some window opens on some day: from
  the start time of a matching weekday to the end time, which falls on the next day when it is
  earlier than the start (the tail after midnight belongs to the day the window opened on).
\<close>

theorem schedule_allows_intervals:
  assumes "\<And>w. w \<in> set ws \<Longrightarrow> snd (parse_hm (w_start w)) \<and> snd (parse_hm (w_end w))
      \<and> fst (parse_hm (w_start w)) \<noteq> fst (parse_hm (w_end w)) \<and> window_zone load w = fixed_zone (off w)"
  shows "allows load now ws \<longleftrightarrow> ws = [] \<or>
    (\<exists>w\<in>set ws. \<exists>day. window_interval w (local_sec (fixed_zone (off w)) now div 60) day)"
proof -
  have "window_contains load w now \<longleftrightarrow> (\<exists>day. window_interval w (local_sec (fixed_zone (off w)) now div 60) day)"
    if "w \<in> set ws" for w
    using window_contains_spec [of w load "off w" now] assms [OF that] by blast
  then show ?thesis by (auto simp: allows_iff)
qed

text \<open>A window over midnight, on Fridays: open at one o'clock on Saturday.\<close>

theorem schedule_allows_intervals_witness:
  "allows (\<lambda>_. None) (90000 * second + 86400 * second)
     [\<lparr>w_days = [5], w_start = ''22:00'', w_end = ''02:00'', w_tz = []\<rparr>]"
proof -
  let ?w = "\<lparr>w_days = [5], w_start = ''22:00'', w_end = ''02:00'', w_tz = []\<rparr> :: window"
  have p: "parse_hm ''22:00'' = (1320, True)" "parse_hm ''02:00'' = (120, True)" by code_simp+
  have h: "\<And>w. w \<in> set [?w] \<Longrightarrow> snd (parse_hm (w_start w)) \<and> snd (parse_hm (w_end w))
      \<and> fst (parse_hm (w_start w)) \<noteq> fst (parse_hm (w_end w)) \<and> window_zone (\<lambda>_. None) w = fixed_zone 0"
    by (auto simp: p window_zone_def utc_fixed)
  have "window_interval ?w (local_sec (fixed_zone 0) (90000 * second + 86400 * second) div 60) 1"
    by (simp add: window_interval_def p local_sec_def fixed_zone_def unix_sec_def day_matches_iff day_weekday_def)
  then show ?thesis
    using schedule_allows_intervals [of "[?w]" "\<lambda>_. None" "\<lambda>_. 0" "90000 * second + 86400 * second", OF h]
    by auto
qed

text \<open>
  What validation accepts. ValidateWindows accepts a schedule exactly when every window has
  parseable times that differ as strings, weekdays in 0 to 6 and a loadable zone; the accepted
  times are minutes of the day, and the error of a rejected schedule names a window.
\<close>

theorem validate_windows_accepts:
  "(validate_windows load ws = None \<longleftrightarrow>
     list_all (\<lambda>w. snd (parse_hm (w_start w)) \<and> snd (parse_hm (w_end w)) \<and> w_start w \<noteq> w_end w
        \<and> list_all (\<lambda>d. 0 \<le> d \<and> d \<le> 6) (w_days w) \<and> (w_tz w = [] \<or> load (w_tz w) \<noteq> None)) ws)
   \<and> 0 \<le> fst (parse_hm s) \<and> fst (parse_hm s) < 1440"
proof -
  have "0 \<le> fst (parse_hm s) \<and> fst (parse_hm s) < 1440"
    by (cases "snd (parse_hm s)") (use parse_hm_snd in \<open>auto simp: parse_hm_def Let_def split: option.splits prod.splits if_splits\<close>)
  then show ?thesis by (auto simp: validate_windows_None list_all_iff)
qed

theorem validate_windows_accepts_witness:
  "validate_windows (\<lambda>_. Some utc) [\<lparr>w_days = [1], w_start = ''09:00'', w_end = ''17:00'', w_tz = ''UTC''\<rparr>] = None
   \<and> fst (parse_hm ''09:00'') = 540"
proof -
  have p: "parse_hm ''09:00'' = (540, True)" "parse_hm ''17:00'' = (1020, True)" by code_simp+
  show ?thesis
    using validate_windows_accepts [where load = "\<lambda>_. Some utc" and s = "''09:00''"
        and ws = "[\<lparr>w_days = [1], w_start = ''09:00'', w_end = ''17:00'', w_tz = ''UTC''\<rparr>]"]
    by (simp add: p)
qed

text \<open>
  A schedule that validates can be shut forever. The check for equal times compares the
  strings, the matching code the parsed minutes: a window from 9:00 to 09:00 passes validation and
  yet never contains any instant, so that a schedule of this window alone never allows a deploy
  and every push stays parked.
\<close>

theorem validated_window_never_open:
  "validate_windows load [\<lparr>w_days = [], w_start = ''9:00'', w_end = ''09:00'', w_tz = []\<rparr>] = None
   \<and> \<not> allows load now [\<lparr>w_days = [], w_start = ''9:00'', w_end = ''09:00'', w_tz = []\<rparr>]"
proof -
  have p: "parse_hm ''9:00'' = (540, True)" "parse_hm ''09:00'' = (540, True)" by code_simp+
  show ?thesis by (simp add: validate_windows_None allows_iff window_contains_def p Let_def)
qed

end
