(* ===== verification/Api_System.thy ===== *)
theory Api_System
  imports Deploy_Worker Webhook_Match Deploy_Window
begin

text \<open>
  The state the HTTP handlers and the window sweeper share: the database, the deploy worker, the
  deploy triggers and the audit trail. The second half states the contract of the recurring
  pattern "enqueue a queued row, and settle the row when the worker refuses it".
\<close>

section \<open>State\<close>

datatype audit_entry =
    AuditAction string string "(string \<times> string) list"   \<comment> \<open>SetTarget's app, Action's name and details\<close>
  | AuditWebhook string string int                          \<comment> \<open>app, summary, status\<close>

record api =
  y_db :: db
  y_worker :: worker
  y_triggers :: "trigger list"
  y_audit :: "audit_entry list"

definition on_db :: "'a dbop \<Rightarrow> (api, store_err, 'a) sem" where
  "on_db m = (\<lambda>y. case m (y_db y) of (r, s) \<Rightarrow> (r, y\<lparr>y_db := s\<rparr>))"

definition on_worker :: "(worker, worker_err, 'a) sem \<Rightarrow> (api, worker_err, 'a) sem" where
  "on_worker m = (\<lambda>y. case m (y_worker y) of (r, w) \<Rightarrow> (r, y\<lparr>y_worker := w\<rparr>))"

definition audit :: "audit_entry \<Rightarrow> (api, 'e, unit) sem" where
  "audit e = act (\<lambda>y. y\<lparr>y_audit := y_audit y @ [e]\<rparr>)"

text \<open>store.ListDeployTriggers; the rows are kept in creation order.\<close>

definition list_deploy_triggers :: "string \<Rightarrow> (api, store_err, trigger list) sem" where
  "list_deploy_triggers app = (\<lambda>y. on_db (db_call (\<lambda>s.
     (Inr (filter (\<lambda>t. t_app t = app) (y_triggers y)), s))) y)"

section \<open>Queued rows and the worker\<close>

text \<open>The identifiers of the queued rows, and the ones the worker has in its queue or in its
  pool. A queued row that the worker does not have blocks its app until the reaper finds it.\<close>

definition queued_ids :: "api \<Rightarrow> string set" where
  "queued_ids y = d_id ` {d \<in> set (deployments (y_db y)). d_status d = Queued}"

definition pending_ids :: "api \<Rightarrow> string list" where
  "pending_ids y = wk_queue (y_worker y)"

definition running_ids :: "api \<Rightarrow> string list" where
  "running_ids y = map fst (wk_running (y_worker y))"

definition unstranded :: "api \<Rightarrow> bool" where
  "unstranded y = (\<forall>d\<in>set (deployments (y_db y)). d_status d = Queued \<longrightarrow>
     d_id d \<in> set (pending_ids y) \<union> set (running_ids y))"

text \<open>The table satisfies its index, and the database answers.\<close>

definition healthy :: "api \<Rightarrow> bool" where
  "healthy y = (db_inv (y_db y) \<and> db_fault (y_db y) = (\<lambda>_. False))"

lemma unstranded_iff: "unstranded y \<longleftrightarrow> queued_ids y \<subseteq> set (pending_ids y) \<union> set (running_ids y)"
  by (auto simp: unstranded_def queued_ids_def)

section \<open>Enqueue or settle\<close>

definition enqueue_or ::
  "('s, 'e, unit) sem \<Rightarrow> ('s, 'f, unit) sem \<Rightarrow> ('e \<Rightarrow> 'r) \<Rightarrow> ('s, 'r, unit) sem" where
  "enqueue_or enq settle refuse = and_then (attempt enq) (\<lambda>r. case r of
     Inl e \<Rightarrow> and_then (ignore settle) (\<lambda>_. throw (refuse e))
   | Inr _ \<Rightarrow> ret ())"

text \<open>
  The contract: a worker that takes or refuses identifiers, and a store operation that takes a
  row out of the status queued. Client code that has queued one row and then runs
  \<open>enqueue_or\<close> leaves no queued row that the worker does not have.
\<close>

locale lane_settler = enqueuer enq pending
  for enq :: "string \<Rightarrow> ('s, 'e, unit) sem" and pending :: "'s \<Rightarrow> string list" +
  fixes settle :: "string \<Rightarrow> ('s, 'f, unit) sem"
    and queued :: "'s \<Rightarrow> string set"
    and held :: "'s \<Rightarrow> string set"
    and ok :: "'s \<Rightarrow> bool"
    and own :: "string \<Rightarrow> 's \<Rightarrow> bool"
  assumes enq_frame: "queued (snd (enq i s)) = queued s" "held (snd (enq i s)) = held s"
      "ok (snd (enq i s)) = ok s" "own j (snd (enq i s)) = own j s"
    and settle_drops: "ok s \<Longrightarrow> own i s \<Longrightarrow> queued (snd (settle i s)) \<subseteq> queued s - {i}"
    and settle_ok: "ok s \<Longrightarrow> ok (snd (settle i s))"
    and settle_frame: "pending (snd (settle i s)) = pending s" "held (snd (settle i s)) = held s"
begin

lemma enqueue_or_covers:
  assumes "ok s" and "own i s" and "queued s \<subseteq> insert i (set (pending s) \<union> held s)"
    and "enqueue_or (enq i) (settle i) g s = (r, s')"
  shows "ok s' \<and> queued s' \<subseteq> set (pending s') \<union> held s'"
proof (cases "enq i s")
  case (Pair x t)
  have t: "queued t = queued s" "held t = held s" "ok t" "own i t"
    using enq_frame [where i = i and s = s] assms(1,2) Pair by simp_all
  show ?thesis
  proof (cases x)
    case (Inl e)
    then have "s' = snd (settle i t)"
      using assms(4) Pair by (simp add: enqueue_or_def sem_defs)
    moreover have "pending t = pending s" using enq_refuses Pair Inl by blast
    ultimately show ?thesis
      using settle_drops [OF t(3,4)] settle_ok [OF t(3), of i] settle_frame [of i t] t assms(3) by auto
  next
    case (Inr u)
    then have "s' = t" using assms(4) Pair by (simp add: enqueue_or_def sem_defs)
    moreover have "pending t = pending s @ [i]" using enq_accepts Pair Inr by simp
    ultimately show ?thesis using t assms(3) by auto
  qed
qed

lemma enqueue_or_triple:
  "triple (\<lambda>s. ok s \<and> own i s \<and> queued s \<subseteq> insert i (set (pending s) \<union> held s)) (enqueue_or (enq i) (settle i) g)
     (\<lambda>_ s. ok s \<and> queued s \<subseteq> set (pending s) \<union> held s)
     (\<lambda>_ s. ok s \<and> queued s \<subseteq> set (pending s) \<union> held s)"
  unfolding triple_def by (clarsimp split: prod.splits sum.splits) (meson enqueue_or_covers)

end

section \<open>The store operations on the queued rows\<close>

text \<open>Operations keep the fault oracle of the database.\<close>

definition faults :: "(nat \<Rightarrow> bool) \<Rightarrow> db \<Rightarrow> bool" where
  "faults F s = (db_fault s = F)"

lemma call_stable_faults [simp]: "call_stable (faults F)"
  by (simp add: call_stable_def faults_def)

lemma keeps_faults_statements [vac_wp]:
  "keeps (faults F) (insert_deployment d)" "keeps (faults F) (update_deployments p f)"
  "keeps (faults F) (update_returning p g)" "keeps (faults F) (update_apps q h)"
  unfolding insert_deployment_def update_deployments_def update_returning_def update_apps_def
  by (rule keeps_db_call; simp add: keeps_def faults_def Let_def split: option.split)+

lemma keeps_faults [vac_wp]:
  "keeps (faults F) (create_deployment i a t r)" "keeps (faults F) (create_deployment_with_status i a t st r)"
  "keeps (faults F) (create_rollback_deployment i a src)"
  "keeps (faults F) (release_scheduled_deployment i)" "keeps (faults F) (unqueue_scheduled i)"
  "keeps (faults F) (unqueue_approval a i)" "keeps (faults F) (fail_queued_deployment i m)"
  "keeps (faults F) (mark_deployment_finished i st e)"
  "keeps (faults F) (approve_deployment a i)" "keeps (faults F) (reject_deployment a i)"
  "keeps (faults F) (set_app_status a ss)"
  unfolding insert_ops row_ops returning_ops set_app_status_def Let_def
  by (intro vac_wp call_stable_faults)+

text \<open>The queued rows of a table, and what the statements do to them.\<close>

definition queued_of :: "deployment list \<Rightarrow> string set" where
  "queued_of rows = d_id ` {d \<in> set rows. d_status d = Queued}"

lemma queued_ids_of: "queued_ids y = queued_of (deployments (y_db y))"
  by (simp add: queued_ids_def queued_of_def)

lemma queued_of_map_if:
  assumes "\<And>d. p d \<Longrightarrow> d_id (f d) = d_id d \<and> d_status (f d) \<noteq> Queued"
  shows "queued_of (map (\<lambda>d. if p d then f d else d) rows) \<subseteq> queued_of rows"
  using assms by (induction rows) (auto simp: queued_of_def)

lemma queued_after_update:
  assumes "\<And>d. p d \<Longrightarrow> d_id (f d) = d_id d \<and> d_status (f d) \<noteq> Queued"
  shows "queued_of (deployments (snd (update_deployments p f s))) \<subseteq> queued_of (deployments s)"
  using queued_of_map_if [of p f, OF assms]
  by (auto simp: update_deployments_def db_call_def Let_def)

text \<open>Taking a row out of the status queued, on a database that answers.\<close>

lemma queued_of_drop:
  assumes "index_ok rows" and "\<And>d. p d \<longleftrightarrow> d_id d = i \<and> d_status d = Queued \<and> q (d_app d)"
    and "\<And>d. d \<in> set rows \<Longrightarrow> d_id d = i \<Longrightarrow> d_status d = Queued \<Longrightarrow> q (d_app d)"
    and "\<And>d. d_id (f d) = d_id d \<and> d_status (f d) \<noteq> Queued"
  shows "queued_of (map (\<lambda>d. if p d then f d else d) rows) \<subseteq> queued_of rows - {i}"
proof
  fix x
  assume "x \<in> queued_of (map (\<lambda>d. if p d then f d else d) rows)"
  then obtain d where d: "d \<in> set rows" "x = d_id (if p d then f d else d)"
    "d_status (if p d then f d else d) = Queued"
    unfolding queued_of_def set_map by blast
  then have "\<not> p d" using assms(4) [of d] by (auto split: if_splits)
  then show "x \<in> queued_of rows - {i}"
    using d assms(2) [of d] assms(3) [of d] unfolding queued_of_def by (simp only: if_False) blast
qed

lemma settle_row_drops:
  assumes "db_inv s" and "db_fault s = (\<lambda>_. False)" and "\<And>d. p d \<longleftrightarrow> d_id d = i \<and> d_status d = Queued \<and> q (d_app d)"
    and "\<And>d. d \<in> set (deployments s) \<Longrightarrow> d_id d = i \<Longrightarrow> d_status d = Queued \<Longrightarrow> q (d_app d)"
    and "\<And>d. d_id (f d) = d_id d \<and> d_app (f d) = d_app d \<and> d_status (f d) \<noteq> Queued"
  shows "queued_of (deployments (snd (update_deployments p f s))) \<subseteq> queued_of (deployments s) - {i}"
proof -
  have act: "\<And>d. p d \<Longrightarrow> is_active (d_status d)" using assms(3) by (simp add: is_active_def)
  have upd: "deployments (snd (update_deployments p f s)) = map (\<lambda>d. if p d then f d else d) (deployments s)"
    using update_active_ok [OF assms(1) _ act] assms(2,5) by simp
  have "index_ok (deployments s)" using assms(1) by (simp add: db_inv_def)
  then have "queued_of (map (\<lambda>d. if p d then f d else d) (deployments s)) \<subseteq> queued_of (deployments s) - {i}"
    by (rule queued_of_drop [OF _ assms(3,4)]) (use assms(5) in blast)+
  then show ?thesis unfolding upd .
qed

lemma healthy_on_db:
  "keeps db_inv m \<Longrightarrow> keeps (faults (\<lambda>_. False)) m \<Longrightarrow> healthy y \<Longrightarrow> healthy (snd (on_db m y))"
  by (auto simp: healthy_def on_db_def keeps_def faults_def split: prod.splits)

lemma on_db_frame [simp]:
  "y_worker (snd (on_db m y)) = y_worker y" "y_db (snd (on_db m y)) = snd (m (y_db y))"
  "pending_ids (snd (on_db m y)) = pending_ids y" "running_ids (snd (on_db m y)) = running_ids y"
  "fst (on_db m y) = fst (m (y_db y))"
  by (simp_all add: on_db_def pending_ids_def running_ids_def split: prod.split)

lemma on_enqueue_frame [simp]:
  "y_db (snd (on_worker (enqueue i) y)) = y_db y"
  "running_ids (snd (on_worker (enqueue i) y)) = running_ids y"
  by (simp_all add: on_worker_def enqueue_def running_ids_def)

text \<open>The row of an identifier, if any, belongs to the app.\<close>

definition owned_by :: "string \<Rightarrow> string \<Rightarrow> api \<Rightarrow> bool" where
  "owned_by a i y = list_all (\<lambda>d. d_id d = i \<longrightarrow> d_app d = a) (deployments (y_db y))"

lemma enqueue_cases:
  "on_worker (enqueue i) y = (Inr (), y') \<Longrightarrow> pending_ids y' = pending_ids y @ [i]"
  "on_worker (enqueue i) y = (Inl e, y') \<Longrightarrow> pending_ids y' = pending_ids y"
  by (auto simp: on_worker_def pending_ids_def enqueue_def split: if_splits)

interpretation fail_refused: lane_settler "\<lambda>i. on_worker (enqueue i)" pending_ids
    "\<lambda>i. on_db (fail_queued_deployment i m)" queued_ids "\<lambda>y. set (running_ids y)" healthy "\<lambda>_ _. True" for m
proof (unfold_locales; (rule healthy_on_db)?)
  fix y i
  assume "healthy y"
  then show "queued_ids (snd (on_db (fail_queued_deployment i m) y)) \<subseteq> queued_ids y - {i}"
    by (simp add: queued_ids_of fail_queued_deployment_def snd_reads snd_and_then_ret)
      (rule settle_row_drops [where q = "\<lambda>_. True"]; simp add: healthy_def)
qed (auto simp: queued_ids_of healthy_def intro: vac_wp enqueue_cases)

interpretation repark_refused: lane_settler "\<lambda>i. on_worker (enqueue i)" pending_ids
    "\<lambda>i. on_db (unqueue_scheduled i)" queued_ids "\<lambda>y. set (running_ids y)" healthy "\<lambda>_ _. True"
proof (unfold_locales; (rule healthy_on_db)?)
  fix y i
  assume "healthy y"
  then show "queued_ids (snd (on_db (unqueue_scheduled i) y)) \<subseteq> queued_ids y - {i}"
    by (simp add: queued_ids_of unqueue_scheduled_def snd_and_then_ret)
      (rule settle_row_drops [where q = "\<lambda>_. True"]; simp add: healthy_def)
qed (auto simp: queued_ids_of healthy_def intro: vac_wp enqueue_cases)

interpretation reapprove_refused: lane_settler "\<lambda>i. on_worker (enqueue i)" pending_ids
    "\<lambda>i. on_db (unqueue_approval a i)" queued_ids "\<lambda>y. set (running_ids y)" healthy "owned_by a" for a
proof (unfold_locales; (rule healthy_on_db)?)
  fix y i
  assume "healthy y" and "owned_by a i y"
  then show "queued_ids (snd (on_db (unqueue_approval a i) y)) \<subseteq> queued_ids y - {i}"
    by (simp add: queued_ids_of unqueue_approval_def snd_and_then_ret)
      (rule settle_row_drops [where q = "\<lambda>b. b = a"]; auto simp: healthy_def owned_by_def list_all_iff)
qed (auto simp: queued_ids_of healthy_def owned_by_def intro: vac_wp enqueue_cases)

text \<open>A small concrete state: one app with one deployment row, and a started worker.\<close>

definition demo_api :: "dstatus \<Rightarrow> int \<Rightarrow> api" where
  "demo_api st capacity = \<lparr>
     y_db = demo_db\<lparr>deployments := [new_deployment ''1'' ''a'' st 0 triggered_push None None None]\<rparr>,
     y_worker = start_worker (new_worker capacity 1), y_triggers = [], y_audit = []\<rparr>"

lemma healthy_demo: "healthy (demo_api st c)"
  by (simp add: healthy_def demo_api_def db_inv_def index_ok_def active_apps_def demo_db_def empty_db_def)

lemma unstranded_demo: "st \<noteq> Queued \<Longrightarrow> unstranded (demo_api st c)"
  by (simp add: unstranded_def demo_api_def)

end
