(* ===== verification/Window_Sweeper.thy ===== *)
theory Window_Sweeper
  imports Api_System
begin

text \<open>
  The deploy-window sweeper: api/internal/deploy/window_sweeper.go. One sweep releases the parked
  deployments whose window is open and gives them to the worker; a refused one is parked again.
  The clock reading, the time-zone database and the JSON decoding of the stored windows are
  arguments. Run repeats the sweep on a ticker.
\<close>

definition sweep_one ::
  "(string \<Rightarrow> location option) \<Rightarrow> (string \<Rightarrow> string + window list) \<Rightarrow> instant \<Rightarrow> scheduled_deploy
   \<Rightarrow> (api, unit, unit) sem" where
  "sweep_one load unmarshal now d =
     (case parse_windows unmarshal (sd_window d) of
        Inl _ \<Rightarrow> ret ()
      | Inr windows \<Rightarrow>
          if \<not> allows load now windows then ret ()
          else and_then (attempt (on_db (release_scheduled_deployment (sd_deployment d)))) (\<lambda>r.
            case r of
              Inl _ \<Rightarrow> ret ()
            | Inr _ \<Rightarrow> ignore (enqueue_or (on_worker (enqueue (sd_deployment d)))
                         (on_db (unqueue_scheduled (sd_deployment d))) (\<lambda>_. ()))))"

definition sweep ::
  "(string \<Rightarrow> location option) \<Rightarrow> (string \<Rightarrow> string + window list) \<Rightarrow> instant \<Rightarrow> (api, unit, unit) sem" where
  "sweep load unmarshal now = and_then (attempt (on_db list_scheduled_deployments)) (\<lambda>r.
     case r of
       Inl _ \<Rightarrow> ret ()
     | Inr parked \<Rightarrow> for_each parked (sweep_one load unmarshal now))"

text \<open>Run: one sweep at the start and one per tick.\<close>

definition run_sweeper ::
  "(string \<Rightarrow> location option) \<Rightarrow> (string \<Rightarrow> string + window list) \<Rightarrow> instant list \<Rightarrow> (api, unit, unit) sem" where
  "run_sweeper load unmarshal ticks = for_each ticks (sweep load unmarshal)"

section \<open>No stranded row\<close>

lemma release_queues:
  "queued_of (deployments (snd (release_scheduled_deployment i s))) \<subseteq> insert i (queued_of (deployments s))"
  by (auto simp: release_scheduled_deployment_def snd_or_not_found update_deployments_def db_call_def
      Let_def queued_of_def)

lemma release_refused:
  assumes "db_inv s" and "db_fault s = (\<lambda>_. False)" and "fst (release_scheduled_deployment i s) = Inl e"
  shows "deployments (snd (release_scheduled_deployment i s)) = deployments s"
proof -
  let ?p = "\<lambda>d. d_id d = i \<and> d_status d = Scheduled"
  let ?f = "\<lambda>d. d\<lparr>d_status := Queued\<rparr>"
  have upd: "update_deployments ?p ?f s = (Inr (length (filter ?p (deployments s))),
      s\<lparr>deployments := map (\<lambda>d. if ?p d then ?f d else d) (deployments s), db_calls := Suc (db_calls s)\<rparr>)"
    by (rule update_active_ok) (use assms(1,2) in \<open>simp_all add: is_active_def\<close>)
  then have "filter ?p (deployments s) = []"
    using assms(3) by (simp add: release_scheduled_deployment_def or_not_found_def sem_defs split: if_splits)
  then have "map (\<lambda>d. if ?p d then ?f d else d) (deployments s) = deployments s"
    by (intro map_idI) (simp add: filter_empty_conv)
  then show ?thesis
    using upd by (simp add: release_scheduled_deployment_def snd_or_not_found)
qed

lemma sweep_one_closed:
  "\<not> (\<exists>ws. parse_windows unmarshal (sd_window d) = Inr ws \<and> allows load now ws) \<Longrightarrow>
   snd (sweep_one load unmarshal now d y) = y"
  by (auto simp: sweep_one_def sem_defs split: sum.split)

lemma sweep_one_open:
  assumes "parse_windows unmarshal (sd_window d) = Inr ws" and "allows load now ws"
  shows "snd (sweep_one load unmarshal now d y) =
    (let i = sd_deployment d; z = snd (on_db (release_scheduled_deployment i) y)
     in case fst (release_scheduled_deployment i (y_db y)) of
          Inl _ \<Rightarrow> z
        | Inr _ \<Rightarrow> snd (enqueue_or (on_worker (enqueue i)) (on_db (unqueue_scheduled i)) (\<lambda>_. ()) z))"
  using assms
  by (cases "release_scheduled_deployment (sd_deployment d) (y_db y)")
    (simp add: sweep_one_def sem_defs on_db_def Let_def split: sum.split)

lemma sweep_one_keeps:
  "keeps (\<lambda>y. healthy y \<and> unstranded y) (sweep_one load unmarshal now d)"
  unfolding keeps_def
proof (intro allI impI)
  fix y :: api
  assume y: "healthy y \<and> unstranded y"
  let ?i = "sd_deployment d"
  let ?z = "snd (on_db (release_scheduled_deployment ?i) y)"
  have z: "healthy ?z" by (rule healthy_on_db) (use y in \<open>simp_all add: vac_wp\<close>)
  show "healthy (snd (sweep_one load unmarshal now d y)) \<and> unstranded (snd (sweep_one load unmarshal now d y))"
  proof (cases "\<exists>ws. parse_windows unmarshal (sd_window d) = Inr ws \<and> allows load now ws")
    case False
    with y show ?thesis by (simp add: sweep_one_closed)
  next
    case True
    then obtain ws where ws: "parse_windows unmarshal (sd_window d) = Inr ws" "allows load now ws" by blast
    note step = sweep_one_open [OF ws, of y, unfolded Let_def]
    show ?thesis
    proof (cases "fst (release_scheduled_deployment ?i (y_db y))")
      case (Inl e)
      then have "deployments (y_db ?z) = deployments (y_db y)"
        using release_refused [of "y_db y" ?i e] y by (simp add: healthy_def)
      then show ?thesis using Inl step z y by (simp add: unstranded_def)
    next
      case (Inr u)
      have "queued_ids ?z \<subseteq> insert ?i (set (pending_ids ?z) \<union> set (running_ids ?z))"
        using release_queues [of ?i "y_db y"] y by (auto simp: queued_ids_of unstranded_iff)
      from repark_refused.enqueue_or_covers [OF z _ this] Inr step
      show ?thesis by (metis (no_types, lifting) old.sum.simps(6) prod.collapse unstranded_iff)
    qed
  qed
qed

lemma keeps_list_scheduled:
  "keeps (\<lambda>y. healthy y \<and> unstranded y) (on_db list_scheduled_deployments)"
  by (auto simp: keeps_def healthy_def unstranded_def list_scheduled_deployments_def db_call_def
      db_inv_def Let_def)

lemma sweep_keeps: "keeps (\<lambda>y. healthy y \<and> unstranded y) (sweep load unmarshal now)"
  unfolding sweep_def by (intro vac_wp keeps_list_scheduled sweep_one_keeps)

text \<open>
  C14: the sweeper never strands a deployment. On a database that answers, if every queued row is
  in the worker's queue or pool, the same holds after any number of sweeps, whatever the windows
  and however full the queue is: a released row that the worker refuses is parked again.
\<close>

theorem sweeper_never_strands:
  assumes "healthy y" and "unstranded y"
  shows "unstranded (snd (run_sweeper load unmarshal ticks y))"
proof -
  have "keeps (\<lambda>y. healthy y \<and> unstranded y) (run_sweeper load unmarshal ticks)"
    unfolding run_sweeper_def by (intro vac_wp sweep_keeps)
  with assms show ?thesis by (simp add: keeps_def)
qed

section \<open>Windows are respected\<close>

definition window_open ::
  "(string \<Rightarrow> location option) \<Rightarrow> (string \<Rightarrow> string + window list) \<Rightarrow> instant \<Rightarrow> app list \<Rightarrow> string \<Rightarrow> bool" where
  "window_open load unmarshal now as a = list_ex (\<lambda>x. a_id x = a \<and>
     (case parse_windows unmarshal (a_deploy_window x) of Inl _ \<Rightarrow> False | Inr ws \<Rightarrow> allows load now ws)) as"

text \<open>A table that differs from the rows \<open>ds\<close> only by released rows.\<close>

definition released_only ::
  "(deployment \<Rightarrow> bool) \<Rightarrow> deployment list \<Rightarrow> deployment list \<Rightarrow> bool" where
  "released_only open_row ds rows = list_all2 (\<lambda>c d. d = c
     \<or> d_status c = Scheduled \<and> open_row c \<and> d = c\<lparr>d_status := Queued\<rparr>) ds rows"

lemma release_step:
  assumes "released_only opn ds (deployments s)" and "\<And>c. c \<in> set ds \<Longrightarrow> d_id c = i \<Longrightarrow> opn c"
  shows "released_only opn ds (deployments (snd (release_scheduled_deployment i s)))"
proof -
  let ?g = "\<lambda>d. if d_id d = i \<and> d_status d = Scheduled then d\<lparr>d_status := Queued\<rparr> else d"
  have "released_only opn ds (map ?g (deployments s))"
    using assms(1) unfolding released_only_def list_all2_map2
    by (rule list.rel_mono_strong) (use assms(2) in auto)
  moreover have "deployments (snd (release_scheduled_deployment i s)) \<in> {deployments s, map ?g (deployments s)}"
    by (simp add: release_scheduled_deployment_def snd_or_not_found update_deployments_def db_call_def Let_def)
  ultimately show ?thesis using assms(1) by auto
qed

lemma list_scheduled_mem:
  assumes "fst (list_scheduled_deployments s) = Inr parked" and "d \<in> set parked"
  shows "\<exists>r a. r \<in> set (deployments s) \<and> find (\<lambda>a. a_id a = d_app r) (apps s) = Some a
    \<and> sd_deployment d = d_id r \<and> sd_window d = a_deploy_window a"
proof -
  let ?row = "\<lambda>r. case find (\<lambda>a. a_id a = d_app r) (apps s) of None \<Rightarrow> []
    | Some a \<Rightarrow> [\<lparr>sd_deployment = d_id r, sd_app = d_app r, sd_triggered_by = d_triggered_by r,
                  sd_window = a_deploy_window a\<rparr>]"
  have "parked = concat (map ?row (sort_key d_triggered_at (filter (\<lambda>d. d_status d = Scheduled) (deployments s))))"
    using assms(1) by (simp add: list_scheduled_deployments_def db_call_def Let_def split: if_splits)
  then obtain r where r: "r \<in> set (deployments s)" "d \<in> set (?row r)" using assms(2) by auto
  then show ?thesis by (cases "find (\<lambda>a. a_id a = d_app r) (apps s)") auto
qed

lemma release_Inr:
  assumes "fst (release_scheduled_deployment i s) = Inr u"
  shows "\<exists>d\<in>set (deployments s). d_id d = i \<and> d_status d = Scheduled"
  using assms
  by (auto simp: release_scheduled_deployment_def or_not_found_def update_deployments_def db_call_def
      sem_defs Let_def filter_empty_conv split: if_splits)

lemma released_only_scheduled:
  assumes "released_only opn ds rows" and "d \<in> set rows" and "d_status d = Scheduled"
  shows "d \<in> set ds"
  using assms by (auto simp: released_only_def list_all2_conv_all_nth in_set_conv_nth) force

lemma unqueue_step:
  assumes "released_only opn ds (deployments s)" and "\<And>c. c \<in> set ds \<Longrightarrow> d_id c = i \<Longrightarrow> d_status c = Scheduled"
  shows "released_only opn ds (deployments (snd (unqueue_scheduled i s)))"
proof -
  let ?g = "\<lambda>d. if d_id d = i \<and> d_status d = Queued then d\<lparr>d_status := Scheduled\<rparr> else d"
  have "released_only opn ds (map ?g (deployments s))"
    using assms(1) unfolding released_only_def list_all2_map2
    by (rule list.rel_mono_strong) (use assms(2) in auto)
  moreover have "deployments (snd (unqueue_scheduled i s)) \<in> {deployments s, map ?g (deployments s)}"
    by (simp add: unqueue_scheduled_def snd_and_then_ret update_deployments_def db_call_def Let_def)
  ultimately show ?thesis using assms(1) by auto
qed

lemma sweep_one_released:
  assumes dist: "distinct (map d_id ds)"
    and op: "\<And>c ws. c \<in> set ds \<Longrightarrow> d_id c = sd_deployment d \<Longrightarrow> parse_windows unmarshal (sd_window d) = Inr ws
      \<Longrightarrow> allows load now ws \<Longrightarrow> opn c"
  shows "keeps (\<lambda>y. released_only opn ds (deployments (y_db y))) (sweep_one load unmarshal now d)"
  unfolding keeps_def
proof (intro allI impI)
  fix y :: api
  assume rel: "released_only opn ds (deployments (y_db y))"
  let ?i = "sd_deployment d"
  let ?z = "snd (on_db (release_scheduled_deployment ?i) y)"
  show "released_only opn ds (deployments (y_db (snd (sweep_one load unmarshal now d y))))"
  proof (cases "\<exists>ws. parse_windows unmarshal (sd_window d) = Inr ws \<and> allows load now ws")
    case False
    with rel show ?thesis by (simp add: sweep_one_closed)
  next
    case True
    then obtain ws where ws: "parse_windows unmarshal (sd_window d) = Inr ws" "allows load now ws" by blast
    note step = sweep_one_open [OF ws, of y, unfolded Let_def]
    have z: "released_only opn ds (deployments (y_db ?z))"
      using release_step [OF rel] op ws by simp
    show ?thesis
    proof (cases "fst (release_scheduled_deployment ?i (y_db y))")
      case (Inl e)
      with z step show ?thesis by simp
    next
      case (Inr u)
      then obtain e where e: "e \<in> set ds" "d_id e = ?i" "d_status e = Scheduled"
        using release_Inr [of ?i "y_db y"] released_only_scheduled [OF rel] by auto
      have only: "d_status c = Scheduled" if "c \<in> set ds" "d_id c = ?i" for c
        using dist that e by (metis (no_types, lifting) distinct_map inj_onD)
      let ?w = "snd (on_worker (enqueue ?i) ?z)"
      have "snd (enqueue_or (on_worker (enqueue ?i)) (on_db (unqueue_scheduled ?i)) (\<lambda>_. ()) ?z)
          \<in> {?w, snd (on_db (unqueue_scheduled ?i) ?w)}"
        by (auto simp: enqueue_or_def sem_defs split: sum.splits prod.splits)
      moreover have "released_only opn ds (deployments (y_db (snd (on_db (unqueue_scheduled ?i) ?w))))"
        using unqueue_step [OF z only] by simp
      ultimately show ?thesis using Inr step z by auto
    qed
  qed
qed

text \<open>
  Windows are respected. Whatever the database and the worker answer, a sweep changes a
  deployment row only by releasing it from scheduled to queued, and only while the deploy window
  of the row's app is open.
\<close>

theorem sweep_respects_windows:
  assumes "db_inv (y_db y)"
  shows "list_all2 (\<lambda>c d. d = c \<or> d_status c = Scheduled \<and> d = c\<lparr>d_status := Queued\<rparr>
        \<and> window_open load unmarshal now (apps (y_db y)) (d_app c))
     (deployments (y_db y)) (deployments (y_db (snd (sweep load unmarshal now y))))"
proof -
  let ?ds = "deployments (y_db y)"
  let ?O = "\<lambda>c. window_open load unmarshal now (apps (y_db y)) (d_app c)"
  let ?z = "snd (on_db list_scheduled_deployments y)"
  have dist: "distinct (map d_id ?ds)" using assms by (simp add: db_inv_def index_ok_def)
  have z: "deployments (y_db ?z) = ?ds"
    by (simp add: list_scheduled_deployments_def db_call_def Let_def)
  have "released_only ?O ?ds (deployments (y_db (snd (sweep load unmarshal now y))))"
  proof (cases "fst (list_scheduled_deployments (y_db y))")
    case (Inl e)
    then have "snd (sweep load unmarshal now y) = ?z"
      by (cases "list_scheduled_deployments (y_db y)") (simp add: sweep_def sem_defs on_db_def)
    then show ?thesis using z by (simp add: released_only_def list_all2_refl)
  next
    case (Inr parked)
    have step: "snd (sweep load unmarshal now y) = snd (for_each parked (sweep_one load unmarshal now) ?z)"
      using Inr by (cases "list_scheduled_deployments (y_db y)") (simp add: sweep_def sem_defs on_db_def)
    have open_row: "?O c" if d: "d \<in> set parked" and c: "c \<in> set ?ds" "d_id c = sd_deployment d"
      and w: "parse_windows unmarshal (sd_window d) = Inr ws" "allows load now ws" for d c ws
    proof -
      obtain r a where r: "r \<in> set ?ds" "find (\<lambda>a. a_id a = d_app r) (apps (y_db y)) = Some a"
        "sd_deployment d = d_id r" "sd_window d = a_deploy_window a"
        using list_scheduled_mem [OF Inr d] by blast
      then have "c = r" using dist c by (metis (no_types, lifting) distinct_map inj_onD)
      moreover have "a \<in> set (apps (y_db y)) \<and> a_id a = d_app r"
        using r(2) by (auto simp: find_Some_iff)
      ultimately show ?thesis using r w by (auto simp: window_open_def list_ex_iff)
    qed
    have "keeps (\<lambda>y. released_only ?O ?ds (deployments (y_db y))) (for_each parked (sweep_one load unmarshal now))"
      by (rule keeps_for_each_mem, rule sweep_one_released [OF dist]) (rule open_row)
    moreover have "released_only ?O ?ds (deployments (y_db ?z))"
      using z by (simp add: released_only_def list_all2_refl)
    ultimately show ?thesis unfolding step keeps_def by blast
  qed
  then show ?thesis unfolding released_only_def by (rule list_all2_mono) auto
qed

section \<open>Witnesses\<close>

theorem sweeper_never_strands_witness:
  "unstranded (snd (run_sweeper (\<lambda>_. None) Inl [0] (demo_api Scheduled 4)))
   \<and> map d_status (deployments (y_db (snd (run_sweeper (\<lambda>_. None) Inl [0] (demo_api Scheduled 4))))) = [Queued]"
proof -
  have "map d_status (deployments (y_db (snd (run_sweeper (\<lambda>_. None) Inl [0] (demo_api Scheduled 4))))) = [Queued]"
    by code_simp
  with sweeper_never_strands [where y = "demo_api Scheduled 4" and load = "\<lambda>_. None" and unmarshal = Inl
      and ticks = "[0]", OF healthy_demo unstranded_demo]
  show ?thesis by simp
qed

theorem sweep_respects_windows_witness:
  "list_all2 (\<lambda>c d. d = c \<or> d_status c = Scheduled \<and> d = c\<lparr>d_status := Queued\<rparr>
        \<and> window_open (\<lambda>_. None) Inl 0 (apps (y_db (demo_api Scheduled 4))) (d_app c))
     (deployments (y_db (demo_api Scheduled 4)))
     (deployments (y_db (snd (sweep (\<lambda>_. None) Inl 0 (demo_api Scheduled 4)))))"
proof -
  have "db_inv (y_db (demo_api Scheduled 4))" using healthy_demo by (simp add: healthy_def)
  then show ?thesis by (rule sweep_respects_windows)
qed

end
