(* ===== verification/Deploy_Handlers.thy ===== *)
theory Deploy_Handlers
  imports Api_System
begin

text \<open>
  The deployment endpoints: api/internal/server/handler/deployments.go and approvals.go. A
  handler is an operation on the shared state whose result, early or not, is the response. The
  identifier that the database gives to a new row is the argument \<open>new\<close>; requests that the
  client aborted show up as database faults.
\<close>

section \<open>Responses\<close>

datatype body =
    ErrorBody string string            \<comment> \<open>message and code\<close>
  | DeploymentBody deployment
  | DeploymentsBody "deployment list"
  | FieldsBody "(string \<times> string) list"

datatype response = Response int body

text \<open>defaultCodeForStatus and WriteError.\<close>

definition default_code_for_status :: "int \<Rightarrow> string" where
  "default_code_for_status status =
     (if status = 400 then ''bad_request'' else if status = 401 then ''unauthorized''
      else if status = 403 then ''forbidden'' else if status = 404 then ''not_found''
      else if status = 409 then ''conflict'' else if status = 429 then ''rate_limited''
      else if status = 503 then ''service_unavailable'' else ''internal_error'')"

definition write_error :: "int \<Rightarrow> string \<Rightarrow> response" where
  "write_error status msg = Response status (ErrorBody msg (default_code_for_status status))"

definition status_of :: "response \<Rightarrow> int" where
  "status_of r = (case r of Response n _ \<Rightarrow> n)"

type_synonym handler = "(api, response, response) sem"

text \<open>What the client gets: the early response or the final one.\<close>

definition serve :: "handler \<Rightarrow> api \<Rightarrow> response \<times> api" where
  "serve h y = (case h y of (Inl r, y') \<Rightarrow> (r, y') | (Inr r, y') \<Rightarrow> (r, y'))"

definition queue_full_message :: string where
  "queue_full_message = ''deploy queue full '' @ em_dash @ '' retry shortly''"

definition enqueue_response :: "string \<Rightarrow> worker_err \<Rightarrow> response" where
  "enqueue_response msg e =
     (if e = ErrQueueFull then write_error 503 queue_full_message else write_error 500 msg)"

definition load_app_error :: "store_err \<Rightarrow> response" where
  "load_app_error e = (if e = ErrNotFound then write_error 404 ''app not found''
                       else write_error 500 ''could not load app'')"

definition queue_full_reason :: string where
  "queue_full_reason = ''deploy queue full at enqueue''"

section \<open>Deployments\<close>

definition trigger_deployment :: "string \<Rightarrow> string \<Rightarrow> handler" where
  "trigger_deployment new i =
     and_then (map_err load_app_error (on_db (get_app i))) (\<lambda>ap.
     and_then (map_err (\<lambda>e. if e = ErrActiveDeploymentExists
                 then write_error 409 ''a deploy for this app is already in progress''
                 else write_error 500 ''could not create deployment'')
               (on_db (create_deployment new (a_id ap) triggered_manual None))) (\<lambda>d.
     and_then (enqueue_or (on_worker (enqueue (d_id d)))
                 (on_db (fail_queued_deployment (d_id d) queue_full_reason))
                 (enqueue_response ''could not enqueue deployment'')) (\<lambda>_.
     and_then (audit (AuditAction (a_id ap) ''deployment.triggered'' [(''app'', a_slug ap)])) (\<lambda>_.
     ret (Response 202 (DeploymentBody d))))))"

definition rollback_error :: "store_err \<Rightarrow> response" where
  "rollback_error e =
     (if e = ErrNotFound then write_error 404 ''deployment not found''
      else if e = ErrRollbackSourceInvalid
        then write_error 422 ''can only roll back to a successful deployment of this app''
      else if e = ErrActiveDeploymentExists
        then write_error 409 ''a deploy for this app is already in progress''
      else write_error 500 ''could not create rollback'')"

definition rollback_deployment :: "string \<Rightarrow> string \<Rightarrow> string \<Rightarrow> handler" where
  "rollback_deployment new app_id source =
     and_then (map_err load_app_error (on_db (get_app app_id))) (\<lambda>ap.
     and_then (map_err rollback_error (on_db (create_rollback_deployment new (a_id ap) source))) (\<lambda>d.
     and_then (enqueue_or (on_worker (enqueue (d_id d)))
                 (on_db (fail_queued_deployment (d_id d) queue_full_reason))
                 (enqueue_response ''could not enqueue rollback'')) (\<lambda>_.
     let short_sha = (case d_commit_sha d of
           Some sha \<Rightarrow> if length sha \<ge> 7 then take 7 sha else ''previous version''
         | None \<Rightarrow> ''previous version'')
     in and_then (audit (AuditAction (a_id ap) ''deployment.rolled_back''
                    [(''app'', a_slug ap), (''sha'', short_sha)])) (\<lambda>_.
        ret (Response 202 (DeploymentBody d))))))"

text \<open>recomputeAppStatus.\<close>

definition recompute_app_status :: "string \<Rightarrow> (api, 'e, unit) sem" where
  "recompute_app_status app_id = and_then (attempt (on_db (list_services_for_app app_id))) (\<lambda>r.
     case r of
       Inl _ \<Rightarrow> ret ()
     | Inr rows \<Rightarrow> ignore (on_db (set_app_status app_id (derive_app_status (map s_status rows)))))"

definition cancel_deployment :: "string \<Rightarrow> string \<Rightarrow> handler" where
  "cancel_deployment app_id did =
     and_then (map_err (\<lambda>_. write_error 404 ''deployment not found'') (on_db (get_deployment did))) (\<lambda>d.
     if d_app d \<noteq> app_id then throw (write_error 404 ''deployment not found'')
     else if is_terminal (d_status d) then throw (write_error 422 ''deployment has already finished'')
     else and_then (ignore (on_worker (cancel_deploy did))) (\<lambda>_.
     and_then (map_err (\<lambda>_. write_error 500 ''could not cancel deployment'')
               (on_db (mark_deployment_finished did Canceled (Some ''canceled by user'')))) (\<lambda>_.
     and_then (recompute_app_status app_id) (\<lambda>_.
     and_then (ignore (on_worker notify_changed)) (\<lambda>_.
     and_then (audit (AuditAction app_id ''deployment.canceled'' [])) (\<lambda>_.
     ret (Response 200 (FieldsBody [(''status'', dstatus_text Canceled)]))))))))"

definition list_deployments :: "string \<Rightarrow> handler" where
  "list_deployments i =
     and_then (map_err (\<lambda>_. write_error 500 ''could not list deployments'') (on_db (list_deployments_for_app i)))
       (\<lambda>rows. ret (Response 200 (DeploymentsBody rows)))"

definition get_deployment_handler :: "string \<Rightarrow> string \<Rightarrow> handler" where
  "get_deployment_handler app_id did =
     and_then (map_err (\<lambda>e. if e = ErrNotFound then write_error 404 ''deployment not found''
                             else write_error 500 ''could not load deployment'') (on_db (get_deployment did)))
       (\<lambda>d. if d_app d \<noteq> app_id then throw (write_error 404 ''deployment not found'')
             else ret (Response 200 (DeploymentBody d)))"

section \<open>Approvals\<close>

definition list_pending_deployments :: "string \<Rightarrow> handler" where
  "list_pending_deployments app_id =
     and_then (map_err (\<lambda>_. write_error 500 ''could not list pending approvals'') (on_db (list_pending_approvals app_id)))
       (\<lambda>rows. ret (Response 200 (DeploymentsBody rows)))"

definition approve_deployment_handler :: "string \<Rightarrow> string \<Rightarrow> handler" where
  "approve_deployment_handler app_id did =
     and_then (map_err (\<lambda>e. if e = ErrNotFound then write_error 404 ''no pending deployment found''
                             else write_error 500 ''could not approve deployment'')
               (on_db (approve_deployment app_id did))) (\<lambda>d.
     and_then (enqueue_or (on_worker (enqueue (d_id d))) (on_db (unqueue_approval app_id (d_id d)))
                 (enqueue_response ''could not enqueue deployment'')) (\<lambda>_.
     and_then (audit (AuditAction app_id ''approval.approved'' [])) (\<lambda>_.
     ret (Response 200 (DeploymentBody d)))))"

definition reject_deployment_handler :: "string \<Rightarrow> string \<Rightarrow> handler" where
  "reject_deployment_handler app_id did =
     and_then (map_err (\<lambda>e. if e = ErrNotFound then write_error 404 ''no pending deployment found''
                             else write_error 500 ''could not reject deployment'')
               (on_db (reject_deployment app_id did))) (\<lambda>d.
     and_then (audit (AuditAction app_id ''approval.rejected'' [])) (\<lambda>_.
     ret (Response 200 (DeploymentBody d))))"

section \<open>No stranded row\<close>

definition tidy :: "api \<Rightarrow> bool" where
  "tidy y = (healthy y \<and> unstranded y)"

definition tidy_but :: "string \<Rightarrow> api \<Rightarrow> bool" where
  "tidy_but i y = (healthy y \<and> queued_ids y \<subseteq> insert i (set (pending_ids y) \<union> set (running_ids y)))"

lemma tidy_of_rows:
  assumes "tidy y" and "keeps db_inv m" and "keeps (faults (\<lambda>_. False)) m"
    and "queued_of (deployments (snd (m (y_db y)))) \<subseteq> queued_of (deployments (y_db y))"
  shows "tidy (snd (on_db m y))"
  using assms healthy_on_db [OF assms(2,3)] by (auto simp: tidy_def unstranded_iff queued_ids_of)

lemma keeps_tidy_audit [vac_wp]: "keeps tidy (audit e)"
  unfolding audit_def
  by (rule keeps_act)
    (simp add: tidy_def healthy_def unstranded_def pending_ids_def running_ids_def)

lemma keeps_tidy_same:
  assumes "keeps db_inv m" and "keeps (faults (\<lambda>_. False)) m" and "\<And>ds. keeps (same_deployments ds) m"
  shows "keeps tidy (on_db m)"
  unfolding keeps_def
proof (intro allI impI)
  fix y
  assume "tidy y"
  moreover have "deployments (snd (m (y_db y))) = deployments (y_db y)"
    using assms(3) [of "deployments (y_db y)"] by (simp add: keeps_def same_deployments_def)
  ultimately show "tidy (snd (on_db m y))" using assms(1,2) by (auto intro: tidy_of_rows)
qed

lemma keeps_tidy_reads [vac_wp]:
  "keeps tidy (on_db (get_app i))" "keeps tidy (on_db (get_deployment i))"
  "keeps tidy (on_db (list_services_for_app i))" "keeps tidy (on_db (list_deployments_for_app i))"
  "keeps tidy (on_db (list_pending_approvals i))"
  by (rule keeps_tidy_same; rule vac_wp; simp)+

text \<open>The inserts append the row they return, or change no row.\<close>

definition appends :: "deployment dbop \<Rightarrow> bool" where
  "appends m = (\<forall>s. deployments (snd (m s)) =
     (case fst (m s) of Inr d \<Rightarrow> deployments s @ [d] | Inl _ \<Rightarrow> deployments s))"

lemma appends_insert: "appends (insert_deployment d)"
  by (simp add: appends_def insert_deployment_def db_call_def Let_def)

lemma appends_map_err: "appends m \<Longrightarrow> appends (map_err g m)"
  by (auto simp: appends_def map_err_def split: prod.splits sum.splits) (metis fst_conv snd_conv sum.case)+

lemma appends_reads: "(\<And>x. appends (f x)) \<Longrightarrow> appends (and_then (reads g) f)"
  by (simp add: appends_def and_then_def reads_def)

lemma appends_create:
  "appends (create_deployment i a t r)" "appends (create_deployment_with_status i a t st r)"
  unfolding insert_ops Let_def by (intro appends_map_err appends_reads appends_insert)+

lemma appends_after:
  assumes "\<And>ds. keeps (same_deployments ds) m" and "\<And>x. appends (f x)"
  shows "appends (and_then m f)"
  unfolding appends_def
proof
  fix s
  have "deployments (snd (m s)) = deployments s"
    using assms(1) [of "deployments s"] by (simp add: keeps_def same_deployments_def)
  then show "deployments (snd (and_then m f s)) =
      (case fst (and_then m f s) of Inr d \<Rightarrow> deployments s @ [d] | Inl _ \<Rightarrow> deployments s)"
    using assms(2) by (auto simp: and_then_def appends_def split: prod.split sum.split)
qed

lemma appends_rollback: "appends (create_rollback_deployment i a src)"
proof -
  have "appends (throw e)" for e by (simp add: appends_def throw_def)
  then show ?thesis
    unfolding create_rollback_deployment_def
    by (intro appends_after vac_wp call_stable_same)
      (simp add: appends_map_err appends_reads appends_insert)
qed

lemma create_tidy:
  assumes "appends m" and "keeps db_inv m" and "keeps (faults (\<lambda>_. False)) m"
  shows "triple tidy (on_db m) (\<lambda>d. tidy_but (d_id d)) (\<lambda>_. tidy)"
  unfolding triple_def
proof (intro allI impI)
  fix y
  assume y: "tidy y"
  obtain r z where z: "on_db m y = (r, z)" by fastforce
  have h: "healthy z" using healthy_on_db [OF assms(2,3), of y] y z by (simp add: tidy_def)
  have f: "pending_ids z = pending_ids y" "running_ids z = running_ids y" "y_db z = snd (m (y_db y))"
    "r = fst (m (y_db y))"
    using on_db_frame [of m y] z by simp_all
  have d: "deployments (y_db z) = (case r of Inr d \<Rightarrow> deployments (y_db y) @ [d] | Inl _ \<Rightarrow> deployments (y_db y))"
    using assms(1) f by (simp add: appends_def)
  show "case on_db m y of (Inl e, s') \<Rightarrow> tidy s' | (Inr x, s') \<Rightarrow> tidy_but (d_id x) s'"
    using h f(1,2) d y z
    by (cases r) (auto simp: tidy_def tidy_but_def unstranded_iff queued_ids_of queued_of_def)
qed

text \<open>The contract of the settling operations, at the state of the handlers.\<close>

lemma enqueue_or_tidy:
  "triple (tidy_but i) (enqueue_or (on_worker (enqueue i)) (on_db (fail_queued_deployment i m)) g)
     (\<lambda>_. tidy) (\<lambda>_. tidy)"
  "triple (\<lambda>y. tidy_but i y \<and> owned_by a i y)
     (enqueue_or (on_worker (enqueue i)) (on_db (unqueue_approval a i)) g) (\<lambda>_. tidy) (\<lambda>_. tidy)"
  using fail_refused.enqueue_or_triple [of i m g] reapprove_refused.enqueue_or_triple [of a i g]
  by (simp_all add: tidy_def [abs_def] tidy_but_def [abs_def] unstranded_iff conj_ac)

lemma keeps_trigger: "keeps tidy (trigger_deployment new i)"
  unfolding trigger_deployment_def
  by (rule keeps_triple, rule triple_and_then [OF triple_keeps],
      intro vac_wp, rule triple_and_then [OF triple_map_err [OF create_tidy]],
      (rule appends_create vac_wp)+, rule triple_and_then [OF enqueue_or_tidy(1)],
      rule triple_keeps, intro vac_wp)

lemma keeps_rollback_handler: "keeps tidy (rollback_deployment new i src)"
  unfolding rollback_deployment_def Let_def
  by (rule keeps_triple, rule triple_and_then [OF triple_keeps],
      intro vac_wp, rule triple_and_then [OF triple_map_err [OF create_tidy]],
      (rule appends_rollback vac_wp)+, rule triple_and_then [OF enqueue_or_tidy(1)],
      rule triple_keeps, intro vac_wp)

lemma approve_tidy:
  "triple tidy (on_db (approve_deployment a i)) (\<lambda>d y. tidy_but (d_id d) y \<and> owned_by a (d_id d) y) (\<lambda>_. tidy)"
  unfolding triple_def
proof (intro allI impI)
  fix y
  assume y: "tidy y"
  let ?p = "\<lambda>d. d_id d = i \<and> d_app d = a \<and> d_status d = PendingApproval"
  let ?f = "\<lambda>d. d\<lparr>d_status := Queued\<rparr>"
  obtain r z where z: "on_db (approve_deployment a i) y = (r, z)" by fastforce
  have h: "healthy z"
    using healthy_on_db [OF keeps_returning_ops(1) keeps_faults(9), of y a i] y z by (simp add: tidy_def)
  have f: "pending_ids z = pending_ids y" "running_ids z = running_ids y"
    "y_db z = snd (approve_deployment a i (y_db y))" "r = fst (approve_deployment a i (y_db y))"
    using on_db_frame [of "approve_deployment a i" y] z by simp_all
  have ids: "distinct (map d_id (deployments (y_db y)))"
    using y by (simp add: tidy_def healthy_def db_inv_def index_ok_def)
  show "case on_db (approve_deployment a i) y of (Inl e, s') \<Rightarrow> tidy s'
    | (Inr d, s') \<Rightarrow> tidy_but (d_id d) s' \<and> owned_by a (d_id d) s'"
  proof (cases r)
    case (Inl e)
    then have "deployments (y_db z) = deployments (y_db y)"
      using f by (auto simp: approve_deployment_def update_returning_def db_call_def Let_def
          split: if_splits option.splits)
    then show ?thesis using z Inl h f y by (simp add: tidy_def unstranded_def)
  next
    case (Inr d)
    then obtain c where c: "find ?p (deployments (y_db y)) = Some c" "d = ?f c"
      and rows: "deployments (y_db z) = map (\<lambda>d. if ?p d then ?f d else d) (deployments (y_db y))"
      using f by (auto simp: approve_deployment_def update_returning_def db_call_def Let_def
          split: if_splits option.splits)
    then have cm: "c \<in> set (deployments (y_db y))" "?p c" by (auto simp: find_Some_iff)
    then have "owned_by a (d_id d) y"
      using ids c(2) by (auto simp: owned_by_def list_all_iff distinct_map dest: inj_onD)
    then have own: "owned_by a (d_id d) z"
      unfolding owned_by_def rows by (auto simp: list_all_iff)
    have "queued_of (deployments (y_db z)) \<subseteq> insert (d_id d) (queued_of (deployments (y_db y)))"
      unfolding rows using c cm by (auto simp: queued_of_def)
    then have "tidy_but (d_id d) z"
      using h f y by (auto simp: tidy_def tidy_but_def unstranded_iff queued_ids_of)
    with own z Inr show ?thesis by simp
  qed
qed

lemma keeps_approve_handler: "keeps tidy (approve_deployment_handler a i)"
  unfolding approve_deployment_handler_def
  by (rule keeps_triple, rule triple_and_then [OF triple_map_err [OF approve_tidy]],
      rule triple_and_then [OF enqueue_or_tidy(2)], rule triple_keeps, intro vac_wp)

lemma keeps_tidy_update:
  assumes "keeps db_inv m" and "keeps (faults (\<lambda>_. False)) m"
    and "\<And>s. queued_of (deployments (snd (m s))) \<subseteq> queued_of (deployments s)"
  shows "keeps tidy (on_db m)"
  unfolding keeps_def using tidy_of_rows [OF _ assms(1,2)] assms(3) by blast

lemma reject_queued: "queued_of (deployments (snd (reject_deployment a i s))) \<subseteq> queued_of (deployments s)"
  by (auto simp: reject_deployment_def update_returning_def db_call_def Let_def queued_of_def split: option.split)

lemma finish_queued:
  "st \<noteq> Queued \<Longrightarrow>
   queued_of (deployments (snd (mark_deployment_finished i st e s))) \<subseteq> queued_of (deployments s)"
  unfolding mark_deployment_finished_def snd_reads snd_or_not_found
  by (rule queued_after_update) simp

lemma keeps_reject_handler: "keeps tidy (reject_deployment_handler a i)"
  unfolding reject_deployment_handler_def
  by (intro vac_wp keeps_tidy_update reject_queued)

lemma keeps_tidy_worker [vac_wp]:
  "keeps tidy (on_worker (cancel_deploy i))" "keeps tidy (on_worker notify_changed)"
  by (auto simp: keeps_def tidy_def healthy_def unstranded_def pending_ids_def running_ids_def on_worker_def
      cancel_deploy_def notify_changed_def act_def split: option.splits)

lemma keeps_inv_same:
  assumes "\<And>ds. keeps (same_deployments ds) m"
  shows "keeps db_inv m"
  using assms by (auto simp: keeps_def same_deployments_def db_inv_def)

lemma keeps_recompute [vac_wp]: "keeps tidy (recompute_app_status a)"
  unfolding recompute_app_status_def
  by (intro vac_wp keeps_tidy_same keeps_inv_same)

lemma keeps_cancel_handler: "keeps tidy (cancel_deployment a i)"
  unfolding cancel_deployment_def
  by (intro vac_wp keeps_tidy_update finish_queued) simp

lemma snd_serve: "snd (serve h y) = snd (h y)"
  by (simp add: serve_def split: prod.split sum.split)

section \<open>Properties\<close>

text \<open>
  C7: no endpoint strands a deployment. On a database that answers, if every queued row is in the
  worker's queue or pool, the same holds after triggering, rolling back, approving, rejecting or
  cancelling, whatever the outcome of the request and however full the queue is.
\<close>

theorem endpoints_never_strand:
  assumes "healthy y" and "unstranded y"
    and "h \<in> {trigger_deployment new a, rollback_deployment new a i, approve_deployment_handler a i,
              reject_deployment_handler a i, cancel_deployment a i}"
  shows "healthy (snd (serve h y)) \<and> unstranded (snd (serve h y))"
proof -
  have "keeps tidy h"
    using assms(3) keeps_trigger keeps_rollback_handler keeps_approve_handler keeps_reject_handler
      keeps_cancel_handler by auto
  then have "tidy (snd (h y))" using assms(1,2) by (simp add: keeps_def tidy_def)
  then show ?thesis by (simp add: snd_serve tidy_def)
qed

theorem endpoints_never_strand_witness:
  "unstranded (snd (serve (approve_deployment_handler ''a'' ''1'') (demo_api PendingApproval 0)))"
  using endpoints_never_strand [OF healthy_demo unstranded_demo,
      where h = "approve_deployment_handler ''a'' ''1''" and a = "''a''" and i = "''1''"]
  by simp

text \<open>The calls of a healthy state, one by one.\<close>

lemma on_db_step: "m (y_db y) = (r, s) \<Longrightarrow> on_db m y = (r, y\<lparr>y_db := s\<rparr>)"
  by (simp add: on_db_def)

lemma get_app_ok:
  assumes "db_fault s = (\<lambda>_. False)" and "a \<in> a_id ` set (apps s)"
  shows "\<exists>ap. a_id ap = a \<and> get_app a s = (Inr ap, s\<lparr>db_calls := Suc (db_calls s)\<rparr>)"
proof (cases "find (\<lambda>x. a_id x = a) (apps s)")
  case None
  then show ?thesis using assms(2) by (auto simp: find_None_iff)
next
  case (Some ap)
  then have "a_id ap = a" by (auto simp: find_Some_iff)
  then show ?thesis using Some assms(1) by (simp add: get_app_def db_call_def Let_def)
qed

lemma lane_None_iff: "lane s a = None \<longleftrightarrow> \<not> (\<exists>d\<in>set (deployments s). d_app d = a \<and> is_active (d_status d))"
  by (auto simp: lane_def find_None_iff)

lemma trigger_busy:
  assumes "healthy y" and "a \<in> a_id ` set (apps (y_db y))" and "new \<notin> d_id ` set (deployments (y_db y))" and "lane (y_db y) a \<noteq> None"
  shows "case serve (trigger_deployment new a) y of (r, y') \<Rightarrow>
    status_of r = 409 \<and> deployments (y_db y') = deployments (y_db y) \<and> y_worker y' = y_worker y"
proof -
  let ?s = "y_db y"
  have inv: "db_inv ?s" and nf: "db_fault ?s = (\<lambda>_. False)" using assms(1) by (simp_all add: healthy_def)
  obtain ap where ap: "a_id ap = a" "get_app a ?s = (Inr ap, ?s\<lparr>db_calls := Suc (db_calls ?s)\<rparr>)"
    using get_app_ok [OF nf assms(2)] by blast
  let ?s1 = "?s\<lparr>db_calls := Suc (db_calls ?s)\<rparr>"
  have s1: "db_inv ?s1" "\<not> db_fault ?s1 (db_calls ?s1)" "a \<in> a_id ` set (apps ?s1)"
    "new \<notin> d_id ` set (deployments ?s1)" "is_active Queued"
    using inv nf assms(2,3) by (simp_all add: db_inv_def is_active_def)
  obtain d where "d \<in> set (deployments ?s1)" "d_app d = a" "is_active (d_status d)"
    using lane_None_iff [of ?s a] assms(4) by auto
  from create_busy [OF s1 this, of triggered_manual None] ap show ?thesis
    by (simp add: trigger_deployment_def serve_def sem_defs on_db_def create_deployment_queued status_of_def write_error_def)
qed

lemma trigger_free:
  assumes "healthy y" and "a \<in> a_id ` set (apps (y_db y))" and "new \<notin> d_id ` set (deployments (y_db y))" and "lane (y_db y) a = None"
  shows "case serve (trigger_deployment new a) y of (r, y') \<Rightarrow>
    if length (wk_queue (y_worker y)) < wk_capacity (y_worker y)
    then status_of r = 202 \<and> lane (y_db y') a = Some (new, Queued) \<and> wk_queue (y_worker y') = wk_queue (y_worker y) @ [new]
    else status_of r = 503 \<and> lane (y_db y') a = None \<and> y_worker y' = y_worker y"
proof -
  let ?s = "y_db y"
  have inv: "db_inv ?s" and nf: "db_fault ?s = (\<lambda>_. False)" using assms(1) by (simp_all add: healthy_def)
  obtain ap where ap: "a_id ap = a" "get_app a ?s = (Inr ap, ?s\<lparr>db_calls := Suc (db_calls ?s)\<rparr>)"
    using get_app_ok [OF nf assms(2)] by blast
  let ?s1 = "?s\<lparr>db_calls := Suc (db_calls ?s)\<rparr>"
  have s1: "db_inv ?s1" "\<not> db_fault ?s1 (db_calls ?s1)" "a \<in> a_id ` set (apps ?s1)"
    "new \<notin> d_id ` set (deployments ?s1)" "is_active Queued"
    using inv nf assms(2,3) by (simp_all add: db_inv_def is_active_def)
  have free: "\<And>e. e \<in> set (deployments ?s1) \<Longrightarrow> d_app e = a \<Longrightarrow> \<not> is_active (d_status e)"
    using assms(4) by (auto simp: lane_None_iff)
  obtain d where d: "create_deployment_with_status new a triggered_manual Queued None ?s1
      = (Inr d, ?s1\<lparr>db_calls := Suc (db_calls ?s1), deployments := deployments ?s1 @ [d]\<rparr>)"
    "d_id d = new" "d_app d = a" "d_status d = Queued"
    using create_free [OF s1 free, of triggered_manual None] by blast
  let ?s2 = "?s1\<lparr>db_calls := Suc (db_calls ?s1), deployments := deployments ?s1 @ [d]\<rparr>"
  have lane2: "lane ?s2 a = Some (new, Queued)" using assms(4) d by (simp add: lane_def find_append s1(5))
  obtain u t where t: "fail_queued_deployment new queue_full_reason ?s2 = (u, t)" by fastforce
  have "lane (snd (fail_queued_deployment new queue_full_reason ?s2)) a = lane_move new Queued Errored (lane ?s2 a)"
  proof (rule fail_queued_lane)
    have "index_ok (deployments ?s1 @ [d])" using s1 free d by (simp add: index_ok_snoc db_inv_def)
    then show "db_inv ?s2" by (simp add: db_inv_def)
  qed (use nf assms(3) d in auto)
  then have "lane t a = None" using lane2 t by (simp add: is_active_def)
  with t d ap lane2 show ?thesis
    by (simp add: trigger_deployment_def serve_def sem_defs on_db_def create_deployment_queued status_of_def
        enqueue_or_def on_worker_def enqueue_def audit_def enqueue_response_def write_error_def)
qed


text \<open>
  C27: cancelling. On a database that answers, for a deployment of the app in the path: a settled
  one answers 422 and nothing changes; any other one answers 200, its row is canceled with the
  reason, every other row is untouched, its running context is killed, the lane of the app is free
  again and the app's status is recomputed from its services.
\<close>

theorem cancel_deployment_outcome:
  assumes "healthy y" and "d \<in> set (deployments (y_db y))"
  shows "case serve (cancel_deployment (d_app d) (d_id d)) y of (r, y') \<Rightarrow>
    if is_terminal (d_status d)
    then status_of r = 422 \<and> deployments (y_db y') = deployments (y_db y) \<and> y_worker y' = y_worker y
    else status_of r = 200
      \<and> deployments (y_db y') = map (\<lambda>e. if d_id e = d_id d
            then e\<lparr>d_status := Canceled, d_error := Some ''canceled by user'',
                   d_finished_at := Some (db_now (y_db y))\<rparr> else e) (deployments (y_db y))
      \<and> (\<forall>c. wk_inflight (y_worker y) (d_id d) = Some c \<longrightarrow> ctx_dead (y_worker y') c)
      \<and> (\<forall>x\<in>set (apps (y_db y')). a_id x = d_app d \<longrightarrow> a_status x = derive_app_status
            (map s_status (sort_key s_name (filter (\<lambda>v. s_app v = d_app d) (services (y_db y))))))"
proof -
  let ?s = "y_db y"
  have inv: "db_inv ?s" and nf: "db_fault ?s = (\<lambda>_. False)" using assms(1) by (simp_all add: healthy_def)
  have "find (\<lambda>e. d_id e = d_id d) (deployments ?s) = Some d"
  proof (cases "find (\<lambda>e. d_id e = d_id d) (deployments ?s)")
    case None
    then show ?thesis using assms(2) by (auto simp: find_None_iff)
  next
    case (Some e)
    then have "e \<in> set (deployments ?s)" "d_id e = d_id d" by (auto simp: find_Some_iff)
    with Some assms(2) inv show ?thesis using id_unique [of "deployments ?s" e d] by (simp add: db_inv_def)
  qed
  then have get: "get_deployment (d_id d) ?s = (Inr d, ?s\<lparr>db_calls := Suc (db_calls ?s)\<rparr>)"
    using nf by (simp add: get_deployment_def db_call_def Let_def)
  show ?thesis
  proof (cases "is_terminal (d_status d)")
    case True
    with get show ?thesis
      by (simp add: cancel_deployment_def serve_def sem_defs on_db_def status_of_def write_error_def)
  next
    case False
    let ?s1 = "?s\<lparr>db_calls := Suc (db_calls ?s)\<rparr>"
    have s1: "db_inv ?s1" "\<not> db_fault ?s1 (db_calls ?s1)" "d \<in> set (deployments ?s1)"
      "is_terminal Canceled"
      using inv nf assms(2) by (simp_all add: db_inv_def is_terminal_def)
    note fin = mark_finished_eq [OF s1(1-3) refl s1(4), of "Some ''canceled by user''"]
    show ?thesis
      using False get fin nf
      by (auto simp: cancel_deployment_def serve_def sem_defs on_db_def status_of_def on_worker_def
          cancel_deploy_def recompute_app_status_def list_services_for_app_def db_call_def Let_def
          set_app_status_def or_not_found_def update_apps_def notify_changed_def audit_def ctx_dead_def
          coalesce_def split: option.splits)
  qed
qed

section \<open>Witnesses\<close>


theorem cancel_deployment_outcome_witness:
  "status_of (fst (serve (cancel_deployment ''a'' ''1'') (demo_api Building 1))) = 200"
proof -
  let ?d = "new_deployment ''1'' ''a'' Building 0 triggered_push None None None"
  have "?d \<in> set (deployments (y_db (demo_api Building 1)))" by (simp add: demo_api_def)
  from cancel_deployment_outcome [OF healthy_demo this] show ?thesis
    by (simp add: is_terminal_def split: prod.splits)
qed

end
