(* ===== verification/Webhook_Handler.thy ===== *)
theory Webhook_Handler
  imports Deploy_Handlers
begin

text \<open>
  The inbound webhook: api/internal/server/handler/webhooks.go. Code outside the repository (the
  secret box, HMAC, JSON decoding, the time-zone database) and the preview service are the fields
  of the environment; the request is a record.
\<close>

datatype preview_err = PvNotFound | PvCapReached | PvOther

record previews =
  pv_ensure :: "string \<Rightarrow> string \<Rightarrow> (api, preview_err, unit) sem"
  pv_teardown_by_branch :: "string \<Rightarrow> string \<Rightarrow> (api, preview_err, unit) sem"

record webhook_env =
  we_box :: "(string \<Rightarrow> string option) option"      \<comment> \<open>None: no master key; Open may fail\<close>
  we_hmac :: "string \<Rightarrow> string \<Rightarrow> string"
  we_decode_ref :: "string \<Rightarrow> string"
  we_decode_delete :: "string \<Rightarrow> (string \<times> bool) option"
  we_unmarshal :: "string \<Rightarrow> string + window list"
  we_load :: "string \<Rightarrow> location option"
  we_now :: instant
  we_previews :: "previews option"

record delivery =
  dl_headers :: headers
  dl_query_ref :: string
  dl_body :: "string option"                          \<comment> \<open>None: reading the body failed\<close>

text \<open>gitRefRe (handler/apps.go).\<close>

definition ref_char :: "char \<Rightarrow> bool" where
  "ref_char c = (let n = (of_char c :: nat) in
     65 \<le> n \<and> n \<le> 90 \<or> 97 \<le> n \<and> n \<le> 122 \<or> 48 \<le> n \<and> n \<le> 57 \<or> c \<in> {CHR ''.'', CHR ''_'', CHR ''/''})"

definition git_ref_ok :: "string \<Rightarrow> bool" where
  "git_ref_ok s = (case s of [] \<Rightarrow> False
     | c # cs \<Rightarrow> ref_char c \<and> list_all (\<lambda>x. ref_char x \<or> x = CHR ''-'') cs)"

definition kind_text :: "event \<Rightarrow> string" where
  "kind_text k = (case k of EvPush \<Rightarrow> ''push'' | EvTag \<Rightarrow> ''tag'' | EvManual \<Rightarrow> ''manual'' | EvPreview \<Rightarrow> ''preview'')"

definition audit_webhook :: "string \<Rightarrow> string \<Rightarrow> int \<Rightarrow> (api, 'e, unit) sem" where
  "audit_webhook app_id summary status = audit (AuditWebhook app_id summary status)"

text \<open>An audited answer with the given fields.\<close>

definition answer :: "string \<Rightarrow> string \<Rightarrow> int \<Rightarrow> (string \<times> string) list \<Rightarrow> handler" where
  "answer app_id summary status fs =
     and_then (audit_webhook app_id summary status) (\<lambda>_. throw (Response status (FieldsBody fs)))"

definition coalesced :: "string \<Rightarrow> event \<Rightarrow> string \<Rightarrow> app \<Rightarrow> handler" where
  "coalesced app_id kind name ap = answer app_id
     (''coalesced '' @ kind_text kind @ '' '' @ name @ '' for '' @ a_slug ap @ '' (deploy already in progress)'')
     202 [(''status'', ''coalesced'')]"

text \<open>The part of Webhook before the rules are consulted: the app, its secret, the signature and
  the ref.\<close>

definition webhook_authenticate ::
  "webhook_env \<Rightarrow> string \<Rightarrow> delivery \<Rightarrow> (api, response, app \<times> string) sem" where
  "webhook_authenticate env app_id r =
     and_then (map_err (\<lambda>_. write_error 404 ''not found'') (on_db (get_app app_id))) (\<lambda>ap.
     and_then (map_err (\<lambda>_. write_error 404 ''not found'') (on_db (get_app_webhook_secret app_id))) (\<lambda>enc.
     if enc = [] then throw (write_error 404 ''not found'')
     else case we_box env of
       None \<Rightarrow> throw (write_error 503 ''VAC_MASTER_KEY not configured'')
     | Some open_box \<Rightarrow>
       (case open_box enc of
          None \<Rightarrow> throw (write_error 500 ''could not read webhook secret'')
        | Some secret \<Rightarrow>
          (case dl_body r of
             None \<Rightarrow> throw (write_error 400 ''could not read body'')
           | Some body \<Rightarrow>
             if \<not> verify_delivery (we_hmac env) secret body (dl_headers r)
             then throw (write_error 401 ''invalid signature'')
             else ret (ap, body)))))"

text \<open>The preview fork; a return of the handler is an early return here.\<close>

definition webhook_previews ::
  "webhook_env \<Rightarrow> string \<Rightarrow> app \<Rightarrow> string \<Rightarrow> event \<Rightarrow> string \<Rightarrow> trigger list \<Rightarrow> (api, response, unit) sem" where
  "webhook_previews env app_id ap body kind name triggers =
     (case we_previews env of
        None \<Rightarrow> ret ()
      | Some pv \<Rightarrow>
        if kind \<noteq> EvPush then ret ()
        else if is_branch_delete (we_decode_delete env) body then
          and_then (attempt (pv_teardown_by_branch pv app_id name)) (\<lambda>res.
            case res of
              Inr _ \<Rightarrow> and_then (answer app_id (''tore down preview for deleted branch '' @ name @ '' of '' @ a_slug ap)
                          202 [(''status'', ''preview-teardown'')]) (\<lambda>_. ret ())
            | Inl e \<Rightarrow>
                if e = PvNotFound
                then and_then (answer app_id (''ignored delete of '' @ name @ '' for '' @ a_slug ap @ '' (no preview)'')
                       200 [(''status'', ''ignored''), (''reason'', ''no preview for branch'')]) (\<lambda>_. ret ())
                else throw (write_error 500 ''could not tear down preview''))
        else if name \<noteq> a_git_branch ap \<and> match_triggers triggers EvPreview name then
          and_then (attempt (pv_ensure pv app_id name)) (\<lambda>res.
            case res of
              Inr _ \<Rightarrow> and_then (answer app_id (''preview deploy of '' @ a_slug ap @ '' from branch '' @ name)
                          202 [(''status'', ''preview'')]) (\<lambda>_. ret ())
            | Inl e \<Rightarrow>
                if e = PvCapReached
                then and_then (answer app_id
                       (''refused preview of '' @ a_slug ap @ '' from '' @ name @ '' (preview limit reached)'')
                       202 [(''status'', ''capped''), (''reason'', ''preview limit reached'')]) (\<lambda>_. ret ())
                else throw (write_error 500 ''could not ensure preview''))
        else ret ())"

text \<open>From the coalescing check to the end.\<close>

definition webhook_deploy ::
  "webhook_env \<Rightarrow> string \<Rightarrow> string \<Rightarrow> app \<Rightarrow> event \<Rightarrow> string \<Rightarrow> trigger list \<Rightarrow> handler" where
  "webhook_deploy env new app_id ap kind name triggers =
     and_then (attempt (on_db (has_active_deployment app_id))) (\<lambda>act.
     if (case act of Inr b \<Rightarrow> b | Inl _ \<Rightarrow> False) then coalesced app_id kind name ap
     else
       let by = (if kind = EvTag then triggered_tag else triggered_push);
           subject = a_slug ap @ '' from '' @ kind_text kind @ '' '' @ name
       in if (case matching_trigger triggers kind name of Some t \<Rightarrow> t_require_approval t | None \<Rightarrow> False) then
            and_then (attempt (on_db (create_deployment_with_status new app_id by PendingApproval None))) (\<lambda>res.
              if (case res of Inl e \<Rightarrow> e \<noteq> ErrActiveDeploymentExists | Inr _ \<Rightarrow> False)
              then throw (write_error 500 ''could not create deployment'')
              else answer app_id (''deploy of '' @ subject @ '' awaiting approval'') 202
                     [(''status'', ''pending-approval'')])
          else if (case parse_windows (we_unmarshal env) (a_deploy_window ap) of
                     Inl _ \<Rightarrow> False | Inr windows \<Rightarrow> \<not> allows (we_load env) (we_now env) windows) then
            and_then (attempt (on_db (create_deployment_with_status new app_id by Scheduled None))) (\<lambda>res.
              if (case res of Inl e \<Rightarrow> e \<noteq> ErrActiveDeploymentExists | Inr _ \<Rightarrow> False)
              then throw (write_error 500 ''could not schedule deployment'')
              else answer app_id
                     (''scheduled '' @ kind_text kind @ '' '' @ name @ '' for '' @ a_slug ap @ '' (outside deploy window)'')
                     202 [(''status'', ''scheduled'')])
          else
            and_then (attempt (on_db (create_deployment new app_id by None))) (\<lambda>res.
              case res of
                Inl e \<Rightarrow> if e = ErrActiveDeploymentExists then coalesced app_id kind name ap
                         else throw (write_error 500 ''could not create deployment'')
              | Inr d \<Rightarrow>
                  and_then (map_err (enqueue_response ''could not enqueue deployment'') (on_worker (enqueue (d_id d)))) (\<lambda>_.
                  answer app_id (''deploy of '' @ subject) 202
                    [(''status'', ''deploying''), (''deployment_id'', d_id d)])))"

definition webhook :: "webhook_env \<Rightarrow> string \<Rightarrow> string \<Rightarrow> delivery \<Rightarrow> handler" where
  "webhook env new app_id r =
     and_then (webhook_authenticate env app_id r) (\<lambda>(ap, body).
     case extract_ref (we_decode_ref env) (dl_query_ref r) body of
       None \<Rightarrow> answer app_id (''webhook delivery with no ref ignored for '' @ a_slug ap) 200
                 [(''status'', ''ignored''), (''reason'', ''no ref'')]
     | Some ref \<Rightarrow>
       (let (kind, name) = parse_ref ref in
        if \<not> git_ref_ok name
        then answer app_id (''ignored '' @ kind_text kind @ '' with unsupported ref name for '' @ a_slug ap) 200
               [(''status'', ''ignored''), (''reason'', ''unsupported ref name'')]
        else
          and_then (map_err (\<lambda>_. write_error 500 ''could not load triggers'') (list_deploy_triggers app_id)) (\<lambda>triggers.
          and_then (webhook_previews env app_id ap body kind name triggers) (\<lambda>_.
          if \<not> match_triggers triggers kind name
          then answer app_id (''ignored '' @ kind_text kind @ '' '' @ name @ '' for '' @ a_slug ap @ '' (no matching rule)'')
                 200 [(''status'', ''ignored''), (''reason'', ''no matching trigger'')]
          else webhook_deploy env new app_id ap kind name triggers))))"

section \<open>Authentic, matching deliveries\<close>

text \<open>The delivery carries the secret of the app, in one of the three ways.\<close>

definition authentic :: "webhook_env \<Rightarrow> app list \<Rightarrow> string \<Rightarrow> delivery \<Rightarrow> bool" where
  "authentic env as app_id r = list_ex (\<lambda>x. a_id x = app_id \<and> a_webhook_secret x \<noteq> [] \<and>
     (case we_box env of None \<Rightarrow> False | Some open_box \<Rightarrow>
       (case (open_box (a_webhook_secret x), dl_body r) of
          (Some secret, Some body) \<Rightarrow> verify_delivery (we_hmac env) secret body (dl_headers r)
        | _ \<Rightarrow> False))) as"

text \<open>The delivery names an acceptable ref that one of the app's rules fires on.\<close>

definition fires :: "webhook_env \<Rightarrow> trigger list \<Rightarrow> string \<Rightarrow> delivery \<Rightarrow> bool" where
  "fires env triggers app_id r = (case dl_body r of None \<Rightarrow> False | Some body \<Rightarrow>
     (case extract_ref (we_decode_ref env) (dl_query_ref r) body of None \<Rightarrow> False | Some ref \<Rightarrow>
       (let (kind, name) = parse_ref ref
        in git_ref_ok name \<and> match_triggers (filter (\<lambda>t. t_app t = app_id) triggers) kind name)))"

lemma on_db_same:
  assumes "\<And>ds. keeps (same_deployments ds) m"
  shows "deployments (y_db (snd (on_db m y))) = deployments (y_db y)"
  using assms [of "deployments (y_db y)"] by (simp add: keeps_def same_deployments_def)

definition undisturbed :: "api \<Rightarrow> api \<Rightarrow> bool" where
  "undisturbed y z = (deployments (y_db z) = deployments (y_db y) \<and> y_worker z = y_worker y
     \<and> y_triggers z = y_triggers y \<and> apps (y_db z) = apps (y_db y))"

lemma keeps_undisturbed_reads [vac_wp]:
  "keeps (undisturbed y) (on_db (get_app i))" "keeps (undisturbed y) (on_db (get_app_webhook_secret i))"
  "keeps (undisturbed y) (on_db (has_active_deployment i))" "keeps (undisturbed y) (list_deploy_triggers i)"
  "keeps (undisturbed y) (audit e)"
  by (auto simp: keeps_def undisturbed_def on_db_def get_app_def get_app_webhook_secret_def and_then_def ret_def
      has_active_deployment_def list_deploy_triggers_def audit_def act_def db_call_def Let_def
      split: option.splits prod.splits sum.splits)

lemma keeps_undisturbed_answer [vac_wp]:
  "keeps (undisturbed y) (answer a m n fs)" "keeps (undisturbed y) (coalesced a k nm ap)"
  unfolding answer_def coalesced_def audit_webhook_def by (intro vac_wp)+

lemma authenticate_undisturbed: "keeps (undisturbed y) (webhook_authenticate env a r)"
  unfolding webhook_authenticate_def by (intro vac_wp)

lemma authenticate_Inr:
  assumes "fst (webhook_authenticate env a r y) = Inr (ap, body)"
  shows "authentic env (apps (y_db y)) a r \<and> dl_body r = Some body"
proof -
  have "\<exists>x enc open_box secret. find (\<lambda>x. a_id x = a) (apps (y_db y)) = Some x \<and> enc = a_webhook_secret x
      \<and> enc \<noteq> [] \<and> we_box env = Some open_box \<and> open_box enc = Some secret \<and> dl_body r = Some body
      \<and> verify_delivery (we_hmac env) secret body (dl_headers r)"
    using assms
    by (auto simp: webhook_authenticate_def sem_defs on_db_def get_app_def get_app_webhook_secret_def
        db_call_def Let_def split: if_splits option.splits prod.splits sum.splits)
  then show ?thesis
    by (auto simp: authentic_def list_ex_iff find_Some_iff)
qed

text \<open>One new row of the app, which the worker was given or not.\<close>

definition acted :: "string \<Rightarrow> api \<Rightarrow> api \<Rightarrow> bool" where
  "acted a y z = (\<exists>d. deployments (y_db z) = deployments (y_db y) @ [d] \<and> d_app d = a
     \<and> (y_worker z = y_worker y \<or> wk_queue (y_worker z) = wk_queue (y_worker y) @ [d_id d]))"

lemma create_app:
  "fst (create_deployment_with_status i a t st r s) = Inr d \<Longrightarrow> d_app d = a"
  by (auto simp: create_deployment_with_status_def insert_deployment_def map_err_def and_then_def reads_def
      db_call_def Let_def split: if_splits prod.splits sum.splits)

definition fresh_row :: "string \<Rightarrow> api \<Rightarrow> deployment \<Rightarrow> api \<Rightarrow> bool" where
  "fresh_row a y d z = (deployments (y_db z) = deployments (y_db y) @ [d] \<and> d_app d = a \<and> y_worker z = y_worker y)"

lemma keeps_apps_create: "keeps (\<lambda>s. apps s = as) (create_deployment_with_status i a t st r)"
  by (auto simp: keeps_def create_deployment_with_status_def insert_deployment_def map_err_def and_then_def
      reads_def db_call_def Let_def split: prod.splits sum.splits if_splits)

lemma create_acts:
  "triple (undisturbed y) (attempt (on_db (create_deployment_with_status i a t st r)))
     (\<lambda>res z. case res of Inl _ \<Rightarrow> undisturbed y z | Inr d \<Rightarrow> fresh_row a y d z) F"
  unfolding triple_def
proof (intro allI impI)
  fix x
  assume x: "undisturbed y x"
  let ?m = "create_deployment_with_status i a t st r"
  have rows: "deployments (snd (?m (y_db x))) =
      (case fst (?m (y_db x)) of Inr d \<Rightarrow> deployments (y_db x) @ [d] | Inl _ \<Rightarrow> deployments (y_db x))"
    using appends_create(2) unfolding appends_def by blast
  have same: "apps (snd (?m (y_db x))) = apps (y_db x)"
    using keeps_apps_create [of "apps (y_db x)"] by (simp add: keeps_def)
  show "case attempt (on_db ?m) x of (Inl e, s') \<Rightarrow> F e s'
    | (Inr res, z) \<Rightarrow> case res of Inl _ \<Rightarrow> undisturbed y z | Inr d \<Rightarrow> fresh_row a y d z"
    using x rows same create_app [of i a t st r "y_db x"]
    by (cases "?m (y_db x)"; cases "fst (?m (y_db x))")
      (auto simp: attempt_def on_db_def undisturbed_def fresh_row_def)
qed

lemma acted_answer:
  "triple (fresh_row a y d) (answer b m n fs) (\<lambda>_. acted a y) (\<lambda>_. acted a y)"
  by (auto simp: triple_def answer_def audit_webhook_def audit_def sem_defs fresh_row_def acted_def)

lemma acted_enqueue:
  "triple (fresh_row a y d) (and_then (map_err g (on_worker (enqueue (d_id d)))) (\<lambda>_. answer b m n fs))
     (\<lambda>_. acted a y) (\<lambda>_. acted a y)"
  by (auto simp: triple_def answer_def audit_webhook_def audit_def sem_defs fresh_row_def acted_def
      on_worker_def enqueue_def)

lemma undisturbed_answer:
  "triple (undisturbed y) (answer b m n fs) (\<lambda>_ z. undisturbed y z \<or> acted a y z) (\<lambda>_ z. undisturbed y z \<or> acted a y z)"
  "triple (undisturbed y) (coalesced b k nm ap) (\<lambda>_ z. undisturbed y z \<or> acted a y z) (\<lambda>_ z. undisturbed y z \<or> acted a y z)"
  by (rule triple_post [OF triple_keeps]; (rule vac_wp | blast))+

lemma webhook_deploy_acts:
  "triple (undisturbed y) (webhook_deploy env new a ap kind name ts)
     (\<lambda>_ z. undisturbed y z \<or> acted a y z) (\<lambda>_ z. undisturbed y z \<or> acted a y z)"
proof -
  have parked: "triple (undisturbed y)
      (and_then (attempt (on_db (create_deployment_with_status new a by st None))) (\<lambda>res.
         if (case res of Inl e \<Rightarrow> e \<noteq> ErrActiveDeploymentExists | Inr _ \<Rightarrow> False)
         then throw e else answer a m n fs))
      (\<lambda>_ z. undisturbed y z \<or> acted a y z) (\<lambda>_ z. undisturbed y z \<or> acted a y z)" for "by" st e m n fs
  proof (rule triple_and_then [OF create_acts])
    fix res :: "store_err + deployment"
    show "triple (\<lambda>z. case res of Inl _ \<Rightarrow> undisturbed y z | Inr d \<Rightarrow> fresh_row a y d z)
        (if (case res of Inl e \<Rightarrow> e \<noteq> ErrActiveDeploymentExists | Inr _ \<Rightarrow> False) then throw e else answer a m n fs)
        (\<lambda>_ z. undisturbed y z \<or> acted a y z) (\<lambda>_ z. undisturbed y z \<or> acted a y z)"
      by (cases res) (auto intro: triple_if triple_throw undisturbed_answer triple_post [OF acted_answer])
  qed
  have direct: "triple (undisturbed y)
      (and_then (attempt (on_db (create_deployment new a by None))) (\<lambda>res. case res of
         Inl e \<Rightarrow> if e = ErrActiveDeploymentExists then coalesced a kind name ap else throw r
       | Inr d \<Rightarrow> and_then (map_err g (on_worker (enqueue (d_id d)))) (\<lambda>_. answer a m n (fs d))))
      (\<lambda>_ z. undisturbed y z \<or> acted a y z) (\<lambda>_ z. undisturbed y z \<or> acted a y z)" for "by" r g m n fs
    unfolding create_deployment_queued
  proof (rule triple_and_then [OF create_acts])
    fix res :: "store_err + deployment"
    show "triple (\<lambda>z. case res of Inl _ \<Rightarrow> undisturbed y z | Inr d \<Rightarrow> fresh_row a y d z)
        (case res of
           Inl e \<Rightarrow> if e = ErrActiveDeploymentExists then coalesced a kind name ap else throw r
         | Inr d \<Rightarrow> and_then (map_err g (on_worker (enqueue (d_id d)))) (\<lambda>_. answer a m n (fs d)))
        (\<lambda>_ z. undisturbed y z \<or> acted a y z) (\<lambda>_ z. undisturbed y z \<or> acted a y z)"
      by (cases res) (auto intro: triple_if triple_throw undisturbed_answer triple_post [OF acted_enqueue])
  qed
  show ?thesis
    unfolding webhook_deploy_def Let_def
    by (rule triple_and_then [OF triple_pre [OF _ triple_post [OF triple_keeps [OF keeps_attempt [OF keeps_undisturbed_reads(3)]]]]],
        assumption, assumption, blast)
      (intro triple_if undisturbed_answer parked direct)
qed

section \<open>Properties\<close>

lemma list_triggers_Inr:
  "fst (list_deploy_triggers a y) = Inr ts \<Longrightarrow> ts = filter (\<lambda>t. t_app t = a) (y_triggers y)"
  by (auto simp: list_deploy_triggers_def on_db_def db_call_def Let_def split: if_splits)

lemma snd_answer_undisturbed: "undisturbed y z \<Longrightarrow> undisturbed y (snd (answer a m n fs z))"
  using keeps_undisturbed_answer(1) by (simp add: keeps_def)

lemma webhook_matched_acts:
  assumes previews: "we_previews env = None" and auth: "webhook_authenticate env a r y = (Inr (ap, body), y1)" "undisturbed y y1"
    and facts: "authentic env (apps (y_db y)) a r" "dl_body r = Some body"
    and ref: "extract_ref (we_decode_ref env) (dl_query_ref r) body = Some ref" "parse_ref ref = (kind, name)" "git_ref_ok name"
    and rules: "list_deploy_triggers a y1 = (Inr ts, y2)" "undisturbed y y2"
  shows "undisturbed y (snd (webhook env new a r y))
    \<or> authentic env (apps (y_db y)) a r \<and> fires env (y_triggers y) a r \<and> acted a y (snd (webhook env new a r y))"
proof -
  let ?z = "snd (webhook env new a r y)"
  have step: "?z = snd ((if \<not> match_triggers ts kind name
      then answer a (''ignored '' @ kind_text kind @ '' '' @ name @ '' for '' @ a_slug ap @ '' (no matching rule)'')
         200 [(''status'', ''ignored''), (''reason'', ''no matching trigger'')]
      else webhook_deploy env new a ap kind name ts) y2)"
    using auth(1) ref rules(1) previews by (simp add: webhook_def and_then_def map_err_def webhook_previews_def ret_def)
  show ?thesis
  proof (cases "match_triggers ts kind name")
    case False
    then show ?thesis using step rules(2) by (simp add: snd_answer_undisturbed)
  next
    case True
    have "ts = filter (\<lambda>t. t_app t = a) (y_triggers y)"
      using list_triggers_Inr [of a y1 ts] rules(1) auth(2) by (simp add: undisturbed_def)
    then have "fires env (y_triggers y) a r" using facts(2) ref True by (simp add: fires_def)
    moreover have "undisturbed y ?z \<or> acted a y ?z"
      using webhook_deploy_acts [of y env new a ap kind name ts] rules(2) step True
      unfolding triple_def by (fastforce split: prod.splits sum.splits)
    ultimately show ?thesis using facts(1) by blast
  qed
qed

lemma webhook_acts:
  assumes "we_previews env = None"
  shows "undisturbed y (snd (webhook env new a r y))
    \<or> authentic env (apps (y_db y)) a r \<and> fires env (y_triggers y) a r \<and> acted a y (snd (webhook env new a r y))"
proof -
  have id: "undisturbed y y" by (simp add: undisturbed_def)
  obtain ra y1 where a1: "webhook_authenticate env a r y = (ra, y1)" by fastforce
  have u1: "undisturbed y y1" using authenticate_undisturbed [of y env a r] id a1 by (force simp: keeps_def)
  show ?thesis
  proof (cases ra)
    case (Inl e)
    then show ?thesis using a1 u1 by (simp add: webhook_def and_then_def)
  next
    case (Inr ab)
    obtain ap body where ab: "ab = (ap, body)" by fastforce
    have auth: "authentic env (apps (y_db y)) a r" "dl_body r = Some body"
      using authenticate_Inr [of env a r y ap body] a1 Inr ab by simp_all
    show ?thesis
    proof (cases "extract_ref (we_decode_ref env) (dl_query_ref r) body")
      case None
      then show ?thesis using a1 Inr ab u1 by (simp add: webhook_def and_then_def snd_answer_undisturbed)
    next
      case (Some ref)
      obtain kind name where kn: "parse_ref ref = (kind, name)" by fastforce
      obtain rt y2 where t1: "list_deploy_triggers a y1 = (rt, y2)" by fastforce
      have u2: "undisturbed y y2" using keeps_undisturbed_reads(4) [of y a] u1 t1 by (force simp: keeps_def)
      show ?thesis
      proof (cases "git_ref_ok name")
        case False
        then show ?thesis using a1 Inr ab Some kn u1 by (simp add: webhook_def and_then_def snd_answer_undisturbed)
      next
        case True
        show ?thesis
        proof (cases rt)
          case (Inl e)
          then show ?thesis using a1 \<open>ra = Inr ab\<close> ab Some kn True t1 u2 by (simp add: webhook_def and_then_def map_err_def)
        next
          case ts: (Inr ts)
          show ?thesis
            using webhook_matched_acts [OF assms a1 [unfolded Inr ab] u1 auth Some kn True t1 [unfolded ts] u2] .
        qed
      qed
    qed
  qed
qed



section \<open>Witnesses\<close>

definition demo_env :: webhook_env where
  "demo_env = \<lparr>we_box = Some Some, we_hmac = (\<lambda>k b. b), we_decode_ref = (\<lambda>_. ''refs/heads/main''),
     we_decode_delete = (\<lambda>_. None), we_unmarshal = Inl, we_load = (\<lambda>_. None), we_now = 0, we_previews = None\<rparr>"

definition demo_delivery :: delivery where
  "demo_delivery = \<lparr>dl_headers = \<lparr>hub_signature = [], gitlab_token = ''s'', vac_token = []\<rparr>,
     dl_query_ref = [], dl_body = Some ''{}''\<rparr>"



end
