(* ===== verification/Compose_Preflight.thy ===== *)
theory Compose_Preflight
  imports VAC_Prelude "HOL-Library.AList" "HOL-Library.Char_ord" "HOL-Library.List_Lexorder"
    "HOL-Library.Product_Lexorder" "HOL-Library.Multiset"
begin

text \<open>
  The compose preflight lint: api/internal/compose/preflight.go. The YAML decoder is not part of
  the repository: a decoded document is a value of the datatype \<open>yaml\<close>, one constructor per
  dynamic Go type on which the code switches, and the decoder is the parameter \<open>unmarshal\<close>.
  A Go map with string keys is an association list with distinct keys.
\<close>

section \<open>Decoded documents\<close>

text \<open>\<open>YFloat\<close> carries the value truncated to an int and its printed form, \<open>YOther\<close> the
  printed form of a value of any other type (a time, a map with other keys, a wider integer).\<close>

datatype yaml =
    YNull | YBool bool | YInt int | YFloat int string | YStr string
  | YSeq "yaml list" | YMap "(string \<times> yaml) list" | YOther string

text \<open>fmt.Sprint of a value of type any; maps are printed in key order.\<close>

fun sprint :: "yaml \<Rightarrow> string" where
  "sprint YNull = ''<nil>''"
| "sprint (YBool b) = (if b then ''true'' else ''false'')"
| "sprint (YInt n) = show_int n"
| "sprint (YFloat n s) = s"
| "sprint (YStr s) = s"
| "sprint (YSeq xs) = ''['' @ join_str '' '' (map sprint xs) @ '']''"
| "sprint (YMap kvs) =
     ''map['' @ join_str '' '' (map snd (sort_key fst (map (\<lambda>(k, v). (k, k @ '':'' @ sprint v)) kvs))) @ '']''"
| "sprint (YOther s) = s"

definition field :: "(string \<times> yaml) list \<Rightarrow> string \<Rightarrow> yaml" where
  "field m k = (case map_of m k of None \<Rightarrow> YNull | Some v \<Rightarrow> v)"

definition str_or_empty :: "yaml \<Rightarrow> string" where
  "str_or_empty v = (case v of YStr s \<Rightarrow> s | _ \<Rightarrow> [])"

section \<open>Findings\<close>

datatype severity = SeverityWarn | SeverityError

fun severity_text :: "severity \<Rightarrow> string" where
  "severity_text SeverityError = ''error''"
| "severity_text SeverityWarn = ''warning''"

definition code_edge_port :: string where "code_edge_port = ''edge_port_conflict''"
definition code_bundled_proxy :: string where "code_bundled_proxy = ''bundled_reverse_proxy''"
definition code_docker_socket :: string where "code_docker_socket = ''docker_socket_mount''"
definition code_privileged :: string where "code_privileged = ''privileged_or_host_net''"
definition code_host_port :: string where "code_host_port = ''host_port_publish''"
definition code_container_name :: string where "code_container_name = ''fixed_container_name''"
definition code_lifecycle :: string where "code_lifecycle = ''lifecycle_daemon''"
definition code_no_http :: string where "code_no_http = ''no_routable_http''"

lemmas code_defs [go_eval] = code_edge_port_def code_bundled_proxy_def code_docker_socket_def
  code_privileged_def code_host_port_def code_container_name_def code_lifecycle_def code_no_http_def

record finding =
  f_severity :: severity
  f_code :: string
  f_service :: string
  f_message :: string

definition is_host_escape :: "finding \<Rightarrow> bool" where
  "is_host_escape f = (f_code f \<in> {code_docker_socket, code_privileged})"

text \<open>Finding.Format and JoinFindings.\<close>

definition format_finding :: "finding \<Rightarrow> string" where
  "format_finding f =
     ''compose preflight '' @ severity_text (f_severity f) @ '' ['' @ f_code f @ '']: '' @ f_message f"

fun join_findings_from :: "nat \<Rightarrow> finding list \<Rightarrow> string" where
  "join_findings_from i [] = []"
| "join_findings_from i (f # fs) =
     (if i > 0 then [CHR 0x0A] else []) @ ''  '' @ bullet @ '' '' @ f_message f
     @ join_findings_from (i + 1) fs"

definition join_findings :: "finding list \<Rightarrow> string" where
  "join_findings fs = join_findings_from 0 fs"

section \<open>Matcher tables\<close>

definition proxy_image_bases :: "string list" where
  "proxy_image_bases = [''traefik'', ''caddy'']"

definition daemon_image_needles :: "string list" where
  "daemon_image_needles = [''watchtower'', ''ouroboros'']"

definition edge_ports :: "int list" where
  "edge_ports = [80, 443]"

definition dangerous_caps :: "string list" where
  "dangerous_caps = [''ALL'', ''SYS_ADMIN'', ''SYS_MODULE'', ''SYS_PTRACE'', ''SYS_RAWIO'',
     ''SYS_BOOT'', ''DAC_READ_SEARCH'', ''DAC_OVERRIDE'', ''BPF'']"

section \<open>Normalisation of the service fields\<close>

definition as_string_slice :: "yaml \<Rightarrow> string list" where
  "as_string_slice v = (case v of YSeq es \<Rightarrow> map sprint es | YStr s \<Rightarrow> [s] | _ \<Rightarrow> [])"

fun put_labels :: "(string \<times> string) list \<Rightarrow> yaml list \<Rightarrow> (string \<times> string) list" where
  "put_labels out [] = out"
| "put_labels out (e # es) =
     (let s = sprint e
      in put_labels (case cut_byte (CHR ''='') s of
                       Some (k, v) \<Rightarrow> AList.update k v out
                     | None \<Rightarrow> AList.update s [] out) es)"

definition normalize_labels :: "yaml \<Rightarrow> (string \<times> string) list" where
  "normalize_labels v = (case v of
       YMap kvs \<Rightarrow> map (\<lambda>(k, x). (k, sprint x)) kvs
     | YSeq es \<Rightarrow> put_labels [] es
     | _ \<Rightarrow> [])"

fun volume_entries :: "yaml list \<Rightarrow> string list" where
  "volume_entries [] = []"
| "volume_entries (e # es) =
     (case e of
        YStr s \<Rightarrow> s # volume_entries es
      | YMap m \<Rightarrow> (case field m ''source'' of YStr src \<Rightarrow> src # volume_entries es | _ \<Rightarrow> volume_entries es)
      | _ \<Rightarrow> volume_entries es)"

definition normalize_volumes :: "yaml \<Rightarrow> string list" where
  "normalize_volumes v = (case v of YSeq es \<Rightarrow> volume_entries es | _ \<Rightarrow> [])"

record port_mapping =
  pm_host :: int
  pm_target :: int
  pm_proto :: string

text \<open>atoiFirst: the first number of a range, with strconv's error dropped.\<close>

definition atoi_first :: "string \<Rightarrow> int" where
  "atoi_first s = fst (atoi (before_byte (CHR ''-'') (trim_space s)))"

definition to_int :: "yaml \<Rightarrow> int" where
  "to_int v = (case v of YInt n \<Rightarrow> n | YFloat n _ \<Rightarrow> n | YStr s \<Rightarrow> atoi_first s | _ \<Rightarrow> 0)"

definition parse_port_string :: "string \<Rightarrow> port_mapping" where
  "parse_port_string s0 =
     (let (s, proto) = (case cut_byte (CHR ''/'') s0 of Some (a, b) \<Rightarrow> (a, b) | None \<Rightarrow> (s0, []));
          pm = \<lparr>pm_host = 0, pm_target = 0, pm_proto = proto\<rparr>
      in case split_byte (CHR '':'') s of
           [t] \<Rightarrow> pm\<lparr>pm_target := atoi_first t\<rparr>
         | [h, t] \<Rightarrow> pm\<lparr>pm_host := atoi_first h, pm_target := atoi_first t\<rparr>
         | [_, h, t] \<Rightarrow> pm\<lparr>pm_host := atoi_first h, pm_target := atoi_first t\<rparr>
         | _ \<Rightarrow> pm)"

fun port_entries :: "yaml list \<Rightarrow> port_mapping list" where
  "port_entries [] = []"
| "port_entries (e # es) =
     (case e of
        YStr s \<Rightarrow> parse_port_string s # port_entries es
      | YInt n \<Rightarrow> \<lparr>pm_host = 0, pm_target = n, pm_proto = []\<rparr> # port_entries es
      | YMap m \<Rightarrow> \<lparr>pm_host = to_int (field m ''published''), pm_target = to_int (field m ''target''),
                    pm_proto = str_or_empty (field m ''protocol'')\<rparr> # port_entries es
      | _ \<Rightarrow> port_entries es)"

definition normalize_ports :: "yaml \<Rightarrow> port_mapping list" where
  "normalize_ports v = (case v of YSeq es \<Rightarrow> port_entries es | _ \<Rightarrow> [])"

text \<open>imageRepo and imageBaseName.\<close>

definition image_repo :: "string \<Rightarrow> string" where
  "image_repo img =
     (let s = before_byte (CHR ''@'') img
      in case last_cut_byte (CHR '':'') s of
           Some (a, b) \<Rightarrow> if \<not> contains_str b ''/'' then a else s
         | None \<Rightarrow> s)"

definition image_base_name :: "string \<Rightarrow> string" where
  "image_base_name img =
     (let repo = image_repo img
      in case last_cut_byte (CHR ''/'') repo of Some (a, b) \<Rightarrow> b | None \<Rightarrow> repo)"

definition volume_source :: "string \<Rightarrow> string" where
  "volume_source vol = before_byte (CHR '':'') vol"

text \<open>volumeIsDockerSocket and the stricter volumeExposesDockerSocket.\<close>

definition volume_is_docker_socket :: "string \<Rightarrow> bool" where
  "volume_is_docker_socket vol = has_suffix (trim_space (volume_source vol)) ''docker.sock''"

definition volume_exposes_docker_socket :: "string \<Rightarrow> bool" where
  "volume_exposes_docker_socket vol =
     (let src0 = trim_right_byte (CHR ''/'') (trim_space (volume_source vol));
          src = (if src0 = [] then ''/'' else src0)
      in if has_suffix src ''docker.sock'' then True
         else src \<in> {''/'', ''/run'', ''/var'', ''/var/run''})"

section \<open>Views\<close>

record preflight_view =
  v_name :: string
  v_image :: string
  v_command :: "string list"
  v_ports :: "port_mapping list"
  v_expose :: "string list"
  v_volumes :: "string list"
  v_labels :: "(string \<times> string) list"
  v_container_name :: string
  v_privileged :: bool
  v_network_mode :: string
  v_pid_mode :: string
  v_userns_mode :: string
  v_cap_add :: "string list"
  v_security_opt :: "string list"

definition empty_view :: "string \<Rightarrow> preflight_view" where
  "empty_view name = \<lparr>v_name = name, v_image = [], v_command = [], v_ports = [], v_expose = [],
     v_volumes = [], v_labels = [], v_container_name = [], v_privileged = False,
     v_network_mode = [], v_pid_mode = [], v_userns_mode = [], v_cap_add = [], v_security_opt = []\<rparr>"

definition service_view :: "string \<Rightarrow> yaml \<Rightarrow> preflight_view" where
  "service_view name body =
     (case body of
        YMap m \<Rightarrow>
          \<lparr>v_name = name,
           v_image = str_or_empty (field m ''image''),
           v_command = as_string_slice (field m ''command''),
           v_ports = normalize_ports (field m ''ports''),
           v_expose = as_string_slice (field m ''expose''),
           v_volumes = normalize_volumes (field m ''volumes''),
           v_labels = normalize_labels (field m ''labels''),
           v_container_name = str_or_empty (field m ''container_name''),
           v_privileged = (case field m ''privileged'' of YBool b \<Rightarrow> b | _ \<Rightarrow> False),
           v_network_mode = str_or_empty (field m ''network_mode''),
           v_pid_mode = str_or_empty (field m ''pid''),
           v_userns_mode = str_or_empty (field m ''userns_mode''),
           v_cap_add = as_string_slice (field m ''cap_add''),
           v_security_opt = as_string_slice (field m ''security_opt'')\<rparr>
      | _ \<Rightarrow> empty_view name)"

text \<open>parsePreflightBytes: the decoder returns the top-level map or an error text.\<close>

definition parse_preflight_bytes ::
  "(string \<Rightarrow> string + (string \<times> yaml) list) \<Rightarrow> string \<Rightarrow> string + preflight_view list" where
  "parse_preflight_bytes unmarshal raw =
     (case unmarshal raw of
        Inl err \<Rightarrow> Inl (''compose: parse: '' @ err)
      | Inr doc \<Rightarrow>
          (case field doc ''services'' of
             YMap services \<Rightarrow>
               Inr (sort_key v_name (map (\<lambda>(name, body). service_view name body) services))
           | _ \<Rightarrow> Inl ''compose: document has no services section''))"

text \<open>parsePreflight: the same after reading the file.\<close>

definition parse_preflight ::
  "(string \<Rightarrow> string + string) \<Rightarrow> (string \<Rightarrow> string + (string \<times> yaml) list) \<Rightarrow> string
   \<Rightarrow> string + preflight_view list" where
  "parse_preflight read_file unmarshal path =
     (case read_file path of
        Inl err \<Rightarrow> Inl (''compose: read '' @ path @ '': '' @ err)
      | Inr raw \<Rightarrow> parse_preflight_bytes unmarshal raw)"

section \<open>Rules\<close>

fun first_exposed :: "string list \<Rightarrow> int option" where
  "first_exposed [] = None"
| "first_exposed (e # es) =
     (let n = atoi_first (before_byte (CHR ''/'') e) in if n > 0 then Some n else first_exposed es)"

fun first_target :: "port_mapping list \<Rightarrow> int" where
  "first_target [] = 0"
| "first_target (p # ps) = (if pm_target p > 0 then pm_target p else first_target ps)"

definition routable_port :: "preflight_view \<Rightarrow> int" where
  "routable_port v = (case first_exposed (v_expose v) of Some n \<Rightarrow> n | None \<Rightarrow> first_target (v_ports v))"

definition has_port_target :: "preflight_view \<Rightarrow> bool" where
  "has_port_target v = list_ex (\<lambda>p. pm_target p > 0) (v_ports v)"

definition binds_edge_port :: "preflight_view \<Rightarrow> bool" where
  "binds_edge_port v = list_ex (\<lambda>p. pm_host p \<in> set edge_ports) (v_ports v)"

definition has_traefik_label :: "preflight_view \<Rightarrow> bool" where
  "has_traefik_label v = list_ex (\<lambda>(k, _). has_prefix k ''traefik.'') (v_labels v)"

definition mk_finding :: "preflight_view \<Rightarrow> severity \<Rightarrow> string \<Rightarrow> string \<Rightarrow> finding" where
  "mk_finding v sev code msg = \<lparr>f_severity = sev, f_code = code, f_service = v_name v, f_message = msg\<rparr>"

text \<open>Host port bindings.\<close>

definition port_finding :: "preflight_view \<Rightarrow> port_mapping \<Rightarrow> finding list" where
  "port_finding v p =
     (if pm_host p = 0 then []
      else if pm_host p \<in> set edge_ports then
        [mk_finding v SeverityError code_edge_port
           (''service '' @ quote_str (v_name v) @ '' publishes host port '' @ show_int (pm_host p) @ '' ''
            @ em_dash @ '' VAC's Caddy owns 80/443 and terminates TLS for you; remove the host port binding.'')]
      else
        [mk_finding v SeverityWarn code_host_port
           (''service '' @ quote_str (v_name v) @ '' publishes host port '' @ show_int (pm_host p) @ '' ''
            @ em_dash @ '' host ports bypass Caddy and expose the service directly; prefer `expose` plus a VAC domain.'')])"

definition port_findings :: "preflight_view \<Rightarrow> finding list" where
  "port_findings v = concat (map (port_finding v) (v_ports v))"

text \<open>Bundled reverse proxy or edge.\<close>

definition proxy_findings :: "preflight_view \<Rightarrow> finding list" where
  "proxy_findings v =
     (let base = image_base_name (v_image v);
          cmd = join_str '' '' (v_command v);
          hasProxyCmd = (contains_str cmd ''--certificatesresolvers'' \<or> contains_str cmd ''--entrypoints'');
          nginxEdge = (base = ''nginx'' \<and> (binds_edge_port v \<or> has_traefik_label v))
      in if base \<in> set proxy_image_bases \<or> has_traefik_label v \<or> hasProxyCmd \<or> nginxEdge then
           [mk_finding v SeverityError code_bundled_proxy
              (''service '' @ quote_str (v_name v) @ '' looks like a bundled reverse proxy/edge '' @ em_dash
               @ '' VAC is the edge; remove the bundled proxy/ACME and let VAC route and terminate TLS.'')]
         else [])"

text \<open>Docker socket mounts: the first one is reported.\<close>

fun socket_findings_in :: "preflight_view \<Rightarrow> string list \<Rightarrow> finding list" where
  "socket_findings_in v [] = []"
| "socket_findings_in v (vol # vols) =
     (if volume_exposes_docker_socket vol then
        [mk_finding v SeverityError code_docker_socket
           (''service '' @ quote_str (v_name v) @ '' mounts the Docker socket or a directory containing it (''
            @ trim_space (volume_source vol) @ '') '' @ em_dash
            @ '' this grants host-root to app code on the control box; remove the mount.'')]
      else socket_findings_in v vols)"

text \<open>Privileges: the list of the escalations a service asks for.\<close>

definition cap_escalation :: "string \<Rightarrow> string list" where
  "cap_escalation c = (let capName = to_upper (trim_space c)
     in if capName \<in> set dangerous_caps then [''cap_add: '' @ capName] else [])"

definition opt_escalation :: "string \<Rightarrow> string list" where
  "opt_escalation so = (let s = to_lower (trim_space so)
     in if contains_str s ''unconfined'' \<or> contains_str s ''seccomp=unconfined''
           \<or> contains_str s ''apparmor=unconfined'' \<or> contains_str s ''label:disable''
        then [''security_opt: '' @ trim_space so] else [])"

definition escalations :: "preflight_view \<Rightarrow> string list" where
  "escalations v =
     (if v_privileged v then [''privileged: true''] else [])
     @ (if v_network_mode v = ''host'' then [''network_mode: host''] else [])
     @ (if v_pid_mode v = ''host'' then [''pid: host''] else [])
     @ (if v_userns_mode v = ''host'' then [''userns_mode: host''] else [])
     @ concat (map cap_escalation (v_cap_add v))
     @ concat (map opt_escalation (v_security_opt v))"

definition privilege_findings :: "preflight_view \<Rightarrow> finding list" where
  "privilege_findings v =
     (if escalations v \<noteq> [] then
        [mk_finding v SeverityError code_privileged
           (''service '' @ quote_str (v_name v) @ '' requests host-level privileges (''
            @ join_str '', '' (escalations v) @ '') '' @ em_dash
            @ '' this can escape VAC's isolation; remove it.'')]
      else [])"

text \<open>Fixed container names.\<close>

definition name_findings :: "preflight_view \<Rightarrow> finding list" where
  "name_findings v =
     (if v_container_name v \<noteq> [] then
        [mk_finding v SeverityWarn code_container_name
           (''service '' @ quote_str (v_name v) @ '' sets container_name '' @ quote_str (v_container_name v) @ '' ''
            @ em_dash @ '' this breaks project-scoped naming, can collide, and won't be routed by VAC's alias; remove container_name.'')]
      else [])"

text \<open>Container-lifecycle daemons.\<close>

definition is_daemon :: "preflight_view \<Rightarrow> bool" where
  "is_daemon v =
     (let repo = image_repo (v_image v)
      in list_ex (contains_str repo) daemon_image_needles
         \<or> list_ex (\<lambda>(k, _). has_prefix k ''com.centurylinklabs.watchtower'') (v_labels v))"

definition daemon_findings :: "preflight_view \<Rightarrow> finding list" where
  "daemon_findings v =
     (if is_daemon v then
        [mk_finding v SeverityWarn code_lifecycle
           (''service '' @ quote_str (v_name v) @ '' is a container-lifecycle daemon '' @ em_dash
            @ '' VAC owns the deploy lifecycle; this will desync the dashboard; remove it.'')]
      else [])"

text \<open>preflightView.findings: every rule over one service.\<close>

definition view_findings :: "preflight_view \<Rightarrow> finding list" where
  "view_findings v = port_findings v @ proxy_findings v @ socket_findings_in v (v_volumes v)
     @ privilege_findings v @ name_findings v @ daemon_findings v"

section \<open>The lint\<close>

definition no_http_finding :: finding where
  "no_http_finding = \<lparr>f_severity = SeverityWarn, f_code = code_no_http, f_service = [],
     f_message = ''no service exposes an HTTP port (no `expose`/`ports` target found) '' @ em_dash
       @ '' VAC won't assign a domain to this app.''\<rparr>"

definition routable_view :: "preflight_view \<Rightarrow> bool" where
  "routable_view v = (v_expose v \<noteq> [] \<or> has_port_target v)"

definition lint_views :: "preflight_view list \<Rightarrow> finding list" where
  "lint_views views =
     sort_key (\<lambda>f. (f_service f, f_code f))
       (concat (map view_findings views)
        @ (if views \<noteq> [] \<and> \<not> list_ex routable_view views then [no_http_finding] else []))"

text \<open>PreflightBytes and Preflight.\<close>

definition preflight_bytes ::
  "(string \<Rightarrow> string + (string \<times> yaml) list) \<Rightarrow> string \<Rightarrow> string + finding list" where
  "preflight_bytes unmarshal data =
     (case parse_preflight_bytes unmarshal data of
        Inl err \<Rightarrow> Inl err
      | Inr views \<Rightarrow> Inr (lint_views views))"

definition preflight ::
  "(string \<Rightarrow> string + string) \<Rightarrow> (string \<Rightarrow> string + (string \<times> yaml) list) \<Rightarrow> string
   \<Rightarrow> string + finding list" where
  "preflight read_file unmarshal path =
     (case read_file path of
        Inl err \<Rightarrow> Inl (''compose: read '' @ path @ '': '' @ err)
      | Inr raw \<Rightarrow> preflight_bytes unmarshal raw)"

text \<open>ServiceExposedPorts and ServicesWithVolumes: maps from service names.\<close>

definition service_exposed_ports ::
  "(string \<Rightarrow> string + string) \<Rightarrow> (string \<Rightarrow> string + (string \<times> yaml) list) \<Rightarrow> string
   \<Rightarrow> string + (string \<times> int) list" where
  "service_exposed_ports read_file unmarshal path =
     (case parse_preflight read_file unmarshal path of
        Inl err \<Rightarrow> Inl err
      | Inr views \<Rightarrow> Inr (map (\<lambda>v. (v_name v, routable_port v)) (filter (\<lambda>v. routable_port v > 0) views)))"

definition services_with_volumes ::
  "(string \<Rightarrow> string + string) \<Rightarrow> (string \<Rightarrow> string + (string \<times> yaml) list) \<Rightarrow> string
   \<Rightarrow> string + string list" where
  "services_with_volumes read_file unmarshal path =
     (case parse_preflight read_file unmarshal path of
        Inl err \<Rightarrow> Inl err
      | Inr views \<Rightarrow> Inr (map v_name
          (filter (\<lambda>v. list_ex (\<lambda>vol. \<not> volume_is_docker_socket vol) (v_volumes v)) views)))"


section \<open>Lemmas\<close>

text \<open>The two severities are the Go constants 0 and 1.\<close>

instantiation severity :: linorder
begin

definition less_eq_severity :: "severity \<Rightarrow> severity \<Rightarrow> bool" where
  "less_eq_severity a b = (a = SeverityWarn \<or> b = SeverityError)"

definition less_severity :: "severity \<Rightarrow> severity \<Rightarrow> bool" where
  "less_severity a b = (a = SeverityWarn \<and> b = SeverityError)"

instance
proof
  fix x y z :: severity
  show "(x < y) = (x \<le> y \<and> \<not> y \<le> x)" "x \<le> x"
    "x \<le> y \<Longrightarrow> y \<le> z \<Longrightarrow> x \<le> z" "x \<le> y \<Longrightarrow> y \<le> x \<Longrightarrow> x = y" "x \<le> y \<or> y \<le> x"
    by (cases x; cases y; cases z; simp add: less_eq_severity_def less_severity_def)+
qed

end

lemma cap_escalation_iff: "cap_escalation c \<noteq> [] \<longleftrightarrow> to_upper (trim_space c) \<in> set dangerous_caps"
  by (simp add: cap_escalation_def Let_def)

lemma opt_escalation_iff:
  "opt_escalation so \<noteq> [] \<longleftrightarrow>
     sublist ''unconfined'' (to_lower (trim_space so)) \<or> sublist ''label:disable'' (to_lower (trim_space so))"
proof -
  have "sublist ''seccomp=unconfined'' s \<Longrightarrow> sublist ''unconfined'' s"
    "sublist ''apparmor=unconfined'' s \<Longrightarrow> sublist ''unconfined'' s" for s
    by (erule sublist_order.order_trans [rotated], simp add: sublist_code)+
  then show ?thesis by (auto simp: opt_escalation_def Let_def contains_str_sublist)
qed

text \<open>What a service asks for, as the two host-escape rules define it.\<close>

definition mounts_socket :: "preflight_view \<Rightarrow> bool" where
  "mounts_socket v = (\<exists>vol\<in>set (v_volumes v). volume_exposes_docker_socket vol)"

definition asks_privileges :: "preflight_view \<Rightarrow> bool" where
  "asks_privileges v =
     (v_privileged v \<or> v_network_mode v = ''host'' \<or> v_pid_mode v = ''host'' \<or> v_userns_mode v = ''host''
      \<or> (\<exists>c\<in>set (v_cap_add v). to_upper (trim_space c) \<in> set dangerous_caps)
      \<or> (\<exists>so\<in>set (v_security_opt v). sublist ''unconfined'' (to_lower (trim_space so))
             \<or> sublist ''label:disable'' (to_lower (trim_space so))))"

lemma escalations_iff: "escalations v \<noteq> [] \<longleftrightarrow> asks_privileges v"
proof -
  have "concat (map cap_escalation cs) \<noteq> [] \<longleftrightarrow> (\<exists>c\<in>set cs. cap_escalation c \<noteq> [])"
    "concat (map opt_escalation os) \<noteq> [] \<longleftrightarrow> (\<exists>c\<in>set os. opt_escalation c \<noteq> [])" for cs os
    by auto
  then show ?thesis
    unfolding escalations_def asks_privileges_def cap_escalation_iff opt_escalation_iff by auto
qed

lemma privilege_findings_code:
  "f \<in> set (privilege_findings v) \<Longrightarrow> f_code f = code_privileged \<and> f_severity f = SeverityError \<and> f_service f = v_name v"
  by (auto simp: privilege_findings_def mk_finding_def split: if_splits)

lemma privilege_findings_iff: "privilege_findings v \<noteq> [] \<longleftrightarrow> asks_privileges v"
  by (simp add: privilege_findings_def escalations_iff)

lemma socket_findings_code:
  "f \<in> set (socket_findings_in v vols) \<Longrightarrow>
     f_code f = code_docker_socket \<and> f_severity f = SeverityError \<and> f_service f = v_name v"
  by (induction vols) (auto simp: mk_finding_def split: if_splits)

lemma socket_findings_iff:
  "socket_findings_in v vols \<noteq> [] \<longleftrightarrow> (\<exists>vol\<in>set vols. volume_exposes_docker_socket vol)"
  by (induction vols) auto

lemma port_findings_code:
  "f \<in> set (port_findings v) \<Longrightarrow>
     f_service f = v_name v \<and>
     (f_code f = code_edge_port \<and> f_severity f = SeverityError \<or>
      f_code f = code_host_port \<and> f_severity f = SeverityWarn)"
  by (auto simp: port_findings_def port_finding_def mk_finding_def split: if_splits)

lemma proxy_findings_code:
  "f \<in> set (proxy_findings v) \<Longrightarrow>
     f_code f = code_bundled_proxy \<and> f_severity f = SeverityError \<and> f_service f = v_name v"
  by (auto simp: proxy_findings_def mk_finding_def Let_def split: if_splits)

lemma name_findings_code:
  "f \<in> set (name_findings v) \<Longrightarrow>
     f_code f = code_container_name \<and> f_severity f = SeverityWarn \<and> f_service f = v_name v"
  by (auto simp: name_findings_def mk_finding_def split: if_splits)

lemma daemon_findings_code:
  "f \<in> set (daemon_findings v) \<Longrightarrow>
     f_code f = code_lifecycle \<and> f_severity f = SeverityWarn \<and> f_service f = v_name v"
  by (auto simp: daemon_findings_def mk_finding_def split: if_splits)

lemmas finding_codes = privilege_findings_code socket_findings_code port_findings_code
  proxy_findings_code name_findings_code daemon_findings_code

definition error_codes :: "string list" where
  "error_codes = [code_edge_port, code_bundled_proxy, code_docker_socket, code_privileged]"

lemma view_findings_severity:
  "f \<in> set (view_findings v) \<Longrightarrow>
     f_service f = v_name v \<and> (f_severity f = SeverityError \<longleftrightarrow> f_code f \<in> set error_codes)"
  by (auto simp: view_findings_def error_codes_def code_defs dest!: finding_codes)

lemma view_findings_escape:
  "(\<exists>f\<in>set (view_findings v). is_host_escape f) \<longleftrightarrow> mounts_socket v \<or> asks_privileges v"
proof
  assume "\<exists>f\<in>set (view_findings v). is_host_escape f"
  then obtain f where f: "f \<in> set (view_findings v)" "is_host_escape f" by blast
  then have "f \<in> set (socket_findings_in v (v_volumes v)) \<or> f \<in> set (privilege_findings v)"
    by (auto simp: view_findings_def is_host_escape_def code_defs dest: port_findings_code
        proxy_findings_code name_findings_code daemon_findings_code)
  then show "mounts_socket v \<or> asks_privileges v"
    using socket_findings_iff [of v "v_volumes v"] privilege_findings_iff [of v]
    by (auto simp: mounts_socket_def)
next
  assume "mounts_socket v \<or> asks_privileges v"
  then have "socket_findings_in v (v_volumes v) \<noteq> [] \<or> privilege_findings v \<noteq> []"
    by (simp add: socket_findings_iff privilege_findings_iff mounts_socket_def)
  then obtain f where "f \<in> set (socket_findings_in v (v_volumes v)) \<or> f \<in> set (privilege_findings v)"
    by (metis hd_in_set)
  then show "\<exists>f\<in>set (view_findings v). is_host_escape f"
    by (intro bexI [of _ f])
      (auto simp: view_findings_def is_host_escape_def dest: socket_findings_code privilege_findings_code)
qed

lemma set_lint_views:
  "set (lint_views vs) = (\<Union>v\<in>set vs. set (view_findings v))
     \<union> (if vs \<noteq> [] \<and> \<not> list_ex routable_view vs then {no_http_finding} else {})"
  by (auto simp: lint_views_def)

lemma no_http_not_escape: "\<not> is_host_escape no_http_finding"
  by (simp add: no_http_finding_def is_host_escape_def code_defs)

lemma lint_views_escape:
  "(\<exists>f\<in>set (lint_views vs). is_host_escape f) \<longleftrightarrow> (\<exists>v\<in>set vs. mounts_socket v \<or> asks_privileges v)"
  using view_findings_escape no_http_not_escape by (auto simp: set_lint_views)

lemma lint_views_severity:
  "f \<in> set (lint_views vs) \<Longrightarrow> f_severity f = SeverityError \<longleftrightarrow> f_code f \<in> set error_codes"
  using view_findings_severity
  by (auto simp: set_lint_views no_http_finding_def error_codes_def code_defs split: if_splits)

section \<open>Properties\<close>


definition sample_doc :: "(string \<times> yaml) list" where
  "sample_doc = [(''services'', YMap [(''web'', YMap [(''image'', YStr ''nginx''),
      (''cap_add'', YSeq [YStr '' sys_admin ''])])])]"


text \<open>
  The findings come in a deterministic order, by service and then by code, and are exactly
  those of the single services, with multiplicity, plus the stack-level warning when the document
  has services and none of them is routable; an error is exactly a finding of one of the four
  hard codes.
\<close>

theorem lint_views_sorted_complete:
  "sorted (map (\<lambda>f. (f_service f, f_code f)) (lint_views vs))
   \<and> mset (lint_views vs) = (\<Sum>v\<in>#mset vs. mset (view_findings v))
        + (if vs \<noteq> [] \<and> \<not> list_ex routable_view vs then {#no_http_finding#} else {#})
   \<and> filter (\<lambda>f. f_severity f = SeverityError) (lint_views vs)
       = filter (\<lambda>f. f_code f \<in> set error_codes) (lint_views vs)"
proof -
  have "mset (concat (map view_findings vs)) = (\<Sum>v\<in>#mset vs. mset (view_findings v))"
    by (induction vs) auto
  moreover have "filter (\<lambda>f. f_severity f = SeverityError) (lint_views vs)
       = filter (\<lambda>f. f_code f \<in> set error_codes) (lint_views vs)"
    using lint_views_severity by (intro filter_cong) auto
  ultimately show ?thesis by (simp add: lint_views_def)
qed

lemma atoi_first_show_nat: "int n \<le> max_int64 \<Longrightarrow> atoi_first (show_nat n) = int n"
  by (simp add: atoi_first_def show_nat_no_special atoi_show_nat)

text \<open>
  The short port syntaxes are read back: container port alone, host and container port, and
  the two with a bind address in front, each with an optional protocol; only an explicit host
  port is a host binding.
\<close>

lemma parse_port_string_forms:
  assumes "int h \<le> max_int64" and "int t \<le> max_int64"
    and "CHR '':'' \<notin> set ip" and "CHR ''/'' \<notin> set ip"
  shows "parse_port_string (show_nat t) = \<lparr>pm_host = 0, pm_target = int t, pm_proto = []\<rparr>
    \<and> parse_port_string (show_nat h @ '':'' @ show_nat t)
        = \<lparr>pm_host = int h, pm_target = int t, pm_proto = []\<rparr>
    \<and> parse_port_string (show_nat h @ '':'' @ show_nat t @ ''/'' @ proto)
        = \<lparr>pm_host = int h, pm_target = int t, pm_proto = proto\<rparr>
    \<and> parse_port_string (ip @ '':'' @ show_nat h @ '':'' @ show_nat t)
        = \<lparr>pm_host = int h, pm_target = int t, pm_proto = []\<rparr>"
proof -
  note [simp] = show_nat_no_special atoi_first_show_nat [OF assms(1)] atoi_first_show_nat [OF assms(2)]
  have noslash: "cut_byte (CHR ''/'') s = None" if "CHR ''/'' \<notin> set s" for s
    using that by simp
  have "cut_byte (CHR ''/'') (show_nat h @ CHR '':'' # show_nat t @ CHR ''/'' # proto)
      = Some (show_nat h @ CHR '':'' # show_nat t, proto)"
    using cut_byte_append [of "CHR ''/''" "show_nat h @ CHR '':'' # show_nat t" proto] by simp
  then show ?thesis
    using assms(3,4) by (simp add: parse_port_string_def noslash)
qed

lemma parse_port_string_forms_example:
  "parse_port_string (show_nat 8080 @ '':'' @ show_nat 80)
     = \<lparr>pm_host = 8080, pm_target = 80, pm_proto = []\<rparr>
   \<and> int 8080 \<le> max_int64"
  using parse_port_string_forms [of 8080 80 "''127.0.0.1''" "''tcp''"] by (simp add: max_int64_def)

text \<open>
  The base name of an image reference is its last path component, whatever registry,
  namespace, tag and digest surround it; so a Traefik or Caddy image is reported as a bundled
  reverse proxy under every such reference.
\<close>

lemma bundled_proxy_any_reference:
  assumes "v_image v = registry @ ''/'' @ name @ '':'' @ tag @ ''@'' @ digest"
    and "CHR ''@'' \<notin> set registry" and "set name \<inter> {CHR ''/'', CHR '':'', CHR ''@''} = {}"
    and "set tag \<inter> {CHR ''/'', CHR '':'', CHR ''@''} = {}"
  shows "image_base_name (v_image v) = name
    \<and> (name \<in> set proxy_image_bases \<longrightarrow>
        (\<exists>f\<in>set (view_findings v). f_code f = code_bundled_proxy \<and> f_severity f = SeverityError))"
proof -
  have at: "before_byte (CHR ''@'') (v_image v) = (registry @ ''/'' @ name) @ CHR '':'' # tag"
    using before_byte_append [of "CHR ''@''" "(registry @ ''/'' @ name) @ CHR '':'' # tag" digest] assms
    by auto
  have tagslash: "\<not> contains_str tag ''/''"
    using assms(4) by (auto simp: contains_str_sublist sublist_def)
  have "image_repo (v_image v) = registry @ CHR ''/'' # name"
    using assms(4) tagslash
    by (simp only: image_repo_def at Let_def, subst last_cut_byte_append) auto
  then have base: "image_base_name (v_image v) = name"
    using assms(3) by (simp add: image_base_name_def)
  moreover have "\<exists>f\<in>set (view_findings v). f_code f = code_bundled_proxy \<and> f_severity f = SeverityError"
    if "name \<in> set proxy_image_bases"
    using that base by (auto simp: view_findings_def proxy_findings_def mk_finding_def)
  ultimately show ?thesis by blast
qed

lemma bundled_proxy_any_reference_example:
  "image_base_name ''ghcr.io:5000/lib/traefik:v2.10@sha256:00'' = ''traefik''
   \<and> (\<exists>f\<in>set (view_findings (empty_view ''edge''\<lparr>v_image := ''ghcr.io:5000/lib/traefik:v2.10@sha256:00''\<rparr>)).
        f_code f = code_bundled_proxy \<and> f_severity f = SeverityError)"
  using bundled_proxy_any_reference
    [of "empty_view ''edge''\<lparr>v_image := ''ghcr.io:5000/lib/traefik:v2.10@sha256:00''\<rparr>"
        "''ghcr.io:5000/lib''" "''traefik''" "''v2.10''" "''sha256:00''"]
  by (simp add: proxy_image_bases_def)

text \<open>
  The capability rule compares the bare names. A capability written with the prefix CAP_,
  the kernel's spelling, never raises the host-privilege finding, although without the prefix
  the same capability does.
\<close>

theorem cap_prefix_not_reported:
  "\<not> asks_privileges (empty_view n\<lparr>v_cap_add := [''CAP_'' @ c]\<rparr>)
   \<and> (c \<in> set dangerous_caps \<longrightarrow> asks_privileges (empty_view n\<lparr>v_cap_add := [c]\<rparr>))"
proof -
  have hd: "trim_space (CHR ''C'' # s) = CHR ''C'' # t \<Longrightarrow> to_upper (CHR ''C'' # t) \<notin> set dangerous_caps" for s t
    by (simp add: dangerous_caps_def to_upper_def upper_char_def)
  have ts: "\<exists>t. trim_space (CHR ''C'' # s) = CHR ''C'' # t" for s
  proof -
    have "\<exists>u. dropWhile is_space (rev s @ [CHR ''C'']) = u @ [CHR ''C'']"
      by (induction "rev s") (auto simp: dropWhile_append is_space_def)
    moreover have "\<not> is_space (CHR ''C'')" by (simp add: is_space_def)
    moreover have "\<exists>t. u = rev t" for u :: string by (metis rev_rev_ident)
    ultimately show ?thesis by (auto simp: trim_space_def)
  qed
  have "to_upper (trim_space (''CAP_'' @ c)) \<notin> set dangerous_caps"
    using ts [of "''AP_'' @ c"] hd by auto
  moreover have "list_all (\<lambda>c. to_upper (trim_space c) \<in> set dangerous_caps) dangerous_caps"
    by code_simp
  then have "c \<in> set dangerous_caps \<Longrightarrow> to_upper (trim_space c) \<in> set dangerous_caps"
    by (simp add: list_all_iff)
  ultimately show ?thesis by (simp add: asks_privileges_def empty_view_def)
qed

theorem cap_prefix_not_reported_witness:
  "\<not> asks_privileges (empty_view ''web''\<lparr>v_cap_add := [''CAP_SYS_ADMIN'']\<rparr>)
   \<and> asks_privileges (empty_view ''web''\<lparr>v_cap_add := [''SYS_ADMIN'']\<rparr>)"
  using cap_prefix_not_reported [where n = "''web''" and c = "''SYS_ADMIN''"]
  by (simp add: dangerous_caps_def)

end
