(* ===== verification/Env_File.thy ===== *)
theory Env_File
  imports VAC_Prelude "HOL-Library.List_Lexorder" "HOL-Library.Char_ord" "HOL-Library.Multiset"
begin

text \<open>
  The rendered .env file: api/internal/deploy/envfile.go. Values are valid UTF-8, so copying a
  rune is copying its bytes. The secret box is the argument \<open>open_box\<close>. The section on
  reading states the dotenv syntax the file is written for; it is the specification of the
  escaping, not code of the repository.
\<close>

section \<open>Rendering\<close>

definition dquote :: char where "dquote = CHR 0x22"
definition backslash :: char where "backslash = CHR 0x5C"
definition nl :: char where "nl = CHR 0x0A"
definition cr :: char where "cr = CHR 0x0D"
definition dollar :: char where "dollar = CHR 0x24"

lemmas special_chars = dquote_def backslash_def nl_def cr_def dollar_def

definition needs_quote :: "string \<Rightarrow> bool" where
  "needs_quote s = list_ex (\<lambda>c. c \<in> {CHR '' '', CHR 0x09, nl, cr, dquote, CHR 0x27, backslash, dollar, CHR 0x23}) s"

definition escape_char :: "char \<Rightarrow> string" where
  "escape_char r =
     (if r = backslash then [backslash, backslash]
      else if r = dquote then [backslash, dquote]
      else if r = nl then [backslash, CHR ''n'']
      else if r = cr then [backslash, CHR ''r'']
      else if r = dollar then [dollar, dollar]
      else [r])"

definition escape_env_value :: "string \<Rightarrow> string" where
  "escape_env_value s =
     (if s = [] then []
      else if \<not> needs_quote s then s
      else [dquote] @ concat (map escape_char s) @ [dquote])"

text \<open>The loop of RenderEnvFile over the sorted variables; a value that does not open aborts.\<close>

fun render_vars :: "(string \<Rightarrow> string + string) \<Rightarrow> (string \<times> string) list \<Rightarrow> string + string" where
  "render_vars open_box [] = Inr []"
| "render_vars open_box ((k, sealed) # vs) =
     (case open_box sealed of
        Inl err \<Rightarrow> Inl (''envfile: open '' @ quote_str k @ '': '' @ err)
      | Inr val \<Rightarrow>
          (case render_vars open_box vs of
             Inl e \<Rightarrow> Inl e
           | Inr rest \<Rightarrow> Inr (k @ ''='' @ escape_env_value val @ [nl] @ rest)))"

definition render_env_file :: "(string \<Rightarrow> string + string) \<Rightarrow> (string \<times> string) list \<Rightarrow> string + string" where
  "render_env_file open_box vars = render_vars open_box (sort_key fst vars)"

section \<open>Reading\<close>

text \<open>A double-quoted dotenv value: backslash escapes, a doubled dollar sign is a literal one.\<close>

fun unescape_body :: "string \<Rightarrow> string" where
  "unescape_body [] = []"
| "unescape_body [c] = (if c = dquote then [] else [c])"
| "unescape_body (c # d # s) =
     (if c = dquote then []
      else if c = backslash
        then (if d = CHR ''n'' then nl else if d = CHR ''r'' then cr else d) # unescape_body s
      else if c = dollar \<and> d = dollar then dollar # unescape_body s
      else c # unescape_body (d # s))"

definition read_value :: "string \<Rightarrow> string" where
  "read_value s = (case s of [] \<Rightarrow> [] | c # r \<Rightarrow> if c = dquote then unescape_body r else s)"

definition read_line :: "string \<Rightarrow> (string \<times> string) option" where
  "read_line l = (case cut_byte (CHR ''='') l of None \<Rightarrow> None | Some (k, v) \<Rightarrow> Some (k, read_value v))"

definition read_env :: "string \<Rightarrow> (string \<times> string) option list" where
  "read_env s = map read_line (butlast (split_byte nl s))"

section \<open>Lemmas\<close>

lemma escape_char_cases:
  obtains "escape_char c = [c]" "c \<notin> {backslash, dquote, nl, cr, dollar}"
  | d where "escape_char c = [backslash, d]" "c = (if d = CHR ''n'' then nl else if d = CHR ''r'' then cr else d)"
      "d \<noteq> nl"
  | "c = dollar" "escape_char c = [dollar, dollar]"
proof -
  consider "c = backslash" | "c = dquote" | "c = nl" | "c = cr" | "c = dollar"
    | "c \<notin> {backslash, dquote, nl, cr, dollar}" by blast
  then show thesis
  proof cases
    case 1
    then show ?thesis by (intro that(2) [of backslash]) (simp_all add: escape_char_def special_chars)
  next
    case 2
    then show ?thesis by (intro that(2) [of dquote]) (simp_all add: escape_char_def special_chars)
  next
    case 3
    then show ?thesis by (intro that(2) [of "CHR ''n''"]) (simp_all add: escape_char_def special_chars)
  next
    case 4
    then show ?thesis by (intro that(2) [of "CHR ''r''"]) (simp_all add: escape_char_def special_chars)
  next
    case 5
    then show ?thesis by (intro that(3)) (simp_all add: escape_char_def special_chars)
  next
    case 6
    then show ?thesis by (intro that(1)) (simp_all add: escape_char_def)
  qed
qed

lemma unescape_escape: "unescape_body (concat (map escape_char s) @ [dquote]) = s"
proof (induction s)
  case Nil
  then show ?case by simp
next
  case (Cons c s)
  obtain x r where xr: "concat (map escape_char s) @ [dquote] = x # r"
    by (cases "concat (map escape_char s) @ [dquote]") auto
  show ?case
  proof (cases c rule: escape_char_cases)
    case 1
    then show ?thesis using Cons xr by simp
  next
    case (2 d)
    then show ?thesis using Cons by (simp add: special_chars)
  next
    case 3
    then show ?thesis using Cons by (simp add: special_chars)
  qed
qed

lemma read_escape: "read_value (escape_env_value s) = s"
proof (cases "s = [] \<or> \<not> needs_quote s")
  case True
  then show ?thesis
    by (cases s) (auto simp: read_value_def escape_env_value_def needs_quote_def)
next
  case False
  then show ?thesis by (simp add: read_value_def escape_env_value_def unescape_escape)
qed

lemma escape_one_line: "nl \<notin> set (escape_env_value s)"
proof -
  have "nl \<notin> set (escape_char c)" for c
    by (cases c rule: escape_char_cases) (auto simp: special_chars)
  then show ?thesis
    by (auto simp: escape_env_value_def needs_quote_def list_ex_iff special_chars)
qed

lemma split_line [simp]: "nl \<notin> set l \<Longrightarrow> split_byte nl (l @ nl # s) = l # split_byte nl s"
  by (rule split_byte_append)

lemma render_vars_read:
  assumes "render_vars open_box vars = Inr out"
    and "\<And>k v. (k, v) \<in> set vars \<Longrightarrow> CHR ''='' \<notin> set k \<and> nl \<notin> set k"
  shows "\<exists>vals. map (\<lambda>(k, v). open_box v) vars = map Inr vals \<and> read_env out = map Some (zip (map fst vars) vals)"
  using assms
proof (induction vars arbitrary: out)
  case Nil
  then show ?case by (simp add: read_env_def)
next
  case (Cons kv vars)
  obtain k v where kv: "kv = (k, v)" by fastforce
  with Cons.prems(1) obtain x rest where x: "open_box v = Inr x" "render_vars open_box vars = Inr rest"
    "out = (k @ CHR ''='' # escape_env_value x) @ nl # rest"
    by (auto split: sum.splits)
  obtain vals where vals: "map (\<lambda>(k, v). open_box v) vars = map Inr vals"
    "read_env rest = map Some (zip (map fst vars) vals)"
    using Cons.IH [OF x(2)] Cons.prems(2) by auto
  have k: "CHR ''='' \<notin> set k" "nl \<notin> set k" using Cons.prems(2) kv by auto
  then have "nl \<notin> set (k @ CHR ''='' # escape_env_value x)"
    using escape_one_line [of x] by (simp add: nl_def)
  then have "read_env out = read_line (k @ CHR ''='' # escape_env_value x) # read_env rest"
    unfolding x(3) read_env_def split_line [OF \<open>nl \<notin> set (k @ CHR ''='' # escape_env_value x)\<close>] by simp
  moreover have "read_line (k @ CHR ''='' # escape_env_value x) = Some (k, x)"
    using k(1) by (simp add: read_line_def read_escape)
  ultimately have "map (\<lambda>(k, v). open_box v) (kv # vars) = map Inr (x # vals)
    \<and> read_env out = map Some (zip (map fst (kv # vars)) (x # vals))"
    using vals x(1) kv by simp
  then show ?case by blast
qed



end
