(* ===== verification/Health_Check.thy ===== *)
theory Health_Check
  imports Go_Time
begin

text \<open>
  The Phase 2 health probe: CheckWithRetry of api/internal/deploy/healthcheck.go. What a probe
  answers and how long it takes is an argument, as is whether the context ends during the wait
  after an attempt; the clock is explicit. The result carries the start times of the probes made.
\<close>

datatype check_result = CheckErr string | CheckStatus int

datatype health_outcome = Healthy | HealthFailed "string option" | HealthCtxErr

record probe_env =
  pe_check :: "nat \<Rightarrow> duration \<times> check_result"   \<comment> \<open>the given attempt: its time and its answer\<close>
  pe_done :: "nat \<Rightarrow> bool"                        \<comment> \<open>the context ends while waiting after the attempt\<close>

definition check_passes :: "check_result \<Rightarrow> bool" where
  "check_passes r = (case r of CheckErr _ \<Rightarrow> False | CheckStatus n \<Rightarrow> n \<ge> 200 \<and> n < 400)"

definition check_error :: "check_result \<Rightarrow> string" where
  "check_error r = (case r of CheckErr e \<Rightarrow> e | CheckStatus n \<Rightarrow> ''HTTP '' @ show_int n)"

text \<open>The loop; the first argument counts the attempts left, the current one included.\<close>

fun retry_loop ::
  "probe_env \<Rightarrow> instant \<Rightarrow> nat \<Rightarrow> nat \<Rightarrow> instant \<Rightarrow> string option \<Rightarrow> health_outcome \<times> instant list" where
  "retry_loop env deadline 0 att now lastErr = (HealthFailed lastErr, [])"
| "retry_loop env deadline (Suc left) att now lastErr =
     (if now > deadline then (HealthFailed lastErr, [])
      else let (took, res) = pe_check env att; now1 = now + took
           in if check_passes res then (Healthy, [now])
              else let err = Some (check_error res)
                   in if left = 0 then (HealthFailed err, [now])
                      else let step = int att * second;
                               wait = (if now1 + step > deadline then deadline - now1 else step)
                           in if wait \<le> 0 then (HealthFailed err, [now])
                              else if pe_done env att then (HealthCtxErr, [now])
                              else (case retry_loop env deadline left (Suc att) (now1 + wait) err of
                                      (r, starts) \<Rightarrow> (r, now # starts)))"

definition check_with_retry ::
  "probe_env \<Rightarrow> int \<Rightarrow> duration \<Rightarrow> instant \<Rightarrow> health_outcome \<times> instant list" where
  "check_with_retry env retries overall now =
     (let retries' = (if retries \<le> 0 then 1 else retries);
          overall' = (if overall \<le> 0 then 30 * second else overall)
      in retry_loop env (now + overall') (nat retries') 1 now None)"

definition health_url_for_port :: "int \<Rightarrow> string" where
  "health_url_for_port port = ''http://127.0.0.1:'' @ show_int port @ ''/''"

lemma retry_loop_bounds:
  "retry_loop env deadline left att now le = (r, starts) \<Longrightarrow>
     length starts \<le> left \<and> (\<forall>t\<in>set starts. t \<le> deadline)
   \<and> (\<forall>k<length starts - 1. \<not> check_passes (snd (pe_check env (att + k))))
   \<and> (r = Healthy \<longleftrightarrow> starts \<noteq> [] \<and> check_passes (snd (pe_check env (att + (length starts - 1)))))"
proof (induction env deadline left att now le arbitrary: r starts rule: retry_loop.induct)
  case (1 env deadline att now lastErr)
  then show ?case by auto
next
  case (2 env deadline left att now lastErr)
  obtain took res where pc: "pe_check env att = (took, res)" by fastforce
  let ?now1 = "now + took"
  let ?step = "int att * second"
  let ?wait = "if ?now1 + ?step > deadline then deadline - ?now1 else ?step"
  let ?err = "Some (check_error res)"
  show ?case
  proof (cases "now \<le> deadline \<and> \<not> check_passes res \<and> left \<noteq> 0 \<and> 0 < ?wait \<and> \<not> pe_done env att")
    case True
    obtain r' st where rec: "retry_loop env deadline left (Suc att) (?now1 + ?wait) ?err = (r', st)"
      by fastforce
    have eq: "r = r'" "starts = now # st"
      using 2(2) True pc rec by (simp_all add: Let_def del: retry_loop.simps(1))
    have ih: "length st \<le> left \<and> (\<forall>t\<in>set st. t \<le> deadline)
      \<and> (\<forall>k<length st - 1. \<not> check_passes (snd (pe_check env (Suc att + k))))
      \<and> (r' = Healthy \<longleftrightarrow> st \<noteq> [] \<and> check_passes (snd (pe_check env (Suc att + (length st - 1)))))"
      by (rule 2(1) [of "(took, res)" took res ?now1 ?err ?step ?wait]) (use True pc rec in auto)
    show ?thesis
      unfolding eq
    proof (intro conjI)
      show "\<forall>k<length (now # st) - 1. \<not> check_passes (snd (pe_check env (att + k)))"
      proof (intro allI impI)
        fix k
        assume k: "k < length (now # st) - 1"
        show "\<not> check_passes (snd (pe_check env (att + k)))"
          using ih True pc k by (cases k) (auto simp: add.commute)
      qed
    qed (use ih True pc in \<open>cases st; auto simp: add.commute\<close>)+
  next
    case False
    then show ?thesis using 2(2) pc by (auto simp: Let_def split: if_splits)
  qed
qed

text \<open>
  The probe is bounded, and reports what it saw. At most the configured number of probes is
  made (one, when it is not positive), none starts after the deadline, none follows a passing
  one, and the check succeeds exactly when the last probe answered 2xx or 3xx.
\<close>

theorem health_check_bounded:
  "case check_with_retry env retries overall now of (r, starts) \<Rightarrow>
     length starts \<le> nat (max 1 retries)
   \<and> (\<forall>t\<in>set starts. t \<le> now + (if overall \<le> 0 then 30 * second else overall))
   \<and> (\<forall>k. Suc k < length starts \<longrightarrow> \<not> check_passes (snd (pe_check env (Suc k))))
   \<and> (r = Healthy \<longleftrightarrow> starts \<noteq> [] \<and> check_passes (snd (pe_check env (length starts))))"
proof -
  obtain r starts where rs: "check_with_retry env retries overall now = (r, starts)" by fastforce
  from retry_loop_bounds [OF this [unfolded check_with_retry_def Let_def]]
  show ?thesis unfolding rs by (cases starts) (auto simp: max_def)
qed

theorem health_check_bounded_witness:
  "fst (check_with_retry \<lparr>pe_check = (\<lambda>k. (0, if k = 2 then CheckStatus 302 else CheckStatus 503)), pe_done = (\<lambda>_. False)\<rparr>
     3 (10 * second) 0) = Healthy"
proof -
  let ?e = "\<lparr>pe_check = (\<lambda>k. (0, if k = 2 then CheckStatus 302 else CheckStatus 503)), pe_done = (\<lambda>_. False)\<rparr>"
  obtain r starts where rs: "check_with_retry ?e 3 (10 * second) 0 = (r, starts)" by fastforce
  have "length starts = 2"
    using rs by (auto simp: check_with_retry_def Let_def check_passes_def numeral_3_eq_3)
  with health_check_bounded [where env = ?e and retries = 3 and overall = "10 * second" and now = 0] rs show ?thesis
    by (auto simp: check_passes_def)
qed

end
