(* ===== verification/Deploy_Pipeline.thy ===== *)
theory Deploy_Pipeline
  imports Deploy_Worker Compose_Preflight Env_File Health_Check Webhook_Match
begin

text \<open>
  The deploy pipeline: api/internal/deploy/pipeline.go, with the two maintenance operations of
  api/internal/proxy/manager.go that it calls. The collaborators behind Go interfaces and
  packages outside this development (git, docker, the build adapters, ssh keys, the secret box, the
  file system, the router, the notifier) are the fields of an environment that gives their
  answers; what the pipeline asks of them is recorded, in order, in a trace. Every write to the
  database is part of the model and can fail. Error texts of the store come from the environment.
\<close>

section \<open>State and environment\<close>

datatype git_op = GitPull string | GitClone string string | GitFetch string

datatype pevent =
    PLog string | PChanged | PBuildEnd
  | PFailed string | PSucceeded string string
  | PMaintainOn | PMaintainOff
  | PGit git_op | PMaterialize string | PConfig | PWriteEnv string | PBuild | PLogin string | PPull
  | PUp "string list" | PPs | PReconcile | PSync | PWaitHealthy | PProbe string

record pst =
  x_db :: db
  x_trace :: "pevent list"

datatype pexit = Fail string | Done

type_synonym 'a pipe = "(pst, pexit, 'a) sem"

record build_cfg =
  bc_compose_path :: string
  bc_allow_unsafe :: bool

record ps_service =
  ps_name :: string
  ps_id :: string
  ps_state :: string
  ps_publishers :: "(int \<times> int) list"   \<comment> \<open>target port, published port\<close>

record templates =
  tp_materialize :: "string \<Rightarrow> string option"
  tp_health_paths :: "string \<Rightarrow> (string \<times> string) list"

datatype key_err = KeyNotFound | KeyErr string

record pipe_env =
  pe_err_text :: "store_err \<Rightarrow> string"
  pe_read_file :: "string \<Rightarrow> string + string"
  pe_unmarshal :: "string \<Rightarrow> string + (string \<times> yaml) list"
  pe_sha256 :: "string \<Rightarrow> string"
  pe_mkdir :: "string option"
  pe_key_get :: "key_err option"
  pe_key_mint :: "string option"
  pe_key_open :: "string + string"
  pe_key_file :: "string \<Rightarrow> string + string"     \<comment> \<open>writing the key to a temporary file\<close>
  pe_repo_exists :: bool
  pe_git :: "git_op \<Rightarrow> string option"
  pe_head :: "string \<times> string"
  pe_templates :: "templates option"
  pe_parse_config :: "string \<Rightarrow> string + build_cfg"
  pe_adapter_for :: "string \<Rightarrow> string + string"
  pe_prepare :: "string \<Rightarrow> build_cfg \<Rightarrow> string + string"
  pe_dockerignore :: string
  pe_config :: "string + string"
  pe_box :: "(string \<Rightarrow> string + string) option"
  pe_env_vars :: "string + (string \<times> string) list"
  pe_write_env :: "string option"
  pe_build :: "string option"
  pe_registry_creds :: "string \<Rightarrow> string + string"  \<comment> \<open>decoding the opened credentials: the registry\<close>
  pe_login :: "string option"
  pe_pull :: "string option"
  pe_cpu_limit :: bool                                  \<comment> \<open>AppCPULimit is positive\<close>
  pe_override :: "string \<Rightarrow> int \<Rightarrow> string + string"   \<comment> \<open>WriteResourceOverride\<close>
  pe_up :: "string option"
  pe_ps :: "string + ps_service list"
  pe_reconciler :: bool
  pe_router :: "(string option \<times> string option) option"  \<comment> \<open>the errors of Sync and WaitHealthy\<close>
  pe_probe :: "string \<Rightarrow> probe_env"
  pe_now :: instant
  pe_retries :: int
  pe_timeout :: duration
  pe_notifier :: bool
  pe_maintainer :: bool

section \<open>Plumbing\<close>

definition xdb :: "'a dbop \<Rightarrow> (pst, store_err, 'a) sem" where
  "xdb m = (\<lambda>s. case m (x_db s) of (r, d) \<Rightarrow> (r, s\<lparr>x_db := d\<rparr>))"

definition emit :: "pevent \<Rightarrow> (pst, 'e, unit) sem" where
  "emit e = act (\<lambda>s. s\<lparr>x_trace := x_trace s @ [e]\<rparr>)"

text \<open>An error return when the collaborator reports an error, with the wrapping prefix.\<close>

definition check_err :: "string \<Rightarrow> string option \<Rightarrow> unit pipe" where
  "check_err pre e = (case e of None \<Rightarrow> ret () | Some m \<Rightarrow> throw (Fail (pre @ m)))"

definition or_fail :: "string \<Rightarrow> string + 'a \<Rightarrow> 'a pipe" where
  "or_fail pre r = (case r of Inl m \<Rightarrow> throw (Fail (pre @ m)) | Inr x \<Rightarrow> ret x)"

definition must :: "pipe_env \<Rightarrow> string \<Rightarrow> 'a dbop \<Rightarrow> 'a pipe" where
  "must env pre m = map_err (\<lambda>e. Fail (pre @ pe_err_text env e)) (xdb m)"

text \<open>A deferred call: it runs on every exit and sees how the body ended.\<close>

definition with_defer :: "'a pipe \<Rightarrow> (pexit + 'a \<Rightarrow> unit pipe) \<Rightarrow> 'a pipe" where
  "with_defer m cleanup = (\<lambda>s. case m s of (r, s') \<Rightarrow> (r, snd (cleanup r s')))"

text \<open>LogSystem: the row is published once it is persisted; callers drop the error.\<close>

definition log_system :: "string \<Rightarrow> unit pipe" where
  "log_system msg = ignore (and_then (xdb (db_call (\<lambda>s. (Inr (), s)))) (\<lambda>_. emit (PLog msg)))"

definition set_status :: "pipe_env \<Rightarrow> string \<Rightarrow> dstatus \<Rightarrow> unit pipe" where
  "set_status env i st =
     and_then (must env (''pipeline: set status '' @ dstatus_text st @ '': '') (update_deployment_status i st None))
       (\<lambda>_. emit PChanged)"

definition notify_failed :: "pipe_env \<Rightarrow> string \<Rightarrow> unit pipe" where
  "notify_failed env msg = (if pe_notifier env then emit (PFailed msg) else ret ())"

text \<open>markHTTPServicesDegraded.\<close>

definition mark_http_services_degraded :: "string \<Rightarrow> unit pipe" where
  "mark_http_services_degraded a = and_then (attempt (xdb (list_services_for_app a))) (\<lambda>r.
     case r of
       Inl _ \<Rightarrow> ret ()
     | Inr rows \<Rightarrow> for_each rows (\<lambda>v.
         if s_internal_port v \<noteq> None then ignore (xdb (update_service_status a (s_name v) St_Degraded None))
         else ret ()))"

text \<open>The transparent failure: the row and the app are settled and Run returns nil.\<close>

definition settle_degraded :: "pipe_env \<Rightarrow> string \<Rightarrow> app \<Rightarrow> string \<Rightarrow> 'a pipe" where
  "settle_degraded env i ap msg =
     and_then (log_system msg) (\<lambda>_.
     and_then (ignore (xdb (mark_deployment_finished i Errored (Some msg)))) (\<lambda>_.
     and_then (ignore (xdb (set_app_status (a_id ap) St_Degraded))) (\<lambda>_.
     and_then (mark_http_services_degraded (a_id ap)) (\<lambda>_.
     and_then (notify_failed env msg) (\<lambda>_. throw Done)))))"

section \<open>Source\<close>

text \<open>isSSHRepoURL.\<close>

definition is_ssh_repo_url :: "string \<Rightarrow> bool" where
  "is_ssh_repo_url u =
     (if length u \<ge> 6 \<and> take 6 u = ''ssh://'' then True
      else if length u > 4 \<and> take 4 u = ''git@'' then CHR '':'' \<in> set (drop 4 u)
      else False)"

definition materialise_key :: "pipe_env \<Rightarrow> app \<Rightarrow> string pipe" where
  "materialise_key env ap =
     (if \<not> is_ssh_repo_url (a_git_url ap) then ret []
      else and_then (case pe_key_get env of
                       None \<Rightarrow> ret ()
                     | Some KeyNotFound \<Rightarrow> check_err [] (pe_key_mint env)
                     | Some (KeyErr m) \<Rightarrow> throw (Fail m)) (\<lambda>_.
           and_then (or_fail [] (pe_key_open env)) (\<lambda>pem. or_fail [] (pe_key_file env pem))))"

definition git_call :: "pipe_env \<Rightarrow> string \<Rightarrow> git_op \<Rightarrow> unit pipe" where
  "git_call env pre g = and_then (emit (PGit g)) (\<lambda>_. check_err pre (pe_git env g))"

definition clone_or_pull :: "pipe_env \<Rightarrow> app \<Rightarrow> unit pipe" where
  "clone_or_pull env ap =
     (if pe_repo_exists env then git_call env [] (GitPull (a_git_branch ap))
      else and_then (check_err ''pipeline: mkdir workdir: '' (pe_mkdir env))
             (\<lambda>_. git_call env [] (GitClone (a_git_url ap) (a_git_branch ap))))"

definition rollback_target_sha :: "deployment \<Rightarrow> string" where
  "rollback_target_sha d =
     (if d_triggered_by d = triggered_rollback
      then (case d_commit_sha d of Some sha \<Rightarrow> sha | None \<Rightarrow> []) else [])"

text \<open>From the status cloning to the commit; the result is the commit and its message.\<close>

definition stage_source :: "pipe_env \<Rightarrow> deployment \<Rightarrow> app \<Rightarrow> (string \<times> string) pipe" where
  "stage_source env d ap =
     and_then (set_status env (d_id d) Cloning) (\<lambda>_.
     and_then (materialise_key env ap) (\<lambda>key.
     and_then (if a_source ap = ''template'' then
         (case pe_templates env of
            None \<Rightarrow> throw (Fail ''pipeline: app is template-sourced but no template registry is configured'')
          | Some tp \<Rightarrow>
            (case a_template_id ap of
               None \<Rightarrow> throw (Fail ''pipeline: template app has no template id'')
             | Some tid \<Rightarrow>
                 if tid = [] then throw (Fail ''pipeline: template app has no template id'')
                 else and_then (log_system (''materializing add-on template: '' @ tid)) (\<lambda>_.
                      and_then (check_err ''pipeline: mkdir workdir: '' (pe_mkdir env)) (\<lambda>_.
                      and_then (emit (PMaterialize tid)) (\<lambda>_.
                      check_err ''pipeline: materialize template: '' (tp_materialize tp tid))))))
       else if a_source ap = ''image'' then
         and_then (log_system ''image source: no clone'') (\<lambda>_.
         check_err ''pipeline: mkdir workdir: '' (pe_mkdir env))
       else clone_or_pull env ap) (\<lambda>_.
     and_then (let target = rollback_target_sha d; short = take 7 target
               in if target = [] then ret ()
                  else and_then (log_system (''rollback: pinning to commit '' @ short)) (\<lambda>_.
                       git_call env (''rollback checkout '' @ short @ '': '') (GitFetch target))) (\<lambda>_.
     let (sha, msg) = pe_head env
     in and_then (if sha = [] then ret ()
                  else and_then (ignore (xdb (set_deployment_commit (d_id d) (Some sha) (Some msg)))) (\<lambda>_.
                       log_system (''commit: '' @ take 7 sha @ '' '' @ em_dash @ '' '' @ msg))) (\<lambda>_.
        ret (sha, msg))))))"

section \<open>Build adapter and preflight\<close>

definition hash_file :: "pipe_env \<Rightarrow> string \<Rightarrow> string + string" where
  "hash_file env path = (case pe_read_file env path of Inl e \<Rightarrow> Inl e
     | Inr b \<Rightarrow> Inr (hex_encode (pe_sha256 env b)))"

definition stage_adapter :: "pipe_env \<Rightarrow> deployment \<Rightarrow> app \<Rightarrow> (build_cfg \<times> string) pipe" where
  "stage_adapter env d ap =
     and_then (or_fail [] (pe_parse_config env (a_build_config ap))) (\<lambda>cfg0.
     let cfg = (if bc_compose_path cfg0 = [] then cfg0\<lparr>bc_compose_path := a_compose_file ap\<rparr> else cfg0)
     in and_then (or_fail [] (pe_adapter_for env (a_build_kind ap))) (\<lambda>kind.
        and_then (or_fail [] (pe_prepare env kind cfg)) (\<lambda>compose_file.
        and_then (log_system (''build source: '' @ kind)) (\<lambda>_.
        and_then (case hash_file env compose_file of
                    Inl _ \<Rightarrow> ret ()
                  | Inr h \<Rightarrow> ignore (xdb (set_deployment_compose_hash (d_id d) h))) (\<lambda>_.
        and_then (if pe_dockerignore env = [] then ret () else log_system (pe_dockerignore env)) (\<lambda>_.
        ret (cfg, compose_file)))))))"

text \<open>The lint of the resolved compose, or of the raw file when it cannot be resolved.\<close>

definition lint_result :: "pipe_env \<Rightarrow> string \<Rightarrow> string + finding list" where
  "lint_result env compose_file = (case pe_config env of
     Inr resolved \<Rightarrow> preflight_bytes (pe_unmarshal env) resolved
   | Inl _ \<Rightarrow> preflight (pe_read_file env) (pe_unmarshal env) compose_file)"

definition is_blocking :: "bool \<Rightarrow> finding \<Rightarrow> bool" where
  "is_blocking allow_unsafe f = (f_severity f = SeverityError \<and> (\<not> allow_unsafe \<or> is_host_escape f))"

definition stage_preflight :: "pipe_env \<Rightarrow> deployment \<Rightarrow> app \<Rightarrow> build_cfg \<Rightarrow> string \<Rightarrow> unit pipe" where
  "stage_preflight env d ap cfg compose_file =
     and_then (emit PConfig) (\<lambda>_.
     and_then (case pe_config env of
                 Inr _ \<Rightarrow> ret ()
               | Inl e \<Rightarrow> log_system (''compose preflight: resolved config unavailable, linting raw compose ('' @ e @ '')'')) (\<lambda>_.
     (case lint_result env compose_file of
        Inl perr \<Rightarrow> settle_degraded env (d_id d) ap (''compose preflight failed: '' @ perr)
      | Inr findings \<Rightarrow>
          and_then (for_each findings (\<lambda>f. log_system (format_finding f))) (\<lambda>_.
          let blocking = filter (is_blocking (bc_allow_unsafe cfg)) findings
          in if blocking \<noteq> []
             then settle_degraded env (d_id d) ap (''compose preflight failed:'' @ [nl] @ join_findings blocking)
             else ret ()))))"

section \<open>Build and up\<close>

definition stage_env_file :: "pipe_env \<Rightarrow> app \<Rightarrow> unit pipe" where
  "stage_env_file env ap =
     (case pe_box env of
        Some open_box \<Rightarrow>
          and_then (or_fail ''envfile: list: '' (pe_env_vars env)) (\<lambda>vars.
          and_then (or_fail [] (render_env_file open_box vars)) (\<lambda>out.
          and_then (emit (PWriteEnv out)) (\<lambda>_. check_err [] (pe_write_env env))))
      | None \<Rightarrow> emit (PWriteEnv []))"

definition registry_label :: "string \<Rightarrow> string" where
  "registry_label r = (if r = [] then ''docker.io'' else r)"

definition registry_pull :: "pipe_env \<Rightarrow> app \<Rightarrow> unit pipe" where
  "registry_pull env ap =
     and_then (attempt (xdb (get_app_registry_auth (a_id ap)))) (\<lambda>r.
     and_then (case r of
         Inl e \<Rightarrow> if e \<noteq> ErrNotFound then throw (Fail (''load registry auth: '' @ pe_err_text env e)) else ret []
       | Inr enc \<Rightarrow> ret enc) (\<lambda>enc.
     and_then (if enc = [] then ret ()
       else case pe_box env of
         None \<Rightarrow> throw (Fail ''registry credentials are set but VAC_MASTER_KEY is not configured'')
       | Some open_box \<Rightarrow>
           and_then (or_fail ''decrypt registry auth: '' (open_box enc)) (\<lambda>plain.
           and_then (or_fail ''parse registry auth: '' (pe_registry_creds env plain)) (\<lambda>registry.
           and_then (log_system (''registry login: '' @ registry_label registry)) (\<lambda>_.
           and_then (emit (PLogin registry)) (\<lambda>_. check_err ''registry login: '' (pe_login env)))))) (\<lambda>_.
     and_then (log_system ''pulling image'') (\<lambda>_.
     and_then (emit PPull) (\<lambda>_. check_err ''pull: '' (pe_pull env))))))"

definition stage_build :: "pipe_env \<Rightarrow> deployment \<Rightarrow> app \<Rightarrow> unit pipe" where
  "stage_build env d ap =
     and_then (set_status env (d_id d) Building) (\<lambda>_.
     and_then (emit PBuild) (\<lambda>_.
     and_then (check_err ''build: '' (pe_build env)) (\<lambda>_.
     if a_source ap = ''image'' then registry_pull env ap else ret ())))"

definition stage_up :: "pipe_env \<Rightarrow> deployment \<Rightarrow> app \<Rightarrow> string \<Rightarrow> unit pipe" where
  "stage_up env d ap compose_file =
     and_then (set_status env (d_id d) Deploying) (\<lambda>_.
     and_then (ignore (xdb (set_app_status (a_id ap) St_Deploying))) (\<lambda>_.
     let mem = (case a_mem_limit ap of Some m \<Rightarrow> m | None \<Rightarrow> 0)
     in and_then (if mem > 0 \<or> pe_cpu_limit env
                  then (case pe_override env compose_file mem of
                          Inl e \<Rightarrow> and_then (log_system (''warning: could not apply resource limits: '' @ e)) (\<lambda>_. ret [])
                        | Inr ovr \<Rightarrow> ret (if ovr \<noteq> [] then [ovr] else []))
                  else ret []) (\<lambda>overrides.
        and_then (emit (PUp overrides)) (\<lambda>_. check_err ''up: '' (pe_up env)))))"

section \<open>Services\<close>

text \<open>FirstPublishedPort and FirstTargetPort (dockercli/types.go).\<close>

definition first_published_port :: "ps_service \<Rightarrow> int" where
  "first_published_port s = (case find (\<lambda>p. snd p > 0) (ps_publishers s) of Some p \<Rightarrow> snd p | None \<Rightarrow> 0)"

definition first_target_port :: "ps_service \<Rightarrow> int" where
  "first_target_port s = (case find (\<lambda>p. fst p > 0) (ps_publishers s) of Some p \<Rightarrow> fst p | None \<Rightarrow> 0)"

definition routable_internal_port :: "ps_service \<Rightarrow> int \<Rightarrow> int" where
  "routable_internal_port s compose_exposed =
     (if compose_exposed > 0 then compose_exposed
      else if first_published_port s > 0 then first_target_port s
      else 0)"

definition if_positive :: "int \<Rightarrow> int option" where
  "if_positive n = (if n > 0 then Some n else None)"

definition upsert_services :: "pipe_env \<Rightarrow> string \<Rightarrow> ps_service list \<Rightarrow> string \<Rightarrow> unit pipe" where
  "upsert_services env a svcs compose_file =
     (let exposed = (case service_exposed_ports (pe_read_file env) (pe_unmarshal env) compose_file of
                       Inl _ \<Rightarrow> [] | Inr m \<Rightarrow> m);
          with_volumes = (case services_with_volumes (pe_read_file env) (pe_unmarshal env) compose_file of
                       Inl _ \<Rightarrow> [] | Inr ns \<Rightarrow> ns);
          seen = map ps_name svcs
      in and_then (for_each svcs (\<lambda>s.
           let exp = (case map_of exposed (ps_name s) of Some n \<Rightarrow> n | None \<Rightarrow> 0)
           in must env (''upsert service '' @ ps_name s @ '': '')
                (upsert_service a (ps_name s) (if ps_id s = [] then None else Some (ps_id s))
                   (if_positive (first_published_port s)) (if_positive (routable_internal_port s exp))
                   (map_ps_state (ps_state s)) (ps_name s \<in> set with_volumes)))) (\<lambda>_.
         and_then (must env [] (list_services_for_app a)) (\<lambda>existing.
         for_each existing (\<lambda>e.
           if s_name e \<notin> set seen then ignore (xdb (delete_service a (s_name e))) else ret ()))))"

definition apply_template_health_paths :: "templates \<Rightarrow> string \<Rightarrow> string \<Rightarrow> unit pipe" where
  "apply_template_health_paths tp a tid =
     (let paths = tp_health_paths tp tid
      in if paths = [] then ret ()
         else and_then (attempt (xdb (list_services_for_app a))) (\<lambda>r.
           case r of
             Inl _ \<Rightarrow> ret ()
           | Inr rows \<Rightarrow> for_each rows (\<lambda>v.
               case map_of paths (s_name v) of
                 None \<Rightarrow> ret ()
               | Some path \<Rightarrow>
                   if path = [] \<or> s_health_path v \<noteq> None then ret ()
                   else ignore (xdb (set_service_config a (s_name v) None None (Some path) None None)))))"

definition stage_services :: "pipe_env \<Rightarrow> deployment \<Rightarrow> app \<Rightarrow> string \<Rightarrow> ps_service list pipe" where
  "stage_services env d ap compose_file =
     and_then (set_status env (d_id d) HealthChecking) (\<lambda>_.
     and_then (emit PPs) (\<lambda>_.
     and_then (or_fail ''ps: '' (pe_ps env)) (\<lambda>svcs.
     and_then (upsert_services env (a_id ap) svcs compose_file) (\<lambda>_.
     and_then (case (a_template_id ap, pe_templates env) of
                 (Some tid, Some tp) \<Rightarrow>
                    if a_source ap = ''template'' then apply_template_health_paths tp (a_id ap) tid else ret ()
               | _ \<Rightarrow> ret ()) (\<lambda>_.
     and_then (if pe_reconciler env then emit PReconcile else ret ()) (\<lambda>_.
     ret svcs))))))"

section \<open>Health gate\<close>

text \<open>The bytes of the arrow in the probe message.\<close>

definition arrow :: string where
  "arrow = [CHR 0xE2, CHR 0x86, CHR 0x92]"

definition health_error_text :: "health_outcome \<Rightarrow> string option" where
  "health_error_text r = (case r of
     Healthy \<Rightarrow> None
   | HealthFailed e \<Rightarrow> Some (''deploy: health check failed: '' @ (case e of Some m \<Rightarrow> m | None \<Rightarrow> ''<nil>''))
   | HealthCtxErr \<Rightarrow> Some ''context canceled'')"

definition health_check :: "pipe_env \<Rightarrow> ps_service list \<Rightarrow> unit pipe" where
  "health_check env svcs = for_each svcs (\<lambda>svc.
     let port = first_published_port svc
     in if port = 0 then ret ()
        else and_then (log_system (''health check: '' @ ps_name svc @ '' '' @ arrow @ '' '' @ health_url_for_port port)) (\<lambda>_.
             and_then (emit (PProbe (ps_name svc))) (\<lambda>_.
             check_err (''health check '' @ ps_name svc @ '': '')
               (health_error_text (fst (check_with_retry (pe_probe env (ps_name svc)) (pe_retries env) (pe_timeout env) (pe_now env)))))))"

definition gate_message :: "string option \<Rightarrow> string \<Rightarrow> string" where
  "gate_message sync_err werr = (case sync_err of
     None \<Rightarrow> ''health check failed: '' @ werr
   | Some e \<Rightarrow> ''health check failed (route push also failed '' @ em_dash @ '' likely the real cause: '' @ e @ ''): '' @ werr)"

definition stage_health :: "pipe_env \<Rightarrow> deployment \<Rightarrow> app \<Rightarrow> ps_service list \<Rightarrow> unit pipe" where
  "stage_health env d ap svcs =
     (case pe_router env of
        Some (sync_err, wait_err) \<Rightarrow>
          and_then (emit PSync) (\<lambda>_.
          and_then (case sync_err of
                      None \<Rightarrow> ret ()
                    | Some e \<Rightarrow> log_system (''warning: route sync failed (will reconcile): '' @ e)) (\<lambda>_.
          and_then (emit PWaitHealthy) (\<lambda>_.
          case wait_err of
            None \<Rightarrow> ret ()
          | Some e \<Rightarrow> settle_degraded env (d_id d) ap (gate_message sync_err e))))
      | None \<Rightarrow> health_check env svcs)"

definition stage_done :: "pipe_env \<Rightarrow> deployment \<Rightarrow> app \<Rightarrow> string \<Rightarrow> string \<Rightarrow> unit pipe" where
  "stage_done env d ap sha msg =
     and_then (ignore (xdb (mark_deployment_finished (d_id d) Running None))) (\<lambda>_.
     and_then (ignore (xdb (set_app_status (a_id ap) St_Running))) (\<lambda>_.
     and_then (log_system ''pipeline: complete'') (\<lambda>_.
     if pe_notifier env then emit (PSucceeded sha msg) else ret ())))"

section \<open>Run\<close>

definition pipeline_steps :: "pipe_env \<Rightarrow> deployment \<Rightarrow> app \<Rightarrow> unit pipe" where
  "pipeline_steps env d ap =
     and_then (stage_source env d ap) (\<lambda>(sha, msg).
     and_then (stage_adapter env d ap) (\<lambda>(cfg, compose_file).
     and_then (stage_preflight env d ap cfg compose_file) (\<lambda>_.
     and_then (stage_env_file env ap) (\<lambda>_.
     and_then (stage_build env d ap) (\<lambda>_.
     and_then (stage_up env d ap compose_file) (\<lambda>_.
     and_then (stage_services env d ap compose_file) (\<lambda>svcs.
     and_then (stage_health env d ap svcs) (\<lambda>_.
     stage_done env d ap sha msg))))))))"

text \<open>The failure-finishing block.\<close>

definition settle_failure :: "pipe_env \<Rightarrow> deployment \<Rightarrow> app \<Rightarrow> pexit + unit \<Rightarrow> unit pipe" where
  "settle_failure env d ap r = (case r of
     Inl (Fail msg) \<Rightarrow>
       and_then (log_system (''pipeline failed: '' @ msg)) (\<lambda>_.
       and_then (ignore (xdb (mark_deployment_finished (d_id d) Errored (Some msg)))) (\<lambda>_.
       and_then (ignore (xdb (set_app_status (a_id ap) St_Error))) (\<lambda>_.
       notify_failed env msg)))
   | _ \<Rightarrow> ret ())"

text \<open>MaintainOn and MaintainOff of the proxy manager; enterAutoMaintenance and its clean-up only
  log their errors.\<close>

definition maintain_on :: "pipe_env \<Rightarrow> string \<Rightarrow> (pst, store_err option, unit) sem" where
  "maintain_on env a = and_then (map_err Some (xdb (set_app_maintenance_active a True))) (\<lambda>_. emit PMaintainOn)"

definition maintain_off :: "pipe_env \<Rightarrow> string \<Rightarrow> (pst, store_err option, unit) sem" where
  "maintain_off env a = and_then (map_err Some (xdb (clear_maintenance_if_manual_off a))) (\<lambda>cleared.
     if cleared then emit PMaintainOff else ret ())"

definition enter_auto_maintenance :: "pipe_env \<Rightarrow> app \<Rightarrow> unit pipe" where
  "enter_auto_maintenance env ap =
     (if \<not> a_maintenance_auto ap \<or> \<not> pe_maintainer env then ret () else ignore (maintain_on env (a_id ap)))"

definition leave_auto_maintenance :: "pipe_env \<Rightarrow> app \<Rightarrow> unit pipe" where
  "leave_auto_maintenance env ap =
     (if \<not> a_maintenance_auto ap \<or> \<not> pe_maintainer env then ret () else ignore (maintain_off env (a_id ap)))"

definition pipeline_body :: "pipe_env \<Rightarrow> deployment \<Rightarrow> app \<Rightarrow> unit pipe" where
  "pipeline_body env d ap =
     and_then (must env ''pipeline: mark started: '' (mark_deployment_started (d_id d))) (\<lambda>_.
     and_then (ignore (xdb (set_app_status (a_id ap) St_Building))) (\<lambda>_.
     and_then (ignore (xdb (set_app_suspended (a_id ap) False))) (\<lambda>_.
     and_then (enter_auto_maintenance env ap) (\<lambda>_.
     with_defer (with_defer (pipeline_steps env d ap) (settle_failure env d ap))
       (\<lambda>_. leave_auto_maintenance env ap)))))"

text \<open>Run: the error it returns, if any, and the final state.\<close>

definition run_result :: "pexit + unit \<Rightarrow> string option" where
  "run_result r = (case r of Inl (Fail m) \<Rightarrow> Some m | _ \<Rightarrow> None)"

definition pipeline_run :: "pipe_env \<Rightarrow> string \<Rightarrow> pst \<Rightarrow> string option \<times> pst" where
  "pipeline_run env i s =
     (case and_then (must env ''pipeline: load deployment: '' (get_deployment i)) (\<lambda>d.
             if is_terminal (d_status d) then ret ()
             else and_then (must env ''pipeline: load app: '' (get_app (d_app d))) (\<lambda>ap.
                  with_defer (pipeline_body env d ap) (\<lambda>_. emit PBuildEnd))) s of
        (r, s') \<Rightarrow> (run_result r, s'))"

section \<open>Invariants of a run\<close>

text \<open>
  What an invariant of a run has to withstand: the calls of the pipeline for one deployment
  \<open>i\<close> of one app \<open>a\<close>. The first contract covers the part up to the preflight, the second one
  adds the build and the up.
\<close>

lemma keeps_emit: "keeps I (emit e) \<longleftrightarrow> (\<forall>s. I s \<longrightarrow> I (s\<lparr>x_trace := x_trace s @ [e]\<rparr>))"
  by (simp add: keeps_def emit_def act_def)

lemma keeps_case_key_err:
  "keeps I m \<Longrightarrow> (\<And>x. keeps I (f x)) \<Longrightarrow> keeps I (case k of KeyNotFound \<Rightarrow> m | KeyErr x \<Rightarrow> f x)"
  by (cases k) simp_all

locale run_prefix_invariant =
  fixes I :: "pst \<Rightarrow> bool" and i :: string and a :: string
  assumes emit_quiet: "e \<noteq> PBuild \<Longrightarrow> \<forall>o'. e \<noteq> PUp o' \<Longrightarrow> e \<noteq> PBuildEnd \<Longrightarrow> I s
      \<Longrightarrow> I (s\<lparr>x_trace := x_trace s @ [e]\<rparr>)"
    and log_call: "keeps I (xdb (db_call (\<lambda>s. (Inr (), s))))"
    and status_write: "\<not> is_terminal st \<Longrightarrow> keeps I (xdb (update_deployment_status i st None))"
    and commit_write: "keeps I (xdb (set_deployment_commit i x y))"
    and hash_write: "keeps I (xdb (set_deployment_compose_hash i h))"
    and finish_write: "is_terminal st \<Longrightarrow> keeps I (xdb (mark_deployment_finished i st err))"
    and app_status_write: "keeps I (xdb (set_app_status a ss))"
    and auth_read: "keeps I (xdb (get_app_registry_auth a))"
    and list_read: "keeps I (xdb (list_services_for_app a))"
    and upsert_write: "keeps I (xdb (upsert_service a n c p q ss v))"
    and service_delete: "keeps I (xdb (delete_service a n))"
    and config_write: "keeps I (xdb (set_service_config a n p q hp pr au))"
    and service_status_write: "keeps I (xdb (update_service_status a n ss ex))"
begin

lemma keeps_emits:
  "keeps I (emit (PLog m))" "keeps I (emit PChanged)" "keeps I (emit (PFailed m))" "keeps I (emit (PSucceeded m m'))"
  "keeps I (emit PMaintainOn)" "keeps I (emit PMaintainOff)" "keeps I (emit (PGit g))" "keeps I (emit (PMaterialize m))"
  "keeps I (emit PConfig)" "keeps I (emit (PWriteEnv m))" "keeps I (emit (PLogin m))" "keeps I (emit PPull)"
  "keeps I (emit PPs)" "keeps I (emit PReconcile)" "keeps I (emit PSync)" "keeps I (emit PWaitHealthy)"
  "keeps I (emit (PProbe m))"
  by (simp_all add: keeps_emit emit_quiet)

lemma keeps_plumbing:
  "keeps I (check_err pre e)" "keeps I (or_fail pre r)" "keeps I (log_system m)" "keeps I (notify_failed env m)"
  unfolding check_err_def or_fail_def log_system_def notify_failed_def
  by (intro vac_wp keeps_emits log_call)+

lemma keeps_must: "keeps I (xdb m) \<Longrightarrow> keeps I (must env pre m)"
  unfolding must_def by (intro vac_wp)

lemma keeps_set_status: "\<not> is_terminal st \<Longrightarrow> keeps I (set_status env i st)"
  unfolding set_status_def by (intro vac_wp keeps_must keeps_emits status_write)

lemma keeps_degrade_services: "keeps I (mark_http_services_degraded a)"
  unfolding mark_http_services_degraded_def by (intro vac_wp list_read service_status_write)

lemma keeps_settle: "a_id ap = a \<Longrightarrow> keeps I (settle_degraded env i ap msg)"
  unfolding settle_degraded_def
  by (intro vac_wp keeps_plumbing finish_write app_status_write) (simp_all add: keeps_degrade_services app_status_write is_terminal_def)

lemmas wp_rules = vac_wp keeps_case_key_err keeps_plumbing keeps_emits keeps_must log_call commit_write hash_write auth_read list_read
  upsert_write service_delete config_write service_status_write

lemma keeps_stage_source: "d_id d = i \<Longrightarrow> keeps I (stage_source env d ap)"
  unfolding stage_source_def materialise_key_def clone_or_pull_def git_call_def Let_def
  by (simp only:) (intro wp_rules keeps_set_status; simp add: is_terminal_def)

lemma keeps_stage_adapter: "d_id d = i \<Longrightarrow> keeps I (stage_adapter env d ap)"
  unfolding stage_adapter_def Let_def by (simp only:) (intro wp_rules)

lemma keeps_stage_preflight: "d_id d = i \<Longrightarrow> a_id ap = a \<Longrightarrow> keeps I (stage_preflight env d ap cfg cf)"
  unfolding stage_preflight_def Let_def by (simp only:) (intro wp_rules keeps_settle; assumption)

end

locale run_invariant = run_prefix_invariant +
  assumes emit_build: "I s \<Longrightarrow> I (s\<lparr>x_trace := x_trace s @ [PBuild]\<rparr>)"
    and emit_up: "I s \<Longrightarrow> I (s\<lparr>x_trace := x_trace s @ [PUp ov]\<rparr>)"
begin

lemma keeps_emit_build: "keeps I (emit PBuild)" "keeps I (emit (PUp ov))"
  by (simp_all add: keeps_emit emit_build emit_up)

lemma keeps_stage_env_file: "keeps I (stage_env_file env ap)"
  unfolding stage_env_file_def by (intro wp_rules)

lemma keeps_stage_build: "d_id d = i \<Longrightarrow> a_id ap = a \<Longrightarrow> keeps I (stage_build env d ap)"
  unfolding stage_build_def registry_pull_def
  by (simp only:) (intro wp_rules keeps_set_status keeps_emit_build; simp add: is_terminal_def)

lemma keeps_stage_up: "d_id d = i \<Longrightarrow> a_id ap = a \<Longrightarrow> keeps I (stage_up env d ap cf)"
  unfolding stage_up_def Let_def
  by (simp only:) (intro wp_rules keeps_set_status keeps_emit_build app_status_write; simp add: is_terminal_def)

lemma keeps_stage_services: "d_id d = i \<Longrightarrow> a_id ap = a \<Longrightarrow> keeps I (stage_services env d ap cf)"
  unfolding stage_services_def upsert_services_def apply_template_health_paths_def Let_def
  by (simp only:) (intro wp_rules keeps_set_status; simp add: is_terminal_def)

lemma keeps_stage_health: "d_id d = i \<Longrightarrow> a_id ap = a \<Longrightarrow> keeps I (stage_health env d ap svcs)"
  unfolding stage_health_def health_check_def Let_def
  by (simp only:) (intro wp_rules keeps_settle; assumption)

lemma keeps_stage_done: "d_id d = i \<Longrightarrow> a_id ap = a \<Longrightarrow> keeps I (stage_done env d ap sha msg)"
  unfolding stage_done_def
  by (simp only:) (intro wp_rules finish_write app_status_write; simp add: is_terminal_def)

lemma keeps_steps:
  assumes "d_id d = i" and "a_id ap = a"
  shows "keeps I (pipeline_steps env d ap)"
  unfolding pipeline_steps_def
  by (intro vac_wp keeps_stage_source keeps_stage_adapter keeps_stage_preflight keeps_stage_env_file
      keeps_stage_build keeps_stage_up keeps_stage_services keeps_stage_health keeps_stage_done assms)

lemma keeps_settle_failure: "d_id d = i \<Longrightarrow> a_id ap = a \<Longrightarrow> keeps I (settle_failure env d ap r)"
  unfolding settle_failure_def
  by (cases r; simp split: pexit.split)
    (intro conjI allI impI wp_rules finish_write app_status_write; simp add: is_terminal_def)+

end

lemma keeps_with_defer [vac_wp]: "keeps I m \<Longrightarrow> (\<And>r. keeps I (c r)) \<Longrightarrow> keeps I (with_defer m c)"
  by (force simp: keeps_def with_defer_def split: prod.split)

lemma keeps_xdb: "keeps J m \<Longrightarrow> keeps (\<lambda>s. J (x_db s)) (xdb m)"
  by (force simp: keeps_def xdb_def split: prod.split)

lemma keeps_xdb_trace: "keeps (\<lambda>s. T (x_trace s)) (xdb m)"
  by (simp add: keeps_def xdb_def split: prod.split)

text \<open>An invariant of the database alone.\<close>

locale run_db_invariant =
  fixes J :: "db \<Rightarrow> bool" and i :: string and a :: string
  assumes j_log: "keeps J (db_call (\<lambda>s. (Inr (), s)))"
    and j_status: "\<not> is_terminal st \<Longrightarrow> keeps J (update_deployment_status i st None)"
    and j_commit: "keeps J (set_deployment_commit i x y)"
    and j_hash: "keeps J (set_deployment_compose_hash i h)"
    and j_finish: "is_terminal st \<Longrightarrow> keeps J (mark_deployment_finished i st err)"
    and j_app: "keeps J (set_app_status a ss)"
    and j_auth: "keeps J (get_app_registry_auth a)"
    and j_list: "keeps J (list_services_for_app a)"
    and j_upsert: "keeps J (upsert_service a n c p q ss v)"
    and j_delete: "keeps J (delete_service a n)"
    and j_config: "keeps J (set_service_config a n p q hp pr au)"
    and j_service: "keeps J (update_service_status a n ss ex)"

sublocale run_db_invariant \<subseteq> run_invariant "\<lambda>s. J (x_db s)" i a
  by unfold_locales
    (simp_all add: keeps_xdb j_log j_status j_commit j_hash j_finish j_app j_auth j_list j_upsert j_delete
      j_config j_service)

lemma keeps_conj: "keeps J m \<Longrightarrow> keeps K m \<Longrightarrow> keeps (\<lambda>s. J s \<and> K s) m"
  by (simp add: keeps_def)

lemma keeps_rows_only:
  "(\<And>ds. keeps (same_deployments ds) m) \<Longrightarrow> keeps (\<lambda>s. P (deployments s)) m"
  by (auto simp: keeps_def same_deployments_def)

lemma keeps_auth_read: "call_stable J \<Longrightarrow> keeps J (get_app_registry_auth a)"
  unfolding get_app_registry_auth_def by (intro vac_wp)

lemma keeps_log_call: "call_stable J \<Longrightarrow> keeps J (db_call (\<lambda>s. (Inr (), s)))"
  by (rule keeps_db_call) (simp_all add: keeps_def)

subsection \<open>The two ways a run goes\<close>

definition tick :: "nat \<Rightarrow> pst \<Rightarrow> pst" where
  "tick n s = s\<lparr>x_db := (x_db s)\<lparr>db_calls := n\<rparr>\<rparr>"

lemma tick_simps [simp]:
  "x_trace (tick n s) = x_trace s" "deployments (x_db (tick n s)) = deployments (x_db s)"
  "apps (x_db (tick n s)) = apps (x_db s)" "services (x_db (tick n s)) = services (x_db s)"
  "db_fault (x_db (tick n s)) = db_fault (x_db s)" "db_calls (x_db (tick n s)) = n"
  "db_now (x_db (tick n s)) = db_now (x_db s)" "tick n (tick m s) = tick n s"
  by (simp_all add: tick_def)

lemma xdb_get_deployment:
  "xdb (get_deployment i) s = (if db_fault (x_db s) (db_calls (x_db s)) then Inl ErrDB
     else (case find (\<lambda>d. d_id d = i) (deployments (x_db s)) of None \<Rightarrow> Inl ErrNotFound | Some d \<Rightarrow> Inr d),
     tick (Suc (db_calls (x_db s))) s)"
  by (simp add: xdb_def get_deployment_def db_call_def Let_def tick_def split: option.split)

lemma xdb_get_app:
  "xdb (get_app i) s = (if db_fault (x_db s) (db_calls (x_db s)) then Inl ErrDB
     else (case find (\<lambda>d. a_id d = i) (apps (x_db s)) of None \<Rightarrow> Inl ErrNotFound | Some d \<Rightarrow> Inr d),
     tick (Suc (db_calls (x_db s))) s)"
  by (simp add: xdb_def get_app_def db_call_def Let_def tick_def split: option.split)

text \<open>A run stops before it starts, or it is the body followed by the end-of-build frame.\<close>

lemma pipeline_run_cases:
  obtains (early) n where "snd (pipeline_run env i s) = tick n s"
  | (ran) n d ap r u where "d \<in> set (deployments (x_db s))" "d_id d = i" "\<not> is_terminal (d_status d)"
      "find (\<lambda>d. d_id d = i) (deployments (x_db s)) = Some d"
      "ap \<in> set (apps (x_db s))" "a_id ap = d_app d" "find (\<lambda>x. a_id x = d_app d) (apps (x_db s)) = Some ap"
      "pipeline_body env d ap (tick n s) = (r, u)"
      "pipeline_run env i s = (run_result r, u\<lparr>x_trace := x_trace u @ [PBuildEnd]\<rparr>)"
proof -
  let ?F = "db_fault (x_db s)" and ?c = "db_calls (x_db s)"
  show thesis
  proof (cases "\<not> ?F ?c \<and> \<not> ?F (Suc ?c)
      \<and> (\<exists>d. find (\<lambda>d. d_id d = i) (deployments (x_db s)) = Some d \<and> \<not> is_terminal (d_status d)
           \<and> (\<exists>ap. find (\<lambda>x. a_id x = d_app d) (apps (x_db s)) = Some ap))")
    case True
    then obtain d ap where d: "find (\<lambda>d. d_id d = i) (deployments (x_db s)) = Some d" "\<not> is_terminal (d_status d)"
      and ap: "find (\<lambda>x. a_id x = d_app d) (apps (x_db s)) = Some ap" by blast
    obtain r u where ru: "pipeline_body env d ap (tick (Suc (Suc ?c)) s) = (r, u)" by fastforce
    have "pipeline_run env i s = (run_result r, u\<lparr>x_trace := x_trace u @ [PBuildEnd]\<rparr>)"
      using True d ap ru
      by (simp add: pipeline_run_def must_def map_err_def and_then_def xdb_get_deployment xdb_get_app with_defer_def
          emit_def act_def)
    moreover have "d \<in> set (deployments (x_db s))" "d_id d = i" using d(1) by (auto simp: find_Some_iff)
    moreover have "ap \<in> set (apps (x_db s))" "a_id ap = d_app d" using ap by (auto simp: find_Some_iff)
    ultimately show ?thesis using ran d ap ru by blast
  next
    case False
    then have "\<exists>n. snd (pipeline_run env i s) = tick n s"
      by (auto simp: pipeline_run_def must_def map_err_def and_then_def xdb_get_deployment xdb_get_app ret_def
          split: option.split)
    then show ?thesis using early by blast
  qed
qed

subsection \<open>Other rows, and the index\<close>

definition others :: "string \<Rightarrow> deployment list \<Rightarrow> db \<Rightarrow> bool" where
  "others i rows s = (filter (\<lambda>d. d_id d \<noteq> i) (deployments s) = rows)"

lemma call_stable_others [simp]: "call_stable (others i rows)"
  by (simp add: call_stable_def others_def)

lemma keeps_others_update:
  assumes "\<And>d. p d \<Longrightarrow> d_id d = i \<and> d_id (f d) = i"
  shows "keeps (others i rows) (update_deployments p f)"
proof -
  have "filter (\<lambda>d. d_id d \<noteq> i) (map (\<lambda>d. if p d then f d else d) ds) = filter (\<lambda>d. d_id d \<noteq> i) ds" for ds
    using assms by (induction ds) auto
  then show ?thesis
    unfolding update_deployments_def
    by (intro keeps_db_call) (simp_all add: keeps_def others_def Let_def)
qed

lemma keeps_others_rows:
  "keeps (others i rows) (update_deployment_status i st e)" "keeps (others i rows) (mark_deployment_started i)"
  "keeps (others i rows) (mark_deployment_finished i st e)" "keeps (others i rows) (set_deployment_commit i x y)"
  "keeps (others i rows) (set_deployment_compose_hash i h)"
  unfolding row_ops by (intro vac_wp keeps_others_update; simp)+

lemma keeps_others_same: "(\<And>ds. keeps (same_deployments ds) m) \<Longrightarrow> keeps (others i rows) m"
  unfolding others_def [abs_def] by (rule keeps_rows_only)

definition confined :: "string \<Rightarrow> deployment list \<Rightarrow> db \<Rightarrow> bool" where
  "confined i rows s = (db_inv s \<and> others i rows s)"

lemma keeps_confined: "keeps db_inv m \<Longrightarrow> keeps (others i rows) m \<Longrightarrow> keeps (confined i rows) m"
  by (simp add: keeps_def confined_def)

lemma keeps_inv_rows: "(\<And>ds. keeps (same_deployments ds) m) \<Longrightarrow> keeps db_inv m"
  unfolding db_inv_def [abs_def] by (rule keeps_rows_only)

lemma keeps_confined_same: "(\<And>ds. keeps (same_deployments ds) m) \<Longrightarrow> keeps (confined i rows) m"
  by (intro keeps_confined keeps_inv_rows keeps_others_same)

interpretation confined_run: run_db_invariant "confined i rows" i a for i rows a
  by unfold_locales
    (intro keeps_confined keeps_others_rows keeps_row_ops keeps_confined_same vac_wp keeps_auth_read keeps_log_call
      call_stable_same)+

lemma keeps_must_any: "keeps I (xdb m) \<Longrightarrow> keeps I (must env pre m)"
  unfolding must_def by (intro vac_wp)

text \<open>From the steps to the whole body.\<close>

lemma keeps_body:
  assumes "keeps I (pipeline_steps env d ap)" and "\<And>r. keeps I (settle_failure env d ap r)"
    and "keeps I (xdb (mark_deployment_started (d_id d)))" and "keeps I (xdb (set_app_status (a_id ap) St_Building))"
    and "keeps I (xdb (set_app_suspended (a_id ap) False))"
    and "keeps I (enter_auto_maintenance env ap)" and "keeps I (leave_auto_maintenance env ap)"
  shows "keeps I (pipeline_body env d ap)"
  unfolding pipeline_body_def by (intro vac_wp keeps_must_any assms)

lemma keeps_maintenance_db:
  assumes "keeps J (set_app_maintenance_active a True)" and "keeps J (clear_maintenance_if_manual_off a)"
    and "a_id ap = a"
  shows "keeps (\<lambda>s. J (x_db s)) (enter_auto_maintenance env ap)" "keeps (\<lambda>s. J (x_db s)) (leave_auto_maintenance env ap)"
  unfolding enter_auto_maintenance_def leave_auto_maintenance_def maintain_on_def maintain_off_def assms(3)
  by (intro vac_wp keeps_xdb assms(1,2); simp add: keeps_emit)+

lemma confined_body:
  assumes "d_id d = i"
  shows "keeps (\<lambda>s. confined i rows (x_db s)) (pipeline_body env d ap)"
proof (rule keeps_body)
  show "keeps (\<lambda>s. confined i rows (x_db s)) (xdb (mark_deployment_started (d_id d)))"
    unfolding assms by (intro keeps_xdb keeps_confined keeps_others_rows keeps_row_ops)
  show "keeps (\<lambda>s. confined i rows (x_db s)) (pipeline_steps env d ap)"
    by (rule confined_run.keeps_steps [OF assms refl])
  show "keeps (\<lambda>s. confined i rows (x_db s)) (settle_failure env d ap r)" for r
    by (rule confined_run.keeps_settle_failure [OF assms refl])
qed (rule keeps_maintenance_db [OF _ _ refl] keeps_xdb; intro keeps_confined_same vac_wp)+

text \<open>
  C29: a run is confined to its own row. Whatever the collaborators answer and whichever database
  calls fail, a run of the pipeline leaves every other deployment row exactly as it was, and
  keeps the table within its unique index.
\<close>

theorem run_touches_own_row_only:
  assumes "db_inv (x_db s)"
  shows "filter (\<lambda>d. d_id d \<noteq> i) (deployments (x_db (snd (pipeline_run env i s))))
       = filter (\<lambda>d. d_id d \<noteq> i) (deployments (x_db s))
    \<and> index_ok (deployments (x_db (snd (pipeline_run env i s))))"
proof (cases rule: pipeline_run_cases [of env i s])
  case (early n)
  then show ?thesis using assms by (simp add: db_inv_def)
next
  case (ran n d ap r u)
  let ?J = "confined i (filter (\<lambda>d. d_id d \<noteq> i) (deployments (x_db s)))"
  have "keeps (\<lambda>s. ?J (x_db s)) (pipeline_body env d ap)"
    by (rule confined_body) (use ran in simp_all)
  moreover have "?J (x_db (tick n s))" using assms by (simp add: confined_def db_inv_def others_def)
  ultimately have "?J (x_db u)" using ran(8) keepsD by fastforce
  then show ?thesis using ran(9) by (simp add: confined_def others_def db_inv_def)
qed

subsection \<open>The trace\<close>

definition end_free :: "pevent list \<Rightarrow> pevent list \<Rightarrow> bool" where
  "end_free t0 t = (\<exists>tr. t = t0 @ tr \<and> PBuildEnd \<notin> set tr)"

lemma end_free_snoc: "end_free t0 t \<Longrightarrow> e \<noteq> PBuildEnd \<Longrightarrow> end_free t0 (t @ [e])"
  unfolding end_free_def by (metis append.assoc rotate1.simps(2) set_ConsD set_rotate1)

interpretation end_free_run: run_invariant "\<lambda>s. end_free t0 (x_trace s)" i a for t0 i a
  by unfold_locales (simp_all add: end_free_snoc keeps_xdb_trace)

lemma end_free_body: "keeps (\<lambda>s. end_free t0 (x_trace s)) (pipeline_body env d ap)"
  by (rule keeps_body)
    (simp_all add: end_free_run.keeps_steps end_free_run.keeps_settle_failure keeps_xdb_trace
      enter_auto_maintenance_def leave_auto_maintenance_def maintain_on_def maintain_off_def
      vac_wp end_free_snoc keeps_emit)

text \<open>
  Live subscribers are told once, at the very end. A run that passes the initial checks
  publishes the end-of-build frame exactly once and as its last action, on every exit path
  (success, blocked, failed, and with failing database calls); a run that does not start publishes
  nothing at all.
\<close>

theorem build_end_published_last:
  "x_trace (snd (pipeline_run env i s)) = x_trace s
   \<or> (\<exists>tr. x_trace (snd (pipeline_run env i s)) = x_trace s @ tr @ [PBuildEnd] \<and> PBuildEnd \<notin> set tr)"
proof (cases rule: pipeline_run_cases [of env i s])
  case (early n)
  then show ?thesis by simp
next
  case (ran n d ap r u)
  have "end_free (x_trace s) (x_trace u)"
    using keepsD [OF end_free_body [of "x_trace s" env d ap], of "tick n s"] ran(8) by (simp add: end_free_def)
  then show ?thesis using ran(9) by (auto simp: end_free_def)
qed

subsection \<open>The compose gate\<close>

definition builds :: "pevent \<Rightarrow> bool" where
  "builds e = (case e of PBuild \<Rightarrow> True | PUp _ \<Rightarrow> True | _ \<Rightarrow> False)"

definition no_builds :: "pevent list \<Rightarrow> pevent list \<Rightarrow> bool" where
  "no_builds t0 t = (\<exists>tr. t = t0 @ tr \<and> \<not> list_ex builds tr)"

text \<open>The compose file the adapter produces, and what its lint lets through.\<close>

definition effective_cfg :: "app \<Rightarrow> build_cfg \<Rightarrow> build_cfg" where
  "effective_cfg ap cfg = (if bc_compose_path cfg = [] then cfg\<lparr>bc_compose_path := a_compose_file ap\<rparr> else cfg)"

definition gate_open :: "pipe_env \<Rightarrow> app \<Rightarrow> bool" where
  "gate_open env ap =
     (case pe_parse_config env (a_build_config ap) of Inl _ \<Rightarrow> False | Inr cfg \<Rightarrow>
       (case pe_adapter_for env (a_build_kind ap) of Inl _ \<Rightarrow> False | Inr kind \<Rightarrow>
         (case pe_prepare env kind (effective_cfg ap cfg) of Inl _ \<Rightarrow> False | Inr file \<Rightarrow>
           (case lint_result env file of Inl _ \<Rightarrow> False | Inr fs \<Rightarrow>
             list_all (\<lambda>f. f_severity f = SeverityError \<longrightarrow> bc_allow_unsafe cfg \<and> \<not> is_host_escape f) fs))))"

lemma builds_iff: "builds e \<longleftrightarrow> e = PBuild \<or> (\<exists>o'. e = PUp o')"
  by (simp add: builds_def split: pevent.split)

lemma no_builds_snoc:
  assumes "no_builds t0 t" and "\<not> builds e"
  shows "no_builds t0 (t @ [e])"
proof -
  obtain tr where "t = t0 @ tr" "\<not> list_ex builds tr" using assms(1) by (auto simp: no_builds_def)
  then have "t @ [e] = t0 @ (tr @ [e])" "\<not> list_ex builds (tr @ [e])" using assms(2) by simp_all
  then show ?thesis unfolding no_builds_def by blast
qed

interpretation no_builds_run: run_prefix_invariant "\<lambda>s. no_builds t0 (x_trace s)" i a for t0 i a
  by unfold_locales (simp_all add: no_builds_snoc keeps_xdb_trace builds_iff)

text \<open>Operations without an early return.\<close>

definition smooth :: "('s, 'e, 'a) sem \<Rightarrow> bool" where
  "smooth m = (\<forall>s. \<not> isl (fst (m s)))"

lemma smooth_basic [simp]: "smooth (ret x)" "smooth (ignore m)" "smooth (attempt m)" "smooth (emit e)" "smooth (act f)"
  by (simp_all add: smooth_def sem_defs emit_def split: prod.split)

lemma smooth_Inr: "smooth m \<Longrightarrow> \<exists>x s'. m s = (Inr x, s')"
  by (cases "m s"; cases "fst (m s)") (auto simp: smooth_def isl_def dest: spec [of _ s])

lemma smooth_and_then:
  assumes "smooth m" and "\<And>x. smooth (f x)"
  shows "smooth (and_then m f)"
  unfolding smooth_def
proof
  fix s
  obtain x s' where "m s = (Inr x, s')" using smooth_Inr [OF assms(1)] by blast
  then show "\<not> isl (fst (and_then m f s))" using assms(2) [of x] by (simp add: and_then_def smooth_def)
qed

lemma smooth_for_each: "(\<And>x. smooth (f x)) \<Longrightarrow> smooth (for_each xs f)"
  by (induction xs) (simp_all add: smooth_and_then)

lemma throws_after:
  assumes "smooth m" and "\<And>x s. fst (f x s) = Inl e"
  shows "fst (and_then m f s) = Inl e"
proof -
  obtain x s' where "m s = (Inr x, s')" using smooth_Inr [OF assms(1)] by blast
  then show ?thesis using assms(2) by (simp add: and_then_def)
qed

lemma smooth_plumbing [simp]:
  "smooth (log_system m)" "smooth (notify_failed env m)" "smooth (mark_http_services_degraded a)"
  unfolding log_system_def notify_failed_def mark_http_services_degraded_def
  by (auto intro!: smooth_and_then smooth_for_each split: sum.split)

lemma settle_degraded_throws: "fst (settle_degraded env i ap msg s) = Inl Done"
  unfolding settle_degraded_def by (intro throws_after; simp add: throw_def)

lemma stage_adapter_Inr:
  assumes "stage_adapter env d ap s = (Inr (cfg, file), s')"
  shows "\<exists>cfg0 kind. pe_parse_config env (a_build_config ap) = Inr cfg0 \<and> pe_adapter_for env (a_build_kind ap) = Inr kind
    \<and> pe_prepare env kind (effective_cfg ap cfg0) = Inr file \<and> cfg = effective_cfg ap cfg0"
  using assms
  by (auto simp: stage_adapter_def or_fail_def and_then_def ret_def throw_def effective_cfg_def Let_def
      split: sum.splits prod.splits if_splits)

lemma stage_preflight_Inr:
  assumes "stage_preflight env d ap cfg file s = (Inr (), s')"
  shows "\<exists>fs. lint_result env file = Inr fs \<and> filter (is_blocking (bc_allow_unsafe cfg)) fs = []"
proof (rule ccontr)
  assume no: "\<not> ?thesis"
  have "fst (stage_preflight env d ap cfg file s) = Inl Done"
    unfolding stage_preflight_def Let_def
  proof (intro throws_after)
    fix x y :: unit and t
    show "fst ((case lint_result env file of
          Inl perr \<Rightarrow> settle_degraded env (d_id d) ap (''compose preflight failed: '' @ perr)
        | Inr findings \<Rightarrow> and_then (for_each findings (\<lambda>f. log_system (format_finding f)))
            (\<lambda>_. if filter (is_blocking (bc_allow_unsafe cfg)) findings \<noteq> []
                 then settle_degraded env (d_id d) ap (''compose preflight failed:'' @ [nl] @
                        join_findings (filter (is_blocking (bc_allow_unsafe cfg)) findings))
                 else ret ())) t) = Inl Done"
      using no by (cases "lint_result env file")
        (auto intro!: throws_after smooth_for_each simp: settle_degraded_throws)
  qed (auto split: sum.split)
  with assms show False by simp
qed

lemma gate_of_stages:
  assumes "stage_adapter env d ap s = (Inr (cfg, file), s')" and "stage_preflight env d ap cfg file t = (Inr (), t')"
  shows "gate_open env ap"
proof -
  obtain cfg0 kind where c: "pe_parse_config env (a_build_config ap) = Inr cfg0"
    "pe_adapter_for env (a_build_kind ap) = Inr kind"
    "pe_prepare env kind (effective_cfg ap cfg0) = Inr file" "cfg = effective_cfg ap cfg0"
    using stage_adapter_Inr [OF assms(1)] by blast
  moreover obtain fs where "lint_result env file = Inr fs" "filter (is_blocking (bc_allow_unsafe cfg)) fs = []"
    using stage_preflight_Inr [OF assms(2)] by blast
  moreover have "bc_allow_unsafe cfg = bc_allow_unsafe cfg0" using c(4) by (simp add: effective_cfg_def)
  ultimately show ?thesis
    by (auto simp: gate_open_def list_all_iff filter_empty_conv is_blocking_def)
qed

lemma closed_gate_steps:
  assumes "\<not> gate_open env ap"
  shows "keeps (\<lambda>s. no_builds t0 (x_trace s)) (pipeline_steps env d ap)"
  unfolding pipeline_steps_def
proof (rule keeps_and_then [OF no_builds_run.keeps_stage_source [OF refl]], rule keeps_case_prod,
    rule keeps_and_then_Inr [OF no_builds_run.keeps_stage_adapter [OF refl]])
  fix sha msg :: string and x s s'
  assume ad: "stage_adapter env d ap s = (Inr x, s')" and I: "no_builds t0 (x_trace s')"
  obtain cfg cf where x: "x = (cfg, cf)" by fastforce
  obtain r t where pf: "stage_preflight env d ap cfg cf s' = (r, t)" by fastforce
  have "keeps (\<lambda>s. no_builds t0 (x_trace s)) (stage_preflight env d ap cfg cf)"
    by (rule no_builds_run.keeps_stage_preflight [OF refl refl])
  from keepsD [OF this I] pf have "no_builds t0 (x_trace t)" by simp
  moreover have "\<exists>e. r = Inl e"
    using gate_of_stages [of env d ap s cfg cf s' s' t] ad x pf assms by (cases r) auto
  ultimately show "no_builds t0 (x_trace (snd ((case x of (cfg, compose_file) \<Rightarrow>
      and_then (stage_preflight env d ap cfg compose_file) (\<lambda>_.
      and_then (stage_env_file env ap) (\<lambda>_.
      and_then (stage_build env d ap) (\<lambda>_.
      and_then (stage_up env d ap compose_file) (\<lambda>_.
      and_then (stage_services env d ap compose_file) (\<lambda>svcs.
      and_then (stage_health env d ap svcs) (\<lambda>_.
      stage_done env d ap sha msg))))))) s')))"
    using x pf by (auto simp: and_then_def)
qed

lemma closed_gate_failure: "keeps (\<lambda>s. no_builds t0 (x_trace s)) (settle_failure env d ap r)"
  unfolding settle_failure_def
  by (cases r; simp split: pexit.split)
    (intro conjI allI impI vac_wp no_builds_run.keeps_plumbing keeps_xdb_trace)+

text \<open>
  C2: a blocked compose file is never built or started. Whatever the collaborators answer and
  whichever database calls fail, a run that reaches docker compose build or up has linted the
  compose file of its app, and the lint found no error, or the operator allowed unsafe files and
  none of the errors is a host escape: the allowance never lets a host escape through.
\<close>

theorem blocked_compose_never_runs:
  assumes "e \<in> set (drop (length (x_trace s)) (x_trace (snd (pipeline_run env i s))))"
    and "e = PBuild \<or> e = PUp ov"
  shows "\<exists>d\<in>set (deployments (x_db s)). \<exists>ap\<in>set (apps (x_db s)). d_id d = i \<and> a_id ap = d_app d \<and> gate_open env ap"
proof (cases rule: pipeline_run_cases [of env i s])
  case (early n)
  then show ?thesis using assms(1) by simp
next
  case (ran n d ap r u)
  have "gate_open env ap"
  proof (rule ccontr)
    assume closed: "\<not> gate_open env ap"
    have "keeps (\<lambda>s. no_builds (x_trace s0) (x_trace s)) (pipeline_body env d ap)" for s0 :: pst
      by (rule keeps_body)
        (simp_all add: closed_gate_steps closed closed_gate_failure keeps_xdb_trace
          enter_auto_maintenance_def leave_auto_maintenance_def maintain_on_def maintain_off_def
          vac_wp no_builds_snoc keeps_emit builds_iff)
    then have "no_builds (x_trace s) (x_trace u)"
      using keepsD [of "\<lambda>t. no_builds (x_trace s) (x_trace t)" "pipeline_body env d ap" "tick n s"] ran(8)
      by (simp add: no_builds_def)
    then show False
      using assms ran(9) by (auto simp: no_builds_def list_ex_iff builds_iff)
  qed
  with ran show ?thesis by blast
qed

subsection \<open>A working database\<close>

text \<open>Which rows and apps exist, and which calls fail, does not change during a run.\<close>

definition shape :: "string list \<Rightarrow> string list \<Rightarrow> (nat \<Rightarrow> bool) \<Rightarrow> db \<Rightarrow> bool" where
  "shape D A F s = (map d_id (deployments s) = D \<and> map a_id (apps s) = A \<and> db_fault s = F)"

lemma call_stable_shape [simp]: "call_stable (shape D A F)"
  by (simp add: call_stable_def shape_def)

lemma map_if_same: "(\<And>x. g (f x) = g x) \<Longrightarrow> map g (map (\<lambda>x. if p x then f x else x) xs) = map g xs"
  by (induction xs) auto

lemma keeps_shape_update:
  "(\<And>d. d_id (f d) = d_id d) \<Longrightarrow> keeps (shape D A F) (update_deployments p f)"
  "(\<And>x. a_id (g x) = a_id x) \<Longrightarrow> keeps (shape D A F) (update_apps q g)"
  "keeps (shape D A F) (update_services q' h)"
  unfolding update_deployments_def update_apps_def update_services_def
  by (rule keeps_db_call; simp add: keeps_def shape_def Let_def map_if_same del: map_map)+

lemma keeps_shape_rows:
  "keeps (shape D A F) (update_deployment_status i st e)" "keeps (shape D A F) (mark_deployment_started i)"
  "keeps (shape D A F) (mark_deployment_finished i st e)" "keeps (shape D A F) (set_deployment_commit i x y)"
  "keeps (shape D A F) (set_deployment_compose_hash i h)" "keeps (shape D A F) (set_app_status a ss)"
  "keeps (shape D A F) (set_app_suspended a b)" "keeps (shape D A F) (set_app_maintenance_active a b)"
  "keeps (shape D A F) (clear_maintenance_if_manual_off a)" "keeps (shape D A F) (update_service_status a n ss x')"
  "keeps (shape D A F) (set_service_config a n p q hp pr au)"
  unfolding row_ops set_app_status_def set_app_suspended_def set_app_maintenance_active_def
    clear_maintenance_if_manual_off_def update_service_status_def set_service_config_def
  by (intro vac_wp keeps_shape_update; simp)+

lemma keeps_shape_services:
  "keeps (shape D A F) (upsert_service a n c p q ss v)" "keeps (shape D A F) (delete_service a n)"
  unfolding upsert_service_def delete_service_def
  by (intro vac_wp keeps_db_call; simp add: keeps_def shape_def)+

definition alive :: "string \<Rightarrow> string \<Rightarrow> db \<Rightarrow> bool" where
  "alive i a s = (db_inv s \<and> (\<exists>D A. shape D A (\<lambda>_. False) s \<and> i \<in> set D \<and> a \<in> set A))"

lemma keeps_alive:
  assumes "keeps db_inv m" and "\<And>D A. keeps (shape D A (\<lambda>_. False)) m"
  shows "keeps (alive i a) m"
  unfolding keeps_def alive_def using assms unfolding keeps_def by blast

interpretation alive_run: run_db_invariant "alive i a" i a for i a
  by unfold_locales
    (intro keeps_alive keeps_shape_rows keeps_shape_services keeps_row_ops keeps_inv_rows vac_wp keeps_auth_read
      keeps_log_call call_stable_same call_stable_shape)+

text \<open>How the row and the app end up.\<close>

definition settled :: "string \<Rightarrow> string \<Rightarrow> (deployment \<Rightarrow> bool) \<Rightarrow> stack_status \<Rightarrow> db \<Rightarrow> bool" where
  "settled i a P ss s = ((\<forall>d\<in>set (deployments s). d_id d = i \<longrightarrow> P d) \<and> (\<forall>x\<in>set (apps s). a_id x = a \<longrightarrow> a_status x = ss))"

lemma call_stable_settled [simp]: "call_stable (settled i a P ss)"
  by (simp add: call_stable_def settled_def)

lemma keeps_settled_apps:
  assumes "\<And>x. a_id (f x) = a_id x \<and> a_status (f x) = a_status x"
  shows "keeps (settled i a P ss) (update_apps q f)"
proof -
  let ?on = "\<lambda>xs. list_all (\<lambda>x. a_id x = a \<longrightarrow> a_status x = ss) xs"
  have on: "settled i a P ss s \<longleftrightarrow> (\<forall>d\<in>set (deployments s). d_id d = i \<longrightarrow> P d) \<and> ?on (apps s)" for s
    by (simp add: settled_def list_all_iff)
  have "?on xs \<Longrightarrow> ?on (map (\<lambda>x. if q x then f x else x) xs)" for xs
    using assms by (induction xs) auto
  then show ?thesis
    unfolding update_apps_def
    by (intro keeps_db_call call_stable_settled) (simp add: keeps_def on del: list.pred_map)
qed

lemma keeps_settled_services:
  "keeps (settled i a P ss) (update_service_status b n st x)" "keeps (settled i a P ss) (list_services_for_app b)"
  "keeps (settled i a P ss) (set_app_maintenance_active b c)" "keeps (settled i a P ss) (clear_maintenance_if_manual_off b)"
  unfolding update_service_status_def update_services_def list_services_for_app_def set_app_maintenance_active_def
    clear_maintenance_if_manual_off_def
  by (intro vac_wp keeps_settled_apps keeps_db_call; simp add: keeps_def settled_def)+

lemma finish_settles:
  assumes "alive i a s" and "is_terminal st"
  shows "\<forall>d\<in>set (deployments (snd (mark_deployment_finished i st err s))). d_id d = i
    \<longrightarrow> d_status d = st \<and> (err \<noteq> None \<longrightarrow> d_error d = err)"
proof -
  obtain d where d: "d \<in> set (deployments s)" "d_id d = i"
    using assms(1) by (auto simp: alive_def shape_def)
  have inv: "db_inv s" "\<not> db_fault s (db_calls s)" using assms(1) by (auto simp: alive_def shape_def)
  have rows: "deployments (snd (mark_deployment_finished i st err s)) = map (\<lambda>d. if d_id d = i
      then d\<lparr>d_status := st, d_error := coalesce err (d_error d), d_finished_at := Some (db_now s)\<rparr> else d) (deployments s)"
    unfolding mark_finished_eq [OF inv d assms(2)] by (simp del: set_map)
  show ?thesis
    unfolding rows by (rule ball_map_if) (auto simp: coalesce_def split: option.split)
qed

lemma set_app_settles:
  assumes "alive i a s" and "\<forall>d\<in>set (deployments s). d_id d = i \<longrightarrow> P d"
  shows "settled i a P ss (snd (set_app_status a ss s))"
  using assms by (auto simp: alive_def shape_def settled_def set_app_status_def snd_or_not_found update_apps_def
      db_call_def Let_def)

subsection \<open>Stages that can only fail\<close>

text \<open>Of the early returns, only the transparent failure ends a run without an error.\<close>

definition fails_only :: "'a pipe \<Rightarrow> bool" where
  "fails_only m = (\<forall>s. fst (m s) \<noteq> Inl Done)"

named_theorems fails_rules \<open>structural rules for fails_only\<close>

lemma fails_basic [fails_rules]:
  "fails_only (ret x)" "fails_only (throw (Fail m))" "fails_only (check_err pre e)" "fails_only (or_fail pre r)"
  "fails_only (must env pre op)" "fails_only (attempt a)" "fails_only (ignore b)" "fails_only (emit e')"
  "fails_only (log_system m)"
  by (auto simp: fails_only_def sem_defs check_err_def or_fail_def must_def emit_def log_system_def
      split: option.split sum.split prod.split)

lemma fails_and_then [fails_rules]:
  "fails_only m \<Longrightarrow> (\<And>x. fails_only (f x)) \<Longrightarrow> fails_only (and_then m f)"
  unfolding fails_only_def and_then_def by (auto split: prod.split sum.split) (metis fst_conv)

lemma fails_cases [fails_rules]:
  "(b \<Longrightarrow> fails_only m) \<Longrightarrow> (\<not> b \<Longrightarrow> fails_only n) \<Longrightarrow> fails_only (if b then m else n)"
  "fails_only m \<Longrightarrow> (\<And>y. fails_only (g y)) \<Longrightarrow> fails_only (case op of None \<Rightarrow> m | Some y \<Rightarrow> g y)"
  "(\<And>x. fails_only (h x)) \<Longrightarrow> (\<And>y. fails_only (k y)) \<Longrightarrow> fails_only (case r of Inl x \<Rightarrow> h x | Inr y \<Rightarrow> k y)"
  "(\<And>x y. fails_only (l x y)) \<Longrightarrow> fails_only (case q of (x, y) \<Rightarrow> l x y)"
  "fails_only m \<Longrightarrow> (\<And>x. fails_only (u x)) \<Longrightarrow> fails_only (case ke of KeyNotFound \<Rightarrow> m | KeyErr x \<Rightarrow> u x)"
  by (auto split: option.split sum.split prod.split key_err.split)

lemma fails_for_each [fails_rules]: "(\<And>x. fails_only (f x)) \<Longrightarrow> fails_only (for_each xs f)"
  by (induction xs) (simp_all add: fails_rules)

lemma fails_stages:
  "fails_only (stage_source env d ap)" "fails_only (stage_adapter env d ap)" "fails_only (stage_env_file env ap)"
  "fails_only (stage_build env d ap)" "fails_only (stage_up env d ap cf)" "fails_only (stage_services env d ap cf)"
  "fails_only (health_check env svcs)"
  unfolding stage_source_def materialise_key_def clone_or_pull_def git_call_def set_status_def stage_adapter_def
    stage_env_file_def stage_build_def registry_pull_def stage_up_def stage_services_def upsert_services_def
    apply_template_health_paths_def health_check_def Let_def
  by (intro fails_rules)+

subsection \<open>How a run ends\<close>

definition ended :: "string \<Rightarrow> string \<Rightarrow> dstatus \<Rightarrow> stack_status \<Rightarrow> pst \<Rightarrow> bool" where
  "ended i a st ss s = settled i a (\<lambda>d. d_status d = st) ss (x_db s)"

definition exits :: "string \<Rightarrow> string \<Rightarrow> pexit \<Rightarrow> pst \<Rightarrow> bool" where
  "exits i a e s = (alive i a (x_db s) \<and> (e = Done \<longrightarrow> ended i a Errored St_Degraded s))"

lemma triple_stage:
  assumes "keeps (\<lambda>s. alive i a (x_db s)) m" and "fails_only m"
  shows "triple (\<lambda>s. alive i a (x_db s)) m (\<lambda>_ s. alive i a (x_db s)) (exits i a)"
  unfolding triple_def
proof (intro allI impI)
  fix s :: pst
  assume "alive i a (x_db s)"
  then have "alive i a (x_db (snd (m s)))" using assms(1) by (simp add: keeps_def)
  moreover have "fst (m s) \<noteq> Inl Done" using assms(2) by (simp add: fails_only_def)
  ultimately show "case m s of (Inl e, s') \<Rightarrow> exits i a e s' | (Inr x, s') \<Rightarrow> alive i a (x_db s')"
    by (auto simp: exits_def split: prod.splits sum.splits)
qed

text \<open>Finishing the row and then the app.\<close>

lemma finish_both:
  assumes "is_terminal st"
  shows "triple (\<lambda>s. alive i a (x_db s))
     (and_then (ignore (xdb (mark_deployment_finished i st err))) (\<lambda>_. ignore (xdb (set_app_status a ss))) :: unit pipe)
     (\<lambda>_ s. alive i a (x_db s) \<and> settled i a (\<lambda>d. d_status d = st \<and> (err \<noteq> None \<longrightarrow> d_error d = err)) ss (x_db s)) E"
  unfolding triple_def
proof (intro allI impI)
  fix s :: pst
  assume al: "alive i a (x_db s)"
  let ?d1 = "snd (mark_deployment_finished i st err (x_db s))"
  let ?d2 = "snd (set_app_status a ss ?d1)"
  have al1: "alive i a ?d1" using keepsD [OF alive_run.j_finish [OF assms] al] .
  have al2: "alive i a ?d2" using keepsD [OF alive_run.j_app al1] .
  have "settled i a (\<lambda>d. d_status d = st \<and> (err \<noteq> None \<longrightarrow> d_error d = err)) ss ?d2"
    by (rule set_app_settles [OF al1 finish_settles [OF al assms]])
  moreover have "\<exists>s'. (and_then (ignore (xdb (mark_deployment_finished i st err)))
      (\<lambda>_. ignore (xdb (set_app_status a ss))) :: unit pipe) s = (Inr (), s') \<and> x_db s' = ?d2"
    by (simp add: and_then_def ignore_def xdb_def split: prod.split)
  ultimately show "case (and_then (ignore (xdb (mark_deployment_finished i st err)))
      (\<lambda>_. ignore (xdb (set_app_status a ss))) :: unit pipe) s of (Inl e, s') \<Rightarrow> E e s'
    | (Inr _, s') \<Rightarrow> alive i a (x_db s')
        \<and> settled i a (\<lambda>d. d_status d = st \<and> (err \<noteq> None \<longrightarrow> d_error d = err)) ss (x_db s')"
    using al2 by force
qed

definition final :: "string \<Rightarrow> string \<Rightarrow> (deployment \<Rightarrow> bool) \<Rightarrow> stack_status \<Rightarrow> db \<Rightarrow> bool" where
  "final i a P ss s = (alive i a s \<and> settled i a P ss s)"

lemma call_stable_final [simp]: "call_stable (final i a P ss)"
  by (simp add: call_stable_def final_def alive_def shape_def db_inv_def settled_def)

lemma keeps_final: "keeps (alive i a) m \<Longrightarrow> keeps (settled i a P ss) m \<Longrightarrow> keeps (final i a P ss) m"
  by (simp add: keeps_def final_def)

lemma keeps_final_db:
  "keeps (final i a P ss) (db_call (\<lambda>s. (Inr (), s)))"
  "keeps (final i a P ss) (list_services_for_app b)"
  "keeps (final i a P ss) (update_service_status a n st x)"
  "keeps (final i a P ss) (set_app_maintenance_active b c)"
  "keeps (final i a P ss) (clear_maintenance_if_manual_off b)"
proof -
  show "keeps (final i a P ss) (db_call (\<lambda>s. (Inr (), s)))" by (rule keeps_log_call) simp
  show "keeps (final i a P ss) (list_services_for_app b)" by (rule keeps_list_services) simp
  show "keeps (final i a P ss) (update_service_status a n st x)"
    by (rule keeps_final [OF alive_run.j_service keeps_settled_services(1)])
  show "keeps (final i a P ss) (set_app_maintenance_active b c)"
    by (rule keeps_final [OF _ keeps_settled_services(3)])
      (intro keeps_alive keeps_shape_rows keeps_inv_rows vac_wp)
  show "keeps (final i a P ss) (clear_maintenance_if_manual_off b)"
    by (rule keeps_final [OF _ keeps_settled_services(4)])
      (intro keeps_alive keeps_shape_rows keeps_inv_rows vac_wp)
qed

lemma keeps_final_emit: "keeps (\<lambda>s. final i a P ss (x_db s)) (emit e)"
  by (simp add: keeps_emit)

lemma keeps_final_ops:
  "keeps (\<lambda>s. final i a P ss (x_db s)) (log_system m)"
  "keeps (\<lambda>s. final i a P ss (x_db s)) (notify_failed env m)"
  "keeps (\<lambda>s. final i a P ss (x_db s)) (mark_http_services_degraded a)"
  unfolding log_system_def notify_failed_def mark_http_services_degraded_def
  by (intro vac_wp keeps_xdb keeps_final_db keeps_final_emit)+

lemma triple_smooth:
  assumes "keeps I m" and "smooth m"
  shows "triple I m (\<lambda>_. I) E"
  unfolding triple_def
proof (intro allI impI)
  fix s
  assume "I s"
  obtain x s' where "m s = (Inr x, s')" using smooth_Inr [OF assms(2)] by blast
  then show "case m s of (Inl e, s') \<Rightarrow> E e s' | (Inr _, s') \<Rightarrow> I s'"
    using keepsD [OF assms(1) \<open>I s\<close>] by simp
qed

lemma triple_same: "triple P m (\<lambda>_. Q) (\<lambda>_. Q) \<Longrightarrow> P s \<Longrightarrow> Q (snd (m s))"
  by (cases "m s"; cases "fst (m s)") (auto dest: tripleD)

lemma triple_with_defer:
  assumes "triple P m Q E" and "\<And>x. triple (Q x) (c (Inr x)) (\<lambda>_. Q' x) (\<lambda>_. Q' x)"
    and "\<And>e. triple (E e) (c (Inl e)) (\<lambda>_. E' e) (\<lambda>_. E' e)"
  shows "triple P (with_defer m c) Q' E'"
  unfolding triple_def
proof (intro allI impI)
  fix s
  assume s: "P s"
  obtain r t where rt: "m s = (r, t)" by fastforce
  show "case with_defer m c s of (Inl e, s') \<Rightarrow> E' e s' | (Inr x, s') \<Rightarrow> Q' x s'"
  proof (cases r)
    case (Inl e)
    then have "E e t" using tripleD(2) [OF assms(1) s] rt by simp
    then show ?thesis using triple_same [OF assms(3)] rt Inl by (simp add: with_defer_def)
  next
    case (Inr x)
    then have "Q x t" using tripleD(1) [OF assms(1) s] rt by simp
    then show ?thesis using triple_same [OF assms(2)] rt Inr by (simp add: with_defer_def)
  qed
qed

lemma finish_then:
  fixes R :: "'b pipe"
  assumes "is_terminal st"
    and "triple (\<lambda>s. final i a (\<lambda>d. d_status d = st \<and> (err \<noteq> None \<longrightarrow> d_error d = err)) ss (x_db s)) R Q E"
  shows "triple (\<lambda>s. alive i a (x_db s))
    (and_then (ignore (xdb (mark_deployment_finished i st err))) (\<lambda>_. and_then (ignore (xdb (set_app_status a ss))) (\<lambda>_. R))) Q E"
proof -
  have "triple (\<lambda>s. alive i a (x_db s))
      (and_then (and_then (ignore (xdb (mark_deployment_finished i st err))) (\<lambda>_. ignore (xdb (set_app_status a ss)))) (\<lambda>_. R)) Q E"
    by (rule triple_and_then [OF finish_both [OF assms(1)]]) (use assms(2) in \<open>simp add: final_def\<close>)
  then show ?thesis by (simp add: and_then_assoc)
qed

lemma final_exits: "final i a (\<lambda>d. d_status d = Errored \<and> P d) St_Degraded (x_db s) \<Longrightarrow> exits i a Done s"
  by (auto simp: final_def exits_def ended_def settled_def)

lemma alive_log: "triple (\<lambda>s. alive i a (x_db s)) (log_system m) (\<lambda>_ s. alive i a (x_db s)) E"
  by (rule triple_smooth [OF alive_run.keeps_plumbing(3)]) simp

lemma triple_settle_degraded:
  assumes "a_id ap = a"
  shows "triple (\<lambda>s. alive i a (x_db s)) (settle_degraded env i ap msg) Q (exits i a)"
  unfolding settle_degraded_def assms
  by (rule triple_and_then [OF alive_log], rule finish_then, simp add: is_terminal_def,
      rule triple_and_then [OF triple_smooth [OF keeps_final_ops(3)]], simp,
      rule triple_and_then [OF triple_smooth [OF keeps_final_ops(2)]], simp,
      rule triple_throw, rule final_exits)

lemma triple_stage_preflight:
  assumes "d_id d = i" and "a_id ap = a"
  shows "triple (\<lambda>s. alive i a (x_db s)) (stage_preflight env d ap cfg cf) (\<lambda>_ s. alive i a (x_db s)) (exits i a)"
proof -
  have logs: "triple (\<lambda>s. alive i a (x_db s)) (for_each fs (\<lambda>f. log_system (format_finding f)))
      (\<lambda>_ s. alive i a (x_db s)) E" for fs E
    by (rule triple_smooth) (auto intro!: vac_wp alive_run.keeps_plumbing smooth_for_each)
  have conf: "triple (\<lambda>s. alive i a (x_db s)) (case pe_config env of Inr x \<Rightarrow> ret ()
      | Inl e \<Rightarrow> log_system (''compose preflight: resolved config unavailable, linting raw compose ('' @ e @ '')''))
      (\<lambda>_ s. alive i a (x_db s)) E" for E
    by (cases "pe_config env") (auto intro: triple_ret alive_log)
  have emits: "triple (\<lambda>s. alive i a (x_db s)) (emit PConfig) (\<lambda>_ s. alive i a (x_db s)) E" for E
    by (rule triple_smooth) (simp_all add: keeps_emit)
  have verdict: "triple (\<lambda>s. alive i a (x_db s)) (case lint_result env cf of
        Inl perr \<Rightarrow> settle_degraded env i ap (''compose preflight failed: '' @ perr)
      | Inr findings \<Rightarrow> and_then (for_each findings (\<lambda>f. log_system (format_finding f)))
          (\<lambda>_. if filter (is_blocking (bc_allow_unsafe cfg)) findings \<noteq> []
               then settle_degraded env i ap (''compose preflight failed:'' @ [nl] @
                      join_findings (filter (is_blocking (bc_allow_unsafe cfg)) findings))
               else ret ())) (\<lambda>_ s. alive i a (x_db s)) (exits i a)"
    by (cases "lint_result env cf"; simp only: sum.case)
      (intro triple_and_then [OF logs] triple_if triple_settle_degraded [OF assms(2)] triple_ret; assumption)+
  show ?thesis
    unfolding stage_preflight_def assms(1) Let_def
    by (rule triple_and_then [OF emits], rule triple_and_then [OF conf], rule verdict)
qed

lemma triple_stage_health:
  assumes "d_id d = i" and "a_id ap = a"
  shows "triple (\<lambda>s. alive i a (x_db s)) (stage_health env d ap svcs) (\<lambda>_ s. alive i a (x_db s)) (exits i a)"
proof (cases "pe_router env")
  case None
  have "keeps (\<lambda>s. alive i a (x_db s)) (stage_health env d ap svcs)"
    by (rule alive_run.keeps_stage_health [OF assms])
  then show ?thesis using None by (simp add: stage_health_def triple_stage fails_stages)
next
  case (Some se)
  obtain se1 we where se: "se = (se1, we)" by fastforce
  have sync: "triple (\<lambda>s. alive i a (x_db s)) (case se1 of None \<Rightarrow> ret ()
      | Some e \<Rightarrow> log_system (''warning: route sync failed (will reconcile): '' @ e)) (\<lambda>_ s. alive i a (x_db s)) E" for E
    by (cases se1) (auto intro: triple_ret alive_log)
  have emits: "triple (\<lambda>s. alive i a (x_db s)) (emit e) (\<lambda>_ s. alive i a (x_db s)) E" for e E
    by (rule triple_smooth) (simp_all add: keeps_emit)
  show ?thesis
    unfolding stage_health_def Some se assms(1) option.case prod.case
    by (rule triple_and_then [OF emits], rule triple_and_then [OF sync], rule triple_and_then [OF emits], cases we)
      (auto intro: triple_ret triple_settle_degraded [OF assms(2)])
qed

lemma triple_stage_done:
  assumes "d_id d = i" and "a_id ap = a"
  shows "triple (\<lambda>s. alive i a (x_db s)) (stage_done env d ap sha msg)
    (\<lambda>_ s. final i a (\<lambda>d. d_status d = Running) St_Running (x_db s)) E"
  unfolding stage_done_def assms
proof (rule finish_then)
  let ?F = "\<lambda>s. final i a (\<lambda>d. d_status d = Running \<and> (None \<noteq> (None :: string option) \<longrightarrow> d_error d = None)) St_Running (x_db s)"
  show "triple ?F (and_then (log_system ''pipeline: complete'') (\<lambda>_. if pe_notifier env then emit (PSucceeded sha msg) else ret ()))
      (\<lambda>_ s. final i a (\<lambda>d. d_status d = Running) St_Running (x_db s)) E"
    by (rule triple_and_then [OF triple_smooth [OF keeps_final_ops(1)]], simp, rule triple_if,
        rule triple_post [OF triple_smooth [OF keeps_final_emit]], simp, simp, simp, rule triple_ret, simp)
qed (simp add: is_terminal_def)

lemma triple_steps:
  assumes "d_id d = i" and "a_id ap = a"
  shows "triple (\<lambda>s. alive i a (x_db s)) (pipeline_steps env d ap)
    (\<lambda>_ s. final i a (\<lambda>d. d_status d = Running) St_Running (x_db s)) (exits i a)"
  unfolding pipeline_steps_def
proof (rule triple_and_then [OF triple_stage [OF alive_run.keeps_stage_source [OF assms(1)] fails_stages(1)]])
  fix x :: "string \<times> string"
  obtain sha msg where x: "x = (sha, msg)" by fastforce
  show "triple (\<lambda>s. alive i a (x_db s)) (case x of (sha, msg) \<Rightarrow>
      and_then (stage_adapter env d ap) (\<lambda>(cfg, compose_file).
      and_then (stage_preflight env d ap cfg compose_file) (\<lambda>_.
      and_then (stage_env_file env ap) (\<lambda>_.
      and_then (stage_build env d ap) (\<lambda>_.
      and_then (stage_up env d ap compose_file) (\<lambda>_.
      and_then (stage_services env d ap compose_file) (\<lambda>svcs.
      and_then (stage_health env d ap svcs) (\<lambda>_.
      stage_done env d ap sha msg))))))))
      (\<lambda>_ s. final i a (\<lambda>d. d_status d = Running) St_Running (x_db s)) (exits i a)"
    unfolding x prod.case
    by (rule triple_and_then [OF triple_stage [OF alive_run.keeps_stage_adapter [OF assms(1)] fails_stages(2)]],
        simp only: split_beta,
        rule triple_and_then [OF triple_stage_preflight [OF assms]],
        rule triple_and_then [OF triple_stage [OF alive_run.keeps_stage_env_file fails_stages(3)]],
        rule triple_and_then [OF triple_stage [OF alive_run.keeps_stage_build [OF assms] fails_stages(4)]],
        rule triple_and_then [OF triple_stage [OF alive_run.keeps_stage_up [OF assms] fails_stages(5)]],
        rule triple_and_then [OF triple_stage [OF alive_run.keeps_stage_services [OF assms] fails_stages(6)]],
        rule triple_and_then [OF triple_stage_health [OF assms]],
        rule triple_stage_done [OF assms])
qed

text \<open>The verdict of a run on its row and its app, by the way it ended.\<close>

definition verdict :: "string \<Rightarrow> string \<Rightarrow> pexit + unit \<Rightarrow> db \<Rightarrow> bool" where
  "verdict i a r s = (case r of
     Inr _ \<Rightarrow> settled i a (\<lambda>d. d_status d = Running) St_Running s
   | Inl Done \<Rightarrow> settled i a (\<lambda>d. d_status d = Errored) St_Degraded s
   | Inl (Fail m) \<Rightarrow> settled i a (\<lambda>d. d_status d = Errored \<and> d_error d = Some m) St_Error s)"

lemma triple_settle_failure:
  assumes "d_id d = i" and "a_id ap = a"
  shows "triple (\<lambda>s. alive i a (x_db s)) (settle_failure env d ap (Inl (Fail m)))
    (\<lambda>_ s. verdict i a (Inl (Fail m)) (x_db s)) (\<lambda>_ s. verdict i a (Inl (Fail m)) (x_db s))"
  unfolding settle_failure_def assms sum.case pexit.case
  by (rule triple_and_then [OF alive_log], rule finish_then, simp add: is_terminal_def,
      rule triple_post [OF triple_keeps [OF keeps_final_ops(2)]])
    (simp_all add: final_def verdict_def)

lemma keeps_verdict_leave:
  "keeps (\<lambda>s. verdict i a r (x_db s)) (leave_auto_maintenance env ap)"
proof -
  have "keeps (verdict i a r) (clear_maintenance_if_manual_off b)" for b
  proof (cases r)
    case (Inl e)
    then show ?thesis by (cases e) (simp_all add: verdict_def [abs_def] keeps_settled_services(4))
  next
    case (Inr x)
    then show ?thesis by (simp add: verdict_def [abs_def] keeps_settled_services(4))
  qed
  then show ?thesis
    unfolding leave_auto_maintenance_def maintain_off_def
    by (intro vac_wp keeps_xdb) (simp_all add: keeps_emit)
qed

lemma settle_inner:
  assumes "d_id d = i" and "a_id ap = a"
  shows "triple (\<lambda>s. alive i a (x_db s)) (with_defer (pipeline_steps env d ap) (settle_failure env d ap))
    (\<lambda>x s. verdict i a (Inr x) (x_db s)) (\<lambda>e s. verdict i a (Inl e) (x_db s))"
proof (rule triple_with_defer [OF triple_steps [OF assms]])
  fix x :: unit
  show "triple (\<lambda>s. final i a (\<lambda>d. d_status d = Running) St_Running (x_db s)) (settle_failure env d ap (Inr x))
      (\<lambda>_ s. verdict i a (Inr x) (x_db s)) (\<lambda>_ s. verdict i a (Inr x) (x_db s))"
    by (simp add: settle_failure_def triple_def ret_def verdict_def final_def)
next
  fix e
  show "triple (exits i a e) (settle_failure env d ap (Inl e))
      (\<lambda>_ s. verdict i a (Inl e) (x_db s)) (\<lambda>_ s. verdict i a (Inl e) (x_db s))"
  proof (cases e)
    case (Fail m)
    show ?thesis
      unfolding Fail by (rule triple_pre [OF _ triple_settle_failure [OF assms]]) (simp add: exits_def)
  next
    case Done
    then show ?thesis
      by (simp add: settle_failure_def triple_def ret_def verdict_def exits_def ended_def)
  qed
qed

text \<open>The start of the body, on a database that answers and for a row that was never started.\<close>

lemma mark_started_Inr:
  assumes "alive i a s" and "d \<in> set (deployments s)" and "d_id d = i" and "d_started_at d = None"
  shows "fst (mark_deployment_started i s) = Inr ()"
proof -
  let ?p = "\<lambda>d. d_id d = i \<and> d_started_at d = None"
  let ?g = "\<lambda>d. if ?p d then d\<lparr>d_started_at := Some (db_now s)\<rparr> else d"
  have "index_ok (deployments s)" "\<not> db_fault s (db_calls s)"
    using assms(1) by (auto simp: alive_def shape_def db_inv_def)
  moreover have "index_ok (map ?g (deployments s)) = index_ok (deployments s)"
    by (rule index_ok_map) simp
  moreover have "filter ?p (deployments s) \<noteq> []" using assms(2-4) by (auto simp: filter_empty_conv)
  ultimately show ?thesis
    by (simp add: mark_deployment_started_def or_not_found_def update_deployments_def db_call_def sem_defs Let_def)
qed

lemma keeps_alive_app:
  "keeps (alive i a) (set_app_suspended b c)" "keeps (alive i a) (set_app_maintenance_active b c)"
  "keeps (alive i a) (clear_maintenance_if_manual_off b)" "keeps (alive i a) (mark_deployment_started j)"
  by (rule keeps_alive; intro keeps_shape_rows keeps_inv_rows keeps_row_ops vac_wp)+

lemma body_verdict:
  assumes "d_id d = i" and "a_id ap = a" and "alive i a (x_db s)"
    and "e \<in> set (deployments (x_db s))" and "d_id e = i" and "d_started_at e = None"
    and "pipeline_body env d ap s = (r, u)"
  shows "verdict i a r (x_db u)"
proof -
  let ?A = "\<lambda>s. alive i a (x_db s)"
  let ?s1 = "snd (xdb (mark_deployment_started i) s)"
  have started: "must env pre (mark_deployment_started i) s = (Inr (), ?s1)" for pre
    using mark_started_Inr [OF assms(3-6)]
    by (cases "mark_deployment_started i (x_db s)") (simp add: must_def map_err_def xdb_def)
  have a1: "?A ?s1" using keepsD [OF keeps_xdb [OF keeps_alive_app(4)] assms(3)] .
  have enter: "keeps ?A (enter_auto_maintenance env ap)" "smooth (enter_auto_maintenance env ap)"
    by (rule keeps_maintenance_db(1) [OF keeps_alive_app(2,3) refl]) (simp add: enter_auto_maintenance_def)
  let ?rest = "and_then (ignore (xdb (set_app_status a St_Building))) (\<lambda>_.
     and_then (ignore (xdb (set_app_suspended a False))) (\<lambda>_.
     and_then (enter_auto_maintenance env ap) (\<lambda>_.
     with_defer (with_defer (pipeline_steps env d ap) (settle_failure env d ap)) (\<lambda>_. leave_auto_maintenance env ap))))"
  have "triple ?A ?rest (\<lambda>x s. verdict i a (Inr x) (x_db s)) (\<lambda>e s. verdict i a (Inl e) (x_db s))"
    by (rule triple_and_then [OF triple_smooth [OF keeps_ignore [OF keeps_xdb [OF alive_run.j_app]]]], simp,
        rule triple_and_then [OF triple_smooth [OF keeps_ignore [OF keeps_xdb [OF keeps_alive_app(1)]]]], simp,
        rule triple_and_then [OF triple_smooth [OF enter]],
        rule triple_with_defer [OF settle_inner [OF assms(1,2)]])
      (rule triple_keeps [OF keeps_verdict_leave])+
  moreover have "?rest ?s1 = (r, u)"
    using assms(7) started by (simp add: pipeline_body_def and_then_def assms(1,2))
  ultimately show ?thesis using a1 by (cases r) (auto dest: tripleD)
qed

text \<open>
  C1: a run settles what it started. On a database that answers, a run of a deployment that is
  neither settled nor started yet ends in one of three ways, whatever the collaborators answer:
  it returns an error, and the row is errored with exactly that message and the app is in error; or
  it returns none, and then either the row is running and the app is running, or the row is errored
  and the app is degraded. It never leaves the row in progress.
\<close>

theorem run_settles_row_and_app:
  assumes "db_inv (x_db s)" and "db_fault (x_db s) = (\<lambda>_. False)"
    and "d \<in> set (deployments (x_db s))" and "\<not> is_terminal (d_status d)" and "d_started_at d = None"
    and "d_app d \<in> a_id ` set (apps (x_db s))"
  shows "case pipeline_run env (d_id d) s of (res, u) \<Rightarrow> (case res of
      Some msg \<Rightarrow> settled (d_id d) (d_app d) (\<lambda>d. d_status d = Errored \<and> d_error d = Some msg) St_Error (x_db u)
    | None \<Rightarrow> settled (d_id d) (d_app d) (\<lambda>d. d_status d = Running) St_Running (x_db u)
        \<or> settled (d_id d) (d_app d) (\<lambda>d. d_status d = Errored) St_Degraded (x_db u))"
proof -
  have uniq: "e = d" if "e \<in> set (deployments (x_db s))" "d_id e = d_id d" for e
    using id_unique [OF _ that(1) assms(3) that(2)] assms(1) by (simp add: db_inv_def)
  have ap: "find (\<lambda>x. a_id x = d_app d) (apps (x_db s)) \<noteq> None" using assms(6) by (auto simp: find_None_iff)
  have dep: "find (\<lambda>e. d_id e = d_id d) (deployments (x_db s)) = Some d"
  proof (cases "find (\<lambda>e. d_id e = d_id d) (deployments (x_db s))")
    case None
    then show ?thesis using assms(3) by (auto simp: find_None_iff)
  next
    case (Some e)
    then have "e \<in> set (deployments (x_db s)) \<and> d_id e = d_id d" by (auto simp: find_Some_iff)
    with Some uniq show ?thesis by simp
  qed
  obtain x where x: "find (\<lambda>x. a_id x = d_app d) (apps (x_db s)) = Some x" using ap by blast
  then have xid: "a_id x = d_app d" by (auto simp: find_Some_iff)
  let ?t = "tick (Suc (Suc (db_calls (x_db s)))) s"
  obtain r u where ru: "pipeline_body env d x ?t = (r, u)" by fastforce
  have al: "alive (d_id d) (d_app d) (x_db ?t)"
    using assms(1,2,3,6) by (auto simp: alive_def shape_def db_inv_def)
  have "verdict (d_id d) (d_app d) r (x_db u)"
    by (rule body_verdict [OF refl xid al _ refl assms(5) ru]) (use assms(3) in simp)
  moreover have "pipeline_run env (d_id d) s = (run_result r, u\<lparr>x_trace := x_trace u @ [PBuildEnd]\<rparr>)"
    using dep x assms(2,4) ru
    by (simp add: pipeline_run_def must_def map_err_def and_then_def xdb_get_deployment xdb_get_app with_defer_def
        emit_def act_def)
  ultimately show ?thesis
    by (cases r) (auto simp: verdict_def run_result_def split: pexit.splits)
qed

text \<open>A concrete run: one queued deployment, and collaborators that all answer.\<close>

definition demo_read :: "string \<Rightarrow> string + string" where
  "demo_read p = Inr ''f''"

definition demo_yaml :: "string \<Rightarrow> string + (string \<times> yaml) list" where
  "demo_yaml b = Inr [(''services'', YMap [])]"

definition demo_pipe_env :: pipe_env where
  "demo_pipe_env = \<lparr>
     pe_err_text = (\<lambda>_. ''store''), pe_read_file = demo_read,
     pe_unmarshal = demo_yaml,
     pe_sha256 = (\<lambda>b. b), pe_mkdir = None, pe_key_get = None, pe_key_mint = None, pe_key_open = Inr [],
     pe_key_file = (\<lambda>_. Inr []), pe_repo_exists = True, pe_git = (\<lambda>_. None), pe_head = (''abc'', ''msg''),
     pe_templates = None, pe_parse_config = (\<lambda>_. Inr \<lparr>bc_compose_path = [], bc_allow_unsafe = False\<rparr>),
     pe_adapter_for = Inr, pe_prepare = (\<lambda>_ c. Inr (bc_compose_path c)), pe_dockerignore = [], pe_config = Inr ''f'',
     pe_box = None, pe_env_vars = Inr [], pe_write_env = None, pe_build = None, pe_registry_creds = Inr,
     pe_login = None, pe_pull = None, pe_cpu_limit = False, pe_override = (\<lambda>_ _. Inr []), pe_up = None,
     pe_ps = Inr [\<lparr>ps_name = ''web'', ps_id = ''c1'', ps_state = ''running'', ps_publishers = [(80, 8080)]\<rparr>],
     pe_reconciler = False, pe_router = Some (None, None), pe_probe = (\<lambda>_. \<lparr>pe_check = (\<lambda>_. (0, CheckStatus 200)), pe_done = (\<lambda>_. False)\<rparr>),
     pe_now = 0, pe_retries = 1, pe_timeout = 0, pe_notifier = True, pe_maintainer = True\<rparr>"

definition demo_pst :: pst where
  "demo_pst = \<lparr>x_db = demo_db\<lparr>deployments := [new_deployment ''1'' ''a'' Queued 0 triggered_push None None None]\<rparr>,
     x_trace = []\<rparr>"

definition demo_row :: deployment where
  "demo_row = new_deployment ''1'' ''a'' Queued 0 triggered_push None None None"

lemma demo_pst_facts:
  "db_inv (x_db demo_pst)" "db_fault (x_db demo_pst) = (\<lambda>_. False)"
  "demo_row \<in> set (deployments (x_db demo_pst))" "d_app demo_row \<in> a_id ` set (apps (x_db demo_pst))"
  "d_id demo_row = ''1''" "d_app demo_row = ''a''" "d_status demo_row = Queued" "d_started_at demo_row = None"
  by (simp_all add: demo_pst_def demo_row_def new_deployment_def demo_db_def empty_db_def maint_app_def db_inv_def
      index_ok_def active_apps_def)

theorem run_touches_own_row_only_witness:
  "db_inv (x_db demo_pst)
   \<and> filter (\<lambda>d. d_id d \<noteq> ''2'') (deployments (x_db (snd (pipeline_run demo_pipe_env ''2'' demo_pst)))) = [demo_row]"
  using run_touches_own_row_only [OF demo_pst_facts(1), of "''2''" demo_pipe_env] demo_pst_facts(1)
  by (simp add: demo_pst_def demo_row_def new_deployment_def)

theorem run_settles_row_and_app_witness:
  "case pipeline_run demo_pipe_env ''1'' demo_pst of (res, u) \<Rightarrow> (case res of
      Some msg \<Rightarrow> settled ''1'' ''a'' (\<lambda>d. d_status d = Errored \<and> d_error d = Some msg) St_Error (x_db u)
    | None \<Rightarrow> settled ''1'' ''a'' (\<lambda>d. d_status d = Running) St_Running (x_db u)
        \<or> settled ''1'' ''a'' (\<lambda>d. d_status d = Errored) St_Degraded (x_db u))"
proof -
  have "\<not> is_terminal (d_status demo_row)" by (simp add: demo_pst_facts(7) is_terminal_def)
  from run_settles_row_and_app [where env = demo_pipe_env, OF demo_pst_facts(1-3) this demo_pst_facts(8,4)]
  show ?thesis unfolding demo_pst_facts(5,6) .
qed

end
