(* ===== verification/Deploy_Success.thy ===== *)
theory Deploy_Success
  imports Deploy_Pipeline
begin

text \<open>
  Progress of the deploy pipeline (api/internal/deploy/pipeline.go): when every collaborator
  answers, the compose gate is open and the database works, a run goes through to running. Also the
  concrete run that shows that the compose gate theorem speaks about runs that do build.
\<close>

section \<open>Collaborators that answer\<close>

definition key_answers :: "pipe_env \<Rightarrow> bool" where
  "key_answers env =
     ((case pe_key_get env of None \<Rightarrow> True | Some KeyNotFound \<Rightarrow> pe_key_mint env = None | Some (KeyErr _) \<Rightarrow> False)
      \<and> (case pe_key_open env of Inl _ \<Rightarrow> False | Inr pem \<Rightarrow> (case pe_key_file env pem of Inl _ \<Rightarrow> False | Inr _ \<Rightarrow> True)))"

definition template_answers :: "pipe_env \<Rightarrow> app \<Rightarrow> bool" where
  "template_answers env ap = (case (pe_templates env, a_template_id ap) of
     (Some tp, Some tid) \<Rightarrow> tid \<noteq> [] \<and> tp_materialize tp tid = None | _ \<Rightarrow> False)"

definition source_answers :: "pipe_env \<Rightarrow> app \<Rightarrow> bool" where
  "source_answers env ap =
     (pe_mkdir env = None \<and> (\<forall>g. pe_git env g = None)
      \<and> (if is_ssh_repo_url (a_git_url ap) then key_answers env else True)
      \<and> (if a_source ap = ''template'' then template_answers env ap else True))"

definition env_answers :: "pipe_env \<Rightarrow> bool" where
  "env_answers env = (case pe_box env of
     None \<Rightarrow> True
   | Some open_box \<Rightarrow> (case pe_env_vars env of Inl _ \<Rightarrow> False
       | Inr vars \<Rightarrow> (case render_env_file open_box vars of Inl _ \<Rightarrow> False | Inr _ \<Rightarrow> pe_write_env env = None)))"

text \<open>Whatever credentials the app carries, they open and the registry takes them.\<close>

definition registry_answers :: "pipe_env \<Rightarrow> bool" where
  "registry_answers env = (pe_pull env = None \<and> pe_login env = None
     \<and> (\<forall>enc. enc \<noteq> [] \<longrightarrow> (case pe_box env of None \<Rightarrow> False | Some open_box \<Rightarrow>
          (case open_box enc of Inl _ \<Rightarrow> False | Inr plain \<Rightarrow> (case pe_registry_creds env plain of Inl _ \<Rightarrow> False | Inr _ \<Rightarrow> True)))))"

definition health_answers :: "pipe_env \<Rightarrow> ps_service list \<Rightarrow> bool" where
  "health_answers env svcs = (case pe_router env of
     Some (_, wait_err) \<Rightarrow> wait_err = None
   | None \<Rightarrow> list_all (\<lambda>svc. first_published_port svc = 0
       \<or> fst (check_with_retry (pe_probe env (ps_name svc)) (pe_retries env) (pe_timeout env) (pe_now env)) = Healthy) svcs)"

definition docker_answers :: "pipe_env \<Rightarrow> bool" where
  "docker_answers env = (pe_build env = None \<and> pe_up env = None
     \<and> (case pe_ps env of Inl _ \<Rightarrow> False | Inr svcs \<Rightarrow> health_answers env svcs))"

definition all_answer :: "pipe_env \<Rightarrow> app \<Rightarrow> bool" where
  "all_answer env ap = (source_answers env ap \<and> gate_open env ap \<and> env_answers env \<and> docker_answers env
     \<and> (if a_source ap = ''image'' then registry_answers env else True))"

section \<open>Operations that cannot fail\<close>

definition live :: "('s \<Rightarrow> bool) \<Rightarrow> ('s, 'e, 'a) sem \<Rightarrow> bool" where
  "live I m = (\<forall>s. I s \<longrightarrow> \<not> isl (fst (m s)) \<and> I (snd (m s)))"

named_theorems live_rules \<open>structural rules for live\<close>

lemma live_smooth: "keeps I m \<Longrightarrow> smooth m \<Longrightarrow> live I m"
  by (simp add: live_def keeps_def smooth_def)

lemma live_and_then [live_rules]:
  assumes "live I m" and "\<And>x. live I (f x)"
  shows "live I (and_then m f)"
  unfolding live_def
proof (intro allI impI)
  fix s
  assume s: "I s"
  obtain r t where rt: "m s = (r, t)" by fastforce
  then have "\<not> isl r" "I t" using assms(1) s by (auto simp: live_def)
  then obtain x where "r = Inr x" by (cases r) auto
  with rt \<open>I t\<close> show "\<not> isl (fst (and_then m f s)) \<and> I (snd (and_then m f s))"
    using assms(2) by (simp add: and_then_def live_def)
qed

lemma live_and_then_val:
  assumes "live I m" and "\<And>s x t. I s \<Longrightarrow> m s = (Inr x, t) \<Longrightarrow> P x" and "\<And>x. P x \<Longrightarrow> live I (f x)"
  shows "live I (and_then m f)"
  unfolding live_def
proof (intro allI impI)
  fix s
  assume s: "I s"
  obtain r t where rt: "m s = (r, t)" by fastforce
  then have "\<not> isl r" "I t" using assms(1) s by (auto simp: live_def)
  then obtain x where x: "r = Inr x" by (cases r) auto
  then have "P x" using assms(2) s rt by blast
  with rt x \<open>I t\<close> show "\<not> isl (fst (and_then m f s)) \<and> I (snd (and_then m f s))"
    using assms(3) by (simp add: and_then_def live_def)
qed

lemma live_basic [live_rules]: "live I (ret x)" "keeps I m \<Longrightarrow> live I (ignore m)" "keeps I n \<Longrightarrow> live I (attempt n)"
  by (auto intro!: live_smooth simp: keeps_ret keeps_ignore keeps_attempt)

lemma live_if [live_rules]: "(b \<Longrightarrow> live I m) \<Longrightarrow> (\<not> b \<Longrightarrow> live I n) \<Longrightarrow> live I (if b then m else n)"
  by simp

lemma live_for_each: "(\<And>x. x \<in> set xs \<Longrightarrow> live I (f x)) \<Longrightarrow> live I (for_each xs f)"
  by (induction xs) (auto intro: live_rules)

lemma live_emit: "live (\<lambda>s. J (x_db s)) (emit e)"
  by (rule live_smooth) (simp_all add: keeps_emit)

lemma live_triple: "live I m \<Longrightarrow> triple I m (\<lambda>_. I) E"
  unfolding live_def triple_def by (fastforce split: prod.splits sum.splits)

section \<open>A working database and a row in progress\<close>

definition row_active :: "string \<Rightarrow> db \<Rightarrow> bool" where
  "row_active i s = list_all (\<lambda>d. d_id d = i \<longrightarrow> is_active (d_status d)) (deployments s)"

definition under_way :: "string \<Rightarrow> string \<Rightarrow> db \<Rightarrow> bool" where
  "under_way i a s = (alive i a s \<and> row_active i s)"

lemma call_stable_row_active [simp]: "call_stable (row_active i)"
  by (simp add: call_stable_def row_active_def)

lemma keeps_row_active_same: "(\<And>ds. keeps (same_deployments ds) m) \<Longrightarrow> keeps (row_active i) m"
  unfolding row_active_def [abs_def] by (rule keeps_rows_only)

lemma list_all_map_if:
  "(\<And>x. p x \<Longrightarrow> Q x \<Longrightarrow> Q (f x)) \<Longrightarrow> list_all Q xs \<Longrightarrow> list_all Q (map (\<lambda>x. if p x then f x else x) xs)"
  by (induction xs) auto

lemma keeps_row_active_update:
  assumes "\<And>d. is_active (d_status d) \<Longrightarrow> is_active (d_status (f d))" and "\<And>d. d_id (f d) = d_id d"
  shows "keeps (row_active i) (update_deployments p f)"
proof -
  have "list_all (\<lambda>d. d_id d = i \<longrightarrow> is_active (d_status d)) ds \<Longrightarrow>
      list_all (\<lambda>d. d_id d = i \<longrightarrow> is_active (d_status d)) (map (\<lambda>d. if p d then f d else d) ds)" for ds
    by (rule list_all_map_if) (use assms in auto)
  then show ?thesis
    unfolding update_deployments_def
    by (intro keeps_db_call call_stable_row_active) (simp add: keeps_def row_active_def Let_def del: list.pred_map)
qed

lemma keeps_row_active_rows:
  "is_active st \<Longrightarrow> keeps (row_active i) (update_deployment_status i st e)"
  "keeps (row_active i) (set_deployment_commit i x y)" "keeps (row_active i) (set_deployment_compose_hash i h)"
  "keeps (row_active i) (mark_deployment_started i)"
  unfolding row_ops by (intro vac_wp keeps_row_active_update; simp)+

lemma keeps_under_way: "keeps (alive i a) m \<Longrightarrow> keeps (row_active i) m \<Longrightarrow> keeps (under_way i a) m"
  by (simp add: keeps_def under_way_def)

lemma under_way_ops:
  "keeps (under_way i a) (db_call (\<lambda>s. (Inr (), s)))"
  "is_active st \<Longrightarrow> keeps (under_way i a) (update_deployment_status i st None)"
  "keeps (under_way i a) (set_deployment_commit i x y)" "keeps (under_way i a) (set_deployment_compose_hash i h)"
  "keeps (under_way i a) (set_app_status a ss)" "keeps (under_way i a) (get_app_registry_auth a)"
  "keeps (under_way i a) (list_services_for_app a)" "keeps (under_way i a) (upsert_service a n c p q ss v)"
  "keeps (under_way i a) (delete_service a n)" "keeps (under_way i a) (set_service_config a n p q hp pr au)"
  "keeps (under_way i a) (set_app_suspended a b)" "keeps (under_way i a) (set_app_maintenance_active a b)"
  "keeps (under_way i a) (clear_maintenance_if_manual_off a)" "keeps (under_way i a) (mark_deployment_started i)"
proof -
  have act: "is_active st \<Longrightarrow> \<not> is_terminal st" for st by (cases st) (simp_all add: is_active_def is_terminal_def)
  show "keeps (under_way i a) (db_call (\<lambda>s. (Inr (), s)))"
    by (rule keeps_under_way [OF alive_run.j_log]) (simp add: keeps_log_call)
  show "is_active st \<Longrightarrow> keeps (under_way i a) (update_deployment_status i st None)"
    by (rule keeps_under_way [OF alive_run.j_status keeps_row_active_rows(1)]) (simp_all add: act)
  show "keeps (under_way i a) (get_app_registry_auth a)"
    by (rule keeps_under_way [OF alive_run.j_auth]) (simp add: keeps_auth_read)
qed (rule keeps_under_way; intro alive_run.j_commit alive_run.j_hash alive_run.j_app alive_run.j_list alive_run.j_upsert
    alive_run.j_delete alive_run.j_config keeps_alive_app keeps_row_active_rows keeps_row_active_same call_stable_same vac_wp)+

abbreviation U :: "string \<Rightarrow> string \<Rightarrow> pst \<Rightarrow> bool" where
  "U i a \<equiv> \<lambda>s. under_way i a (x_db s)"

lemma status_write_ok:
  assumes "under_way i a s" and "is_active st"
  shows "fst (update_deployment_status i st None s) = Inr ()"
proof -
  let ?f = "\<lambda>d. d\<lparr>d_status := st, d_error := coalesce None (d_error d)\<rparr>"
  have ok: "index_ok (deployments s)" "\<not> db_fault s (db_calls s)" "list_all (\<lambda>d. d_id d = i \<longrightarrow> is_active (d_status d)) (deployments s)"
    and here: "i \<in> d_id ` set (deployments s)"
    using assms(1) by (auto simp: under_way_def alive_def shape_def db_inv_def row_active_def)
  have eq: "map (\<lambda>d. if d_id d = i then ?f d else d) (deployments s)
      = map (\<lambda>d. if d_id d = i \<and> is_active (d_status d) then ?f d else d) (deployments s)"
    by (rule map_cong [OF refl]) (use ok(3) in \<open>auto simp: list_all_iff\<close>)
  have "index_ok (map (\<lambda>d. if d_id d = i then ?f d else d) (deployments s))"
    unfolding eq by (rule index_ok_active_update [OF ok(1)]) simp_all
  moreover have "filter (\<lambda>d. d_id d = i) (deployments s) \<noteq> []" using here by (auto simp: filter_empty_conv)
  ultimately show ?thesis
    using ok(2) by (simp add: update_deployment_status_def or_not_found_def update_deployments_def db_call_def sem_defs Let_def)
qed

lemma live_must:
  assumes "keeps (under_way i a) m" and "\<And>s. under_way i a s \<Longrightarrow> \<not> isl (fst (m s))"
  shows "live (U i a) (must env pre m)"
  unfolding live_def
proof (intro allI impI)
  fix s :: pst
  assume s: "U i a s"
  obtain r t where rt: "m (x_db s) = (r, t)" by fastforce
  with assms(2) [OF s] obtain x where "r = Inr x" by (cases r) auto
  with rt keepsD [OF assms(1) s]
  show "\<not> isl (fst (must env pre m s)) \<and> U i a (snd (must env pre m s))"
    by (simp add: must_def map_err_def xdb_def)
qed

lemma live_log: "live (U i a) (log_system m)"
  by (rule live_smooth) (auto simp: log_system_def intro!: vac_wp keeps_xdb under_way_ops(1) simp: keeps_emit)

lemma live_status: "is_active st \<Longrightarrow> live (U i a) (set_status env i st)"
  unfolding set_status_def
  by (intro live_and_then live_emit live_must under_way_ops(2)) (simp_all add: status_write_ok)

lemma live_checks: "live I (check_err pre None)" "live I (or_fail pre (Inr x))"
  by (simp_all add: check_err_def or_fail_def live_basic)

lemma and_then_value: "and_then (or_fail pre (Inr x)) f = f x" "and_then (ret x) g = g x" "and_then (check_err pre None) h = h ()"
  by (auto simp: or_fail_def check_err_def and_then_def ret_def)

lemma live_ignore_db: "keeps (under_way i a) m \<Longrightarrow> live (U i a) (ignore (xdb m))"
  by (intro live_basic keeps_xdb)

lemmas live_steps = live_rules live_log live_emit live_checks live_ignore_db [OF under_way_ops(3)]
  live_ignore_db [OF under_way_ops(4)] live_ignore_db [OF under_way_ops(5)]

section \<open>The stages\<close>

lemma live_key:
  assumes "is_ssh_repo_url (a_git_url ap) \<Longrightarrow> key_answers env"
  shows "live (U i a) (materialise_key env ap)"
proof (cases "is_ssh_repo_url (a_git_url ap)")
  case True
  then have k: "key_answers env" by (rule assms)
  then have get: "live (U i a) (case pe_key_get env of None \<Rightarrow> ret () | Some KeyNotFound \<Rightarrow> check_err [] (pe_key_mint env)
      | Some (KeyErr m) \<Rightarrow> throw (Fail m))"
    by (auto simp: key_answers_def live_basic live_checks split: option.splits key_err.splits)
  obtain pem where pem: "pe_key_open env = Inr pem"
    using k by (cases "pe_key_open env") (simp_all add: key_answers_def)
  then obtain f where "pe_key_file env pem = Inr f"
    using k by (cases "pe_key_file env pem") (simp_all add: key_answers_def)
  with pem True show ?thesis
    unfolding materialise_key_def by (simp add: and_then_value) (intro live_and_then get live_checks)
qed (simp add: materialise_key_def live_basic)

lemma live_git: "pe_git env g = None \<Longrightarrow> live (U i a) (git_call env pre g)"
  unfolding git_call_def by (intro live_steps) (simp_all add: live_checks)

lemma live_stage_source:
  assumes "source_answers env ap" and "d_id d = i"
  shows "live (U i a) (stage_source env d ap)"
proof -
  have g: "pe_git env g = None" "pe_mkdir env = None" for g using assms(1) by (simp_all add: source_answers_def)
  have key: "live (U i a) (materialise_key env ap)"
    by (rule live_key) (use assms(1) in \<open>simp add: source_answers_def\<close>)
  have clone: "live (U i a) (clone_or_pull env ap)"
    unfolding clone_or_pull_def by (intro live_steps live_git g) (simp_all add: g live_checks)
  have src: "live (U i a) (if a_source ap = ''template'' then
         (case pe_templates env of
            None \<Rightarrow> throw (Fail ''pipeline: app is template-sourced but no template registry is configured'')
          | Some tp \<Rightarrow>
            (case a_template_id ap of
               None \<Rightarrow> throw (Fail ''pipeline: template app has no template id'')
             | Some tid \<Rightarrow>
                 if tid = [] then throw (Fail ''pipeline: template app has no template id'')
                 else and_then (log_system (''materializing add-on template: '' @ tid)) (\<lambda>_.
                      and_then (check_err ''pipeline: mkdir workdir: '' (pe_mkdir env)) (\<lambda>_.
                      and_then (emit (PMaterialize tid)) (\<lambda>_.
                      check_err ''pipeline: materialize template: '' (tp_materialize tp tid))))))
       else if a_source ap = ''image'' then
         and_then (log_system ''image source: no clone'') (\<lambda>_.
         check_err ''pipeline: mkdir workdir: '' (pe_mkdir env))
       else clone_or_pull env ap)"
    using assms(1) g(2) unfolding source_answers_def template_answers_def
    by (intro live_if clone) (auto intro!: live_steps split: option.splits)
  show ?thesis
    unfolding stage_source_def Let_def split_beta assms(2)
    by (intro live_and_then live_status key src live_steps live_git g) (simp_all add: is_active_def)
qed

text \<open>What an open gate says about the adapter and the lint.\<close>

lemma gate_openE:
  assumes "gate_open env ap"
  obtains cfg kind cf fs where "pe_parse_config env (a_build_config ap) = Inr cfg"
    "pe_adapter_for env (a_build_kind ap) = Inr kind" "pe_prepare env kind (effective_cfg ap cfg) = Inr cf"
    "lint_result env cf = Inr fs" "filter (is_blocking (bc_allow_unsafe cfg)) fs = []"
proof -
  obtain cfg kind cf fs where c: "pe_parse_config env (a_build_config ap) = Inr cfg"
    "pe_adapter_for env (a_build_kind ap) = Inr kind" "pe_prepare env kind (effective_cfg ap cfg) = Inr cf"
    "lint_result env cf = Inr fs"
    "list_all (\<lambda>f. f_severity f = SeverityError \<longrightarrow> bc_allow_unsafe cfg \<and> \<not> is_host_escape f) fs"
    using assms by (auto simp: gate_open_def split: sum.splits)
  moreover have "filter (is_blocking (bc_allow_unsafe cfg)) fs = []"
    using c(5) by (auto simp: filter_empty_conv list_all_iff is_blocking_def)
  ultimately show thesis using that by blast
qed

lemma live_stage_adapter:
  assumes "pe_parse_config env (a_build_config ap) = Inr cfg" "pe_adapter_for env (a_build_kind ap) = Inr kind"
    "pe_prepare env kind (effective_cfg ap cfg) = Inr cf" and "d_id d = i"
  shows "live (U i a) (stage_adapter env d ap)"
proof -
  have hash: "live (U i a) (case hash_file env cf of Inl e \<Rightarrow> ret ()
      | Inr h \<Rightarrow> ignore (xdb (set_deployment_compose_hash i h)))"
    by (cases "hash_file env cf") (auto intro: live_steps)
  have cfg: "(if bc_compose_path cfg = [] then cfg\<lparr>bc_compose_path := a_compose_file ap\<rparr> else cfg) = effective_cfg ap cfg"
    by (simp add: effective_cfg_def)
  show ?thesis
    unfolding stage_adapter_def assms(1,2,4) Let_def
    by (simp only: and_then_value cfg assms(3)) (intro live_steps hash)
qed

lemma live_stage_preflight:
  assumes "lint_result env cf = Inr fs" and "filter (is_blocking (bc_allow_unsafe cfg)) fs = []"
  shows "live (U i a) (stage_preflight env d ap cfg cf)"
proof -
  have conf: "live (U i a) (case pe_config env of Inr x \<Rightarrow> ret ()
      | Inl e \<Rightarrow> log_system (''compose preflight: resolved config unavailable, linting raw compose ('' @ e @ '')''))"
    by (cases "pe_config env") (auto intro: live_steps)
  show ?thesis
    unfolding stage_preflight_def assms(1) Let_def
    by (simp add: assms(2)) (intro live_and_then live_emit conf live_for_each live_log live_basic(1))
qed

lemma live_stage_env_file:
  assumes "env_answers env"
  shows "live (U i a) (stage_env_file env ap)"
proof (cases "pe_box env")
  case (Some ob)
  obtain vars where vars: "pe_env_vars env = Inr vars"
    using assms Some by (cases "pe_env_vars env") (simp_all add: env_answers_def)
  obtain out where "render_env_file ob vars = Inr out"
    using assms Some vars by (cases "render_env_file ob vars") (simp_all add: env_answers_def)
  with vars Some assms show ?thesis
    unfolding stage_env_file_def
    by (simp add: env_answers_def and_then_value) (intro live_and_then live_emit live_checks)
qed (simp add: stage_env_file_def live_emit)

lemma live_registry:
  assumes "registry_answers env" and "a_id ap = a"
  shows "live (U i a) (registry_pull env ap)"
proof -
  have auth: "live (U i a) (attempt (xdb (get_app_registry_auth a)))"
    by (intro live_basic keeps_xdb under_way_ops)
  have nf: "r \<noteq> Inl ErrNotFound \<longrightarrow> \<not> isl r"
    if "U i a s" and "attempt (xdb (get_app_registry_auth a)) s = (Inr r, t)" for r and s t :: pst
  proof -
    have "\<not> db_fault (x_db s) (db_calls (x_db s))" using that(1) by (simp add: under_way_def alive_def shape_def)
    then show ?thesis using that(2)
      by (auto simp: attempt_def xdb_def get_app_registry_auth_def get_app_def and_then_def ret_def db_call_def Let_def
          split: prod.splits option.splits sum.splits)
  qed
  have creds: "live (U i a) (if enc = [] then ret () else case pe_box env of
        None \<Rightarrow> throw (Fail ''registry credentials are set but VAC_MASTER_KEY is not configured'')
      | Some open_box \<Rightarrow>
           and_then (or_fail ''decrypt registry auth: '' (open_box enc)) (\<lambda>plain.
           and_then (or_fail ''parse registry auth: '' (pe_registry_creds env plain)) (\<lambda>registry.
           and_then (log_system (''registry login: '' @ registry_label registry)) (\<lambda>_.
           and_then (emit (PLogin registry)) (\<lambda>_. check_err ''registry login: '' (pe_login env))))))" for enc
  proof (cases "enc = []")
    case False
    then have "case pe_box env of None \<Rightarrow> False | Some open_box \<Rightarrow> (case open_box enc of Inl _ \<Rightarrow> False
        | Inr plain \<Rightarrow> (case pe_registry_creds env plain of Inl _ \<Rightarrow> False | Inr _ \<Rightarrow> True))"
      using assms(1) unfolding registry_answers_def by blast
    then obtain ob plain reg where "pe_box env = Some ob" "ob enc = Inr plain" "pe_registry_creds env plain = Inr reg"
      by (auto split: option.splits sum.splits)
    with False assms(1) show ?thesis
      by (simp only: registry_answers_def option.case and_then_value if_False) (intro live_steps)
  qed (simp add: live_basic)
  show ?thesis
    unfolding registry_pull_def assms(2)
  proof (rule live_and_then_val [where P = "\<lambda>r. r \<noteq> Inl ErrNotFound \<longrightarrow> \<not> isl r", OF auth nf])
    fix r :: "store_err + string"
    assume r: "r \<noteq> Inl ErrNotFound \<longrightarrow> \<not> isl r"
    have "live (U i a) (case r of
         Inl e \<Rightarrow> if e \<noteq> ErrNotFound then throw (Fail (''load registry auth: '' @ pe_err_text env e)) else ret []
       | Inr enc \<Rightarrow> ret enc)"
      using r by (cases r) (auto simp: live_basic)
    moreover have "pe_pull env = None" using assms(1) by (simp add: registry_answers_def)
    ultimately show "live (U i a) (and_then (case r of
         Inl e \<Rightarrow> if e \<noteq> ErrNotFound then throw (Fail (''load registry auth: '' @ pe_err_text env e)) else ret []
       | Inr enc \<Rightarrow> ret enc) (\<lambda>enc.
     and_then (if enc = [] then ret ()
       else case pe_box env of
         None \<Rightarrow> throw (Fail ''registry credentials are set but VAC_MASTER_KEY is not configured'')
       | Some open_box \<Rightarrow>
           and_then (or_fail ''decrypt registry auth: '' (open_box enc)) (\<lambda>plain.
           and_then (or_fail ''parse registry auth: '' (pe_registry_creds env plain)) (\<lambda>registry.
           and_then (log_system (''registry login: '' @ registry_label registry)) (\<lambda>_.
           and_then (emit (PLogin registry)) (\<lambda>_. check_err ''registry login: '' (pe_login env)))))) (\<lambda>_.
     and_then (log_system ''pulling image'') (\<lambda>_.
     and_then (emit PPull) (\<lambda>_. check_err ''pull: '' (pe_pull env))))))"
      by (simp only:) (intro live_and_then creds live_log live_emit live_checks; assumption)
  qed
qed

lemma live_stage_build:
  assumes "docker_answers env" and "a_source ap = ''image'' \<Longrightarrow> registry_answers env" and "d_id d = i" and "a_id ap = a"
  shows "live (U i a) (stage_build env d ap)"
proof -
  have b: "pe_build env = None" using assms(1) by (simp add: docker_answers_def)
  show ?thesis
    unfolding stage_build_def assms(3) b
    by (intro live_and_then live_status live_emit live_checks live_if live_registry live_basic(1) assms(2,4))
      (simp_all add: is_active_def)
qed

lemma live_stage_up:
  assumes "docker_answers env" and "d_id d = i" and "a_id ap = a"
  shows "live (U i a) (stage_up env d ap cf)"
proof -
  have u: "pe_up env = None" using assms(1) by (simp add: docker_answers_def)
  have ovr: "live (U i a) (case pe_override env cf mem of
      Inl e \<Rightarrow> and_then (log_system (''warning: could not apply resource limits: '' @ e)) (\<lambda>_. ret [])
    | Inr ovr \<Rightarrow> ret (if ovr \<noteq> [] then [ovr] else []))" for mem
    by (cases "pe_override env cf mem"; simp only: sum.case) (intro live_steps)+
  show ?thesis
    unfolding stage_up_def assms(2,3) u Let_def
    by (intro live_and_then live_status live_emit live_checks live_if ovr live_basic(1) live_ignore_db under_way_ops)
      (simp_all add: is_active_def)
qed

lemma live_upsert: "live (U i a) (upsert_services env a svcs cf)"
proof -
  have up: "live (U i a) (must env pre (upsert_service a n c p q ss v))" for pre n c p q ss v
    by (rule live_must [OF under_way_ops(8)])
      (simp add: upsert_service_def db_call_def Let_def under_way_def alive_def shape_def)
  have ls: "live (U i a) (must env pre (list_services_for_app a))" for pre
    by (rule live_must [OF under_way_ops(7)])
      (simp add: list_services_for_app_def db_call_def Let_def under_way_def alive_def shape_def)
  show ?thesis
    unfolding upsert_services_def Let_def
    by (intro live_and_then live_for_each up ls live_if live_ignore_db under_way_ops live_basic(1))
qed

lemma live_template_paths: "live (U i a) (apply_template_health_paths tp a tid)"
  unfolding apply_template_health_paths_def Let_def
  by (intro live_smooth vac_wp keeps_xdb under_way_ops)
    (auto intro!: smooth_and_then smooth_for_each split: sum.split option.split)

lemma live_stage_services:
  assumes "docker_answers env" and "d_id d = i" and "a_id ap = a"
  shows "live (U i a) (stage_services env d ap cf)"
proof -
  obtain svcs where ps: "pe_ps env = Inr svcs" using assms(1) by (auto simp: docker_answers_def split: sum.splits)
  have tp: "live (U i a) (case (a_template_id ap, pe_templates env) of
      (Some tid, Some tp) \<Rightarrow> if a_source ap = ''template'' then apply_template_health_paths tp a tid else ret ()
    | _ \<Rightarrow> ret ())"
    by (auto simp: live_template_paths live_basic split: option.split)
  show ?thesis
    unfolding stage_services_def assms(2,3) ps and_then_value
    by (intro live_and_then live_status live_emit live_upsert tp live_if live_basic(1)) (simp add: is_active_def)
qed

lemma live_stage_health:
  assumes "docker_answers env" and "pe_ps env = Inr svcs"
  shows "live (U i a) (stage_health env d ap svcs)"
proof -
  have h: "health_answers env svcs" using assms by (simp add: docker_answers_def)
  show ?thesis
  proof (cases "pe_router env")
    case None
    have "live (U i a) (health_check env svcs)"
      unfolding health_check_def
    proof (rule live_for_each)
      fix svc
      assume "svc \<in> set svcs"
      then have "first_published_port svc = 0
          \<or> fst (check_with_retry (pe_probe env (ps_name svc)) (pe_retries env) (pe_timeout env) (pe_now env)) = Healthy"
        using h None by (simp add: health_answers_def list_all_iff)
      then show "live (U i a) (let port = first_published_port svc
         in if port = 0 then ret ()
            else and_then (log_system (''health check: '' @ ps_name svc @ '' '' @ arrow @ '' '' @ health_url_for_port port)) (\<lambda>_.
                 and_then (emit (PProbe (ps_name svc))) (\<lambda>_.
                 check_err (''health check '' @ ps_name svc @ '': '')
                   (health_error_text (fst (check_with_retry (pe_probe env (ps_name svc)) (pe_retries env) (pe_timeout env) (pe_now env)))))))"
        unfolding Let_def by (intro live_if live_and_then live_log live_emit live_basic(1))
          (auto simp: health_error_text_def live_checks)
    qed
    then show ?thesis using None by (simp add: stage_health_def)
  next
    case (Some p)
    obtain se we where p: "p = (se, we)" by fastforce
    then have "we = None" using h Some by (simp add: health_answers_def)
    moreover have "live (U i a) (case se of None \<Rightarrow> ret ()
        | Some e \<Rightarrow> log_system (''warning: route sync failed (will reconcile): '' @ e))"
      by (cases se) (auto intro: live_steps)
    ultimately show ?thesis
      using Some p unfolding stage_health_def
      by (simp only: option.case prod.case) (intro live_and_then live_emit live_basic(1))
  qed
qed

text \<open>All stages, in the form of a triple: no early return, and the row ends as running.\<close>

lemma stage_services_val: "stage_services env d ap cf s = (Inr svcs, t) \<Longrightarrow> pe_ps env = Inr svcs"
  unfolding stage_services_def or_fail_def
  by (auto simp: and_then_def ret_def throw_def split: prod.splits sum.splits)

lemma triple_case_live:
  "live I m \<Longrightarrow> (\<And>s x t. I s \<Longrightarrow> m s = (Inr x, t) \<Longrightarrow> P x) \<Longrightarrow> (\<And>x. P x \<Longrightarrow> triple I (f x) Q E) \<Longrightarrow> triple I (and_then m f) Q E"
  unfolding triple_def
proof (intro allI impI)
  fix s
  assume m: "live I m" and P: "\<And>s x t. I s \<Longrightarrow> m s = (Inr x, t) \<Longrightarrow> P x" and s: "I s"
    and f: "\<And>x. P x \<Longrightarrow> \<forall>s. I s \<longrightarrow> (case f x s of (Inl e, s') \<Rightarrow> E e s' | (Inr x, s') \<Rightarrow> Q x s')"
  obtain r t where rt: "m s = (r, t)" by fastforce
  then have "\<not> isl r" "I t" using m s by (auto simp: live_def)
  then obtain x where x: "r = Inr x" by (cases r) auto
  then have "P x" using P s rt by blast
  then show "case and_then m f s of (Inl e, s') \<Rightarrow> E e s' | (Inr x, s') \<Rightarrow> Q x s'"
    using f rt x \<open>I t\<close> by (simp add: and_then_def)
qed

lemma triple_steps_live:
  assumes "all_answer env ap" and "d_id d = i" and "a_id ap = a"
  shows "triple (U i a) (pipeline_steps env d ap)
    (\<lambda>_ s. final i a (\<lambda>d. d_status d = Running) St_Running (x_db s)) (\<lambda>_ _. False)"
proof -
  have parts: "source_answers env ap" "gate_open env ap" "env_answers env" "docker_answers env"
    "a_source ap = ''image'' \<Longrightarrow> registry_answers env"
    using assms(1) by (auto simp: all_answer_def split: if_splits)
  obtain cfg kind cf fs where c: "pe_parse_config env (a_build_config ap) = Inr cfg"
    "pe_adapter_for env (a_build_kind ap) = Inr kind" "pe_prepare env kind (effective_cfg ap cfg) = Inr cf"
    "lint_result env cf = Inr fs" "filter (is_blocking (bc_allow_unsafe cfg)) fs = []"
    using gate_openE [OF parts(2)] by blast
  have unsafe: "bc_allow_unsafe (effective_cfg ap cfg) = bc_allow_unsafe cfg" by (simp add: effective_cfg_def)
  have done_: "triple (U i a) (stage_done env d ap sha msg)
      (\<lambda>_ s. final i a (\<lambda>d. d_status d = Running) St_Running (x_db s)) E" for sha msg E
    by (rule triple_pre [OF _ triple_stage_done [OF assms(2,3)]]) (simp add: under_way_def)
  show ?thesis
    unfolding pipeline_steps_def
  proof (rule triple_case_live [where P = "\<lambda>_. True", OF live_stage_source [OF parts(1) assms(2)]], simp, clarify)
    fix sha msg :: string
    show "triple (U i a) (and_then (stage_adapter env d ap) (\<lambda>(cfg, compose_file).
      and_then (stage_preflight env d ap cfg compose_file) (\<lambda>_.
      and_then (stage_env_file env ap) (\<lambda>_.
      and_then (stage_build env d ap) (\<lambda>_.
      and_then (stage_up env d ap compose_file) (\<lambda>_.
      and_then (stage_services env d ap compose_file) (\<lambda>svcs.
      and_then (stage_health env d ap svcs) (\<lambda>_.
      stage_done env d ap sha msg))))))))
      (\<lambda>_ s. final i a (\<lambda>d. d_status d = Running) St_Running (x_db s)) (\<lambda>_ _. False)"
    proof (rule triple_case_live [where P = "\<lambda>x. x = (effective_cfg ap cfg, cf)", OF live_stage_adapter [OF c(1-3) assms(2)]])
      show "x = (effective_cfg ap cfg, cf)" if "stage_adapter env d ap s = (Inr x, t)" for s x t
        using stage_adapter_Inr [of env d ap s "fst x" "snd x" t] that c by (auto simp: prod_eq_iff)
    qed (simp only: prod.case, rule triple_case_live [where P = "\<lambda>_. True", OF live_stage_preflight [OF c(4)]],
        simp only: unsafe c(5), rule TrueI,
        rule triple_case_live [where P = "\<lambda>_. True", OF live_stage_env_file [OF parts(3)]], rule TrueI,
        rule triple_case_live [where P = "\<lambda>_. True", OF live_stage_build [OF parts(4,5) assms(2,3)]], assumption, rule TrueI,
        rule triple_case_live [where P = "\<lambda>_. True", OF live_stage_up [OF parts(4) assms(2,3)]], rule TrueI,
        rule triple_case_live [where P = "\<lambda>svcs. pe_ps env = Inr svcs", OF live_stage_services [OF parts(4) assms(2,3)]],
        rule stage_services_val, assumption,
        rule triple_case_live [where P = "\<lambda>_. True", OF live_stage_health [OF parts(4)]], assumption, rule TrueI, rule done_)
  qed
qed

section \<open>The whole run\<close>

definition has_up :: "pevent list \<Rightarrow> bool" where
  "has_up t = (\<exists>ov. PUp ov \<in> set t)"

lemma has_up_snoc: "has_up t \<Longrightarrow> has_up (t @ [e])" "has_up (t @ [PUp ov])"
  by (auto simp: has_up_def)

interpretation has_up_run: run_invariant "\<lambda>s. has_up (x_trace s)" i a for i a
  by unfold_locales (simp_all add: has_up_snoc keeps_xdb_trace)

lemma triple_True: "triple (\<lambda>_. True) m (\<lambda>_ _. True) (\<lambda>_ _. True)"
  by (simp add: triple_def split: prod.split sum.split)

lemma triple_stage_up_emits: "triple (\<lambda>_. True) (stage_up env d ap cf) (\<lambda>_ s. has_up (x_trace s)) (\<lambda>_ _. True)"
proof -
  have tail: "triple (\<lambda>_. True) (and_then (emit (PUp ov)) (\<lambda>_. check_err pre e)) (\<lambda>_ s. has_up (x_trace s)) (\<lambda>_ _. True)" for ov pre e
    by (cases e) (auto simp: triple_def and_then_def emit_def act_def check_err_def throw_def ret_def has_up_def)
  show ?thesis
    unfolding stage_up_def Let_def by (intro triple_and_then [OF triple_True] tail)
qed

lemma triple_has_up: "keeps (\<lambda>s. has_up (x_trace s)) m \<Longrightarrow> triple (\<lambda>s. has_up (x_trace s)) m (\<lambda>_ s. has_up (x_trace s)) (\<lambda>_ _. True)"
  by (rule triple_post [OF triple_keeps]) simp_all

lemma steps_have_up: "triple (\<lambda>_. True) (pipeline_steps env d ap) (\<lambda>_ s. has_up (x_trace s)) (\<lambda>_ _. True)"
  unfolding pipeline_steps_def split_beta
  by (intro triple_and_then [OF triple_True] triple_and_then [OF triple_stage_up_emits] triple_and_then [OF triple_has_up]
      triple_has_up has_up_run.keeps_stage_services [OF refl refl] has_up_run.keeps_stage_health [OF refl refl]
      has_up_run.keeps_stage_done [OF refl refl])

lemma triple_conj:
  "triple P m Q E \<Longrightarrow> triple R m S F \<Longrightarrow> triple (\<lambda>s. P s \<and> R s) m (\<lambda>x s. Q x s \<and> S x s) (\<lambda>e s. E e s \<and> F e s)"
  unfolding triple_def by (fastforce split: prod.splits sum.splits)

lemma body_succeeds:
  assumes "all_answer env ap" and "d_id d = i" and "a_id ap = a" and "under_way i a (x_db s)"
    and "e \<in> set (deployments (x_db s))" and "d_id e = i" and "d_started_at e = None"
    and "pipeline_body env d ap s = (r, u)"
  shows "r = Inr () \<and> settled i a (\<lambda>d. d_status d = Running) St_Running (x_db u) \<and> has_up (x_trace u)"
proof -
  let ?s1 = "snd (xdb (mark_deployment_started i) s)"
  let ?Q = "\<lambda>(x::unit) s. settled i a (\<lambda>d. d_status d = Running) St_Running (x_db s) \<and> has_up (x_trace s)"
  have al: "alive i a (x_db s)" using assms(4) by (simp add: under_way_def)
  have started: "must env pre (mark_deployment_started i) s = (Inr (), ?s1)" for pre
    using mark_started_Inr [OF al assms(5-7)]
    by (cases "mark_deployment_started i (x_db s)") (simp add: must_def map_err_def xdb_def)
  have u1: "U i a ?s1" using keepsD [OF keeps_xdb [OF under_way_ops(14)] assms(4)] .
  have enter: "live (U i a) (enter_auto_maintenance env ap)"
    by (rule live_smooth) (rule keeps_maintenance_db [OF under_way_ops(12,13) assms(3)], simp add: enter_auto_maintenance_def)
  have steps: "triple (U i a) (pipeline_steps env d ap) ?Q (\<lambda>_ _. False)"
    by (rule triple_weaken [OF triple_conj [OF triple_steps_live [OF assms(1-3)] steps_have_up]]) (simp_all add: final_def)
  have "triple (U i a) (with_defer (with_defer (pipeline_steps env d ap) (settle_failure env d ap))
      (\<lambda>_. leave_auto_maintenance env ap)) ?Q (\<lambda>_ _. False)"
  proof (rule triple_with_defer [where E = "\<lambda>_ _. False", OF triple_with_defer [OF steps]])
    show "triple (?Q x) (settle_failure env d ap (Inr x)) (\<lambda>_. ?Q x) (\<lambda>_. ?Q x)" for x
      by (simp add: settle_failure_def triple_def ret_def)
    have v: "keeps (\<lambda>s. settled i a (\<lambda>d. d_status d = Running) St_Running (x_db s)) (leave_auto_maintenance env ap)"
      using keeps_verdict_leave [of i a "Inr ()"] by (simp add: verdict_def)
    have "keeps (\<lambda>s. has_up (x_trace s)) (leave_auto_maintenance env ap)"
      unfolding leave_auto_maintenance_def maintain_off_def
      by (intro vac_wp keeps_xdb_trace) (simp add: keeps_emit has_up_def)
    then show "triple (?Q x) (leave_auto_maintenance env ap) (\<lambda>_. ?Q x) (\<lambda>_. ?Q x)" for x
      by (intro triple_keeps keeps_conj v)
  qed (simp_all add: triple_def)
  then have "triple (U i a) (and_then (ignore (xdb (set_app_status a St_Building))) (\<lambda>_.
     and_then (ignore (xdb (set_app_suspended a False))) (\<lambda>_.
     and_then (enter_auto_maintenance env ap) (\<lambda>_.
     with_defer (with_defer (pipeline_steps env d ap) (settle_failure env d ap)) (\<lambda>_. leave_auto_maintenance env ap)))))
     ?Q (\<lambda>_ _. False)" (is "triple _ ?rest _ _")
    by (intro triple_and_then [OF live_triple] live_ignore_db under_way_ops enter)
  moreover have "?rest ?s1 = (r, u)"
    using assms(8) started by (simp add: pipeline_body_def and_then_def assms(2,3))
  ultimately show ?thesis using u1 by (cases r) (auto dest: tripleD)
qed

lemma run_succeeds_up:
  assumes "db_inv (x_db s)" and "db_fault (x_db s) = (\<lambda>_. False)"
    and "d \<in> set (deployments (x_db s))" and "is_active (d_status d)" and "d_started_at d = None"
    and "ap \<in> set (apps (x_db s))" and "a_id ap = d_app d" and "distinct (map a_id (apps (x_db s)))" and "all_answer env ap"
  shows "\<exists>u. pipeline_run env (d_id d) s = (None, u)
    \<and> settled (d_id d) (d_app d) (\<lambda>d. d_status d = Running) St_Running (x_db u)
    \<and> (\<exists>ov. PUp ov \<in> set (x_trace u))"
proof -
  have uniq: "e = d" if "e \<in> set (deployments (x_db s))" "d_id e = d_id d" for e
    using id_unique [OF _ that(1) assms(3) that(2)] assms(1) by (simp add: db_inv_def)
  have dep: "find (\<lambda>e. d_id e = d_id d) (deployments (x_db s)) = Some d"
  proof (cases "find (\<lambda>e. d_id e = d_id d) (deployments (x_db s))")
    case None
    then show ?thesis using assms(3) by (auto simp: find_None_iff)
  next
    case (Some e)
    then have "e \<in> set (deployments (x_db s)) \<and> d_id e = d_id d" by (auto simp: find_Some_iff)
    with Some uniq show ?thesis by simp
  qed
  have find_ap: "find (\<lambda>x. a_id x = d_app d) (apps (x_db s)) = Some ap"
  proof (cases "find (\<lambda>x. a_id x = d_app d) (apps (x_db s))")
    case None
    then show ?thesis using assms(6,7) by (auto simp: find_None_iff)
  next
    case (Some x)
    then have "x \<in> set (apps (x_db s))" "a_id x = a_id ap" using assms(7) by (auto simp: find_Some_iff)
    with Some assms(6,8) show ?thesis by (auto simp: distinct_map inj_on_def)
  qed
  have nt: "\<not> is_terminal (d_status d)" using assms(4) by (cases "d_status d") (simp_all add: is_active_def is_terminal_def)
  let ?t = "tick (Suc (Suc (db_calls (x_db s)))) s"
  obtain r u where ru: "pipeline_body env d ap ?t = (r, u)" by fastforce
  have "row_active (d_id d) (x_db ?t)" using uniq assms(4) by (auto simp: row_active_def list_all_iff)
  moreover have "d_app d \<in> a_id ` set (apps (x_db s))" using assms(6,7) by force
  ultimately have al: "under_way (d_id d) (d_app d) (x_db ?t)"
    using assms(1,2,3) by (auto simp: under_way_def alive_def shape_def db_inv_def)
  have "r = Inr () \<and> settled (d_id d) (d_app d) (\<lambda>d. d_status d = Running) St_Running (x_db u) \<and> has_up (x_trace u)"
    by (rule body_succeeds [OF assms(9) refl assms(7) al _ refl assms(5) ru]) (use assms(3) in simp)
  moreover have "pipeline_run env (d_id d) s = (run_result r, u\<lparr>x_trace := x_trace u @ [PBuildEnd]\<rparr>)"
    using dep find_ap assms(2) nt ru
    by (simp add: pipeline_run_def must_def map_err_def and_then_def xdb_get_deployment xdb_get_app with_defer_def
        emit_def act_def)
  ultimately show ?thesis by (auto simp: run_result_def has_up_def)
qed

text \<open>
  C3: a deployment whose collaborators answer reaches running. On a database that answers, for a
  deployment that waits in its lane and was never started, if the source, the key, the adapter, the
  environment file, docker, the registry and the health gate answer and the lint lets the compose
  file through, the run returns no error, the row and the app are running at the end, and docker
  compose up was called.
\<close>

theorem run_succeeds:
  assumes "db_inv (x_db s)" and "db_fault (x_db s) = (\<lambda>_. False)"
    and "d \<in> set (deployments (x_db s))" and "is_active (d_status d)" and "d_started_at d = None"
    and "ap \<in> set (apps (x_db s))" and "a_id ap = d_app d" and "distinct (map a_id (apps (x_db s)))" and "all_answer env ap"
  shows "\<exists>u. pipeline_run env (d_id d) s = (None, u)
    \<and> settled (d_id d) (d_app d) (\<lambda>d. d_status d = Running) St_Running (x_db u)
    \<and> (\<exists>ov. PUp ov \<in> set (x_trace u))"
  by (rule run_succeeds_up) (rule assms)+

section \<open>A concrete run\<close>

lemma demo_answers: "all_answer demo_pipe_env (maint_app ''a'' False)"
proof -
  have "lint_views [] = []" by (simp add: lint_views_def)
  then have "gate_open demo_pipe_env (maint_app ''a'' False)"
    by (simp add: gate_open_def demo_pipe_env_def lint_result_def preflight_bytes_def parse_preflight_bytes_def
        demo_yaml_def field_def)
  then show ?thesis
    by (simp add: all_answer_def source_answers_def env_answers_def docker_answers_def health_answers_def
        is_ssh_repo_url_def demo_pipe_env_def maint_app_def)
qed

lemma demo_queued: "is_active (d_status demo_row)" "maint_app ''a'' False \<in> set (apps (x_db demo_pst))"
  "a_id (maint_app ''a'' False) = d_app demo_row" "distinct (map a_id (apps (x_db demo_pst)))"
  by (simp_all add: demo_pst_facts is_active_def demo_pst_def demo_db_def empty_db_def maint_app_def)

lemmas demo_run_facts = demo_pst_facts(1-3) demo_queued(1) demo_pst_facts(8) demo_queued(2-4) demo_answers

theorem run_succeeds_witness:
  "fst (pipeline_run demo_pipe_env ''1'' demo_pst) = None
   \<and> settled ''1'' ''a'' (\<lambda>d. d_status d = Running) St_Running (x_db (snd (pipeline_run demo_pipe_env ''1'' demo_pst)))"
  using run_succeeds [OF demo_run_facts] by (auto simp: demo_pst_facts)

theorem blocked_compose_never_runs_witness:
  "\<exists>ov. PUp ov \<in> set (drop (length (x_trace demo_pst)) (x_trace (snd (pipeline_run demo_pipe_env ''1'' demo_pst))))
   \<and> (\<exists>d\<in>set (deployments (x_db demo_pst)). \<exists>ap\<in>set (apps (x_db demo_pst)). d_id d = ''1'' \<and> a_id ap = d_app d
        \<and> gate_open demo_pipe_env ap)"
proof -
  obtain ov where "PUp ov \<in> set (x_trace (snd (pipeline_run demo_pipe_env ''1'' demo_pst)))"
    using run_succeeds_up [OF demo_run_facts] by (auto simp: demo_pst_facts)
  then have u: "PUp ov \<in> set (drop (length (x_trace demo_pst)) (x_trace (snd (pipeline_run demo_pipe_env ''1'' demo_pst))))"
    by (simp add: demo_pst_def)
  from blocked_compose_never_runs [OF u, where ov = ov] u show ?thesis by blast
qed

end
