(* ===== verification/Crash_Loop.thy ===== *)
theory Crash_Loop
  imports Store_Base
begin

text \<open>
  The crash-loop monitor: api/internal/crashloop/monitor.go, with the event fields of
  api/internal/dockercli/types.go. The monitor's maps, the database and the calls to the outside
  (stopping a service, runtime log rows, notifications) are the state; docker's answer to an
  inspect is a field of the environment. Log lines of the process are left out.
\<close>

section \<open>State\<close>

record devent =
  ev_action :: string
  ev_project :: string
  ev_service :: string
  ev_exit_code :: string          \<comment> \<open>the attribute, empty when missing\<close>
  ev_actor_id :: string
  ev_id :: string
  ev_time :: int
  ev_time_nano :: int

datatype mon_out =
    MStop string string
  | MRuntimeLog string string string
  | MCrashLoop string string string nat "int option"
  | MOOMKilled string string string int

record monitor =
  mo_windows :: "string \<rightharpoonup> instant list"
  mo_tripped :: "string set"
  mo_oom :: "string set"

record mon_env =
  me_threshold :: int
  me_window :: duration
  me_inspector :: "(string \<Rightarrow> bool option) option"   \<comment> \<open>None: the inspect failed\<close>
  me_notifier :: bool

record mst =
  ms_mon :: monitor
  ms_db :: db
  ms_out :: "mon_out list"

type_synonym 'a mon_op = "(mst, unit, 'a) sem"

text \<open>New: the defaults of the configuration.\<close>

definition new_mon_env :: "int \<Rightarrow> duration \<Rightarrow> (string \<Rightarrow> bool option) option \<Rightarrow> bool \<Rightarrow> mon_env" where
  "new_mon_env threshold span insp notif =
     \<lparr>me_threshold = (if threshold \<le> 0 then 5 else threshold),
      me_window = (if span \<le> 0 then 2 * minute else span),
      me_inspector = insp, me_notifier = notif\<rparr>"

definition new_monitor :: monitor where
  "new_monitor = \<lparr>mo_windows = Map.empty, mo_tripped = {}, mo_oom = {}\<rparr>"

section \<open>Plumbing\<close>

definition mdb :: "'a dbop \<Rightarrow> (mst, store_err, 'a) sem" where
  "mdb m = (\<lambda>s. case m (ms_db s) of (r, d) \<Rightarrow> (r, s\<lparr>ms_db := d\<rparr>))"

definition mout :: "mon_out \<Rightarrow> (mst, 'e, unit) sem" where
  "mout e = act (\<lambda>s. s\<lparr>ms_out := ms_out s @ [e]\<rparr>)"

definition on_mon :: "(monitor \<Rightarrow> monitor) \<Rightarrow> (mst, 'e, unit) sem" where
  "on_mon f = act (\<lambda>s. s\<lparr>ms_mon := f (ms_mon s)\<rparr>)"

text \<open>AppendRuntimeLogs of one system row; callers drop the error.\<close>

definition runtime_log :: "string \<Rightarrow> string \<Rightarrow> string \<Rightarrow> unit mon_op" where
  "runtime_log a svc msg = ignore (and_then (mdb (db_call (\<lambda>s. (Inr (), s)))) (\<lambda>_. mout (MRuntimeLog a svc msg)))"

definition project_prefix :: string where
  "project_prefix = ''vac-''"

definition mon_key :: "string \<Rightarrow> string \<Rightarrow> string" where
  "mon_key project svc = project @ ''/'' @ svc"

definition event_time :: "devent \<Rightarrow> instant" where
  "event_time e = (if ev_time_nano e > 0 then ev_time_nano e else ev_time e * second)"

definition parse_exit_code :: "string \<Rightarrow> int option" where
  "parse_exit_code s =
     (if s = [] then None else case atoi s of (n, ok) \<Rightarrow> if ok then Some n else None)"

section \<open>The sliding window\<close>

definition win_trim :: "duration \<Rightarrow> instant \<Rightarrow> instant list \<Rightarrow> instant list" where
  "win_trim max_age now evs = dropWhile (\<lambda>t. \<not> t > now - max_age) evs"

definition win_record :: "duration \<Rightarrow> instant \<Rightarrow> instant list \<Rightarrow> instant list" where
  "win_record max_age t evs = win_trim max_age t (evs @ [t])"

section \<open>Handling an event\<close>

definition forget :: "string \<Rightarrow> monitor \<Rightarrow> monitor" where
  "forget key m = m\<lparr>mo_windows := (mo_windows m)(key := None), mo_tripped := mo_tripped m - {key},
     mo_oom := mo_oom m - {key}\<rparr>"

text \<open>The section of handle under the mutex: the count of the window when this death trips.\<close>

definition note_death :: "mon_env \<Rightarrow> string \<Rightarrow> instant \<Rightarrow> nat option mon_op" where
  "note_death env key t = (\<lambda>s.
     let m = ms_mon s
     in if key \<in> mo_tripped m then (Inr None, s)
        else let w = (case mo_windows m key of Some w \<Rightarrow> w | None \<Rightarrow> []);
                 w' = win_record (me_window env) t w;
                 count = length w';
                 m1 = m\<lparr>mo_windows := (mo_windows m)(key \<mapsto> w')\<rparr>
             in if int count \<ge> me_threshold env
                then (Inr (Some count), s\<lparr>ms_mon := m1\<lparr>mo_tripped := insert key (mo_tripped m1)\<rparr>\<rparr>)
                else (Inr None, s\<lparr>ms_mon := m1\<rparr>))"

definition exit_suffix :: "int option \<Rightarrow> string" where
  "exit_suffix ec = (case ec of None \<Rightarrow> [] | Some n \<Rightarrow> '' (last exit code '' @ show_int n @ '')'')"

definition trip :: "mon_env \<Rightarrow> string \<Rightarrow> string \<Rightarrow> devent \<Rightarrow> nat \<Rightarrow> unit mon_op" where
  "trip env project svc ev count =
     and_then (map_err (\<lambda>_. ()) (mdb (get_app_by_slug (trim_prefix project project_prefix)))) (\<lambda>ap.
     and_then (mout (MStop project svc)) (\<lambda>_.
     let ec = parse_exit_code (ev_exit_code ev)
     in and_then (ignore (mdb (update_service_status (a_id ap) svc St_CrashLoop ec))) (\<lambda>_.
        and_then (ignore (mdb (increment_service_restart (a_id ap) svc))) (\<lambda>_.
        and_then (runtime_log (a_id ap) svc (''crash-loop: stopped after '' @ show_int (int count) @ '' restarts in ''
                    @ duration_string (me_window env) @ exit_suffix ec)) (\<lambda>_.
        if me_notifier env then mout (MCrashLoop (a_name ap) (a_id ap) svc count ec) else ret ())))))"

definition oom_limit :: "app \<Rightarrow> int" where
  "oom_limit ap = (case a_mem_limit ap of Some n \<Rightarrow> n | None \<Rightarrow> 0)"

definition oom_message :: "int \<Rightarrow> string" where
  "oom_message limit =
     (if limit > 0 then ''out of memory: killed for exceeding its '' @ show_int limit @ '' MiB limit''
      else ''out of memory: container killed (exit 137)'')"

definition maybe_handle_oom :: "mon_env \<Rightarrow> string \<Rightarrow> string \<Rightarrow> devent \<Rightarrow> unit mon_op" where
  "maybe_handle_oom env project svc ev =
     (case me_inspector env of
        None \<Rightarrow> ret ()
      | Some inspect \<Rightarrow>
          let ec = parse_exit_code (ev_exit_code ev);
              cid = (if ev_actor_id ev = [] then ev_id ev else ev_actor_id ev)
          in if ec \<noteq> Some 137 \<or> cid = [] \<or> inspect cid \<noteq> Some True then ret ()
             else let key = mon_key project svc in
               and_then (reads (\<lambda>s. key \<notin> mo_oom (ms_mon s))) (\<lambda>first.
               and_then (on_mon (\<lambda>m. m\<lparr>mo_oom := insert key (mo_oom m)\<rparr>)) (\<lambda>_.
               and_then (map_err (\<lambda>_. ()) (mdb (get_app_by_slug (trim_prefix project project_prefix)))) (\<lambda>ap.
               and_then (ignore (mdb (increment_service_oom (a_id ap) svc ec))) (\<lambda>_.
               if \<not> first then ret ()
               else and_then (runtime_log (a_id ap) svc (oom_message (oom_limit ap))) (\<lambda>_.
                    if me_notifier env then mout (MOOMKilled (a_name ap) (a_id ap) svc (oom_limit ap)) else ret ()))))))"

definition handle :: "mon_env \<Rightarrow> devent \<Rightarrow> unit mon_op" where
  "handle env ev =
     (let project = ev_project ev; svc = ev_service ev; key = mon_key project svc
      in if \<not> has_prefix project project_prefix \<or> svc = [] then ret ()
         else if ev_action ev = ''destroy'' then on_mon (forget key)
         else if ev_action ev \<noteq> ''die'' then ret ()
         else and_then (ignore (maybe_handle_oom env project svc ev)) (\<lambda>_.
              if parse_exit_code (ev_exit_code ev) = Some 0 then ret ()
              else and_then (note_death env key (event_time ev)) (\<lambda>r.
                   case r of None \<Rightarrow> ret () | Some count \<Rightarrow> trip env project svc ev count)))"

text \<open>Reset and ResetProject.\<close>

definition reset_service :: "string \<Rightarrow> string \<Rightarrow> monitor \<Rightarrow> monitor" where
  "reset_service project svc = forget (mon_key project svc)"

definition reset_project :: "string \<Rightarrow> monitor \<Rightarrow> monitor" where
  "reset_project project m =
     (let mine = (\<lambda>k. has_prefix k (project @ ''/''))
      in m\<lparr>mo_tripped := {k \<in> mo_tripped m. \<not> mine k},
           mo_windows := (\<lambda>k. if mine k then None else mo_windows m k),
           mo_oom := {k \<in> mo_oom m. \<not> mine k}\<rparr>)"

text \<open>Run: one event after the other.\<close>

fun run_monitor :: "mon_env \<Rightarrow> devent list \<Rightarrow> mst \<Rightarrow> mst" where
  "run_monitor env [] s = s"
| "run_monitor env (e # es) s = run_monitor env es (snd (handle env e s))"

section \<open>What one event does to the tracking of a service\<close>

text \<open>A death that counts, and the end of an episode.\<close>

definition crash :: "string \<Rightarrow> devent \<Rightarrow> bool" where
  "crash key e = (has_prefix (ev_project e) project_prefix \<and> ev_service e \<noteq> []
     \<and> mon_key (ev_project e) (ev_service e) = key \<and> ev_action e = ''die'' \<and> parse_exit_code (ev_exit_code e) \<noteq> Some 0)"

definition ends_episode :: "string \<Rightarrow> devent \<Rightarrow> bool" where
  "ends_episode key e = (has_prefix (ev_project e) project_prefix \<and> ev_service e \<noteq> []
     \<and> mon_key (ev_project e) (ev_service e) = key \<and> ev_action e = ''destroy'')"

definition track :: "string \<Rightarrow> monitor \<Rightarrow> instant list \<times> bool" where
  "track key m = ((case mo_windows m key of Some w \<Rightarrow> w | None \<Rightarrow> []), key \<in> mo_tripped m)"

definition track_step :: "mon_env \<Rightarrow> instant \<Rightarrow> instant list \<times> bool \<Rightarrow> instant list \<times> bool" where
  "track_step env t x =
     (if snd x then x
      else let w = win_record (me_window env) t (fst x) in (w, int (length w) \<ge> me_threshold env))"

definition mon_is :: "monitor \<Rightarrow> mst \<Rightarrow> bool" where
  "mon_is m s = (mo_windows (ms_mon s) = mo_windows m \<and> mo_tripped (ms_mon s) = mo_tripped m)"

lemma keeps_mon_is:
  "keeps (mon_is m) (mdb op)" "keeps (mon_is m) (mout e)"
  "(\<And>x. mo_windows (f x) = mo_windows x \<and> mo_tripped (f x) = mo_tripped x) \<Longrightarrow> keeps (mon_is m) (on_mon f)"
  by (auto simp: keeps_def mdb_def mout_def on_mon_def act_def mon_is_def split: prod.split)

lemma keeps_mon_is_ops:
  "keeps (mon_is m) (runtime_log a svc msg)" "keeps (mon_is m) (trip env project svc ev count)"
  "keeps (mon_is m) (maybe_handle_oom env project svc ev)"
  unfolding runtime_log_def trip_def maybe_handle_oom_def Let_def
  by (intro vac_wp keeps_mon_is; simp)+

lemma mon_is_refl [simp]: "mon_is (ms_mon s) s"
  by (simp add: mon_is_def)

lemma track_mon_is: "mon_is m s \<Longrightarrow> track key (ms_mon s) = track key m"
  by (simp add: mon_is_def track_def)

lemma track_forget: "track key (forget k m) = (if key = k then ([], False) else track key m)"
  by (simp add: track_def forget_def)

lemma track_note_death:
  "track key (ms_mon (snd (note_death env k t s)))
   = (if key = k then track_step env t (track key (ms_mon s)) else track key (ms_mon s))"
  by (auto simp: note_death_def track_def track_step_def Let_def split: option.split)

lemma note_death_result:
  "fst (note_death env k t s) = Inr (if \<not> snd (track k (ms_mon s)) \<and> snd (track_step env t (track k (ms_mon s)))
     then Some (length (fst (track_step env t (track k (ms_mon s))))) else None)"
  by (auto simp: note_death_def track_def track_step_def Let_def split: option.split)

text \<open>The state after the OOM check: same windows, same trips.\<close>

lemma oom_mon_is: "mon_is (ms_mon s) (snd (maybe_handle_oom env p svc ev s))"
  using keepsD [OF keeps_mon_is_ops(3), of "ms_mon s" s env p svc ev] by simp

lemma and_then_ignore: "and_then (ignore m) f s = f () (snd (m s))"
  by (simp add: and_then_def ignore_def)

lemma handle_track:
  "track key (ms_mon (snd (handle env e s)))
   = (if ends_episode key e then ([], False)
      else if crash key e then track_step env (event_time e) (track key (ms_mon s))
      else track key (ms_mon s))"
proof -
  let ?p = "ev_project e" and ?v = "ev_service e"
  let ?k = "mon_key ?p ?v"
  let ?s1 = "snd (maybe_handle_oom env ?p ?v e s)"
  have same: "track key (ms_mon ?s1) = track key (ms_mon s)" by (rule track_mon_is [OF oom_mon_is])
  have after: "track key (ms_mon (snd (and_then (note_death env ?k (event_time e))
      (\<lambda>r. case r of None \<Rightarrow> ret () | Some count \<Rightarrow> trip env ?p ?v e count) ?s1)))
    = track key (ms_mon (snd (note_death env ?k (event_time e) ?s1)))"
  proof -
    obtain r s2 where n: "note_death env ?k (event_time e) ?s1 = (Inr r, s2)"
      using note_death_result [of env ?k "event_time e" ?s1]
      by (cases "note_death env ?k (event_time e) ?s1") auto
    have "track key (ms_mon (snd (trip env ?p ?v e c s2))) = track key (ms_mon s2)" for c
      by (rule track_mon_is) (use keepsD [OF keeps_mon_is_ops(2), of "ms_mon s2" s2] in simp)
    then show ?thesis using n by (cases r) (simp_all add: and_then_def ret_def)
  qed
  show ?thesis
  proof (cases "has_prefix ?p project_prefix \<and> ?v \<noteq> [] \<and> ev_action e = ''die''")
    case True
    then have "handle env e s = (if parse_exit_code (ev_exit_code e) = Some 0 then (Inr (), ?s1)
        else and_then (note_death env ?k (event_time e))
          (\<lambda>r. case r of None \<Rightarrow> ret () | Some count \<Rightarrow> trip env ?p ?v e count) ?s1)"
      by (simp add: handle_def Let_def and_then_ignore ret_def [THEN fun_cong])
    with True same after show ?thesis
      by (auto simp: crash_def ends_episode_def track_note_death)
  next
    case False
    then show ?thesis
      by (auto simp: handle_def Let_def crash_def ends_episode_def ret_def on_mon_def act_def track_forget)
  qed
qed

section \<open>Runs\<close>

lemma run_monitor_append: "run_monitor env (xs @ ys) s = run_monitor env ys (run_monitor env xs s)"
  by (induction xs arbitrary: s) simp_all

text \<open>The deaths that count for a service, in order.\<close>

definition deaths :: "string \<Rightarrow> devent list \<Rightarrow> instant list" where
  "deaths key es = map event_time (filter (crash key) es)"

lemma run_track:
  assumes "\<not> list_ex (ends_episode key) es"
  shows "track key (ms_mon (run_monitor env es s)) = fold (track_step env) (deaths key es) (track key (ms_mon s))"
  using assms by (induction es arbitrary: s) (simp_all add: deaths_def handle_track)

text \<open>The window of a sorted sequence of deaths, and the reference condition for a trip.\<close>

definition within :: "duration \<Rightarrow> instant list \<Rightarrow> instant \<Rightarrow> instant list" where
  "within d ts now = filter (\<lambda>t. now - d < t) ts"

definition trips_by :: "int \<Rightarrow> duration \<Rightarrow> instant list \<Rightarrow> bool" where
  "trips_by threshold d ts = (\<exists>n<length ts. threshold \<le> int (length (within d (take (Suc n) ts) (ts ! n))))"

lemma dropWhile_sorted: "sorted ts \<Longrightarrow> dropWhile (\<lambda>t. \<not> (t::int) > c) ts = filter (\<lambda>t. c < t) ts"
  by (induction ts) (auto simp: filter_empty_conv intro!: filter_True [symmetric])

lemma win_record_sorted:
  assumes "sorted (ts @ [t])" and "d > 0"
  shows "win_record d t (if ts = [] then [] else within d ts (last ts)) = within d (ts @ [t]) t"
proof (cases "ts = []")
  case False
  then have le: "last ts \<le> t" using assms(1) by (simp add: sorted_append)
  have "sorted (within d ts (last ts) @ [t])"
    using assms(1) by (auto simp: within_def sorted_append sorted_wrt_filter)
  then have "win_record d t (within d ts (last ts)) = filter (\<lambda>x. t - d < x) (within d ts (last ts) @ [t])"
    by (simp add: win_record_def win_trim_def dropWhile_sorted)
  also have "\<dots> = within d (ts @ [t]) t" using le by (auto simp: within_def intro: filter_cong)
  finally show ?thesis using False by simp
qed (use assms(2) in \<open>simp add: win_record_def win_trim_def within_def\<close>)

lemma trips_by_snoc:
  "trips_by k d (ts @ [t]) \<longleftrightarrow> trips_by k d ts \<or> k \<le> int (length (within d (ts @ [t]) t))"
proof -
  let ?P = "\<lambda>us n. k \<le> int (length (within d (take (Suc n) us) (us ! n)))"
  have old: "?P (ts @ [t]) n = ?P ts n" if "n < length ts" for n using that by (simp add: nth_append)
  have new: "?P (ts @ [t]) (length ts) = (k \<le> int (length (within d (ts @ [t]) t)))" by simp
  have "(\<exists>n<Suc (length ts). ?P (ts @ [t]) n) \<longleftrightarrow> (\<exists>n<length ts. ?P (ts @ [t]) n) \<or> ?P (ts @ [t]) (length ts)"
    by (metis less_Suc_eq)
  then show ?thesis unfolding trips_by_def new using old by (simp del: take_append) (metis length_append_singleton)
qed

lemma fold_track_sorted:
  assumes "sorted ts" and "me_window env > 0"
  shows "snd (fold (track_step env) ts ([], False)) = trips_by (me_threshold env) (me_window env) ts
    \<and> (\<not> trips_by (me_threshold env) (me_window env) ts \<longrightarrow>
        fst (fold (track_step env) ts ([], False)) = (if ts = [] then [] else within (me_window env) ts (last ts)))"
  using assms(1)
proof (induction ts rule: rev_induct)
  case Nil
  then show ?case by (simp add: trips_by_def)
next
  case (snoc t ts)
  have "sorted ts" using snoc.prems by (simp add: sorted_append)
  note IH = snoc.IH [OF this]
  show ?case
    using IH win_record_sorted [OF snoc.prems assms(2)]
    by (auto simp: track_step_def Let_def trips_by_snoc)
qed

text \<open>
  C34: the monitor trips exactly on the configured rate. For any sequence of docker events that does
  not end the episode of a service, in which the abnormal deaths of that service come in order of
  time, and from a state that does not track it yet: the service is in crash-loop at the end
  exactly when at some of its deaths the number of its deaths in the window that ends there reaches
  the threshold. Clean exits, other services and other projects play no part.
\<close>

theorem crash_loop_trips_at_rate:
  assumes "me_window env > 0" and "\<not> list_ex (ends_episode key) es" and "sorted (deaths key es)"
    and "mo_windows (ms_mon s) key = None" and "key \<notin> mo_tripped (ms_mon s)"
  shows "key \<in> mo_tripped (ms_mon (run_monitor env es s))
    \<longleftrightarrow> trips_by (me_threshold env) (me_window env) (deaths key es)"
proof -
  have "track key (ms_mon s) = ([], False)" using assms(4,5) by (simp add: track_def)
  then have "snd (track key (ms_mon (run_monitor env es s)))
      = trips_by (me_threshold env) (me_window env) (deaths key es)"
    using run_track [OF assms(2), of env s] fold_track_sorted [OF assms(3,1)] by simp
  then show ?thesis by (simp add: track_def)
qed

section \<open>Stopping\<close>

definition stops :: "string \<Rightarrow> string \<Rightarrow> mst \<Rightarrow> nat" where
  "stops p v s = length (filter (\<lambda>x. x = MStop p v) (ms_out s))"

lemma keeps_stops:
  "keeps (\<lambda>s. stops p v s = n) (mdb op)" "e \<noteq> MStop p v \<Longrightarrow> keeps (\<lambda>s. stops p v s = n) (mout e)"
  "keeps (\<lambda>s. stops p v s = n) (on_mon f)" "keeps (\<lambda>s. stops p v s = n) (runtime_log a svc msg)"
proof -
  show db: "keeps (\<lambda>s. stops p v s = n) (mdb op)" for op :: "'a dbop"
    by (auto simp: keeps_def mdb_def stops_def split: prod.split)
  show out: "e \<noteq> MStop p v \<Longrightarrow> keeps (\<lambda>s. stops p v s = n) (mout e)" for e
    by (simp add: keeps_def mout_def act_def stops_def)
  show "keeps (\<lambda>s. stops p v s = n) (on_mon f)"
    by (simp add: keeps_def on_mon_def act_def stops_def)
  show "keeps (\<lambda>s. stops p v s = n) (runtime_log a svc msg)"
    unfolding runtime_log_def
    by (intro vac_wp) (auto simp: keeps_def mdb_def mout_def act_def stops_def split: prod.split)
qed

lemma stops_oom: "stops p v (snd (maybe_handle_oom env q w ev s)) = stops p v s"
proof -
  have "keeps (\<lambda>t. stops p v t = stops p v s) (maybe_handle_oom env q w ev)"
    unfolding maybe_handle_oom_def Let_def by (intro vac_wp keeps_stops) simp_all
  then show ?thesis by (simp add: keeps_def)
qed

lemma stops_note_death: "stops p v (snd (note_death env k t s)) = stops p v s"
  by (simp add: note_death_def stops_def Let_def)

text \<open>What follows the lookup of the app in trip, and the whole of it.\<close>

lemma stops_trip:
  "stops p v (snd (trip env q w ev c s)) \<le> stops p v s + (if q = p \<and> w = v then 1 else 0)"
proof -
  obtain r s1 where g: "map_err (\<lambda>_. ()) (mdb (get_app_by_slug (trim_prefix q project_prefix))) s = (r, s1)" by fastforce
  have s1: "stops p v s1 = stops p v s"
    using g by (auto simp: map_err_def mdb_def stops_def split: prod.splits sum.splits)
  let ?s2 = "s1\<lparr>ms_out := ms_out s1 @ [MStop q w]\<rparr>"
  have s2: "stops p v ?s2 \<le> stops p v s + (if q = p \<and> w = v then 1 else 0)"
    using s1 by (simp add: stops_def)
  show ?thesis
  proof (cases r)
    case (Inl e)
    then show ?thesis using g s1 by (simp add: trip_def and_then_def)
  next
    case (Inr ap)
    define rest :: "unit mon_op" where "rest =
      (let ec = parse_exit_code (ev_exit_code ev)
       in and_then (ignore (mdb (update_service_status (a_id ap) w St_CrashLoop ec))) (\<lambda>_.
        and_then (ignore (mdb (increment_service_restart (a_id ap) w))) (\<lambda>_.
        and_then (runtime_log (a_id ap) w (''crash-loop: stopped after '' @ show_int (int c) @ '' restarts in ''
                    @ duration_string (me_window env) @ exit_suffix ec)) (\<lambda>_.
        if me_notifier env then mout (MCrashLoop (a_name ap) (a_id ap) w c ec) else ret ()))))"
    have "keeps (\<lambda>t. stops p v t = stops p v ?s2) rest"
      unfolding rest_def Let_def by (intro vac_wp keeps_stops) simp_all
    then have "stops p v (snd (rest ?s2)) = stops p v ?s2" by (simp add: keeps_def)
    moreover have "trip env q w ev c s = rest ?s2"
      using g Inr by (simp add: trip_def rest_def and_then_def mout_def act_def)
    ultimately show ?thesis using s2 by simp
  qed
qed

lemma handle_die:
  assumes "crash key e"
  shows "handle env e s = and_then (note_death env key (event_time e))
    (\<lambda>r. case r of None \<Rightarrow> ret () | Some count \<Rightarrow> trip env (ev_project e) (ev_service e) e count)
    (snd (maybe_handle_oom env (ev_project e) (ev_service e) e s))"
  using assms by (simp add: handle_def crash_def Let_def and_then_ignore)

lemma handle_other:
  assumes "\<not> crash (mon_key (ev_project e) (ev_service e)) e"
  shows "stops p v (snd (handle env e s)) = stops p v s"
  using assms
  by (auto simp: handle_def crash_def Let_def and_then_ignore ret_def stops_oom on_mon_def act_def stops_def [of p v "s\<lparr>ms_mon := x\<rparr>" for x]
      stops_def [of p v s])

lemma handle_stops:
  assumes "\<not> ends_episode (mon_key p v) e"
  shows "stops p v (snd (handle env e s)) + of_bool (snd (track (mon_key p v) (ms_mon s)))
    \<le> stops p v s + of_bool (snd (track (mon_key p v) (ms_mon (snd (handle env e s)))))"
proof (cases "crash (mon_key (ev_project e) (ev_service e)) e")
  case False
  then have "\<not> crash (mon_key p v) e" by (auto simp: crash_def)
  with False show ?thesis using assms by (simp add: handle_other handle_track)
next
  case True
  let ?k = "mon_key (ev_project e) (ev_service e)"
  let ?s1 = "snd (maybe_handle_oom env (ev_project e) (ev_service e) e s)"
  let ?x = "track ?k (ms_mon s)"
  let ?y = "track_step env (event_time e) ?x"
  have tr: "track k (ms_mon ?s1) = track k (ms_mon s)" for k by (rule track_mon_is [OF oom_mon_is])
  obtain s2 where n: "note_death env ?k (event_time e) ?s1
      = (Inr (if \<not> snd ?x \<and> snd ?y then Some (length (fst ?y)) else None), s2)"
    using note_death_result [of env ?k "event_time e" ?s1] tr
    by (cases "note_death env ?k (event_time e) ?s1") auto
  have s2: "stops p v s2 = stops p v s"
    using stops_note_death [of p v env ?k "event_time e" ?s1] n by (simp add: stops_oom)
  have mono: "snd ?x \<Longrightarrow> snd ?y" by (simp add: track_step_def)
  have after: "stops p v (snd (handle env e s)) \<le> stops p v s
      + of_bool (ev_project e = p \<and> ev_service e = v \<and> \<not> snd ?x \<and> snd ?y)"
    using n s2 stops_trip [of p v env "ev_project e" "ev_service e" e "length (fst ?y)" s2]
    by (cases "\<not> snd ?x \<and> snd ?y") (auto simp: handle_die [OF True] and_then_def ret_def)
  show ?thesis
  proof (cases "?k = mon_key p v")
    case True
    then have "track (mon_key p v) (ms_mon (snd (handle env e s))) = ?y"
      using assms \<open>crash ?k e\<close> by (simp add: handle_track)
    moreover have "of_bool (ev_project e = p \<and> ev_service e = v \<and> \<not> snd ?x \<and> snd ?y) + of_bool (snd ?x) \<le> (of_bool (snd ?y) :: nat)"
      using mono by simp
    ultimately show ?thesis using after unfolding True [symmetric] by simp
  next
    case False
    then have "\<not> crash (mon_key p v) e" "ev_project e \<noteq> p \<or> ev_service e \<noteq> v"
      by (auto simp: crash_def mon_key_def)
    moreover from this(2) have "\<not> (ev_project e = p \<and> ev_service e = v \<and> \<not> snd ?x \<and> snd ?y)" by blast
    ultimately show ?thesis using after assms by (simp only: handle_track of_bool_eq if_False)
  qed
qed

lemma run_stops:
  "\<not> list_ex (ends_episode (mon_key p v)) es \<Longrightarrow>
   stops p v (run_monitor env es s) + of_bool (snd (track (mon_key p v) (ms_mon s)))
     \<le> stops p v s + of_bool (snd (track (mon_key p v) (ms_mon (run_monitor env es s))))"
proof (induction es arbitrary: s)
  case (Cons e es)
  then have "stops p v (snd (handle env e s)) + of_bool (snd (track (mon_key p v) (ms_mon s)))
    \<le> stops p v s + of_bool (snd (track (mon_key p v) (ms_mon (snd (handle env e s)))))"
    by (intro handle_stops) simp
  moreover have "stops p v (run_monitor env es (snd (handle env e s))) + of_bool (snd (track (mon_key p v) (ms_mon (snd (handle env e s)))))
    \<le> stops p v (snd (handle env e s)) + of_bool (snd (track (mon_key p v) (ms_mon (run_monitor env es (snd (handle env e s))))))"
    using Cons by simp
  ultimately show ?case by simp
qed simp

text \<open>The windows stay small.\<close>

definition win_ok :: "mon_env \<Rightarrow> instant list \<times> bool \<Rightarrow> bool" where
  "win_ok env x = (int (length (fst x)) \<le> me_threshold env \<and> (snd x \<or> int (length (fst x)) < me_threshold env))"

lemma length_win_record: "length (win_record d t w) \<le> Suc (length w)"
  unfolding win_record_def win_trim_def using length_dropWhile_le [of _ "w @ [t]"] by (metis length_append_singleton)

lemma win_ok_step: "win_ok env x \<Longrightarrow> win_ok env (track_step env t x)"
  using length_win_record [of "me_window env" t "fst x"] by (auto simp: win_ok_def track_step_def Let_def)

lemma win_ok_run:
  "me_threshold env > 0 \<Longrightarrow> win_ok env (track key (ms_mon s)) \<Longrightarrow> win_ok env (track key (ms_mon (run_monitor env es s)))"
proof (induction es arbitrary: s)
  case (Cons e es)
  then have "win_ok env (track key (ms_mon (snd (handle env e s))))"
    by (simp add: handle_track win_ok_step) (simp add: win_ok_def)
  with Cons show ?case by simp
qed simp

text \<open>
  C35: an episode stops a service at most once. Between two ends of an episode the monitor asks
  docker to stop a service at most once, whatever events arrive in whatever order and however the
  database answers, and not at all when the service is in crash-loop already. The tracking never
  holds more deaths of a service than the threshold.
\<close>

theorem crash_loop_one_stop_per_episode:
  assumes "\<not> list_ex (ends_episode (mon_key p v)) es" and "me_threshold env > 0"
  shows "stops p v (run_monitor env es s) \<le> stops p v s + (if mon_key p v \<in> mo_tripped (ms_mon s) then 0 else 1)
    \<and> (ms_mon s = new_monitor \<and> mo_windows (ms_mon (run_monitor env evs s)) k = Some w \<longrightarrow> int (length w) \<le> me_threshold env)"
proof -
  have "win_ok env (track k new_monitor)" using assms(2) by (simp add: win_ok_def track_def new_monitor_def)
  then have "ms_mon s = new_monitor \<Longrightarrow> win_ok env (track k (ms_mon (run_monitor env evs s)))"
    using win_ok_run [OF assms(2)] by simp
  then have w: "ms_mon s = new_monitor \<and> mo_windows (ms_mon (run_monitor env evs s)) k = Some w \<longrightarrow> int (length w) \<le> me_threshold env"
    by (auto simp: win_ok_def track_def)
  have "stops p v (run_monitor env es s) \<le> stops p v s + (if snd (track (mon_key p v) (ms_mon s)) then 0 else 1)"
    using run_stops [OF assms(1), of env s]
    by (cases "snd (track (mon_key p v) (ms_mon s))";
        cases "snd (track (mon_key p v) (ms_mon (run_monitor env es s)))") simp_all
  with w show ?thesis by (simp add: track_def)
qed

lemma stops_mono: "stops p v s \<le> stops p v (snd (handle env e s))"
proof -
  have parts: "keeps (\<lambda>u. n \<le> stops p v u) (mdb op)" "keeps (\<lambda>u. n \<le> stops p v u) (mout o')"
    "keeps (\<lambda>u. n \<le> stops p v u) (on_mon f)" "keeps (\<lambda>u. n \<le> stops p v u) (note_death env k' t')"
    for op :: "'x dbop" and o' f k' t' n
    by (auto simp: keeps_def mdb_def mout_def on_mon_def act_def stops_def note_death_def Let_def split: prod.split)
  have "keeps (\<lambda>u. n \<le> stops p v u) (handle env e)" for n
    unfolding handle_def maybe_handle_oom_def trip_def runtime_log_def Let_def by (intro vac_wp parts)
  then show ?thesis by (simp add: keeps_def)
qed

lemma stops_mono_run: "stops p v s \<le> stops p v (run_monitor env es s)"
  by (induction es arbitrary: s) (auto intro: order_trans [OF stops_mono])

text \<open>
  A trip whose lookup of the app fails is lost. When the death that reaches the threshold meets
  a failing database call, the service is marked as tripped all the same but docker is never asked
  to stop it, and every later death of the service is ignored, however well the database works by
  then, until its container is removed or the operator resets it.
\<close>

theorem crash_loop_lost_on_lookup_failure:
  assumes "crash (mon_key p v) e" and "ev_project e = p" and "ev_service e = v" and "me_inspector env = None"
    and "mon_key p v \<notin> mo_tripped (ms_mon s)" and "mon_key p v \<in> mo_tripped (ms_mon (snd (handle env e s)))"
    and "db_fault (ms_db s) (db_calls (ms_db s))" and "\<not> list_ex (ends_episode (mon_key p v)) es"
  shows "stops p v (run_monitor env (e # es) s) = stops p v s
    \<and> mon_key p v \<in> mo_tripped (ms_mon (run_monitor env (e # es) s))"
proof -
  let ?k = "mon_key p v"
  have s1: "snd (maybe_handle_oom env p v e s) = s" using assms(4) by (simp add: maybe_handle_oom_def ret_def)
  obtain r s2 where n: "note_death env ?k (event_time e) s = (Inr r, s2)"
    using note_death_result [of env ?k "event_time e" s] by (cases "note_death env ?k (event_time e) s") auto
  have db: "ms_db s2 = ms_db s" "stops p v s2 = stops p v s"
    using n stops_note_death [of p v env ?k "event_time e" s]
    by (auto simp: note_death_def Let_def split: if_splits)
  have "stops p v (snd (trip env p v e c s2)) = stops p v s2" for c
    using assms(7) db(1)
    by (simp add: trip_def and_then_def map_err_def mdb_def get_app_by_slug_def db_call_def Let_def stops_def)
  then have h: "stops p v (snd (handle env e s)) = stops p v s"
    using n db(2) s1 assms(2,3) by (cases r) (simp_all add: handle_die [OF assms(1)] and_then_def ret_def)
  have mono: "snd (fold (track_step env) ts x)" if "snd x" for ts x
    using that by (induction ts arbitrary: x) (simp_all add: track_step_def)
  have t: "snd (track ?k (ms_mon (snd (handle env e s))))" using assms(6) by (simp add: track_def)
  then have end_: "snd (track ?k (ms_mon (run_monitor env es (snd (handle env e s)))))"
    using run_track [OF assms(8), of env "snd (handle env e s)"] mono by simp
  have le: "stops p v (run_monitor env es (snd (handle env e s))) \<le> stops p v (snd (handle env e s))"
    using run_stops [OF assms(8), of env "snd (handle env e s)"] t end_ by simp
  have "stops p v (run_monitor env es (snd (handle env e s))) = stops p v s"
    using le h stops_mono_run [of p v "snd (handle env e s)" env es] by simp
  then show ?thesis using end_ by (simp add: track_def)
qed

section \<open>Concrete runs\<close>

definition demo_mon :: mon_env where
  "demo_mon = new_mon_env 2 (2 * minute) None True"

definition demo_die :: "int \<Rightarrow> devent" where
  "demo_die t = \<lparr>ev_action = ''die'', ev_project = ''vac-a'', ev_service = ''web'', ev_exit_code = ''1'',
     ev_actor_id = ''c'', ev_id = [], ev_time = t, ev_time_nano = 0\<rparr>"

definition demo_mst :: "(nat \<Rightarrow> bool) \<Rightarrow> mst" where
  "demo_mst f = \<lparr>ms_mon = new_monitor, ms_db = empty_db\<lparr>apps := [maint_app ''a'' False], db_fault := f\<rparr>, ms_out = []\<rparr>"

lemma demo_die_facts:
  "crash (mon_key ''vac-a'' ''web'') (demo_die t)" "\<not> ends_episode k (demo_die t)" "event_time (demo_die t) = t * second"
  "ev_project (demo_die t) = ''vac-a''" "ev_service (demo_die t) = ''web''"
proof -
  have "parse_exit_code ''1'' = Some 1" by code_simp
  then show "crash (mon_key ''vac-a'' ''web'') (demo_die t)"
    by (simp add: crash_def demo_die_def has_prefix_def project_prefix_def)
qed (simp_all add: ends_episode_def demo_die_def event_time_def)

lemma demo_mon_facts:
  "me_window demo_mon = 2 * minute" "me_threshold demo_mon = 2" "me_inspector demo_mon = None"
  by (simp_all add: demo_mon_def new_mon_env_def)

lemma demo_mst_facts:
  "ms_mon (demo_mst f) = new_monitor" "mo_windows new_monitor k = None" "k \<notin> mo_tripped new_monitor"
  "stops p v (demo_mst f) = 0" "db_fault (ms_db (demo_mst f)) = f"
  by (simp_all add: demo_mst_def new_monitor_def stops_def)

lemma demo_trip: "trips_by 2 (2 * minute) [1 * second, 30 * second]"
  unfolding trips_by_def by (rule exI [of _ 1]) (simp add: within_def)

theorem crash_loop_trips_at_rate_witness:
  "mon_key ''vac-a'' ''web'' \<in> mo_tripped (ms_mon (run_monitor demo_mon [demo_die 1, demo_die 30] (demo_mst (\<lambda>_. False))))"
  using crash_loop_trips_at_rate [where env = demo_mon and key = "mon_key ''vac-a'' ''web''"
      and es = "[demo_die 1, demo_die 30]" and s = "demo_mst (\<lambda>_. False)"] demo_trip
  by (simp add: demo_mon_facts demo_mst_facts demo_die_facts deaths_def)

theorem crash_loop_one_stop_per_episode_witness:
  "stops ''vac-a'' ''web'' (run_monitor demo_mon [demo_die 1, demo_die 30, demo_die 40] (demo_mst (\<lambda>_. False))) \<le> 1"
  using crash_loop_one_stop_per_episode [where env = demo_mon and p = "''vac-a''" and v = "''web''"
      and es = "[demo_die 1, demo_die 30, demo_die 40]" and s = "demo_mst (\<lambda>_. False)"]
  by (simp add: demo_mon_facts demo_mst_facts demo_die_facts)

theorem crash_loop_lost_on_lookup_failure_witness:
  "stops ''vac-a'' ''web'' (run_monitor demo_mon [demo_die 30, demo_die 40]
     (run_monitor demo_mon [demo_die 1] (demo_mst (\<lambda>n. n = 0)))) = 0"
proof -
  let ?s = "run_monitor demo_mon [demo_die 1] (demo_mst (\<lambda>n. n = 0))"
  let ?k = "mon_key ''vac-a'' ''web''"
  have two: "mon_key ''vac-a'' ''web'' \<in> mo_tripped (ms_mon (snd (handle demo_mon (demo_die 30) ?s)))
     \<and> ?k \<notin> mo_tripped (ms_mon ?s) \<and> stops ''vac-a'' ''web'' ?s = 0 \<and> db_fault (ms_db ?s) (db_calls (ms_db ?s))"
    by (simp add: handle_die [OF demo_die_facts(1)] maybe_handle_oom_def demo_mon_facts and_then_def note_death_def
        demo_mst_facts demo_die_facts Let_def ret_def win_record_def win_trim_def demo_mst_def empty_db_def stops_def
        trip_def map_err_def mdb_def get_app_by_slug_def db_call_def)
  from crash_loop_lost_on_lookup_failure [OF demo_die_facts(1,4,5) demo_mon_facts(3), of ?s 30 "[demo_die 40]"] two
  show ?thesis by (simp add: demo_die_facts)
qed

end
