(* ===== verification/Job_Scheduler.thy ===== *)
theory Job_Scheduler
  imports Store_Base
begin

text \<open>
  User-defined jobs: the rows of api/internal/store/jobs.go, the scheduler of
  api/internal/jobs/scheduler.go with its overlap guard, and one run of a job as in
  api/internal/jobs/engine.go. The backup scheduler and the retention pruner compute their next
  run the same way (api/internal/backup/scheduler.go, api/internal/retention/pruner.go). The host's
  time zone, the clock and the command execution are arguments; goroutines are steps.
\<close>

section \<open>Rows\<close>

record scheduled_job =
  sj_id :: string
  sj_app :: string
  sj_name :: string
  sj_service :: string
  sj_command :: string
  sj_frequency :: string
  sj_interval :: "int option"
  sj_hour :: int
  sj_dow :: "int option"
  sj_timeout :: int
  sj_enabled :: bool
  sj_last_run :: "instant option"
  sj_next_run :: "instant option"

record job_run =
  jr_id :: string
  jr_job :: string
  jr_started_at :: instant
  jr_finished_at :: "instant option"
  jr_status :: string
  jr_exit_code :: "int option"
  jr_output :: "string option"
  jr_error :: "string option"

section \<open>The next occurrence\<close>

text \<open>time.Date of the day of an instant at a full hour.\<close>

definition day_at_hour :: "location \<Rightarrow> instant \<Rightarrow> int \<Rightarrow> instant" where
  "day_at_hour loc now hr = date_in loc (local_day loc now * 86400 + hr * 3600) 0"

text \<open>The daily and weekly cases, as in the backup scheduler.\<close>

definition next_daily_weekly :: "location \<Rightarrow> instant \<Rightarrow> string \<Rightarrow> int \<Rightarrow> int option \<Rightarrow> instant" where
  "next_daily_weekly loc now freq hr0 dow =
     (let hr = (if hr0 < 0 \<or> hr0 > 23 then 3 else hr0);
          base = day_at_hour loc now hr
      in case (if freq = ''weekly'' then dow else None) of
           Some d \<Rightarrow>
             (let target = go_mod (go_mod d 7 + 7) 7;
                  ahead = go_mod (target - weekday loc now + 7) 7;
                  cand = add_days loc base ahead
              in if \<not> cand > now then add_days loc cand 7 else cand)
         | None \<Rightarrow> if \<not> base > now then add_days loc base 1 else base)"

definition next_interval :: "instant \<Rightarrow> int option \<Rightarrow> instant option \<Rightarrow> instant" where
  "next_interval now mins prev =
     (let step0 = (case mins of Some m \<Rightarrow> dur_mul m minute | None \<Rightarrow> 0);
          step = (if step0 \<le> 0 then hour else step0);
          anchor = (case prev of Some t \<Rightarrow> t | None \<Rightarrow> now);
          cand = anchor + step
      in if \<not> cand > now
         then cand + dur_mul (wrap64 (go_div (time_sub now cand) step + 1)) step
         else cand)"

definition next_occurrence :: "location \<Rightarrow> instant \<Rightarrow> scheduled_job \<Rightarrow> instant" where
  "next_occurrence loc now j =
     (if sj_frequency j = ''interval'' then next_interval now (sj_interval j) (sj_last_run j)
      else next_daily_weekly loc now (sj_frequency j) (sj_hour j) (sj_dow j))"

text \<open>timeUntilNext of the pruner.\<close>

definition time_until_next :: "location \<Rightarrow> instant \<Rightarrow> int \<Rightarrow> duration" where
  "time_until_next loc now hr =
     (let n = day_at_hour loc now hr; n' = (if \<not> n > now then n + 24 * hour else n) in time_sub n' now)"

section \<open>The scheduler\<close>

definition running_job :: "string \<Rightarrow> string set \<Rightarrow> bool" where
  "running_job i fl = (i \<in> fl)"

text \<open>markRunning: false, and no change, when the job is in flight.\<close>

definition mark_running :: "string \<Rightarrow> string set \<Rightarrow> bool \<times> string set" where
  "mark_running i fl = (if i \<in> fl then (False, fl) else (True, insert i fl))"

definition clear_running :: "string \<Rightarrow> string set \<Rightarrow> string set" where
  "clear_running i fl = fl - {i}"

text \<open>One round of Run: the snapshot of the due times, the wait, and what is due afterwards.\<close>

definition plan_items :: "location \<Rightarrow> instant \<Rightarrow> string set \<Rightarrow> scheduled_job list \<Rightarrow> (scheduled_job \<times> instant) list" where
  "plan_items loc now fl jobs =
     map (\<lambda>j. (j, next_occurrence loc now j)) (filter (\<lambda>j. \<not> running_job (sj_id j) fl) jobs)"

fun soonest_from :: "instant option \<Rightarrow> (scheduled_job \<times> instant) list \<Rightarrow> instant option" where
  "soonest_from acc [] = acc"
| "soonest_from acc ((j, t) # xs) =
     soonest_from (case acc of None \<Rightarrow> Some t | Some u \<Rightarrow> if t < u then Some t else Some u) xs"

definition plan_wait :: "duration \<Rightarrow> instant \<Rightarrow> (scheduled_job \<times> instant) list \<Rightarrow> duration" where
  "plan_wait idle now items =
     (case soonest_from None items of
        None \<Rightarrow> idle
      | Some t \<Rightarrow> (let d = time_sub t now in if d > 0 then d else 0))"

definition due_jobs :: "instant \<Rightarrow> (scheduled_job \<times> instant) list \<Rightarrow> scheduled_job list" where
  "due_jobs after items = map fst (filter (\<lambda>x. \<not> snd x > after) items)"

record sched =
  sc_in_flight :: "string set"
  sc_runs :: "string list"        \<comment> \<open>the goroutines started by dispatch that have not ended\<close>
  sc_items :: "(scheduled_job \<times> instant) list"
  sc_wake :: bool
  sc_skipped :: nat

definition new_sched :: sched where
  "new_sched = \<lparr>sc_in_flight = {}, sc_runs = [], sc_items = [], sc_wake = False, sc_skipped = 0\<rparr>"

definition dispatch :: "scheduled_job \<Rightarrow> sched \<Rightarrow> sched" where
  "dispatch j s =
     (case mark_running (sj_id j) (sc_in_flight s) of
        (False, _) \<Rightarrow> s\<lparr>sc_skipped := Suc (sc_skipped s)\<rparr>
      | (True, fl) \<Rightarrow> s\<lparr>sc_in_flight := fl, sc_runs := sc_runs s @ [sj_id j]\<rparr>)"

text \<open>The deferred end of a run: it frees the slot and wakes the loop, on a panic as well.\<close>

definition run_ended :: "string \<Rightarrow> sched \<Rightarrow> sched" where
  "run_ended i s = s\<lparr>sc_in_flight := clear_running i (sc_in_flight s), sc_runs := remove1 i (sc_runs s), sc_wake := True\<rparr>"

inductive sched_step :: "location \<Rightarrow> sched \<Rightarrow> sched \<Rightarrow> bool" for loc where
  ss_plan: "sched_step loc s (s\<lparr>sc_items := plan_items loc now (sc_in_flight s) jobs\<rparr>)"
| ss_dispatch: "sched_step loc s ((fold dispatch (due_jobs after (sc_items s)) s)\<lparr>sc_items := [], sc_wake := False\<rparr>)"
| ss_end: "i \<in> set (sc_runs s) \<Longrightarrow> sched_step loc s (run_ended i s)"

inductive sched_reachable :: "location \<Rightarrow> sched \<Rightarrow> bool" for loc where
  sr_new: "sched_reachable loc new_sched"
| sr_next: "sched_reachable loc s \<Longrightarrow> sched_step loc s t \<Longrightarrow> sched_reachable loc t"

inductive_cases sched_stepE: "sched_step loc s t"

section \<open>The output buffer\<close>

text \<open>cappedBuffer.Write and its length bookkeeping; String gives the content.\<close>

definition capped_write :: "nat \<Rightarrow> string \<Rightarrow> string \<Rightarrow> string" where
  "capped_write cap p buf =
     (let over = (cap > 0 \<and> length p > cap);
          p' = (if over then drop (length p - cap) p else p);
          buf1 = (if over then [] else buf) @ p'
      in if cap > 0 \<and> length buf1 > cap then drop (length buf1 - cap) buf1 else buf1)"

definition output_cap :: nat where
  "output_cap = 16 * 1024"

section \<open>Facts about the next occurrence\<close>

lemma local_day_eq: "local_sec loc t = local_day loc t * 86400 + local_sec loc t mod 86400"
  by (simp add: local_day_def)

lemma fixed_instant: "t = (local_sec (fixed_zone k) t - k) * second + t mod second"
  by (simp add: local_sec_def fixed_zone_def unix_sec_def)

lemma fixed_less:
  assumes "t mod second = 0" and "local_sec (fixed_zone k) u < local_sec (fixed_zone k) t"
  shows "u < t"
  using assms by (simp add: local_sec_def fixed_zone_def unix_sec_def)

lemma day_at_hour_fixed:
  assumes "0 \<le> hr" and "hr \<le> 23"
  shows "local_sec (fixed_zone k) (day_at_hour (fixed_zone k) now hr) = local_day (fixed_zone k) now * 86400 + hr * 3600"
    and "day_at_hour (fixed_zone k) now hr mod second = 0"
  by (simp add: day_at_hour_def local_sec_date_fixed) (simp add: day_at_hour_def date_in_def Let_def)

lemma add_days_fixed: "t mod second = 0 \<Longrightarrow> add_days (fixed_zone k) t n = t + n * (86400 * second)"
  using mult_div_mod_eq [of second t]
  by (simp add: add_days_def date_in_def fixed_zone_def local_sec_def unix_sec_def Let_def algebra_simps)

lemma clock_hour_at:
  assumes "local_sec loc t = d * 86400 + hr * 3600" and "0 \<le> hr" and "hr \<le> 23"
  shows "clock_hour loc t = hr" and "local_day loc t = d" and "clock_minute loc t = 0"
  using assms by (simp_all add: clock_hour_def local_day_def clock_minute_def)

lemma weekday_shift: "weekday (fixed_zone k) (add_days (fixed_zone k) t n) = (weekday (fixed_zone k) t + n) mod 7"
  by (simp add: weekday_def local_day_add_days_fixed day_weekday_def mod_simps ac_simps)

lemma go_mod_7: "go_mod (go_mod d 7 + 7) 7 = d mod 7"
proof -
  have "go_div d 7 = (if d < 0 then - ((- d) div 7) else d div 7)"
    by (simp add: go_div_def sgn_if)
  then have "0 \<le> go_mod d 7 + 7 \<and> (go_mod d 7 + 7) mod 7 = d mod 7"
    unfolding go_mod_def by (cases "d < 0") (simp_all, presburger+)
  then show ?thesis by (simp add: go_mod_nonneg)
qed

definition hour_of :: "int \<Rightarrow> int" where
  "hour_of hr = (if hr < 0 \<or> hr > 23 then 3 else hr)"

lemma base_bounds:
  fixes now :: instant and k hr :: int
  defines "base \<equiv> day_at_hour (fixed_zone k) now (hour_of hr)"
  shows "base \<le> now + 24 * hour" "now - 24 * hour < base"
    "local_sec (fixed_zone k) base = local_day (fixed_zone k) now * 86400 + hour_of hr * 3600" "base mod second = 0"
proof -
  have h: "0 \<le> hour_of hr" "hour_of hr \<le> 23" by (auto simp: hour_of_def)
  show ls: "local_sec (fixed_zone k) base = local_day (fixed_zone k) now * 86400 + hour_of hr * 3600" "base mod second = 0"
    unfolding base_def by (rule day_at_hour_fixed [OF h])+
  have b: "base = (local_day (fixed_zone k) now * 86400 + hour_of hr * 3600 - k) * second"
    using fixed_instant [of base k] ls by simp
  have n: "now = (local_day (fixed_zone k) now * 86400 + local_sec (fixed_zone k) now mod 86400 - k) * second + now mod second"
    using fixed_instant [of now k] local_day_eq [of "fixed_zone k" now] by simp
  have r: "0 \<le> local_sec (fixed_zone k) now mod 86400" "local_sec (fixed_zone k) now mod 86400 < 86400"
    "0 \<le> now mod second" "now mod second < second" by simp_all
  show "base \<le> now + 24 * hour" using b n r h by (simp add: algebra_simps)
  show "now - 24 * hour < base" using b n r h by (simp add: algebra_simps)
qed

lemma next_daily:
  fixes now :: instant and k hr :: int and freq dow
  defines "n \<equiv> next_daily_weekly (fixed_zone k) now freq hr dow"
  assumes "freq \<noteq> ''weekly'' \<or> dow = None"
  shows "now < n \<and> n \<le> now + 24 * hour \<and> clock_hour (fixed_zone k) n = hour_of hr \<and> clock_minute (fixed_zone k) n = 0"
proof -
  let ?loc = "fixed_zone k"
  let ?base = "day_at_hour ?loc now (hour_of hr)"
  have h: "0 \<le> hour_of hr" "hour_of hr \<le> 23" by (auto simp: hour_of_def)
  have n: "n = (if \<not> ?base > now then add_days ?loc ?base 1 else ?base)"
    using assms(2) unfolding n_def by (auto simp: next_daily_weekly_def Let_def hour_of_def)
  note b = base_bounds [where k = k and now = now and hr = hr]
  have "local_sec ?loc (add_days ?loc ?base 1) = (local_day ?loc now + 1) * 86400 + hour_of hr * 3600"
    by (simp add: local_sec_add_days_fixed b(3))
  note c = clock_hour_at [OF this h] clock_hour_at [OF b(3) h]
  show ?thesis
    using b(1,2) c unfolding n by (auto simp: add_days_fixed [OF b(4)])
qed

lemma next_weekly:
  fixes now :: instant and k hr d :: int
  defines "n \<equiv> next_daily_weekly (fixed_zone k) now ''weekly'' hr (Some d)"
  shows "now < n \<and> n \<le> now + 7 * 24 * hour \<and> clock_hour (fixed_zone k) n = hour_of hr
    \<and> clock_minute (fixed_zone k) n = 0 \<and> weekday (fixed_zone k) n = d mod 7"
proof -
  let ?loc = "fixed_zone k"
  let ?base = "day_at_hour ?loc now (hour_of hr)"
  let ?a = "(d mod 7 - weekday ?loc now + 7) mod 7"
  have h: "0 \<le> hour_of hr" "hour_of hr \<le> 23" by (auto simp: hour_of_def)
  note b = base_bounds [where k = k and now = now and hr = hr]
  have w: "0 \<le> weekday ?loc now" "weekday ?loc now \<le> 6" using weekday_range [of ?loc now] by auto
  have dm: "0 \<le> d mod 7" by simp
  have "0 \<le> d mod 7 - weekday ?loc now + 7" using w dm by linarith
  then have a: "go_mod (d mod 7 - weekday ?loc now + 7) 7 = ?a" by (rule go_mod_nonneg) simp
  have aw: "0 \<le> ?a" "?a \<le> 6" using pos_mod_bound [of 7 "d mod 7 - weekday ?loc now + 7"] by simp_all
  let ?cand = "add_days ?loc ?base ?a"
  have n: "n = (if \<not> ?cand > now then add_days ?loc ?cand 7 else ?cand)"
    unfolding n_def by (simp add: next_daily_weekly_def Let_def go_mod_7 a hour_of_def [symmetric])
  have cand: "?cand = ?base + ?a * (86400 * second)" by (rule add_days_fixed [OF b(4)])
  then have "?cand = ?base + (?a * 86400) * second" by (simp only: mult.assoc)
  then have c0: "?cand mod second = 0" using b(4) by (simp only: mod_mult_self1)
  have cand7: "add_days ?loc ?cand 7 = ?cand + 7 * (86400 * second)" by (rule add_days_fixed [OF c0])
  have ls: "local_sec ?loc ?cand = (local_day ?loc now + ?a) * 86400 + hour_of hr * 3600"
    by (simp add: local_sec_add_days_fixed b(3) algebra_simps)
  then have ls7: "local_sec ?loc (add_days ?loc ?cand 7) = (local_day ?loc now + ?a + 7) * 86400 + hour_of hr * 3600"
    by (simp add: local_sec_add_days_fixed)
  have wb: "weekday ?loc ?base = weekday ?loc now"
    using clock_hour_at(2) [OF b(3) h] by (simp add: weekday_def)
  have wc: "weekday ?loc ?cand = d mod 7"
    unfolding weekday_shift wb by (simp add: mod_simps)
  have wc7: "weekday ?loc (add_days ?loc ?cand 7) = d mod 7"
    unfolding weekday_shift [of k ?cand] wc by simp
  have "?a * (86400 * second) \<le> 6 * (86400 * second)" "0 \<le> ?a * (86400 * second)" using aw by simp_all
  then have lo: "now - 24 * hour < ?cand" and hi: "?cand \<le> now + 7 * 24 * hour"
    using b(1,2) unfolding cand by linarith+
  define c where "c = ?cand"
  define c7 where "c7 = add_days ?loc c 7"
  have up: "now - 24 * hour < c" "c \<le> now + 7 * 24 * hour" "c7 = c + 7 * (86400 * second)"
    using lo hi cand7 by (simp_all only: c_def c7_def)
  then have bounds: "\<not> c > now \<longrightarrow> now < c7 \<and> c7 \<le> now + 7 * 24 * hour" by linarith
  have clocks: "clock_hour ?loc x = hour_of hr \<and> clock_minute ?loc x = 0 \<and> weekday ?loc x = d mod 7" if "x = c \<or> x = c7" for x
    using that clock_hour_at [OF ls h] clock_hour_at [OF ls7 h] wc wc7 unfolding c_def c7_def by metis
  have "n = (if \<not> c > now then c7 else c)" unfolding n c_def c7_def by (rule refl)
  then show ?thesis using bounds up(2) clocks by metis
qed

lemma wrap64_nonneg: "0 \<le> x \<Longrightarrow> x \<le> max_int64 \<Longrightarrow> wrap64 x = x"
  by (rule wrap64_id) (simp add: in_int64_def min_int64_def)

lemma next_interval_slot:
  assumes "0 < m" and "m * minute \<le> max_int64" and "\<bar>now - p\<bar> + m * minute \<le> max_int64"
  shows "now < next_interval now (Some m) (Some p)"
    and "(next_interval now (Some m) (Some p) - p) mod (m * minute) = 0"
    and "p + m * minute \<le> now \<Longrightarrow> next_interval now (Some m) (Some p) \<le> now + m * minute"
    and "\<not> p + m * minute \<le> now \<Longrightarrow> next_interval now (Some m) (Some p) = p + m * minute"
proof -
  let ?s = "m * minute" and ?c = "p + m * minute"
  have s: "0 < ?s" "?s \<ge> 1" using assms(1) by simp_all
  have w: "dur_mul m minute = ?s" using assms(1,2) by (simp add: dur_mul_def wrap64_id in_int64_def min_int64_def)
  have plain: "next_interval now (Some m) (Some p) = ?c" if "\<not> ?c \<le> now"
    using that s w by (simp add: next_interval_def Let_def)
  have late: "next_interval now (Some m) (Some p) = ?c + ((now - ?c) div ?s + 1) * ?s" if c: "?c \<le> now"
  proof -
    have r: "0 \<le> now - ?c" "now - ?c \<le> max_int64 - ?s" using c assms(3) s by linarith+
    have sub: "time_sub now ?c = now - ?c" using r s by (simp add: time_sub_def min_int64_def max_int64_def)
    have q0: "0 \<le> (now - ?c) div ?s" using r s by (simp add: pos_imp_zdiv_nonneg_iff)
    have qs: "(now - ?c) div ?s * ?s \<le> now - ?c" using s(1) by (metis div_mult_mod_eq le_add_same_cancel1 pos_mod_sign)
    have "(now - ?c) div ?s * 1 \<le> (now - ?c) div ?s * ?s" using q0 s by (intro mult_left_mono) simp_all
    then have q: "(now - ?c) div ?s + 1 \<le> max_int64" using qs r s by linarith
    have full: "((now - ?c) div ?s + 1) * ?s \<le> max_int64" using qs r by (simp add: algebra_simps)
    have "0 \<le> ((now - ?c) div ?s + 1) * ?s" using q0 s by (intro mult_nonneg_nonneg) linarith+
    then have "wrap64 (((now - ?c) div ?s + 1) * ?s) = ((now - ?c) div ?s + 1) * ?s"
      using full by (rule wrap64_nonneg)
    moreover have "wrap64 ((now - ?c) div ?s + 1) = (now - ?c) div ?s + 1"
      using q q0 by (intro wrap64_nonneg) linarith+
    ultimately show ?thesis
      using c s w r by (simp add: next_interval_def Let_def sub go_div_nonneg dur_mul_def)
  qed
  have q: "(now - ?c) div ?s * ?s + (now - ?c) mod ?s = now - ?c" by (rule div_mult_mod_eq)
  have q1: "0 \<le> (now - ?c) mod ?s" "(now - ?c) mod ?s < ?s" by (rule pos_mod_sign [OF s(1)], rule pos_mod_bound [OF s(1)])
  have ex: "((now - ?c) div ?s + 1) * ?s = (now - ?c) div ?s * ?s + ?s" by (simp add: algebra_simps)
  show "now < next_interval now (Some m) (Some p)"
    by (cases "?c \<le> now") (use plain late ex q q1 in linarith)+
  show "(next_interval now (Some m) (Some p) - p) mod ?s = 0"
  proof (cases "?c \<le> now")
    case True
    then have "next_interval now (Some m) (Some p) - p = ((now - ?c) div ?s + 2) * ?s" using late by (simp add: algebra_simps)
    then show ?thesis by (simp only: mod_mult_self2_is_0)
  qed (simp add: plain)
  show "?c \<le> now \<Longrightarrow> next_interval now (Some m) (Some p) \<le> now + ?s"
    using late ex q q1 by linarith
  show "\<not> ?c \<le> now \<Longrightarrow> next_interval now (Some m) (Some p) = ?c" by (rule plain)
qed


section \<open>No overlap\<close>

interpretation job_flights: flight_guard mark_running clear_running "\<lambda>fl. fl"
  by unfold_locales (simp_all add: mark_running_def clear_running_def)

lemma guarded_dispatch:
  "job_flights.guarded (sc_in_flight s) (sc_runs s) \<Longrightarrow>
   job_flights.guarded (sc_in_flight (dispatch j s)) (sc_runs (dispatch j s))"
  using job_flights.guarded_start [of "sc_in_flight s" "sc_runs s" "sj_id j"]
    job_flights.guarded_skip [of "sc_in_flight s" "sc_runs s" "sj_id j"]
  by (auto simp: dispatch_def split: prod.split bool.split)

lemma guarded_dispatches:
  "job_flights.guarded (sc_in_flight s) (sc_runs s) \<Longrightarrow>
   job_flights.guarded (sc_in_flight (fold dispatch js s)) (sc_runs (fold dispatch js s))"
  by (induction js arbitrary: s) (simp_all add: guarded_dispatch)

lemma guarded_step:
  assumes "sched_step loc s t" and "job_flights.guarded (sc_in_flight s) (sc_runs s)"
  shows "job_flights.guarded (sc_in_flight t) (sc_runs t)"
  using assms(1)
proof (cases rule: sched_step.cases)
  case (ss_plan now jobs)
  then show ?thesis using assms(2) by simp
next
  case (ss_dispatch after)
  then show ?thesis using guarded_dispatches [OF assms(2)] by simp
next
  case (ss_end i)
  then show ?thesis using job_flights.guarded_end [OF assms(2)] by (simp add: run_ended_def)
qed

text \<open>
  C37: a job never overlaps itself. In every state the scheduler reaches, with runs that end at any
  moment, no job has two runs under way, the in-flight set is exactly the set of jobs with one, and
  a job in flight is left out of the plan of a round; when it is due nevertheless, because its run
  started after the plan was made, the dispatch skips it.
\<close>

theorem jobs_never_overlap:
  assumes "sched_reachable loc s"
  shows "distinct (sc_runs s) \<and> set (sc_runs s) = sc_in_flight s
    \<and> (sj_id j \<in> sc_in_flight s \<longrightarrow> (\<forall>x\<in>set (plan_items loc now (sc_in_flight s) jobs). sj_id (fst x) \<noteq> sj_id j)
        \<and> sc_runs (dispatch j s) = sc_runs s \<and> sc_skipped (dispatch j s) = Suc (sc_skipped s))"
proof -
  have "job_flights.guarded (sc_in_flight s) (sc_runs s)"
    using assms
  proof (induction rule: sched_reachable.induct)
    case sr_new
    then show ?case by (simp add: new_sched_def job_flights.guarded_def)
  next
    case (sr_next s t)
    then show ?case using guarded_step by blast
  qed
  then show ?thesis
    by (auto simp: job_flights.guarded_def plan_items_def running_job_def dispatch_def mark_running_def)
qed

section \<open>The captured output\<close>

definition tail_of :: "nat \<Rightarrow> string \<Rightarrow> string" where
  "tail_of n s = drop (length s - n) s"

lemma drop_of_drop_append:
  "n \<le> length p \<Longrightarrow> drop (length xs + length p - n) (xs @ p) = drop (length p - n) p"
  by simp

lemma capped_write_tail:
  assumes "0 < cap"
  shows "capped_write cap p (tail_of cap s) = tail_of cap (s @ p)"
proof (cases "length p > cap")
  case True
  then show ?thesis using assms by (simp add: capped_write_def Let_def tail_of_def)
next
  case False
  then show ?thesis
    using assms by (cases "length s \<le> cap") (auto simp: capped_write_def Let_def tail_of_def add.commute)
qed

lemma fold_capped_tail: "fold (capped_write output_cap) ps [] = tail_of output_cap (concat ps)"
proof -
  have "fold (capped_write output_cap) ps (tail_of output_cap s) = tail_of output_cap (s @ concat ps)" for s
    by (induction ps arbitrary: s) (simp_all add: capped_write_tail output_cap_def)
  from this [of "[]"] show ?thesis by (simp add: tail_of_def)
qed

lemma fold_capped_length: "length (fold (capped_write output_cap) ps []) \<le> output_cap"
  by (simp add: fold_capped_tail tail_of_def)

text \<open>
  The run row keeps the end of the output. Whatever the command writes, in whatever pieces, the
  buffer holds exactly the last bytes of everything written, at most as many as its capacity; the
  pieces do not matter.
\<close>

theorem capped_buffer_keeps_tail:
  "fold (capped_write output_cap) ps [] = tail_of output_cap (concat ps)
   \<and> length (fold (capped_write output_cap) ps []) \<le> output_cap"
  using fold_capped_tail fold_capped_length by blast

section \<open>Concrete runs\<close>

definition demo_job :: "string \<Rightarrow> int \<Rightarrow> scheduled_job" where
  "demo_job freq mins = \<lparr>sj_id = ''j'', sj_app = ''a'', sj_name = ''job'', sj_service = ''web'', sj_command = ''true'',
     sj_frequency = freq, sj_interval = Some mins, sj_hour = 4, sj_dow = None, sj_timeout = 0, sj_enabled = True,
     sj_last_run = Some 0, sj_next_run = None\<rparr>"


definition demo_sched :: sched where
  "demo_sched =
     (let s = new_sched\<lparr>sc_items := plan_items utc 0 (sc_in_flight new_sched) [demo_job ''daily'' 0]\<rparr>
      in (fold dispatch (due_jobs (24 * hour) (sc_items s)) s)\<lparr>sc_items := [], sc_wake := False\<rparr>)"

lemma demo_sched_facts: "sched_reachable utc demo_sched" "sc_in_flight demo_sched = {''j''}"
proof -
  show "sched_reachable utc demo_sched"
    unfolding demo_sched_def Let_def by (rule sr_next [OF sr_next [OF sr_new ss_plan] ss_dispatch])
  have "next_occurrence utc 0 (demo_job ''daily'' 0) = 4 * hour"
    by (simp add: next_occurrence_def next_daily_weekly_def demo_job_def day_at_hour_def time_defs Let_def)
  then show "sc_in_flight demo_sched = {''j''}"
    by (simp add: demo_sched_def Let_def plan_items_def new_sched_def running_job_def due_jobs_def dispatch_def mark_running_def)
      (simp add: demo_job_def)
qed

theorem jobs_never_overlap_witness:
  "sc_runs (dispatch (demo_job ''daily'' 0) demo_sched) = sc_runs demo_sched \<and> set (sc_runs demo_sched) = {''j''}"
  using jobs_never_overlap [where j = "demo_job ''daily'' 0" and jobs = "[]", OF demo_sched_facts(1)] demo_sched_facts(2)
  by (simp add: demo_job_def)

end
