(* ===== verification/Job_Engine.thy ===== *)
theory Job_Engine
  imports Job_Scheduler
begin

text \<open>
  One run of a job: RunOnce of api/internal/jobs/engine.go with the job tables of
  api/internal/store/jobs.go. The command's output, its result and whether the deadline of its
  context passed are arguments, as are the clock and the zone. Every database call may fail.
\<close>

section \<open>State\<close>

record jst =
  jb_db :: db
  jb_jobs :: "scheduled_job list"
  jb_runs :: "job_run list"
  jb_notes :: "(string \<times> string \<times> string \<times> string) list"   \<comment> \<open>JobFailed\<close>
  jb_execs :: "(string \<times> string) list"                    \<comment> \<open>container and command\<close>

type_synonym 'a jop = "(jst, store_err, 'a) sem"

definition jdb :: "'a dbop \<Rightarrow> 'a jop" where
  "jdb m = (\<lambda>s. case m (jb_db s) of (r, d) \<Rightarrow> (r, s\<lparr>jb_db := d\<rparr>))"

text \<open>A statement on the job tables: one call of the same database.\<close>

definition job_call :: "'a jop \<Rightarrow> 'a jop" where
  "job_call m = and_then (jdb (db_call (\<lambda>d. (Inr (), d)))) (\<lambda>_. m)"

text \<open>CreateJobRun, FinishJobRun and UpdateJobSchedule; the first needs its job, by the foreign key.\<close>

definition create_job_run :: "string \<Rightarrow> string \<Rightarrow> job_run jop" where
  "create_job_run new job = job_call (\<lambda>s.
     let r = \<lparr>jr_id = new, jr_job = job, jr_started_at = db_now (jb_db s), jr_finished_at = None, jr_status = ''running'',
              jr_exit_code = None, jr_output = None, jr_error = None\<rparr>
     in if job \<in> sj_id ` set (jb_jobs s) \<and> new \<notin> jr_id ` set (jb_runs s)
        then (Inr r, s\<lparr>jb_runs := jb_runs s @ [r]\<rparr>) else (Inl ErrDB, s))"

definition finish_job_run ::
  "string \<Rightarrow> string \<Rightarrow> int option \<Rightarrow> string option \<Rightarrow> string option \<Rightarrow> unit jop" where
  "finish_job_run i status code out err = job_call (\<lambda>s.
     if i \<in> jr_id ` set (jb_runs s)
     then (Inr (), s\<lparr>jb_runs := map (\<lambda>r. if jr_id r = i
        then r\<lparr>jr_status := status, jr_exit_code := code, jr_output := out, jr_error := err,
               jr_finished_at := Some (db_now (jb_db s))\<rparr> else r) (jb_runs s)\<rparr>)
     else (Inl ErrNotFound, s))"

definition update_job_schedule :: "string \<Rightarrow> instant \<Rightarrow> instant \<Rightarrow> unit jop" where
  "update_job_schedule i prev nxt = job_call (\<lambda>s. (Inr (), s\<lparr>jb_jobs := map (\<lambda>j. if sj_id j = i
     then j\<lparr>sj_last_run := Some prev, sj_next_run := Some nxt\<rparr> else j) (jb_jobs s)\<rparr>))"

section \<open>The engine\<close>

text \<open>What the command does: the pieces it writes and, when it fails, the error and exit code; and
  whether the run context hit its deadline.\<close>

record exec_result =
  ex_output :: "string list"
  ex_error :: "(string \<times> int option) option"
  ex_deadline :: bool

record job_env =
  je_location :: location
  je_start :: instant
  je_exec :: "string \<Rightarrow> string \<Rightarrow> exec_result"
  je_err_text :: "store_err \<Rightarrow> string"
  je_notifier :: bool

definition output_ptr :: "string \<Rightarrow> string option" where
  "output_ptr s = (if s = [] then None else Some s)"

definition resolve_container :: "job_env \<Rightarrow> scheduled_job \<Rightarrow> (jst, string, string) sem" where
  "resolve_container env j =
     and_then (map_err (\<lambda>e. if e = ErrNotFound then ''service '' @ sj_service j @ '' no longer exists on this app''
                            else ''jobs: load service '' @ sj_service j @ '': '' @ je_err_text env e)
                (jdb (get_service (sj_app j) (sj_service j)))) (\<lambda>svc.
     case s_container svc of
       Some c \<Rightarrow> if c = [] then throw (''service '' @ sj_service j @ '' has no running container'') else ret c
     | None \<Rightarrow> throw (''service '' @ sj_service j @ '' has no running container''))"

definition job_timeout :: "scheduled_job \<Rightarrow> duration" where
  "job_timeout j = (let t = dur_mul (sj_timeout j) second in if t \<le> 0 then 30 * minute else t)"

text \<open>fail: the run is recorded, the notification goes out, the cause is the result.\<close>

definition fail_run ::
  "job_env \<Rightarrow> string \<Rightarrow> app \<Rightarrow> scheduled_job \<Rightarrow> string \<Rightarrow> int option \<Rightarrow> string \<Rightarrow> string \<Rightarrow> (jst, string, unit) sem" where
  "fail_run env run ap j status code out cause =
     and_then (ignore (finish_job_run run status code (output_ptr out) (Some cause))) (\<lambda>_.
     and_then (if je_notifier env
               then act (\<lambda>s. s\<lparr>jb_notes := jb_notes s @ [(a_name ap, a_id ap, sj_name j, cause)]\<rparr>) else ret ()) (\<lambda>_.
     throw cause))"

definition roll_schedule :: "job_env \<Rightarrow> scheduled_job \<Rightarrow> (jst, 'e, unit) sem" where
  "roll_schedule env j =
     ignore (update_job_schedule (sj_id j) (je_start env)
       (next_occurrence (je_location env) (je_start env) (j\<lparr>sj_last_run := Some (je_start env)\<rparr>)))"

text \<open>The part of RunOnce after the run row is open.\<close>

definition run_command :: "job_env \<Rightarrow> string \<Rightarrow> app \<Rightarrow> scheduled_job \<Rightarrow> (jst, string, unit) sem" where
  "run_command env run ap j =
     and_then (attempt (resolve_container env j)) (\<lambda>r.
     case r of
       Inl msg \<Rightarrow> fail_run env run ap j ''failed'' None [] msg
     | Inr c \<Rightarrow>
         and_then (act (\<lambda>s. s\<lparr>jb_execs := jb_execs s @ [(c, sj_command j)]\<rparr>)) (\<lambda>_.
         let x = je_exec env c (sj_command j); out = fold (capped_write output_cap) (ex_output x) []
         in case ex_error x of
              Some (e, code) \<Rightarrow>
                if ex_deadline x
                then fail_run env run ap j ''timeout'' None out (''job exceeded its '' @ duration_string (job_timeout j) @ '' timeout'')
                else fail_run env run ap j ''failed'' code out (''job command failed: '' @ e)
            | None \<Rightarrow> ignore (finish_job_run run ''success'' (Some 0) (output_ptr out) None)))"

text \<open>RunOnce; the schedule is rolled by a deferred call once the run row is open.\<close>

definition run_once :: "job_env \<Rightarrow> string \<Rightarrow> scheduled_job \<Rightarrow> jst \<Rightarrow> string option \<times> jst" where
  "run_once env new j s =
     (case and_then (map_err (\<lambda>e. ''jobs: load app: '' @ je_err_text env e) (jdb (get_app (sj_app j)))) (\<lambda>ap.
           and_then (map_err (\<lambda>e. ''jobs: open run: '' @ je_err_text env e) (create_job_run new (sj_id j))) (\<lambda>run.
           (\<lambda>t. case run_command env (jr_id run) ap j t of
                  (r, t') \<Rightarrow> (r, snd ((roll_schedule env j :: (jst, string, unit) sem) t'))))) s of
        (Inl msg, t) \<Rightarrow> (Some msg, t)
      | (Inr _, t) \<Rightarrow> (None, t))"

section \<open>A run is always closed\<close>

definition works :: "jst \<Rightarrow> bool" where
  "works s = (db_fault (jb_db s) = (\<lambda>_. False))"

definition next_call :: "jst \<Rightarrow> jst" where
  "next_call s = s\<lparr>jb_db := (jb_db s)\<lparr>db_calls := Suc (db_calls (jb_db s))\<rparr>\<rparr>"

lemma next_call_simps [simp]:
  "jb_jobs (next_call s) = jb_jobs s" "jb_runs (next_call s) = jb_runs s" "jb_notes (next_call s) = jb_notes s"
  "works (next_call s) = works s" "apps (jb_db (next_call s)) = apps (jb_db s)" "db_now (jb_db (next_call s)) = db_now (jb_db s)"
  "db_fault (jb_db (next_call s)) = db_fault (jb_db s)"
  by (simp_all add: next_call_def works_def)

lemma job_call_works: "works s \<Longrightarrow> job_call m s = m (next_call s)"
  by (simp add: job_call_def jdb_def db_call_def and_then_def works_def next_call_def Let_def)

text \<open>The run of a job while it is open, and after it was closed with the given result.\<close>

definition opened :: "jst \<Rightarrow> string \<Rightarrow> scheduled_job \<Rightarrow> jst \<Rightarrow> bool" where
  "opened s0 new j t = (works t \<and> jb_jobs t = jb_jobs s0 \<and> jb_notes t = jb_notes s0
     \<and> (\<exists>r. jb_runs t = jb_runs s0 @ [r] \<and> jr_id r = new \<and> jr_job r = sj_id j))"

definition closed_as :: "job_run \<Rightarrow> string option \<Rightarrow> bool" where
  "closed_as r res = (jr_finished_at r \<noteq> None
     \<and> (case res of
          None \<Rightarrow> jr_status r = ''success'' \<and> jr_error r = None
        | Some msg \<Rightarrow> (jr_status r = ''failed'' \<or> jr_status r = ''timeout'') \<and> jr_error r = Some msg)
     \<and> (case jr_output r of None \<Rightarrow> True | Some out \<Rightarrow> length out \<le> output_cap))"

definition closed :: "job_env \<Rightarrow> jst \<Rightarrow> string \<Rightarrow> scheduled_job \<Rightarrow> app \<Rightarrow> string option \<Rightarrow> jst \<Rightarrow> bool" where
  "closed env s0 new j ap res t = (works t \<and> jb_jobs t = jb_jobs s0
     \<and> (\<exists>r. jb_runs t = jb_runs s0 @ [r] \<and> jr_id r = new \<and> jr_job r = sj_id j \<and> closed_as r res)
     \<and> jb_notes t = jb_notes s0 @ (case res of
          Some msg \<Rightarrow> if je_notifier env then [(a_name ap, a_id ap, sj_name j, msg)] else []
        | None \<Rightarrow> []))"

lemma finish_opened:
  assumes "opened s0 new j t" and "new \<notin> jr_id ` set (jb_runs s0)"
  shows "\<exists>u r. finish_job_run new st c out e t = (Inr (), u) \<and> works u \<and> jb_jobs u = jb_jobs s0 \<and> jb_notes u = jb_notes s0
    \<and> jb_runs u = jb_runs s0 @ [r] \<and> jr_id r = new \<and> jr_job r = sj_id j \<and> jr_finished_at r \<noteq> None
    \<and> jr_status r = st \<and> jr_error r = e \<and> jr_output r = out"
proof -
  obtain r where r: "jb_runs t = jb_runs s0 @ [r]" "jr_id r = new" "jr_job r = sj_id j" using assms(1) by (auto simp: opened_def)
  have "map (\<lambda>r. if jr_id r = new then g r else r) (jb_runs s0) = jb_runs s0" for g
    using assms(2) by (intro map_idI) auto
  then show ?thesis
    using assms(1) r by (simp add: finish_job_run_def job_call_works opened_def works_def)
qed

lemma output_ptr_cap: "(case output_ptr (fold (capped_write output_cap) ps []) of None \<Rightarrow> True | Some out \<Rightarrow> length out \<le> output_cap)"
proof -
  have "length (fold (capped_write output_cap) ps []) \<le> output_cap"
    using fold_capped_length by simp
  then show ?thesis by (simp add: output_ptr_def)
qed

lemma triple_fail_run:
  assumes "new \<notin> jr_id ` set (jb_runs s0)" and "st = ''failed'' \<or> st = ''timeout''"
    and "case output_ptr out of None \<Rightarrow> True | Some o' \<Rightarrow> length o' \<le> output_cap"
  shows "triple (opened s0 new j) (fail_run env new ap j st c out msg) (\<lambda>_. closed env s0 new j ap None)
    (\<lambda>m. closed env s0 new j ap (Some m))"
  unfolding triple_def
proof (intro allI impI)
  fix t
  assume "opened s0 new j t"
  from finish_opened [OF this assms(1), of st c "output_ptr out" "Some msg"] obtain u r where
    u: "finish_job_run new st c (output_ptr out) (Some msg) t = (Inr (), u)" "works u" "jb_jobs u = jb_jobs s0"
      "jb_notes u = jb_notes s0" "jb_runs u = jb_runs s0 @ [r]" "jr_id r = new" "jr_job r = sj_id j"
    and c: "closed_as r (Some msg)"
    using assms(2,3) by (auto simp: closed_as_def)
  show "case fail_run env new ap j st c out msg t of
      (Inl m, s') \<Rightarrow> closed env s0 new j ap (Some m) s' | (Inr _, s') \<Rightarrow> closed env s0 new j ap None s'"
    using u c by (auto simp: fail_run_def and_then_def ignore_def act_def ret_def throw_def closed_def works_def)
qed

lemma keeps_resolve: "keeps (opened s0 new j) (resolve_container env j)"
proof -
  have "keeps (opened s0 new j) (jdb (get_service a n))" for a n
    by (auto simp: keeps_def jdb_def get_service_def db_call_def Let_def opened_def works_def split: option.split prod.split if_splits)
  then show ?thesis
    unfolding resolve_container_def by (intro vac_wp)
qed

lemma triple_run_command:
  assumes "new \<notin> jr_id ` set (jb_runs s0)"
  shows "triple (opened s0 new j) (run_command env new ap j) (\<lambda>_. closed env s0 new j ap None)
    (\<lambda>m. closed env s0 new j ap (Some m))"
  unfolding run_command_def
proof (rule triple_and_then [where R = "\<lambda>_. opened s0 new j"])
  show "triple (opened s0 new j) (attempt (resolve_container env j)) (\<lambda>_. opened s0 new j) (\<lambda>m. closed env s0 new j ap (Some m))"
    using keeps_resolve [of s0 new j env] by (auto simp: triple_def attempt_def keeps_def split: prod.split)
next
  fix r
  show "triple (opened s0 new j) (case r of Inl msg \<Rightarrow> fail_run env new ap j ''failed'' None [] msg
     | Inr c \<Rightarrow>
         and_then (act (\<lambda>s. s\<lparr>jb_execs := jb_execs s @ [(c, sj_command j)]\<rparr>)) (\<lambda>_.
         let x = je_exec env c (sj_command j); out = fold (capped_write output_cap) (ex_output x) []
         in case ex_error x of
              Some (e, code) \<Rightarrow>
                if ex_deadline x
                then fail_run env new ap j ''timeout'' None out (''job exceeded its '' @ duration_string (job_timeout j) @ '' timeout'')
                else fail_run env new ap j ''failed'' code out (''job command failed: '' @ e)
            | None \<Rightarrow> ignore (finish_job_run new ''success'' (Some 0) (output_ptr out) None)))
     (\<lambda>_. closed env s0 new j ap None) (\<lambda>m. closed env s0 new j ap (Some m))"
  proof (cases r)
    case (Inl msg)
    then show ?thesis using triple_fail_run [OF assms, of "''failed''" "[]"] by (simp add: output_ptr_def)
  next
    case (Inr c)
    let ?x = "je_exec env c (sj_command j)"
    let ?out = "fold (capped_write output_cap) (ex_output ?x) []"
    have exec: "triple (opened s0 new j) (act (\<lambda>s. s\<lparr>jb_execs := jb_execs s @ [(c, sj_command j)]\<rparr>)) (\<lambda>_. opened s0 new j) E" for E
      by (simp add: triple_def act_def opened_def works_def)
    have ok: "triple (opened s0 new j) (ignore (finish_job_run new ''success'' (Some 0) (output_ptr ?out) None))
        (\<lambda>_. closed env s0 new j ap None) E" for E
      unfolding triple_def
    proof (intro allI impI)
      fix t
      assume "opened s0 new j t"
      from finish_opened [OF this assms, of "''success''" "Some 0" "output_ptr ?out" None]
      show "case ignore (finish_job_run new ''success'' (Some 0) (output_ptr ?out) None) t of
          (Inl e, s') \<Rightarrow> E e s' | (Inr _, s') \<Rightarrow> closed env s0 new j ap None s'"
        using output_ptr_cap [of "ex_output ?x"] by (auto simp: ignore_def closed_def closed_as_def)
    qed
    show ?thesis
      unfolding Inr sum.case Let_def
      by (rule triple_and_then [OF exec], cases "ex_error ?x"; simp only: option.case)
        (auto simp: ok split: prod.split intro!: triple_fail_run assms output_ptr_cap)
  qed
qed


definition demo_jst :: jst where
  "demo_jst = \<lparr>jb_db = empty_db\<lparr>apps := [maint_app ''a'' False]\<rparr>, jb_jobs = [demo_job ''daily'' 0], jb_runs = [],
     jb_notes = [], jb_execs = []\<rparr>"

definition demo_job_env :: job_env where
  "demo_job_env = \<lparr>je_location = utc, je_start = 0, je_exec = (\<lambda>_ _. \<lparr>ex_output = [], ex_error = None, ex_deadline = False\<rparr>),
     je_err_text = (\<lambda>_. ''db''), je_notifier = True\<rparr>"


end
