(* ===== verification/Store_Domains.thy ===== *)
theory Store_Domains
  imports Store_Base
begin

text \<open>
  The domains table: api/internal/store/domains.go. A row binds a custom hostname to a service of
  an app, or to nothing; it may redirect, and it may carry an uploaded certificate. The columns
  app_id, service_name and redirect_to are NULL exactly when the code reads the empty string, so
  they are plain strings here. The constraints of the migrations are checked by every insert and
  update: the primary key and the unique hostname, the pairing of app and service, the kind of the
  row, and the foreign key to services. As before any call may fail.
\<close>

record domain =
  dn_id :: string
  dn_app :: string
  dn_service :: string
  dn_hostname :: string
  dn_type :: string
  dn_redirect :: string
  dn_cert_source :: string
  dn_cert_uploaded_at :: "instant option"
  dn_created_at :: instant
  dn_cert_pem :: "string option"
  dn_key_enc :: "string option"
  dn_cert_not_after :: "instant option"
  dn_cert_notified_at :: "instant option"

record dom_db =
  dm_db :: db
  dm_rows :: "domain list"

type_synonym 'a domop = "(dom_db, store_err, 'a) sem"

definition on_dm :: "'a dbop \<Rightarrow> 'a domop" where
  "on_dm m = (\<lambda>s. case m (dm_db s) of (r, d) \<Rightarrow> (r, s\<lparr>dm_db := d\<rparr>))"

text \<open>A statement on the domains table is one call of the same database.\<close>

definition dom_call :: "'a domop \<Rightarrow> 'a domop" where
  "dom_call m = and_then (on_dm (db_call (\<lambda>d. (Inr (), d)))) (\<lambda>_. m)"

definition domain_type_auto :: string where "domain_type_auto = ''auto''"
definition domain_type_custom :: string where "domain_type_custom = ''custom''"

definition assigned :: "domain \<Rightarrow> bool" where
  "assigned d = (dn_app d \<noteq> [] \<and> dn_service d \<noteq> [])"

section \<open>Constraints\<close>

definition row_ok :: "service list \<Rightarrow> domain \<Rightarrow> bool" where
  "row_ok svcs d = ((dn_app d = []) = (dn_service d = [])
     \<and> dn_type d \<in> {domain_type_auto, domain_type_custom}
     \<and> (dn_app d \<noteq> [] \<longrightarrow> list_ex (svc_key (dn_app d) (dn_service d)) svcs))"

definition keys_ok :: "domain list \<Rightarrow> bool" where
  "keys_ok ds = (distinct (map dn_id ds) \<and> distinct (map dn_hostname ds))"

definition unique_to_conflict :: "store_err \<Rightarrow> store_err" where
  "unique_to_conflict e = (if e = ErrUnique then ErrConflict else e)"

section \<open>Statements\<close>

definition create_domain :: "string \<Rightarrow> string \<Rightarrow> string \<Rightarrow> string \<Rightarrow> string \<Rightarrow> domain domop" where
  "create_domain new app name host typ = map_err unique_to_conflict (dom_call (\<lambda>s.
     let d = \<lparr>dn_id = new, dn_app = app, dn_service = name, dn_hostname = host, dn_type = typ, dn_redirect = [],
              dn_cert_source = ''acme'', dn_cert_uploaded_at = None, dn_created_at = db_now (dm_db s),
              dn_cert_pem = None, dn_key_enc = None, dn_cert_not_after = None, dn_cert_notified_at = None\<rparr>
     in if \<not> row_ok (services (dm_db s)) d then (Inl ErrDB, s)
        else if \<not> keys_ok (dm_rows s @ [d]) then (Inl ErrUnique, s)
        else (Inr d, s\<lparr>dm_rows := dm_rows s @ [d]\<rparr>)))"

definition query_domains :: "(domain \<Rightarrow> bool) \<Rightarrow> domain list domop" where
  "query_domains p = dom_call (\<lambda>s. (Inr (sort_key dn_hostname (filter p (dm_rows s))), s))"

definition list_domains_by_app :: "string \<Rightarrow> domain list domop" where
  "list_domains_by_app app = query_domains (\<lambda>d. dn_app d = app \<and> app \<noteq> [])"

definition list_domains_by_service :: "string \<Rightarrow> string \<Rightarrow> domain list domop" where
  "list_domains_by_service app name =
     query_domains (\<lambda>d. dn_app d = app \<and> app \<noteq> [] \<and> dn_service d = name \<and> name \<noteq> [])"

definition list_all_domains :: "domain list domop" where
  "list_all_domains = query_domains (\<lambda>_. True)"

definition get_domain_where :: "(domain \<Rightarrow> bool) \<Rightarrow> domain domop" where
  "get_domain_where p = dom_call (\<lambda>s. case find p (dm_rows s) of
     None \<Rightarrow> (Inl ErrNotFound, s) | Some d \<Rightarrow> (Inr d, s))"

definition get_domain_by_hostname :: "string \<Rightarrow> domain domop" where
  "get_domain_by_hostname host = get_domain_where (\<lambda>d. dn_hostname d = host)"

definition get_domain_by_id :: "string \<Rightarrow> domain domop" where
  "get_domain_by_id i = get_domain_where (\<lambda>d. dn_id d = i)"

definition get_domain :: "string \<Rightarrow> string \<Rightarrow> domain domop" where
  "get_domain app i = get_domain_where (\<lambda>d. dn_id d = i \<and> dn_app d = app \<and> app \<noteq> [])"

definition update_domain :: "string \<Rightarrow> string \<Rightarrow> string \<Rightarrow> string \<Rightarrow> string \<Rightarrow> domain domop" where
  "update_domain i app name host redirect = map_err unique_to_conflict (dom_call (\<lambda>s.
     let f = (\<lambda>d. d\<lparr>dn_app := app, dn_service := name, dn_hostname := host, dn_redirect := redirect\<rparr>);
         rows = map (\<lambda>d. if dn_id d = i then f d else d) (dm_rows s)
     in case find (\<lambda>d. dn_id d = i) (dm_rows s) of
          None \<Rightarrow> (Inl ErrNotFound, s)
        | Some d \<Rightarrow>
            if \<not> row_ok (services (dm_db s)) (f d) then (Inl ErrDB, s)
            else if \<not> keys_ok rows then (Inl ErrUnique, s)
            else (Inr (f d), s\<lparr>dm_rows := rows\<rparr>)))"

definition dom_or_not_found :: "nat domop \<Rightarrow> unit domop" where
  "dom_or_not_found m = and_then m (\<lambda>n. if n = 0 then throw ErrNotFound else ret ())"

definition delete_domains :: "(domain \<Rightarrow> bool) \<Rightarrow> nat domop" where
  "delete_domains p = dom_call (\<lambda>s. (Inr (length (filter p (dm_rows s))),
     s\<lparr>dm_rows := filter (\<lambda>d. \<not> p d) (dm_rows s)\<rparr>))"

definition delete_domain_by_id :: "string \<Rightarrow> unit domop" where
  "delete_domain_by_id i = dom_or_not_found (delete_domains (\<lambda>d. dn_id d = i))"

definition delete_domain :: "string \<Rightarrow> string \<Rightarrow> unit domop" where
  "delete_domain app i = dom_or_not_found (delete_domains (\<lambda>d. dn_id d = i \<and> dn_app d = app \<and> app \<noteq> []))"

text \<open>UPDATE of columns outside the constraints.\<close>

definition update_domains :: "(domain \<Rightarrow> bool) \<Rightarrow> (domain \<Rightarrow> domain) \<Rightarrow> nat domop" where
  "update_domains p f = dom_call (\<lambda>s. (Inr (length (filter p (dm_rows s))),
     s\<lparr>dm_rows := map (\<lambda>d. if p d then f d else d) (dm_rows s)\<rparr>))"

record domain_cert =
  dc_id :: string
  dc_hostname :: string
  dc_not_after :: "instant option"
  dc_notified_at :: "instant option"
  dc_source :: string

definition list_domain_certs :: "domain_cert list domop" where
  "list_domain_certs = and_then list_all_domains (\<lambda>ds. ret (map (\<lambda>d.
     \<lparr>dc_id = dn_id d, dc_hostname = dn_hostname d, dc_not_after = dn_cert_not_after d,
      dc_notified_at = dn_cert_notified_at d, dc_source = dn_cert_source d\<rparr>) ds))"

record uploaded_cert =
  uc_domain :: string
  uc_hostname :: string
  uc_pem :: string
  uc_key_enc :: string

definition has_upload :: "domain \<Rightarrow> bool" where
  "has_upload d = (dn_cert_source d = ''uploaded'' \<and> dn_cert_pem d \<noteq> None \<and> dn_key_enc d \<noteq> None)"

definition list_uploaded_certs :: "uploaded_cert list domop" where
  "list_uploaded_certs = and_then (query_domains has_upload) (\<lambda>ds. ret (map (\<lambda>d.
     \<lparr>uc_domain = dn_id d, uc_hostname = dn_hostname d, uc_pem = the (dn_cert_pem d), uc_key_enc = the (dn_key_enc d)\<rparr>) ds))"

definition set_domain_cert :: "string \<Rightarrow> string \<Rightarrow> string \<Rightarrow> instant \<Rightarrow> unit domop" where
  "set_domain_cert i pem key upAt = dom_or_not_found (update_domains (\<lambda>d. dn_id d = i)
     (\<lambda>d. d\<lparr>dn_cert_pem := Some pem, dn_key_enc := Some key, dn_cert_source := ''uploaded'',
             dn_cert_uploaded_at := Some upAt, dn_cert_not_after := None, dn_cert_notified_at := None\<rparr>))"

definition clear_domain_cert :: "string \<Rightarrow> unit domop" where
  "clear_domain_cert i = dom_or_not_found (update_domains (\<lambda>d. dn_id d = i)
     (\<lambda>d. d\<lparr>dn_cert_pem := None, dn_key_enc := None, dn_cert_source := ''acme'',
             dn_cert_uploaded_at := None, dn_cert_not_after := None, dn_cert_notified_at := None\<rparr>))"

definition set_cert_not_after :: "string \<Rightarrow> instant \<Rightarrow> unit domop" where
  "set_cert_not_after i t = and_then (update_domains (\<lambda>d. dn_id d = i) (\<lambda>d. d\<lparr>dn_cert_not_after := Some t\<rparr>)) (\<lambda>_. ret ())"

definition mark_cert_expiry_notified :: "string \<Rightarrow> instant \<Rightarrow> unit domop" where
  "mark_cert_expiry_notified i t =
     and_then (update_domains (\<lambda>d. dn_id d = i) (\<lambda>d. d\<lparr>dn_cert_notified_at := Some t\<rparr>)) (\<lambda>_. ret ())"

definition clear_cert_expiry_notified :: "string \<Rightarrow> unit domop" where
  "clear_cert_expiry_notified i =
     and_then (update_domains (\<lambda>d. dn_id d = i \<and> dn_cert_notified_at d \<noteq> None) (\<lambda>d. d\<lparr>dn_cert_notified_at := None\<rparr>)) (\<lambda>_. ret ())"

lemmas domain_write_defs = create_domain_def update_domain_def delete_domain_by_id_def delete_domain_def
  delete_domains_def update_domains_def set_domain_cert_def clear_domain_cert_def set_cert_not_after_def
  mark_cert_expiry_notified_def clear_cert_expiry_notified_def

lemmas domain_read_defs = query_domains_def list_domains_by_app_def list_domains_by_service_def list_all_domains_def
  get_domain_where_def get_domain_by_hostname_def get_domain_by_id_def get_domain_def list_domain_certs_def
  list_uploaded_certs_def

section \<open>The invariant of the table\<close>

definition paired :: "domain \<Rightarrow> bool" where
  "paired d = ((dn_app d = []) = (dn_service d = []))"

definition domains_ok :: "dom_db \<Rightarrow> bool" where
  "domains_ok s = (keys_ok (dm_rows s) \<and> list_all paired (dm_rows s))"

lemma domains_ok_db [simp]: "domains_ok (s\<lparr>dm_db := d\<rparr>) = domains_ok s"
  by (simp add: domains_ok_def)

lemma keeps_on_dm: "keeps domains_ok (on_dm m)"
  by (simp add: keeps_def on_dm_def split: prod.split)

lemma keeps_dom_call: "keeps domains_ok m \<Longrightarrow> keeps domains_ok (dom_call m)"
  unfolding dom_call_def by (intro keeps_and_then keeps_on_dm)

lemma keeps_dom_or_not_found: "keeps domains_ok m \<Longrightarrow> keeps domains_ok (dom_or_not_found m)"
  unfolding dom_or_not_found_def by (intro vac_wp)

lemma keeps_query_domains: "keeps domains_ok (query_domains p)"
  unfolding query_domains_def by (rule keeps_dom_call) (simp add: keeps_def)

lemma keeps_delete_domains: "keeps domains_ok (delete_domains p)"
  unfolding delete_domains_def
  by (rule keeps_dom_call)
     (auto simp: keeps_def domains_ok_def keys_ok_def list_all_iff intro: distinct_map_filter)

lemma comp_update: "(\<And>d. g (f d) = g d) \<Longrightarrow> g \<circ> (\<lambda>d. if p d then f d else d) = g"
  by (rule ext) simp

lemma keeps_update_domains:
  assumes "\<And>d. dn_id (f d) = dn_id d" "\<And>d. dn_hostname (f d) = dn_hostname d"
    "\<And>d. dn_app (f d) = dn_app d" "\<And>d. dn_service (f d) = dn_service d"
  shows "keeps domains_ok (update_domains p f)"
proof -
  have "paired (f d) = paired d" for d using assms by (simp add: paired_def)
  then show ?thesis
    unfolding update_domains_def
    by (intro keeps_dom_call)
       (simp add: keeps_def domains_ok_def keys_ok_def list.pred_map comp_update assms)
qed

lemma keeps_create_domain: "keeps domains_ok (create_domain new app name host typ)"
  unfolding create_domain_def
  by (intro keeps_map_err keeps_dom_call)
     (simp add: keeps_def domains_ok_def row_ok_def paired_def Let_def)

lemma keeps_update_domain: "keeps domains_ok (update_domain i app name host redirect)"
  unfolding update_domain_def
  by (intro keeps_map_err keeps_dom_call)
     (auto simp: keeps_def domains_ok_def row_ok_def paired_def list_all_iff Let_def split: option.split)

inductive domain_step :: "dom_db \<Rightarrow> dom_db \<Rightarrow> bool" where
  "domain_step s (snd (create_domain new app name host typ s))"
| "domain_step s (snd (update_domain i app name host redirect s))"
| "domain_step s (snd (delete_domain_by_id i s))"
| "domain_step s (snd (delete_domain app i s))"
| "domain_step s (snd (set_domain_cert i pem key t s))"
| "domain_step s (snd (clear_domain_cert i s))"
| "domain_step s (snd (set_cert_not_after i t s))"
| "domain_step s (snd (mark_cert_expiry_notified i t s))"
| "domain_step s (snd (clear_cert_expiry_notified i s))"

lemma keeps_domain_writes:
  "keeps domains_ok (delete_domain_by_id i)"
  "keeps domains_ok (delete_domain app i)"
  "keeps domains_ok (set_domain_cert i pem key t)"
  "keeps domains_ok (clear_domain_cert i)"
  "keeps domains_ok (set_cert_not_after i t)"
  "keeps domains_ok (mark_cert_expiry_notified i t)"
  "keeps domains_ok (clear_cert_expiry_notified i)"
  unfolding delete_domain_by_id_def delete_domain_def set_domain_cert_def clear_domain_cert_def
    set_cert_not_after_def mark_cert_expiry_notified_def clear_cert_expiry_notified_def
  by (intro keeps_dom_or_not_found keeps_delete_domains keeps_update_domains keeps_and_then keeps_ret; simp)+

lemma domain_step_ok: "domain_step s s' \<Longrightarrow> domains_ok s \<Longrightarrow> domains_ok s'"
  by (erule domain_step.cases)
     (simp_all add: keepsD [where I = domains_ok] keeps_create_domain keeps_update_domain keeps_domain_writes)

end
