(* ===== verification/Caddy_Config.thy ===== *)
theory Caddy_Config
  imports VAC_Prelude
begin

text \<open>
  The transport to Caddy's admin API: the configuration shapes and BaseConfig of
  api/internal/caddy/config.go, and the client of api/internal/caddy/client.go. A Go map is the
  association list of its entries, an absent field its zero value, a pointer an option. What Caddy
  answers to a request, and how the request changes it, is a parameter: a function on a world of
  any type. The requests made are recorded in the order in which they are sent.
\<close>

section \<open>Routes and handlers\<close>

record active_check =
  hc_path :: string
  hc_interval :: string
  hc_timeout :: string
  hc_expect_status :: int

record rewrite_op =
  rw_method :: string
  rw_uri :: string

record rate_limit =
  rl_key :: string
  rl_window :: string
  rl_max_events :: int

datatype caddy_handler = Handler
    (h_kind: string) (h_upstreams: "string list") (h_health: "active_check option")
    (h_status: int) (h_headers: "(string \<times> string list) list") (h_body: string) (h_uri: string)
    (h_request: "(string \<times> string list) list option") (h_rate_limits: "(string \<times> rate_limit) list")
    (h_rewrite: "rewrite_op option") (h_handle_response: "response_handler list")
and response_handler = Response_Handler (rh_status: "int list option") (rh_routes: "route list")
and route = Route (r_id: string) (r_match: "string list list") (r_handle: "caddy_handler list")

text \<open>The handlers the code writes, each a literal with the named fields set.\<close>

definition static_handler :: "int \<Rightarrow> (string \<times> string list) list \<Rightarrow> string \<Rightarrow> caddy_handler" where
  "static_handler code headers body = Handler ''static_response'' [] None code headers body [] None [] None []"

definition headers_handler :: "(string \<times> string list) list \<Rightarrow> caddy_handler" where
  "headers_handler setops = Handler ''headers'' [] None 0 [] [] [] (Some setops) [] None []"

definition rewrite_handler :: "string \<Rightarrow> caddy_handler" where
  "rewrite_handler uri = Handler ''rewrite'' [] None 0 [] [] uri None [] None []"

definition proxy_handler :: "string \<Rightarrow> active_check option \<Rightarrow> caddy_handler" where
  "proxy_handler dial chk = Handler ''reverse_proxy'' [dial] chk 0 [] [] [] None [] None []"

definition auth_handler :: "string \<Rightarrow> rewrite_op \<Rightarrow> response_handler list \<Rightarrow> caddy_handler" where
  "auth_handler dial rw hr = Handler ''reverse_proxy'' [dial] None 0 [] [] [] None [] (Some rw) hr"

definition rate_limit_handler :: "string \<Rightarrow> int \<Rightarrow> caddy_handler" where
  "rate_limit_handler zone rpm = Handler ''rate_limit'' [] None 0 [] [] [] None
     [(zone, \<lparr>rl_key = ''{http.request.remote_host}'', rl_window = ''1m'', rl_max_events = rpm\<rparr>)] None []"

section \<open>The base configuration\<close>

record cert_pair =
  cp_certificate :: string
  cp_key :: string
  cp_tags :: "string list"

record log_cfg =
  lc_writer :: "(string \<times> string) list"
  lc_encoder :: "(string \<times> string) list"
  lc_include :: "string list"
  lc_exclude :: "string list"
  lc_level :: string

record cserver =
  sv_listen :: "string list"
  sv_routes :: "route list"
  sv_logs :: "string option"

record automation_policy =
  ap_subjects :: "string list"
  ap_on_demand :: bool
  ap_issuers :: "(string \<times> string) list list"

text \<open>Permission of OnDemand: module and endpoint.\<close>

record automation =
  au_policies :: "automation_policy list"
  au_on_demand :: "(string \<times> string) option"

record tls_app =
  tls_load_pem :: "cert_pair list"
  tls_automation :: "automation option"

record config =
  cf_admin :: string
  cf_logging :: "(string \<times> log_cfg) list option"
  cf_servers :: "(string \<times> cserver) list"
  cf_tls :: tls_app

record base_options =
  bo_admin_listen :: string
  bo_access_log :: string
  bo_ask_url :: string
  bo_acme_ca :: string
  bo_certs :: "cert_pair list"

definition server_name :: string where "server_name = ''vac''"

definition logger_name :: string where "logger_name = ''vacaccess''"

definition base_logging :: "string \<Rightarrow> (string \<times> log_cfg) list" where
  "base_logging path =
     [(''default'', \<lparr>lc_writer = [], lc_encoder = [], lc_include = [],
        lc_exclude = [''http.log.access.'' @ logger_name], lc_level = []\<rparr>),
      (logger_name, \<lparr>lc_writer = [(''output'', ''file''), (''filename'', path), (''mode'', ''0644'')],
        lc_encoder = [(''format'', ''json'')], lc_include = [''http.log.access.'' @ logger_name],
        lc_exclude = [], lc_level = []\<rparr>)]"

definition base_automation :: "base_options \<Rightarrow> automation" where
  "base_automation opts =
     (let blank = \<lparr>ap_subjects = [], ap_on_demand = False, ap_issuers = []\<rparr>;
          onDemand = (if bo_ask_url opts \<noteq> [] then Some (''http'', bo_ask_url opts) else None);
          policies = (if bo_ask_url opts \<noteq> [] then [blank\<lparr>ap_on_demand := True\<rparr>] else []);
          policies2 = (if bo_acme_ca opts \<noteq> []
             then map (\<lambda>p. p\<lparr>ap_issuers := [[(''module'', ''acme''), (''ca'', bo_acme_ca opts)]]\<rparr>)
                    (if policies = [] then [blank] else policies)
             else policies)
      in \<lparr>au_policies = policies2, au_on_demand = onDemand\<rparr>)"

definition base_config :: "base_options \<Rightarrow> config" where
  "base_config opts =
     (let admin = (if bo_admin_listen opts = [] then '':2019'' else bo_admin_listen opts);
          auto = base_automation opts
      in \<lparr>cf_admin = admin,
          cf_logging = (if bo_access_log opts \<noteq> [] then Some (base_logging (bo_access_log opts)) else None),
          cf_servers = [(server_name, \<lparr>sv_listen = ['':80'', '':443''], sv_routes = [],
             sv_logs = (if bo_access_log opts \<noteq> [] then Some logger_name else None)\<rparr>)],
          cf_tls = \<lparr>tls_load_pem = bo_certs opts,
             tls_automation = (if au_on_demand auto \<noteq> None \<or> au_policies auto \<noteq> [] then Some auto else None)\<rparr>\<rparr>)"

section \<open>The client\<close>

record upstream_status =
  us_address :: string
  us_requests :: int
  us_fails :: int

datatype admin_req =
    Post_Load config
  | Delete_Id string
  | Post_Route route
  | Get_Routes
  | Get_Upstreams
  | Get_Listen
  | Patch_Certs "cert_pair list"

datatype admin_reply = No_Body | Routes_Reply "route list" | Upstreams_Reply "upstream_status list"

text \<open>The world outside, with the calls made to it.\<close>

record 'w outside =
  ou_world :: 'w
  ou_admin :: "admin_req list"

type_synonym 'w admin_api = "admin_req \<Rightarrow> 'w \<Rightarrow> (string + admin_reply) \<times> 'w"

definition client_do :: "'w admin_api \<Rightarrow> admin_req \<Rightarrow> (('w, 'z) outside_scheme, string, admin_reply) sem" where
  "client_do api q = (\<lambda>s. case api q (ou_world s) of
     (r, w) \<Rightarrow> (r, s\<lparr>ou_world := w, ou_admin := ou_admin s @ [q]\<rparr>))"

definition client_load :: "'w admin_api \<Rightarrow> config \<Rightarrow> (('w, 'z) outside_scheme, string, unit) sem" where
  "client_load api cfg = and_then (client_do api (Post_Load cfg)) (\<lambda>_. ret ())"

definition delete_route :: "'w admin_api \<Rightarrow> string \<Rightarrow> (('w, 'z) outside_scheme, string, unit) sem" where
  "delete_route api i = and_then (client_do api (Delete_Id i)) (\<lambda>_. ret ())"

definition with_id :: "string \<Rightarrow> route \<Rightarrow> route" where
  "with_id i r = Route i (r_match r) (r_handle r)"

definition put_route :: "'w admin_api \<Rightarrow> string \<Rightarrow> route \<Rightarrow> (('w, 'z) outside_scheme, string, unit) sem" where
  "put_route api i r =
     and_then (ignore (delete_route api i)) (\<lambda>_.
     and_then (client_do api (Post_Route (with_id i r))) (\<lambda>_. ret ()))"

definition put_cert_set :: "'w admin_api \<Rightarrow> cert_pair list \<Rightarrow> (('w, 'z) outside_scheme, string, unit) sem" where
  "put_cert_set api certs = and_then (client_do api (Patch_Certs certs)) (\<lambda>_. ret ())"

definition get_routes :: "'w admin_api \<Rightarrow> (('w, 'z) outside_scheme, string, route list) sem" where
  "get_routes api = and_then (client_do api Get_Routes)
     (\<lambda>rep. ret (case rep of Routes_Reply rs \<Rightarrow> rs | _ \<Rightarrow> []))"

definition upstreams :: "'w admin_api \<Rightarrow> (('w, 'z) outside_scheme, string, upstream_status list) sem" where
  "upstreams api = and_then (client_do api Get_Upstreams)
     (\<lambda>rep. ret (case rep of Upstreams_Reply us \<Rightarrow> us | _ \<Rightarrow> []))"

definition ping :: "'w admin_api \<Rightarrow> (('w, 'z) outside_scheme, string, unit) sem" where
  "ping api = and_then (client_do api Get_Listen) (\<lambda>_. ret ())"

lemmas client_defs = client_load_def delete_route_def put_route_def put_cert_set_def get_routes_def
  upstreams_def ping_def

section \<open>Caddy as a table of routes\<close>

text \<open>
  The documented behaviour the route layer relies on, for a Caddy that answers. \<open>view\<close> is the
  route array of the managed server. An append adds a route at the end, a read returns the array,
  deleting an @id removes the object that has it and reports an error when there is none (the
  array is otherwise unchanged), and the other requests leave the array alone. Deletion is stated
  for an array whose @ids are distinct, as it is addressed by @id.
\<close>

definition ids_ok :: "route list \<Rightarrow> bool" where
  "ids_ok rs = distinct (filter (\<lambda>i. i \<noteq> []) (map r_id rs))"

definition caddy_answers :: "'w admin_api \<Rightarrow> ('w \<Rightarrow> route list) \<Rightarrow> bool" where
  "caddy_answers api view =
     (\<forall>w. (\<exists>w'. api Get_Routes w = (Inr (Routes_Reply (view w)), w') \<and> view w' = view w)
        \<and> (\<forall>r. \<exists>rep w'. api (Post_Route r) w = (Inr rep, w') \<and> view w' = view w @ [r])
        \<and> (\<forall>i. i \<noteq> [] \<longrightarrow> ids_ok (view w) \<longrightarrow>
              view (snd (api (Delete_Id i) w)) = filter (\<lambda>r. r_id r \<noteq> i) (view w)
              \<and> (i \<in> r_id ` set (view w) \<longrightarrow> (\<exists>rep. fst (api (Delete_Id i) w) = Inr rep)))
        \<and> (\<forall>cs. \<exists>rep w'. api (Patch_Certs cs) w = (Inr rep, w') \<and> view w' = view w))"

text \<open>The abstraction: from @id to route.\<close>

definition route_map :: "route list \<Rightarrow> string \<Rightarrow> route option" where
  "route_map rs i = find (\<lambda>r. r_id r = i) rs"

lemma find_append_route:
  "route_map (rs @ [r]) i = (case route_map rs i of Some x \<Rightarrow> Some x | None \<Rightarrow> if r_id r = i then Some r else None)"
  by (simp add: route_map_def find_append split: option.split)

lemma route_map_filter: "route_map (filter (\<lambda>r. r_id r \<noteq> i) rs) j = (if j = i then None else route_map rs j)"
  unfolding route_map_def by (induction rs) auto

lemma route_map_put:
  assumes "r_id r = i"
  shows "route_map (filter (\<lambda>x. r_id x \<noteq> i) rs @ [r]) = (route_map rs)(i := Some r)"
  using assms by (auto simp: find_append_route route_map_filter fun_eq_iff split: option.split)

lemma route_map_del: "route_map (filter (\<lambda>x. r_id x \<noteq> i) rs) = (route_map rs)(i := None)"
  by (auto simp: route_map_filter fun_eq_iff)

lemma ids_ok_filter: "ids_ok rs \<Longrightarrow> ids_ok (filter P rs)"
  unfolding ids_ok_def by (induction rs) (auto split: if_splits)

lemma ids_ok_put:
  assumes "ids_ok rs" "i \<noteq> []"
  shows "ids_ok (filter (\<lambda>x. r_id x \<noteq> i) rs @ [with_id i r])"
  using ids_ok_filter [OF assms(1), of "\<lambda>x. r_id x \<noteq> i"] assms(2)
  by (auto simp: ids_ok_def with_id_def)

lemma route_map_mem: "route_map rs i = Some r \<Longrightarrow> r \<in> set rs \<and> r_id r = i"
  unfolding route_map_def by (metis (mono_tags, lifting) find_Some_iff nth_mem)

lemma route_map_None: "route_map rs i = None \<longleftrightarrow> i \<notin> r_id ` set rs"
  unfolding route_map_def by (auto simp: find_None_iff)

text \<open>A small Caddy that meets the law: a list of routes.\<close>

fun list_caddy :: "route list admin_api" where
  "list_caddy Get_Routes rs = (Inr (Routes_Reply rs), rs)"
| "list_caddy (Post_Route r) rs = (Inr No_Body, rs @ [r])"
| "list_caddy (Delete_Id i) rs =
     (if i \<in> r_id ` set rs then (Inr No_Body, filter (\<lambda>r. r_id r \<noteq> i) rs) else (Inl ''unknown object ID'', rs))"
| "list_caddy (Post_Load cfg) rs = (Inr No_Body, concat (map (sv_routes \<circ> snd) (cf_servers cfg)))"
| "list_caddy Get_Upstreams rs = (Inr (Upstreams_Reply []), rs)"
| "list_caddy Get_Listen rs = (Inr No_Body, rs)"
| "list_caddy (Patch_Certs cs) rs = (Inr No_Body, rs)"

lemma list_caddy_answers: "caddy_answers list_caddy (\<lambda>rs. rs)"
proof -
  have "snd (list_caddy (Delete_Id i) rs) = filter (\<lambda>r. r_id r \<noteq> i) rs" for i rs
    by (auto simp: filter_id_conv image_iff intro!: filter_True [symmetric])
  moreover have "i \<in> r_id ` set rs \<Longrightarrow> fst (list_caddy (Delete_Id i) rs) = Inr No_Body" for i rs
    by simp
  ultimately show ?thesis unfolding caddy_answers_def by (simp del: list_caddy.simps(3))
qed

end
