(* ===== verification/Proxy_Hostname.thy ===== *)
theory Proxy_Hostname
  imports VAC_Prelude
begin

text \<open>
  Hostnames: api/internal/proxy/hostname.go and the names of api/internal/proxy/network.go. The
  error of NormalizeHostname is a datatype whose text is \<open>host_err_text\<close>. A string is a
  list of bytes and the case mapping is the ASCII one, so the model covers ASCII input, which the
  comment of the function asks for.
\<close>

definition dot :: char where "dot = CHR ''.''"

definition auto_subdomain :: "string \<Rightarrow> string \<Rightarrow> string \<Rightarrow> bool \<Rightarrow> string" where
  "auto_subdomain slug service base multi =
     (if base = [] then []
      else if multi then service @ ''.'' @ slug @ ''.'' @ base else slug @ ''.'' @ base)"

datatype host_err =
    Host_Empty | Host_Whitespace | Host_Wildcard | Host_Scheme | Host_Not_Qualified | Host_Too_Long
  | Label_Empty | Label_Too_Long | Label_Hyphen | Label_Char char

text \<open>The verb q of a byte.\<close>

definition quote_rune :: "char \<Rightarrow> string" where
  "quote_rune c = [CHR 0x27] @ (if c = CHR 0x27 then [CHR 0x5C, c] else if c = CHR 0x22 then [c] else quote_char c) @ [CHR 0x27]"

definition host_err_text :: "host_err \<Rightarrow> string" where
  "host_err_text e = ''proxy: invalid hostname: '' @ (case e of
     Host_Empty \<Rightarrow> ''empty''
   | Host_Whitespace \<Rightarrow> ''contains whitespace''
   | Host_Wildcard \<Rightarrow> ''wildcards not allowed''
   | Host_Scheme \<Rightarrow> ''must not contain a scheme, port, or path''
   | Host_Not_Qualified \<Rightarrow> ''must be a fully-qualified domain''
   | Host_Too_Long \<Rightarrow> ''too long''
   | Label_Empty \<Rightarrow> ''empty label''
   | Label_Too_Long \<Rightarrow> ''label too long''
   | Label_Hyphen \<Rightarrow> ''label must not start or end with a hyphen''
   | Label_Char c \<Rightarrow> ''invalid character '' @ quote_rune c)"

definition label_char :: "char \<Rightarrow> bool" where
  "label_char c = (let n = (of_char c :: nat) in (97 \<le> n \<and> n \<le> 122) \<or> (48 \<le> n \<and> n \<le> 57) \<or> c = CHR ''-'')"

definition validate_label :: "string \<Rightarrow> host_err option" where
  "validate_label l =
     (if l = [] then Some Label_Empty
      else if length l > 63 then Some Label_Too_Long
      else if hd l = CHR ''-'' \<or> last l = CHR ''-'' then Some Label_Hyphen
      else map_option Label_Char (find (\<lambda>c. \<not> label_char c) l))"

fun first_label_error :: "string list \<Rightarrow> host_err option" where
  "first_label_error [] = None"
| "first_label_error (l # ls) = (case validate_label l of Some e \<Rightarrow> Some e | None \<Rightarrow> first_label_error ls)"

definition trim_suffix :: "string \<Rightarrow> string \<Rightarrow> string" where
  "trim_suffix s p = (if has_suffix s p then take (length s - length p) s else s)"

definition contains_any :: "string \<Rightarrow> string \<Rightarrow> bool" where
  "contains_any s cs = list_ex (\<lambda>c. c \<in> set cs) s"

definition normalize_hostname :: "string \<Rightarrow> host_err + string" where
  "normalize_hostname raw =
     (let h = trim_suffix (to_lower (trim_space raw)) ''.''
      in if h = [] then Inl Host_Empty
         else if contains_any h [CHR '' '', CHR 0x09, CHR 0x0A, CHR 0x0D] then Inl Host_Whitespace
         else if contains_str h ''*'' then Inl Host_Wildcard
         else if contains_any h ''/:?#@'' then Inl Host_Scheme
         else if \<not> contains_str h ''.'' then Inl Host_Not_Qualified
         else if length h > 253 then Inl Host_Too_Long
         else (case first_label_error (split_byte dot h) of Some e \<Rightarrow> Inl e | None \<Rightarrow> Inr h))"

section \<open>Names on the edge network and in Caddy\<close>

definition service_alias :: "string \<Rightarrow> string \<Rightarrow> string" where
  "service_alias slug service = slug @ ''--'' @ service"

definition route_id_prefix :: string where "route_id_prefix = ''vac-route-''"
definition auto_route_id_prefix :: string where "auto_route_id_prefix = ''vac-auto-''"

definition route_id :: "string \<Rightarrow> string" where
  "route_id i = route_id_prefix @ i"

definition auto_route_id :: "string \<Rightarrow> string \<Rightarrow> string" where
  "auto_route_id app service = auto_route_id_prefix @ app @ ''-'' @ service"

definition is_managed_route_id :: "string \<Rightarrow> bool" where
  "is_managed_route_id i = (has_prefix i route_id_prefix \<or> has_prefix i auto_route_id_prefix)"

definition control_route_id :: string where "control_route_id = ''vac-control-route''"

lemma managed_ids [simp]:
  "is_managed_route_id (route_id i)" "is_managed_route_id (auto_route_id a n)"
  "\<not> is_managed_route_id control_route_id" "route_id i \<noteq> []" "auto_route_id a n \<noteq> []"
  "control_route_id \<noteq> []" "route_id i \<noteq> auto_route_id a n" "auto_route_id a n \<noteq> route_id i"
  by (simp_all add: is_managed_route_id_def route_id_def auto_route_id_def control_route_id_def has_prefix_def
      route_id_prefix_def auto_route_id_prefix_def)

lemma route_id_inj [simp]: "route_id i = route_id j \<longleftrightarrow> i = j"
  by (simp add: route_id_def)

lemma auto_route_id_inj:
  "length a = length b \<Longrightarrow> auto_route_id a n = auto_route_id b k \<longleftrightarrow> a = b \<and> n = k"
  by (simp add: auto_route_id_def)

section \<open>What NormalizeHostname accepts\<close>

text \<open>The grammar: at least two labels of letters, digits and inner hyphens, separated by dots.\<close>

definition ldh_label :: "string \<Rightarrow> bool" where
  "ldh_label l = (l \<noteq> [] \<and> length l \<le> 63 \<and> hd l \<noteq> CHR ''-'' \<and> last l \<noteq> CHR ''-'' \<and> list_all label_char l)"

definition valid_hostname :: "string \<Rightarrow> bool" where
  "valid_hostname h = (length h \<le> 253 \<and>
     (\<exists>ls. h = join_str ''.'' ls \<and> 2 \<le> length ls \<and> list_all ldh_label ls))"

lemma validate_label_None: "validate_label l = None \<longleftrightarrow> ldh_label l"
  by (auto simp: validate_label_def ldh_label_def find_None_iff list_all_iff)

lemma first_label_error_None: "first_label_error ls = None \<longleftrightarrow> list_all ldh_label ls"
  by (induction ls) (auto simp: validate_label_None [symmetric] split: option.split)

lemma join_split: "join_str [c] (split_byte c s) = s"
proof (induction s)
  case (Cons x xs)
  obtain y ys where "split_byte c xs = y # ys" by (cases "split_byte c xs") auto
  then show ?case using Cons by (cases ys) auto
qed simp

lemma split_join: "ls \<noteq> [] \<Longrightarrow> \<forall>l\<in>set ls. c \<notin> set l \<Longrightarrow> split_byte c (join_str [c] ls) = ls"
proof (induction "[c]" ls rule: join_str.induct)
  case (3 x y ys)
  then show ?case using split_byte_append [of c x "join_str [c] (y # ys)"] by simp
qed simp_all

lemma split_length: "2 \<le> length (split_byte c s) \<longleftrightarrow> c \<in> set s"
proof (induction s)
  case (Cons x xs)
  have "length (split_byte c xs) > 0" by simp
  then show ?case using Cons by (auto split: list.splits)
qed simp

lemma label_char_plain:
  "label_char c \<Longrightarrow> c \<notin> {CHR ''.'', CHR '' '', CHR 0x09, CHR 0x0A, CHR 0x0B, CHR 0x0C, CHR 0x0D,
     CHR ''*'', CHR ''/'', CHR '':'', CHR ''?'', CHR ''#'', CHR ''@''}"
  by (auto simp: label_char_def Let_def)

lemma contains_char: "contains_str s [c] \<longleftrightarrow> c \<in> set s"
  by (auto simp: contains_str_sublist sublist_def dest: split_list)

lemma set_join: "set (join_str [c] ls) \<subseteq> insert c (\<Union> (set ` set ls))"
  by (induction "[c]" ls rule: join_str.induct) auto

lemma valid_hostname_split: "valid_hostname h \<longleftrightarrow>
   length h \<le> 253 \<and> 2 \<le> length (split_byte dot h) \<and> list_all ldh_label (split_byte dot h)"
proof
  assume "valid_hostname h"
  then obtain ls where ls: "length h \<le> 253" "h = join_str [dot] ls" "2 \<le> length ls" "list_all ldh_label ls"
    by (auto simp: valid_hostname_def dot_def)
  have "\<forall>l\<in>set ls. dot \<notin> set l"
    using ls(4) label_char_plain by (fastforce simp: list_all_iff ldh_label_def dot_def)
  moreover have "ls \<noteq> []" using ls(3) by auto
  ultimately have "split_byte dot h = ls" using ls(2) split_join [of ls dot] by simp
  with ls show "length h \<le> 253 \<and> 2 \<le> length (split_byte dot h) \<and> list_all ldh_label (split_byte dot h)" by simp
next
  assume a: "length h \<le> 253 \<and> 2 \<le> length (split_byte dot h) \<and> list_all ldh_label (split_byte dot h)"
  then show "valid_hostname h"
    using join_split [of dot h] unfolding valid_hostname_def dot_def by metis
qed

lemma valid_hostname_chars:
  assumes "valid_hostname h" "c \<in> set h"
  shows "c = dot \<or> label_char c"
proof -
  have "h = join_str [dot] (split_byte dot h)" by (simp add: join_split)
  then have "c \<in> insert dot (\<Union> (set ` set (split_byte dot h)))"
    using set_join [of dot "split_byte dot h"] assms(2) by auto
  then show ?thesis using assms(1) by (auto simp: valid_hostname_split list_all_iff ldh_label_def)
qed

lemma normalize_hostname_iff:
  "normalize_hostname raw = Inr h \<longleftrightarrow>
     h = trim_suffix (to_lower (trim_space raw)) ''.'' \<and> valid_hostname h"
proof -
  let ?h = "trim_suffix (to_lower (trim_space raw)) ''.''"
  have plain: "?h \<noteq> []" "\<not> contains_any ?h [CHR '' '', CHR 0x09, CHR 0x0A, CHR 0x0D]" "\<not> contains_str ?h ''*''"
      "\<not> contains_any ?h ''/:?#@''" "contains_str ?h ''.''" "\<not> length ?h > 253"
      "first_label_error (split_byte dot ?h) = None" if v: "valid_hostname ?h"
  proof -
    have chars: "\<And>c. c \<in> set ?h \<Longrightarrow> c = dot \<or> label_char c" using valid_hostname_chars [OF v] by blast
    then show "\<not> contains_any ?h [CHR '' '', CHR 0x09, CHR 0x0A, CHR 0x0D]" "\<not> contains_str ?h ''*''"
      "\<not> contains_any ?h ''/:?#@''"
      using label_char_plain by (fastforce simp: contains_any_def list_ex_iff contains_char dot_def)+
    have "dot \<in> set ?h" using v split_length by (simp add: valid_hostname_split)
    then show "?h \<noteq> []" "contains_str ?h ''.''" by (auto simp: contains_char dot_def)
    show "\<not> length ?h > 253" "first_label_error (split_byte dot ?h) = None"
      using v by (simp_all add: valid_hostname_split first_label_error_None)
  qed
  have conv: "contains_str ?h ''.'' \<Longrightarrow> \<not> length ?h > 253 \<Longrightarrow>
      first_label_error (split_byte dot ?h) = None \<Longrightarrow> valid_hostname ?h"
    using split_length [of dot ?h] by (simp add: valid_hostname_split first_label_error_None contains_char dot_def)
  show ?thesis
    unfolding normalize_hostname_def Let_def
    using plain conv by (auto split: option.splits)
qed

lemma valid_is_normal:
  assumes "valid_hostname h"
  shows "trim_suffix (to_lower (trim_space h)) ''.'' = h"
proof -
  have ns: "list_all (\<lambda>c. \<not> is_space c) h"
    using valid_hostname_chars [OF assms] label_char_plain
    by (fastforce simp: list_all_iff is_space_def dot_def)
  have low: "to_lower h = h"
    using valid_hostname_chars [OF assms]
    by (fastforce simp: to_lower_def lower_char_def label_char_def dot_def Let_def intro!: map_idI)
  have "\<not> has_suffix h ''.''"
  proof
    assume "has_suffix h ''.''"
    then obtain p where h: "h = p @ dot # []" by (auto simp: has_suffix_def suffix_def dot_def)
    have "last (split_byte dot (p @ [dot])) = [] \<and> (p = [] \<or> dot \<in> set (p @ [dot]))
        \<and> (2 \<le> length (split_byte dot (p @ [dot])))"
      by (induction p) (auto split: list.splits)
    then have "[] \<in> set (split_byte dot h)" unfolding h by (metis last_in_set split_byte_nonempty)
    then show False using assms by (auto simp: valid_hostname_split list_all_iff ldh_label_def)
  qed
  then show ?thesis by (simp add: trim_space_id [OF ns] low trim_suffix_def)
qed

text \<open>
  NormalizeHostname accepts exactly the names that, trimmed, lower-cased and without one final
  dot, have at least two labels of letters, digits and inner hyphens of at most 63 bytes, 253 in
  all; what it returns is such a name, and normalising it again changes nothing.
\<close>

theorem normalize_hostname_accepts:
  "(normalize_hostname raw = Inr h) =
     (h = trim_suffix (to_lower (trim_space raw)) ''.'' \<and> valid_hostname h)
   \<and> (case normalize_hostname raw of Inl _ \<Rightarrow> True | Inr k \<Rightarrow> normalize_hostname k = Inr k)"
proof -
  have "normalize_hostname k = Inr k" if "normalize_hostname raw = Inr k" for k
    using that valid_is_normal normalize_hostname_iff by metis
  then show ?thesis
    using normalize_hostname_iff [of raw h] by (cases "normalize_hostname raw") auto
qed

end
