(* ===== verification/Web_Encoding.thy ===== *)
theory Web_Encoding
  imports VAC_Prelude
begin

text \<open>
  The encodings of Go's standard library that tokens and redirects travel in: url.QueryEscape and
  QueryUnescape, url.ParseQuery, and base64.RawURLEncoding, each with its round trip.
\<close>

section \<open>Query strings\<close>

text \<open>url.QueryEscape.\<close>

definition hex_upper :: "nat \<Rightarrow> char" where
  "hex_upper n = (if n < 10 then char_of (48 + n) else char_of (55 + n))"

definition query_plain :: "char \<Rightarrow> bool" where
  "query_plain c = (let n = (of_char c :: nat) in
     (65 \<le> n \<and> n \<le> 90) \<or> (97 \<le> n \<and> n \<le> 122) \<or> is_digit c \<or> c \<in> set ''-_.~'')"

definition query_escape :: "string \<Rightarrow> string" where
  "query_escape s = concat (map (\<lambda>c. if query_plain c then [c]
        else if c = CHR '' '' then ''+''
        else [CHR 0x25, hex_upper (of_char c div 16), hex_upper (of_char c mod 16)]) s)"

text \<open>url.QueryUnescape; None for a percent sign without two hexadecimal digits.\<close>

definition hex_value :: "char \<Rightarrow> nat option" where
  "hex_value c = (let n = (of_char c :: nat) in
     if 48 \<le> n \<and> n \<le> 57 then Some (n - 48)
     else if 65 \<le> n \<and> n \<le> 70 then Some (n - 55)
     else if 97 \<le> n \<and> n \<le> 102 then Some (n - 87) else None)"

fun query_unescape :: "string \<Rightarrow> string option" where
  "query_unescape [] = Some []"
| "query_unescape (c # s) =
     (if c = CHR 0x25 then
        (case s of
           a # b # r \<Rightarrow>
             (case (hex_value a, hex_value b) of
                (Some x, Some y) \<Rightarrow> map_option ((#) (char_of (16 * x + y))) (query_unescape r)
              | _ \<Rightarrow> None)
         | _ \<Rightarrow> None)
      else map_option ((#) (if c = CHR ''+'' then CHR '' '' else c)) (query_unescape s))"

text \<open>url.ParseQuery: the pairs it keeps, in order; a piece it cannot read is skipped.\<close>

definition query_pair :: "string \<Rightarrow> (string \<times> string) option" where
  "query_pair piece =
     (if CHR '';'' \<in> set piece \<or> piece = [] then None
      else let (k, v) = (case cut_byte (CHR ''='') piece of Some kv \<Rightarrow> kv | None \<Rightarrow> (piece, []))
           in case (query_unescape k, query_unescape v) of
                (Some k', Some v') \<Rightarrow> Some (k', v')
              | _ \<Rightarrow> None)"

definition parse_query :: "string \<Rightarrow> (string \<times> string) list" where
  "parse_query q = List.map_filter query_pair (split_byte (CHR ''&'') q)"

text \<open>Values.Get: the first value of a key, or the empty string.\<close>

definition query_get :: "string \<Rightarrow> (string \<times> string) list \<Rightarrow> string" where
  "query_get k kvs = (case map_of kvs k of Some v \<Rightarrow> v | None \<Rightarrow> [])"

section \<open>Base64, URL alphabet, no padding\<close>

definition b64_char :: "nat \<Rightarrow> char" where
  "b64_char n = (if n < 26 then char_of (65 + n) else if n < 52 then char_of (71 + n)
     else if n < 62 then char_of (n - 4) else if n = 62 then CHR ''-'' else CHR ''_'')"

definition b64_value :: "char \<Rightarrow> nat option" where
  "b64_value c = (let n = (of_char c :: nat) in
     if 65 \<le> n \<and> n \<le> 90 then Some (n - 65)
     else if 97 \<le> n \<and> n \<le> 122 then Some (n - 71)
     else if 48 \<le> n \<and> n \<le> 57 then Some (n + 4)
     else if c = CHR ''-'' then Some 62 else if c = CHR ''_'' then Some 63 else None)"

fun b64_sextets :: "nat list \<Rightarrow> nat list" where
  "b64_sextets (a # b # c # r) =
     (a div 4) # (a mod 4 * 16 + b div 16) # (b mod 16 * 4 + c div 64) # (c mod 64) # b64_sextets r"
| "b64_sextets [a, b] = [a div 4, a mod 4 * 16 + b div 16, b mod 16 * 4]"
| "b64_sextets [a] = [a div 4, a mod 4 * 16]"
| "b64_sextets [] = []"

text \<open>The decoder does not look at the bits a short last group leaves over.\<close>

fun b64_octets :: "nat list \<Rightarrow> nat list option" where
  "b64_octets (a # b # c # d # r) =
     map_option (\<lambda>t. (a * 4 + b div 16) # (b mod 16 * 16 + c div 4) # (c mod 4 * 64 + d) # t) (b64_octets r)"
| "b64_octets [a, b, c] = Some [a * 4 + b div 16, b mod 16 * 16 + c div 4]"
| "b64_octets [a, b] = Some [a * 4 + b div 16]"
| "b64_octets [a] = None"
| "b64_octets [] = Some []"

definition b64_encode :: "string \<Rightarrow> string" where
  "b64_encode s = map b64_char (b64_sextets (map of_char s))"

fun traverse :: "('a \<Rightarrow> 'b option) \<Rightarrow> 'a list \<Rightarrow> 'b list option" where
  "traverse f [] = Some []"
| "traverse f (x # xs) = (case f x of None \<Rightarrow> None | Some y \<Rightarrow> map_option ((#) y) (traverse f xs))"

text \<open>Line ends are skipped, wherever they stand.\<close>

definition b64_decode :: "string \<Rightarrow> string option" where
  "b64_decode s = (case traverse b64_value (filter (\<lambda>c. c \<noteq> CHR 0x0A \<and> c \<noteq> CHR 0x0D) s) of
     None \<Rightarrow> None
   | Some ns \<Rightarrow> map_option (map char_of) (b64_octets ns))"

section \<open>Round trips\<close>

lemma of_char_less: "(of_char c :: nat) < 256"
proof -
  have "(of_char c :: nat) mod 256 < 256" by (rule mod_less_divisor) simp
  then show ?thesis by simp
qed

lemma of_char_digits: "(of_char c :: nat) div 16 < 16" "(of_char c :: nat) mod 16 < 16"
  using of_char_less [of c] by (auto simp: less_mult_imp_div_less)

lemma hex_value_upper: "n < 16 \<Longrightarrow> hex_value (hex_upper n) = Some n"
  by (simp add: hex_value_def hex_upper_def Let_def)

lemma query_plain_not: "query_plain c \<Longrightarrow> c \<noteq> CHR 0x25 \<and> c \<noteq> CHR ''+''"
  by (auto simp: query_plain_def is_digit_def Let_def)

theorem query_unescape_escape: "query_unescape (query_escape s @ r) = map_option ((@) s) (query_unescape r)"
proof (induction s)
  case Nil
  have "(@) [] = (\<lambda>x. x)" by (rule ext) simp
  then show ?case by (simp add: query_escape_def option.map_ident)
next
  case (Cons c s)
  let ?n = "of_char c :: nat"
  note n = of_char_digits [of c]
  have c: "char_of (16 * (?n div 16) + ?n mod 16) = c" by simp
  show ?case
    using Cons n query_plain_not [of c]
    by (auto simp: query_escape_def hex_value_upper c option.map_comp comp_def)
qed

lemma query_unescape_escaped [simp]: "query_unescape (query_escape s) = Some s"
  using query_unescape_escape [of s "[]"] by simp

lemma hex_upper_plain: "n < 16 \<Longrightarrow> query_plain (hex_upper n)"
  by (auto simp: query_plain_def is_digit_def hex_upper_def Let_def)

lemma query_escape_chars: "set (query_escape s) \<subseteq> {c. query_plain c} \<union> {CHR ''+'', CHR 0x25}"
  by (auto simp: query_escape_def of_char_digits split: if_splits intro: hex_upper_plain)

lemma query_escape_free: "CHR ''&'' \<notin> set (query_escape s)" "CHR '';'' \<notin> set (query_escape s)" "CHR ''='' \<notin> set (query_escape s)"
  using query_escape_chars [of s] by (auto simp: query_plain_def is_digit_def Let_def)

lemma b64_value_char: "n < 64 \<Longrightarrow> b64_value (b64_char n) = Some n"
  by (auto simp: b64_value_def b64_char_def Let_def)

lemma b64_char_kept: "n < 64 \<Longrightarrow> b64_char n \<noteq> CHR 0x0A \<and> b64_char n \<noteq> CHR 0x0D \<and> b64_char n \<noteq> CHR ''.''"
  using b64_value_char [of n] by (auto simp: b64_value_def Let_def)

lemma shift_split:
  fixes h l k :: nat
  assumes "l < k"
  shows "(h * k + l) div k = h" "(h * k + l) mod k = l"
  using assms by simp_all

lemma octet_parts:
  fixes n :: nat
  assumes "n < 256"
  shows "n div 4 < 64" "n div 16 < 16" "n div 64 < 4" "n mod 4 < 4" "n mod 16 < 16" "n mod 64 < 64"
  using assms by (simp_all add: less_mult_imp_div_less)

lemma join_parts:
  fixes h l :: nat
  shows "h < 4 \<Longrightarrow> l < 16 \<Longrightarrow> h * 16 + l < 64" "h < 16 \<Longrightarrow> l < 4 \<Longrightarrow> h * 4 + l < 64"
    "h < 4 \<Longrightarrow> h * 16 < 64" "h < 16 \<Longrightarrow> h * 4 < 64"
  by simp_all

lemma b64_sextets_range: "\<forall>n\<in>set ns. n < 256 \<Longrightarrow> \<forall>k\<in>set (b64_sextets ns). k < 64"
proof (induction ns rule: b64_sextets.induct)
  case (1 a b c r)
  then have h: "a < 256" "b < 256" "c < 256" and r: "\<forall>n\<in>set r. n < 256" by simp_all
  have "a div 4 < 64" "a mod 4 * 16 + b div 16 < 64" "b mod 16 * 4 + c div 64 < 64" "c mod 64 < 64"
    by (intro join_parts octet_parts h)+
  with 1(1) [OF r] show ?case unfolding b64_sextets.simps list.set by blast
next
  case (2 a b)
  then have h: "a < 256" "b < 256" by simp_all
  have "a div 4 < 64" "a mod 4 * 16 + b div 16 < 64" "b mod 16 * 4 < 64"
    by (intro join_parts octet_parts h)+
  then show ?case unfolding b64_sextets.simps list.set by blast
next
  case (3 a)
  then have h: "a < 256" by simp
  have "a div 4 < 64" "a mod 4 * 16 < 64" by (intro join_parts octet_parts h)+
  then show ?case unfolding b64_sextets.simps list.set by blast
qed simp

lemma sextet_octets:
  fixes a b c :: nat
  assumes "a < 256" "b < 256" "c < 256"
  shows "a div 4 * 4 + (a mod 4 * 16 + b div 16) div 16 = a"
    "(a mod 4 * 16 + b div 16) mod 16 * 16 + (b mod 16 * 4 + c div 64) div 4 = b"
    "(b mod 16 * 4 + c div 64) mod 4 * 64 + c mod 64 = c"
proof -
  note p = shift_split(1) [of "b div 16" 16 "a mod 4"] shift_split(2) [of "b div 16" 16 "a mod 4"]
    shift_split(1) [of "c div 64" 4 "b mod 16"] shift_split(2) [of "c div 64" 4 "b mod 16"]
  show "a div 4 * 4 + (a mod 4 * 16 + b div 16) div 16 = a"
    "(a mod 4 * 16 + b div 16) mod 16 * 16 + (b mod 16 * 4 + c div 64) div 4 = b"
    "(b mod 16 * 4 + c div 64) mod 4 * 64 + c mod 64 = c"
    using octet_parts [OF assms(2)] octet_parts [OF assms(3)] p by (simp_all only: div_mult_mod_eq)
qed

lemma b64_octets_sextets: "\<forall>n\<in>set ns. n < 256 \<Longrightarrow> b64_octets (b64_sextets ns) = Some ns"
proof (induction ns rule: b64_sextets.induct)
  case (1 a b c r)
  then show ?case using sextet_octets [of a b c] by simp
next
  case (2 a b)
  then show ?case using sextet_octets [of a b 0] by simp
next
  case (3 a)
  then show ?case using sextet_octets [of a 0 0] by simp
qed simp

lemma traverse_map: "\<forall>x\<in>set xs. f (g x) = Some x \<Longrightarrow> traverse f (map g xs) = Some xs"
  by (induction xs) simp_all

lemma b64_chars: "c \<in> set (b64_encode s) \<Longrightarrow> c \<noteq> CHR 0x0A \<and> c \<noteq> CHR 0x0D \<and> c \<noteq> CHR ''.''"
proof -
  assume "c \<in> set (b64_encode s)"
  then obtain n where "n \<in> set (b64_sextets (map of_char s))" "c = b64_char n" by (auto simp: b64_encode_def)
  then show ?thesis
    using b64_sextets_range [of "map of_char s"] b64_char_kept [of n] by (auto simp: of_char_less)
qed

theorem b64_decode_encode: "b64_decode (b64_encode s) = Some s"
proof -
  let ?ns = "map of_char s :: nat list"
  have range: "\<forall>n\<in>set ?ns. n < 256" by (auto simp: of_char_less)
  have "filter (\<lambda>c. c \<noteq> CHR 0x0A \<and> c \<noteq> CHR 0x0D) (b64_encode s) = b64_encode s"
    using b64_chars by (intro filter_True) blast
  moreover have "traverse b64_value (b64_encode s) = Some (b64_sextets ?ns)"
    unfolding b64_encode_def
    by (rule traverse_map) (use b64_sextets_range [OF range] b64_value_char in blast)
  moreover have "map char_of ?ns = s" by (simp add: comp_def)
  ultimately show ?thesis using b64_octets_sextets [OF range] by (simp add: b64_decode_def)
qed

end
