(* ===== verification/Proxy_Routes.thy ===== *)
theory Proxy_Routes
  imports Store_Domains Caddy_Config Proxy_Hostname Web_Encoding
begin

text \<open>
  The routes an app should have: the pure part of api/internal/proxy/manager.go, with Render of
  api/internal/maintenance/maintenance.go. The configuration of the manager, its runtime override
  of the base domain, the optional parts that are wired, and the functions outside the program
  (Caddy's admin API, the docker network, the opening of sealed keys, the embedded default page)
  are the fields of \<open>manager\<close>.
\<close>

section \<open>Configuration\<close>

record proxy_config =
  pc_edge :: string
  pc_base_domain :: string
  pc_control_domain :: string
  pc_control_port :: int
  pc_health_interval :: duration
  pc_health_timeout :: duration
  pc_health_retries :: int
  pc_wake_token :: string
  pc_guard_enabled :: bool

datatype net_call = Net_Create string | Net_Connect string string string | Net_Disconnect string string

record 'w manager =
  pm_cfg :: proxy_config
  pm_override :: "string option"
  pm_base_config :: "config option"
  pm_engine :: bool
  pm_certs :: bool
  pm_api :: "'w admin_api"
  pm_net :: "net_call \<Rightarrow> 'w \<Rightarrow> string option \<times> 'w"
  pm_open_key :: "string \<Rightarrow> string option"
  pm_default_html :: string
  pm_err_text :: "store_err \<Rightarrow> string"

text \<open>The defaults of New; nothing is wired.\<close>

definition new_config :: "proxy_config \<Rightarrow> proxy_config" where
  "new_config c = c\<lparr>pc_edge := (if pc_edge c = [] then ''vac-edge'' else pc_edge c),
     pc_health_interval := (if pc_health_interval c \<le> 0 then 5 * second else pc_health_interval c),
     pc_health_timeout := (if pc_health_timeout c \<le> 0 then 30 * second else pc_health_timeout c),
     pc_health_retries := (if pc_health_retries c \<le> 0 then 5 else pc_health_retries c)\<rparr>"

definition set_base_domain :: "string \<Rightarrow> 'w manager \<Rightarrow> 'w manager" where
  "set_base_domain d m = m\<lparr>pm_override := Some d\<rparr>"

definition base_domain :: "'w manager \<Rightarrow> string" where
  "base_domain m = (case pm_override m of Some d \<Rightarrow> d | None \<Rightarrow> pc_base_domain (pm_cfg m))"

definition set_base_config :: "config option \<Rightarrow> 'w manager \<Rightarrow> 'w manager" where
  "set_base_config c m = m\<lparr>pm_base_config := c\<rparr>"

section \<open>Derived hosts\<close>

record auto_host =
  ah_hostname :: string
  ah_app :: string
  ah_slug :: string
  ah_service_name :: string
  ah_service :: service

definition http_service :: "service \<Rightarrow> bool" where
  "http_service v = (s_internal_port v \<noteq> None \<and> \<not> s_private v)"

definition auto_hosts_for_app :: "'w manager \<Rightarrow> app \<Rightarrow> service list \<Rightarrow> auto_host list" where
  "auto_hosts_for_app m ap svcs =
     (let base = base_domain m
      in if base = [] then []
         else let http = filter http_service svcs; multi = length http > 1
              in List.map_filter (\<lambda>v.
                   let host = auto_subdomain (a_slug ap) (s_name v) base multi
                   in if host = [] then None
                      else Some \<lparr>ah_hostname = host, ah_app = a_id ap, ah_slug = a_slug ap,
                                 ah_service_name = s_name v, ah_service = v\<rparr>) http)"

text \<open>The routes wanted: a map built from the services of an app, where the last of a name wins.\<close>

definition by_name :: "service list \<Rightarrow> string \<Rightarrow> service option" where
  "by_name svcs n = find (\<lambda>v. s_name v = n) (rev svcs)"

record route_spec =
  rs_id :: string
  rs_hostname :: string
  rs_service :: string
  rs_redirect :: string

definition domain_spec :: "domain \<Rightarrow> route_spec" where
  "domain_spec d =
     (if dn_redirect d \<noteq> []
      then \<lparr>rs_id = route_id (dn_id d), rs_hostname = dn_hostname d, rs_service = [], rs_redirect = dn_redirect d\<rparr>
      else \<lparr>rs_id = route_id (dn_id d), rs_hostname = dn_hostname d, rs_service = dn_service d, rs_redirect = []\<rparr>)"

definition desired_routes :: "'w manager \<Rightarrow> app \<Rightarrow> domain list \<Rightarrow> service list \<Rightarrow> route_spec list" where
  "desired_routes m ap ds svcs =
     map domain_spec (filter assigned ds)
     @ map (\<lambda>ah. \<lparr>rs_id = auto_route_id (a_id ap) (ah_service_name ah), rs_hostname = ah_hostname ah,
                   rs_service = ah_service_name ah, rs_redirect = []\<rparr>) (auto_hosts_for_app m ap svcs)"

section \<open>Building routes\<close>

definition redirect_route :: "string \<Rightarrow> string \<Rightarrow> string \<Rightarrow> route" where
  "redirect_route i host target = Route i [[host]]
     [static_handler 308 [(''Location'', [''https://'' @ target @ ''{http.request.uri}''])] []]"

definition render_maintenance :: "string \<Rightarrow> string option \<Rightarrow> string" where
  "render_maintenance builtin custom =
     (case custom of Some h \<Rightarrow> if trim_space h \<noteq> [] then h else builtin | None \<Rightarrow> builtin)"

definition maintenance_route :: "string \<Rightarrow> string \<Rightarrow> string \<Rightarrow> route" where
  "maintenance_route i host html = Route i [[host]]
     [static_handler 503 [(''Content-Type'', [''text/html; charset=utf-8'']), (''Retry-After'', [''120''])] html]"

definition control_dial :: "'w manager \<Rightarrow> string" where
  "control_dial m = (let port = (if pc_control_port (pm_cfg m) \<le> 0 then 9393 else pc_control_port (pm_cfg m))
                     in ''vac-api:'' @ show_int port)"

definition wake_route :: "'w manager \<Rightarrow> string \<Rightarrow> string \<Rightarrow> route" where
  "wake_route m i host =
     (let setops = [(''X-Vac-Wake-Host'', [''{http.request.host}'']), (''X-Vac-Wake-Uri'', [''{http.request.orig_uri}''])]
            @ (if pc_wake_token (pm_cfg m) \<noteq> [] then [(''X-Caddy-Ask-Token'', [pc_wake_token (pm_cfg m)])] else [])
      in Route i [[host]]
           [headers_handler setops, rewrite_handler ''/__vac_wake'', proxy_handler (control_dial m) None])"

definition guard_verify_path :: string where "guard_verify_path = ''/__vac_guard''"

definition guard_handlers :: "'w manager \<Rightarrow> caddy_handler list" where
  "guard_handlers m =
     (let carry = [(''X-Vac-Guard-Host'', [''{http.request.host}'']), (''X-Vac-Guard-Uri'', [''{http.request.orig_uri}''])];
          verify = guard_verify_path @
            (if pc_wake_token (pm_cfg m) \<noteq> [] then ''?t='' @ query_escape (pc_wake_token (pm_cfg m)) else [])
      in [headers_handler carry,
          auth_handler (control_dial m) \<lparr>rw_method = ''GET'', rw_uri = verify\<rparr>
            [Response_Handler (Some [2]) [Route [] []
               [headers_handler [(''X-Vac-User'', [''{http.reverse_proxy.header.X-Vac-User}''])]]]]])"

definition port_or :: "int option \<Rightarrow> int" where
  "port_or p = (case p of Some n \<Rightarrow> n | None \<Rightarrow> 0)"

definition dial :: "string \<Rightarrow> service \<Rightarrow> string" where
  "dial slug v = service_alias slug (s_name v) @ '':'' @ show_int (port_or (s_internal_port v))"

definition health_check_of :: "'w manager \<Rightarrow> string \<Rightarrow> active_check" where
  "health_check_of m path = \<lparr>hc_path = path, hc_interval = duration_string (pc_health_interval (pm_cfg m)),
     hc_timeout = duration_string (pc_health_timeout (pm_cfg m)), hc_expect_status = 0\<rparr>"

definition app_route :: "'w manager \<Rightarrow> string \<Rightarrow> string \<Rightarrow> service \<Rightarrow> string \<Rightarrow> int option \<Rightarrow> route" where
  "app_route m i host v slug rpm =
     (let path = (case s_health_path v of Some p \<Rightarrow> if p \<noteq> [] then p else ''/'' | None \<Rightarrow> ''/'');
          limit = (case rpm of Some n \<Rightarrow> if n > 0 then [rate_limit_handler i n] else [] | None \<Rightarrow> []);
          guard = (if s_requires_auth v \<and> pc_guard_enabled (pm_cfg m) then guard_handlers m else [])
      in Route i [[host]] (limit @ guard @ [proxy_handler (dial slug v) (Some (health_check_of m path))]))"

definition route_for :: "'w manager \<Rightarrow> domain \<Rightarrow> service \<Rightarrow> string \<Rightarrow> int option \<Rightarrow> route" where
  "route_for m d v slug rpm = app_route m (route_id (dn_id d)) (dn_hostname d) v slug rpm"

definition control_route :: "'w manager \<Rightarrow> route" where
  "control_route m = Route control_route_id [[pc_control_domain (pm_cfg m)]]
     [proxy_handler (control_dial m) (Some (health_check_of m ''/health''))]"

definition is_control_domain :: "'w manager \<Rightarrow> string \<Rightarrow> bool" where
  "is_control_domain m host =
     (pc_control_domain (pm_cfg m) \<noteq> [] \<and> to_lower host = to_lower (pc_control_domain (pm_cfg m)))"

text \<open>The condition of applyApp for a route to a service, the guard included.\<close>

definition has_container :: "service \<Rightarrow> bool" where
  "has_container v = (case s_container v of Some c \<Rightarrow> c \<noteq> [] | None \<Rightarrow> False)"

definition routable :: "'w manager \<Rightarrow> service \<Rightarrow> bool" where
  "routable m v = (has_container v \<and> s_internal_port v \<noteq> None \<and> \<not> s_private v
     \<and> \<not> (s_requires_auth v \<and> \<not> pc_guard_enabled (pm_cfg m)))"

section \<open>Lemmas\<close>

lemma with_id_routes [simp]:
  "with_id i (redirect_route i h t) = redirect_route i h t"
  "with_id i (maintenance_route i h p) = maintenance_route i h p"
  "with_id i (wake_route m i h) = wake_route m i h"
  "with_id i (app_route m i h v s r) = app_route m i h v s r"
  "with_id control_route_id (control_route m) = control_route m"
  by (simp_all add: with_id_def redirect_route_def maintenance_route_def wake_route_def app_route_def
      control_route_def Let_def)

lemma auto_host_service:
  assumes "ah \<in> set (auto_hosts_for_app m ap svcs)"
  shows "ah_service ah \<in> set svcs \<and> http_service (ah_service ah) \<and> ah_service_name ah = s_name (ah_service ah)
    \<and> ah_app ah = a_id ap \<and> ah_slug ah = a_slug ap"
  using assms
  by (auto simp: auto_hosts_for_app_def Let_def List.map_filter_def split: if_splits)

lemma auto_host_names:
  "map ah_service_name (auto_hosts_for_app m ap svcs) =
     (if base_domain m = [] then [] else map s_name (filter http_service svcs))"
proof -
  have "auto_subdomain (a_slug ap) n (base_domain m) b \<noteq> []" if "base_domain m \<noteq> []" for n b
    using that by (simp add: auto_subdomain_def)
  then show ?thesis
    by (simp add: auto_hosts_for_app_def Let_def List.map_filter_def comp_def)
qed

lemma by_name_mem: "by_name svcs n = Some v \<Longrightarrow> v \<in> set svcs \<and> s_name v = n"
  unfolding by_name_def by (metis (mono_tags, lifting) find_Some_iff nth_mem set_rev)

end
