(* ===== verification/Proxy_Manager.thy ===== *)
theory Proxy_Manager
  imports Proxy_Routes
begin

text \<open>
  The operations of the route manager: api/internal/proxy/manager.go and health.go. The state is the
  database with the domains table, the world behind Caddy's admin API and docker, and the calls
  made to them and to the status engine. The mutex routeMu makes each exported operation one step.
  Log lines are left out. errors.Join of several errors is their texts on lines of their own.
\<close>

record 'w pxst = "'w outside" +
  px_dom :: dom_db
  px_net :: "net_call list"
  px_engine :: "(string \<times> string option) list"   \<comment> \<open>SetError with its detail, ClearError\<close>

type_synonym ('w, 'a) pxop = "('w pxst, string, 'a) sem"

section \<open>The collaborators\<close>

definition px_store :: "'w manager \<Rightarrow> 'a domop \<Rightarrow> ('w, 'a) pxop" where
  "px_store m q = (\<lambda>s. case q (px_dom s) of
     (Inl e, d) \<Rightarrow> (Inl (pm_err_text m e), s\<lparr>px_dom := d\<rparr>)
   | (Inr x, d) \<Rightarrow> (Inr x, s\<lparr>px_dom := d\<rparr>))"

definition px_docker :: "'w manager \<Rightarrow> net_call \<Rightarrow> ('w, unit) pxop" where
  "px_docker m c = (\<lambda>s. case pm_net m c (ou_world s) of
     (None, w) \<Rightarrow> (Inr (), s\<lparr>ou_world := w, px_net := px_net s @ [c]\<rparr>)
   | (Some e, w) \<Rightarrow> (Inl e, s\<lparr>ou_world := w, px_net := px_net s @ [c]\<rparr>))"

definition px_status :: "'w manager \<Rightarrow> string \<Rightarrow> string option \<Rightarrow> ('w, unit) pxop" where
  "px_status m host detail =
     act (\<lambda>s. if pm_engine m then s\<lparr>px_engine := px_engine s @ [(host, detail)]\<rparr> else s)"

definition join_errs :: "string list \<Rightarrow> ('w, unit) pxop" where
  "join_errs es = (if es = [] then ret () else throw (join_str [CHR 0x0A] es))"

text \<open>A call that must not stop the caller: its error, if any, is collected.\<close>

definition collect :: "('w, unit) pxop \<Rightarrow> ('w, string list) pxop" where
  "collect q = and_then (attempt q) (\<lambda>r. case r of Inl e \<Rightarrow> ret [e] | Inr _ \<Rightarrow> ret [])"

fun collect_each :: "('a \<Rightarrow> ('w, string list) pxop) \<Rightarrow> 'a list \<Rightarrow> ('w, string list) pxop" where
  "collect_each f [] = ret []"
| "collect_each f (x # xs) = and_then (f x) (\<lambda>es. and_then (collect_each f xs) (\<lambda>fs. ret (es @ fs)))"

definition ensure_network :: "'w manager \<Rightarrow> ('w, unit) pxop" where
  "ensure_network m = px_docker m (Net_Create (pc_edge (pm_cfg m)))"

definition is_missing_server :: "string \<Rightarrow> bool" where
  "is_missing_server e = contains_str e ''invalid traversal path''"

definition ensure_base_config :: "'w manager \<Rightarrow> ('w, unit) pxop" where
  "ensure_base_config m =
     (case pm_base_config m of
        None \<Rightarrow> ret ()
      | Some cfg \<Rightarrow>
          and_then (attempt (get_routes (pm_api m))) (\<lambda>r.
          case r of
            Inr _ \<Rightarrow> ret ()
          | Inl e \<Rightarrow> if \<not> is_missing_server e then ret () else ignore (client_load (pm_api m) cfg)))"

section \<open>Uploaded certificates\<close>

definition cert_entry :: "'w manager \<Rightarrow> uploaded_cert \<Rightarrow> cert_pair option" where
  "cert_entry m c = (case pm_open_key m (uc_key_enc c) of
     None \<Rightarrow> None
   | Some key \<Rightarrow> Some \<lparr>cp_certificate = uc_pem c, cp_key = key, cp_tags = [''vac-cert-'' @ uc_domain c]\<rparr>)"

definition desired_certs :: "'w manager \<Rightarrow> ('w, cert_pair list) pxop" where
  "desired_certs m =
     (if \<not> pm_certs m then ret []
      else and_then (px_store m list_uploaded_certs) (\<lambda>rows. ret (List.map_filter (cert_entry m) rows)))"

definition push_certs :: "'w manager \<Rightarrow> ('w, unit) pxop" where
  "push_certs m =
     (if \<not> pm_certs m then ret ()
      else and_then (desired_certs m) (\<lambda>certs. put_cert_set (pm_api m) certs))"

definition sync_certs :: "'w manager \<Rightarrow> ('w, unit) pxop" where
  "sync_certs m = and_then (ensure_base_config m) (\<lambda>_. push_certs m)"

section \<open>Reading the host set\<close>

fun auto_hosts_of :: "'w manager \<Rightarrow> app list \<Rightarrow> ('w, auto_host list) pxop" where
  "auto_hosts_of m [] = ret []"
| "auto_hosts_of m (ap # aps) =
     and_then (px_store m (on_dm (list_services_for_app (a_id ap)))) (\<lambda>svcs.
     and_then (auto_hosts_of m aps) (\<lambda>hs. ret (auto_hosts_for_app m ap svcs @ hs)))"

definition auto_hosts :: "'w manager \<Rightarrow> ('w, auto_host list) pxop" where
  "auto_hosts m = and_then (px_store m (on_dm list_apps)) (auto_hosts_of m)"

definition app_id_for_host :: "'w manager \<Rightarrow> string \<Rightarrow> ('w, string option) pxop" where
  "app_id_for_host m host0 =
     (let host = to_lower (trim_space host0)
      in if host = [] then ret None
         else and_then (px_store m list_all_domains) (\<lambda>ds.
              case find (\<lambda>d. assigned d \<and> to_lower (dn_hostname d) = to_lower host) ds of
                Some d \<Rightarrow> ret (Some (dn_app d))
              | None \<Rightarrow> and_then (auto_hosts m) (\<lambda>hs.
                  ret (map_option ah_app (find (\<lambda>h. to_lower (ah_hostname h) = to_lower host) hs)))))"

definition is_auto_host :: "'w manager \<Rightarrow> string \<Rightarrow> ('w, bool) pxop" where
  "is_auto_host m host = and_then (auto_hosts m) (\<lambda>hs.
     ret (list_ex (\<lambda>h. to_lower (ah_hostname h) = to_lower (to_lower host)) hs))"

text \<open>guardedHosts: the entries in the order in which the code writes them, later ones win.\<close>

type_synonym guard_target = "string \<times> string"

definition guarded_of_app :: "'w manager \<Rightarrow> app \<Rightarrow> domain list \<Rightarrow> service list \<Rightarrow> (string \<times> guard_target) list" where
  "guarded_of_app m ap ds svcs =
     map (\<lambda>ah. (to_lower (ah_hostname ah), (a_id ap, ah_service_name ah)))
       (filter (\<lambda>ah. s_requires_auth (ah_service ah)) (auto_hosts_for_app m ap svcs))
     @ map (\<lambda>d. (to_lower (dn_hostname d), (a_id ap, dn_service d)))
         (filter (\<lambda>d. assigned d \<and> (case by_name svcs (dn_service d) of Some v \<Rightarrow> s_requires_auth v | None \<Rightarrow> False)) ds)"

fun guarded_hosts_of :: "'w manager \<Rightarrow> app list \<Rightarrow> ('w, (string \<times> guard_target) list) pxop" where
  "guarded_hosts_of m [] = ret []"
| "guarded_hosts_of m (ap # aps) =
     and_then (px_store m (on_dm (list_services_for_app (a_id ap)))) (\<lambda>svcs.
     and_then (px_store m (list_domains_by_app (a_id ap))) (\<lambda>ds.
     and_then (guarded_hosts_of m aps) (\<lambda>gs. ret (guarded_of_app m ap ds svcs @ gs))))"

definition guarded_hosts :: "'w manager \<Rightarrow> ('w, (string \<times> guard_target) list) pxop" where
  "guarded_hosts m = and_then (px_store m (on_dm list_apps)) (guarded_hosts_of m)"

definition guarded_service_for_host :: "'w manager \<Rightarrow> string \<Rightarrow> ('w, guard_target option) pxop" where
  "guarded_service_for_host m host = and_then (guarded_hosts m) (\<lambda>entries.
     ret (map_of (rev entries) (to_lower (trim_space host))))"

definition is_guarded_host :: "'w manager \<Rightarrow> string \<Rightarrow> ('w, bool) pxop" where
  "is_guarded_host m host = and_then (guarded_service_for_host m host) (\<lambda>t. ret (t \<noteq> None))"

section \<open>Projecting one app\<close>

text \<open>PutRoute, the report to the status engine, and the error for the caller's list.\<close>

definition push_route :: "'w manager \<Rightarrow> string \<Rightarrow> route_spec \<Rightarrow> route \<Rightarrow> ('w, string list) pxop" where
  "push_route m label spec r =
     and_then (attempt (put_route (pm_api m) (rs_id spec) r)) (\<lambda>res.
     case res of
       Inl e \<Rightarrow> and_then (px_status m (rs_hostname spec) (Some e)) (\<lambda>_. ret [label @ '' '' @ rs_hostname spec @ '': '' @ e])
     | Inr _ \<Rightarrow> and_then (px_status m (rs_hostname spec) None) (\<lambda>_. ret []))"

definition suspended_route :: "'w manager \<Rightarrow> route_spec \<Rightarrow> route" where
  "suspended_route m spec =
     (if rs_redirect spec \<noteq> [] then redirect_route (rs_id spec) (rs_hostname spec) (rs_redirect spec)
      else wake_route m (rs_id spec) (rs_hostname spec))"

text \<open>One turn of the loop of the normal branch; the containers attached so far are threaded.\<close>

definition apply_spec ::
  "'w manager \<Rightarrow> app \<Rightarrow> service list \<Rightarrow> string list \<Rightarrow> route_spec \<Rightarrow> ('w, string list \<times> string list) pxop" where
  "apply_spec m ap svcs attached spec =
     (if rs_redirect spec \<noteq> []
      then and_then (push_route m ''redirect'' spec (redirect_route (rs_id spec) (rs_hostname spec) (rs_redirect spec)))
             (\<lambda>es. ret (attached, es))
      else case by_name svcs (rs_service spec) of
        None \<Rightarrow> and_then (ignore (delete_route (pm_api m) (rs_id spec))) (\<lambda>_. ret (attached, []))
      | Some v \<Rightarrow>
          if \<not> routable m v
          then and_then (ignore (delete_route (pm_api m) (rs_id spec))) (\<lambda>_. ret (attached, []))
          else
            and_then (if the (s_container v) \<in> set attached then ret []
                      else collect (px_docker m (Net_Connect (pc_edge (pm_cfg m)) (the (s_container v))
                             (service_alias (a_slug ap) (s_name v))))) (\<lambda>aes.
            case aes of
              e # _ \<Rightarrow> ret (attached, [''attach '' @ s_name v @ '': '' @ e])
            | [] \<Rightarrow>
                and_then (push_route m ''route'' spec
                   (app_route m (rs_id spec) (rs_hostname spec) v (a_slug ap) (a_rate_limit ap))) (\<lambda>es.
                ret (the (s_container v) # attached, es))))"

fun apply_specs ::
  "'w manager \<Rightarrow> app \<Rightarrow> service list \<Rightarrow> string list \<Rightarrow> route_spec list \<Rightarrow> ('w, string list) pxop" where
  "apply_specs m ap svcs attached [] = ret []"
| "apply_specs m ap svcs attached (sp # sps) =
     and_then (apply_spec m ap svcs attached sp) (\<lambda>r.
     and_then (apply_specs m ap svcs (fst r) sps) (\<lambda>fs. ret (snd r @ fs)))"

definition apply_app :: "'w manager \<Rightarrow> string \<Rightarrow> ('w, unit) pxop" where
  "apply_app m appId =
     and_then (px_store m (on_dm (get_app appId))) (\<lambda>ap.
     and_then (px_store m (list_domains_by_app appId)) (\<lambda>ds.
     and_then (px_store m (on_dm (list_services_for_app appId))) (\<lambda>svcs.
     let specs = desired_routes m ap ds svcs
     in if a_maintenance_active ap
        then and_then (collect_each (\<lambda>sp. push_route m ''maintenance'' sp
               (maintenance_route (rs_id sp) (rs_hostname sp) (render_maintenance (pm_default_html m) (a_maintenance_html ap)))) specs)
               join_errs
        else if a_suspended ap
        then and_then (collect_each (\<lambda>sp. push_route m ''wake'' sp (suspended_route m sp)) specs) join_errs
        else and_then (apply_specs m ap svcs [] specs) join_errs)))"

section \<open>The control route and the prune\<close>

definition apply_control_route :: "'w manager \<Rightarrow> ('w, unit) pxop" where
  "apply_control_route m =
     (if pc_control_domain (pm_cfg m) = [] then ignore (delete_route (pm_api m) control_route_id)
      else put_route (pm_api m) control_route_id (control_route m))"

definition valid_ids :: "domain list \<Rightarrow> auto_host list \<Rightarrow> string list" where
  "valid_ids ds hs = map (\<lambda>d. route_id (dn_id d)) ds @ map (\<lambda>h. auto_route_id (ah_app h) (ah_service_name h)) hs"

definition prune_orphans :: "'w manager \<Rightarrow> ('w, unit) pxop" where
  "prune_orphans m =
     and_then (px_store m list_all_domains) (\<lambda>ds.
     and_then (auto_hosts m) (\<lambda>hs.
     and_then (get_routes (pm_api m)) (\<lambda>rs.
     and_then (collect_each (\<lambda>r.
         if \<not> is_managed_route_id (r_id r) \<or> r_id r \<in> set (valid_ids ds hs) then ret []
         else collect (delete_route (pm_api m) (r_id r))) rs) join_errs)))"

section \<open>The exported operations\<close>

definition sync :: "'w manager \<Rightarrow> string \<Rightarrow> ('w, unit) pxop" where
  "sync m appId =
     and_then (ignore (ensure_network m)) (\<lambda>_.
     and_then (ensure_base_config m) (\<lambda>_.
     and_then (collect (apply_app m appId)) (\<lambda>e1.
     and_then (collect (apply_control_route m)) (\<lambda>e2.
     and_then (collect (prune_orphans m)) (\<lambda>e3.
     and_then (collect (push_certs m)) (\<lambda>e4.
     join_errs (e1 @ e2 @ e3 @ e4)))))))"

definition maintain_on_app :: "'w manager \<Rightarrow> string \<Rightarrow> ('w, unit) pxop" where
  "maintain_on_app m appId =
     and_then (px_store m (on_dm (set_app_maintenance_active appId True))) (\<lambda>_. sync m appId)"

definition maintain_off_app :: "'w manager \<Rightarrow> string \<Rightarrow> ('w, unit) pxop" where
  "maintain_off_app m appId =
     and_then (px_store m (on_dm (clear_maintenance_if_manual_off appId))) (\<lambda>cleared.
     if cleared then sync m appId else ret ())"

definition detach_all :: "'w manager \<Rightarrow> service list \<Rightarrow> ('w, string list) pxop" where
  "detach_all m svcs = collect_each (\<lambda>v. if has_container v
     then collect (px_docker m (Net_Disconnect (pc_edge (pm_cfg m)) (the (s_container v)))) else ret []) svcs"

definition teardown :: "'w manager \<Rightarrow> string \<Rightarrow> ('w, unit) pxop" where
  "teardown m appId =
     and_then (px_store m (on_dm (get_app appId))) (\<lambda>ap.
     and_then (px_store m (list_domains_by_app appId)) (\<lambda>ds.
     and_then (px_store m (on_dm (list_services_for_app appId))) (\<lambda>svcs.
     and_then (collect_each (\<lambda>sp. and_then (ignore (delete_route (pm_api m) (rs_id sp))) (\<lambda>_. ret []))
                 (desired_routes m ap ds svcs)) (\<lambda>_.
     and_then (detach_all m svcs) join_errs))))"

definition install_wake_routes :: "'w manager \<Rightarrow> string \<Rightarrow> ('w, unit) pxop" where
  "install_wake_routes m appId =
     and_then (ensure_base_config m) (\<lambda>_.
     and_then (px_store m (on_dm (get_app appId))) (\<lambda>ap.
     and_then (px_store m (list_domains_by_app appId)) (\<lambda>ds.
     and_then (px_store m (on_dm (list_services_for_app appId))) (\<lambda>svcs.
     and_then (collect_each (\<lambda>sp.
         if rs_redirect sp \<noteq> [] then ret []
         else and_then (collect (put_route (pm_api m) (rs_id sp) (wake_route m (rs_id sp) (rs_hostname sp))))
                (\<lambda>es. ret (map (\<lambda>e. ''wake route '' @ rs_hostname sp @ '': '' @ e) es)))
       (desired_routes m ap ds svcs)) (\<lambda>es.
     and_then (detach_all m svcs) (\<lambda>fs. join_errs (es @ fs)))))))"

definition reconcile :: "'w manager \<Rightarrow> ('w, unit) pxop" where
  "reconcile m =
     and_then (ignore (ensure_network m)) (\<lambda>_.
     and_then (ensure_base_config m) (\<lambda>_.
     and_then (px_store m (on_dm list_apps)) (\<lambda>aps.
     and_then (collect_each (\<lambda>ap. collect (apply_app m (a_id ap))) aps) (\<lambda>e1.
     and_then (collect (apply_control_route m)) (\<lambda>e2.
     and_then (collect (prune_orphans m)) (\<lambda>e3.
     and_then (collect (push_certs m)) (\<lambda>e4.
     join_errs (e1 @ e2 @ e3 @ e4))))))))"

section \<open>Waiting for the upstreams\<close>

text \<open>What the wait depends on: whether the context ends during the wait before the given poll, how
  long the poll takes, and the time when the loop starts.\<close>

record wait_env =
  we_done :: "nat \<Rightarrow> bool"
  we_took :: "nat \<Rightarrow> duration"
  we_ctx_err :: string
  we_now :: instant

definition wanted_dials :: "'w manager \<Rightarrow> app \<Rightarrow> domain list \<Rightarrow> service list \<Rightarrow> string list" where
  "wanted_dials m ap ds svcs = remdups (List.map_filter (\<lambda>sp.
     case by_name svcs (rs_service sp) of
       Some v \<Rightarrow> if has_container v \<and> s_internal_port v \<noteq> None then Some (dial (a_slug ap) v) else None
     | None \<Rightarrow> None) (desired_routes m ap ds svcs))"

definition healthy_in :: "upstream_status list \<Rightarrow> string \<Rightarrow> bool" where
  "healthy_in ups a = list_ex (\<lambda>u. us_address u = a \<and> us_fails u = 0) ups"

definition all_healthy :: "'w manager \<Rightarrow> string list \<Rightarrow> ('w, bool) pxop" where
  "all_healthy m want = and_then (upstreams (pm_api m)) (\<lambda>ups. ret (list_all (healthy_in ups) want))"

fun wait_loop ::
  "'w manager \<Rightarrow> wait_env \<Rightarrow> string list \<Rightarrow> duration \<Rightarrow> instant \<Rightarrow> nat \<Rightarrow> nat \<Rightarrow> instant \<Rightarrow> ('w, unit) pxop" where
  "wait_loop m env want interval deadline 0 n now =
     throw (''proxy: upstream did not become healthy: '' @ join_str '', '' want)"
| "wait_loop m env want interval deadline (Suc left) n now =
     (if we_done env n then throw (we_ctx_err env)
      else and_then (attempt (all_healthy m want)) (\<lambda>r.
           let now' = now + interval + we_took env n
           in if r = Inr True then ret ()
              else if left = 0 \<or> now' > deadline
                then throw (''proxy: upstream did not become healthy: '' @ join_str '', '' want)
              else wait_loop m env want interval deadline left (Suc n) now'))"

definition wait_healthy :: "'w manager \<Rightarrow> wait_env \<Rightarrow> string \<Rightarrow> ('w, unit) pxop" where
  "wait_healthy m env appId =
     and_then (px_store m (on_dm (get_app appId))) (\<lambda>ap.
     and_then (px_store m (list_domains_by_app appId)) (\<lambda>ds.
     and_then (px_store m (on_dm (list_services_for_app appId))) (\<lambda>svcs.
     let want = wanted_dials m ap ds svcs
     in if want = [] then ret ()
        else let retries = (if pc_health_retries (pm_cfg m) < 1 then 1 else pc_health_retries (pm_cfg m));
                 slice = pc_health_timeout (pm_cfg m) div retries;
                 interval = (if slice \<le> 0 then second else slice)
             in wait_loop m env want interval (we_now env + pc_health_timeout (pm_cfg m)) (nat retries) 0 (we_now env))))"

end
