(* ===== verification/Proxy_Safety.thy ===== *)
theory Proxy_Safety
  imports Proxy_Manager
begin

text \<open>
  What the route manager sends to Caddy, whatever the database, docker and Caddy answer: a request
  that adds a route either dials the control plane alone, or dials a deployed, public service of
  its app, and then behind the login gate when the service asks for it. The lemmas on reads are
  shared with the convergence of the route table.
\<close>

section \<open>Reads\<close>

text \<open>The tables the manager reads, and the operations that read them: they change only the call
  counter, and return a function of the tables unless the call fails.\<close>

type_synonym tables = "app list \<times> service list \<times> domain list"

definition tbl :: "dom_db \<Rightarrow> tables" where
  "tbl d = (apps (dm_db d), services (dm_db d), dm_rows d)"

definition quiet :: "dom_db \<Rightarrow> bool" where
  "quiet d = (\<forall>n. \<not> db_fault (dm_db d) n)"

definition is_read :: "'a domop \<Rightarrow> (tables \<Rightarrow> store_err + 'a) \<Rightarrow> bool" where
  "is_read q g = (\<forall>d. tbl (snd (q d)) = tbl d \<and> db_fault (dm_db (snd (q d))) = db_fault (dm_db d)
     \<and> (fst (q d) = Inl ErrDB \<or> fst (q d) = g (tbl d)) \<and> (quiet d \<longrightarrow> fst (q d) = g (tbl d)))"

definition app_of :: "string \<Rightarrow> tables \<Rightarrow> store_err + app" where
  "app_of i T = (case find (\<lambda>a. a_id a = i) (fst T) of None \<Rightarrow> Inl ErrNotFound | Some a \<Rightarrow> Inr a)"

definition apps_of :: "tables \<Rightarrow> app list" where
  "apps_of T = sort_key (\<lambda>a. - a_created_at a) (fst T)"

definition services_of :: "string \<Rightarrow> tables \<Rightarrow> service list" where
  "services_of i T = sort_key s_name (filter (\<lambda>v. s_app v = i) (fst (snd T)))"

definition domains_of :: "string \<Rightarrow> tables \<Rightarrow> domain list" where
  "domains_of i T = sort_key dn_hostname (filter (\<lambda>d. dn_app d = i \<and> i \<noteq> []) (snd (snd T)))"

definition all_domains_of :: "tables \<Rightarrow> domain list" where
  "all_domains_of T = sort_key dn_hostname (snd (snd T))"

lemmas read_defs = is_read_def tbl_def quiet_def on_dm_def dom_call_def db_call_def and_then_def Let_def

lemma read_get_app: "is_read (on_dm (get_app i)) (app_of i)"
  by (simp add: read_defs get_app_def app_of_def split: prod.split sum.split option.split)

lemma read_list_apps: "is_read (on_dm list_apps) (\<lambda>T. Inr (apps_of T))"
  by (simp add: read_defs list_apps_def apps_of_def split: prod.split sum.split)

lemma read_services: "is_read (on_dm (list_services_for_app i)) (\<lambda>T. Inr (services_of i T))"
  by (simp add: read_defs list_services_for_app_def services_of_def split: prod.split sum.split)

lemma read_domains: "is_read (list_domains_by_app i) (\<lambda>T. Inr (domains_of i T))"
  by (simp add: read_defs list_domains_by_app_def query_domains_def domains_of_def split: prod.split sum.split)

lemma read_all_domains: "is_read list_all_domains (\<lambda>T. Inr (all_domains_of T))"
  by (simp add: read_defs list_all_domains_def query_domains_def all_domains_of_def split: prod.split sum.split)

lemma read_certs: "\<exists>g. is_read list_uploaded_certs (\<lambda>T. Inr (g T))"
proof
  show "is_read list_uploaded_certs (\<lambda>T. Inr (map (\<lambda>d. \<lparr>uc_domain = dn_id d, uc_hostname = dn_hostname d,
      uc_pem = the (dn_cert_pem d), uc_key_enc = the (dn_key_enc d)\<rparr>) (sort_key dn_hostname (filter has_upload (snd (snd T))))))"
    by (simp add: read_defs list_uploaded_certs_def query_domains_def ret_def split: prod.split sum.split)
qed

lemma services_of_mem: "v \<in> set (services_of i T) \<longleftrightarrow> v \<in> set (fst (snd T)) \<and> s_app v = i"
  by (auto simp: services_of_def)

lemma domains_of_mem: "d \<in> set (domains_of i T) \<longleftrightarrow> d \<in> set (snd (snd T)) \<and> dn_app d = i \<and> i \<noteq> []"
  by (auto simp: domains_of_def)

lemma app_of_Inr: "app_of i T = Inr ap \<Longrightarrow> ap \<in> set (fst T) \<and> a_id ap = i"
  unfolding app_of_def by (metis (mono_tags, lifting) find_Some_iff nth_mem option.case_eq_if option.exhaust_sel sum.inject(2) sum.simps(4))

section \<open>Requests that respect the gate\<close>

definition forward_auth :: "'w manager \<Rightarrow> caddy_handler \<Rightarrow> bool" where
  "forward_auth m g = (h_kind g = ''reverse_proxy'' \<and> h_upstreams g = [control_dial m]
     \<and> (case h_rewrite g of Some rw \<Rightarrow> rw_method rw = ''GET'' \<and> has_prefix (rw_uri rw) guard_verify_path | None \<Rightarrow> False)
     \<and> map rh_status (h_handle_response g) = [Some [2]])"

text \<open>A proxying handler: it dials the control plane, or a public deployed service of an app, after
  the forward_auth check when the service requires it.\<close>

definition exposes_ok :: "'w manager \<Rightarrow> (string \<times> string) list \<Rightarrow> service list \<Rightarrow> caddy_handler list \<Rightarrow> caddy_handler \<Rightarrow> bool" where
  "exposes_ok m slugs svcs before h =
     (h_upstreams h = [control_dial m]
      \<or> (\<exists>(i, slug) \<in> set slugs. \<exists>v \<in> set svcs. s_app v = i \<and> h_upstreams h = [dial slug v]
           \<and> has_container v \<and> s_internal_port v \<noteq> None \<and> \<not> s_private v
           \<and> (s_requires_auth v \<longrightarrow> list_ex (forward_auth m) before)))"

definition route_safe :: "'w manager \<Rightarrow> (string \<times> string) list \<Rightarrow> service list \<Rightarrow> route \<Rightarrow> bool" where
  "route_safe m slugs svcs r = (\<forall>before h after. r_handle r = before @ h # after \<longrightarrow>
     h_kind h = ''reverse_proxy'' \<longrightarrow> exposes_ok m slugs svcs before h)"

definition slugs_of :: "app list \<Rightarrow> (string \<times> string) list" where
  "slugs_of aps = map (\<lambda>a. (a_id a, a_slug a)) aps"

type_synonym table_keys = "(string \<times> string) list \<times> service list \<times> domain list"

definition keys_of :: "tables \<Rightarrow> table_keys" where
  "keys_of T = (slugs_of (fst T), fst (snd T), snd (snd T))"

definition safe_since ::
  "'w manager \<Rightarrow> table_keys \<Rightarrow> admin_req list \<Rightarrow> 'w pxst \<Rightarrow> bool" where
  "safe_since m K old s = (keys_of (tbl (px_dom s)) = K
     \<and> (\<exists>new. ou_admin s = old @ new \<and> (\<forall>r. Post_Route r \<in> set new \<longrightarrow> route_safe m (fst K) (fst (snd K)) r)))"

lemma safe_world [simp]:
  "safe_since m K old (s\<lparr>px_net := n\<rparr>) = safe_since m K old s"
  "safe_since m K old (s\<lparr>px_engine := e\<rparr>) = safe_since m K old s"
  "safe_since m K old (s\<lparr>ou_world := w\<rparr>) = safe_since m K old s"
  by (simp_all add: safe_since_def)

lemma keeps_do: "(\<And>r. q = Post_Route r \<Longrightarrow> route_safe m (fst K) (fst (snd K)) r) \<Longrightarrow> keeps (safe_since m K old) (client_do api q)"
  by (auto simp: keeps_def client_do_def safe_since_def split: prod.split)

lemma keeps_admin_reads:
  "keeps (safe_since m K old) (get_routes api)" "keeps (safe_since m K old) (upstreams api)"
  "keeps (safe_since m K old) (client_load api cfg)" "keeps (safe_since m K old) (delete_route api i)"
  "keeps (safe_since m K old) (put_cert_set api cs)"
  unfolding client_defs by (intro vac_wp keeps_do; simp)+

lemma keeps_put_route:
  "route_safe m (fst K) (fst (snd K)) (with_id i r) \<Longrightarrow> keeps (safe_since m K old) (put_route api i r)"
  unfolding put_route_def delete_route_def by (intro vac_wp keeps_do; simp)

lemma keeps_status: "keeps (safe_since m K old) (px_status m' h d)"
  unfolding px_status_def by (intro keeps_act) simp

lemma keeps_docker: "keeps (safe_since m K old) (px_docker m' c)"
  by (auto simp: keeps_def px_docker_def split: prod.split option.split)

lemma px_store_result:
  "snd (px_store m q s) = s\<lparr>px_dom := snd (q (px_dom s))\<rparr>"
  "fst (px_store m q s) = Inr x \<longleftrightarrow> fst (q (px_dom s)) = Inr x"
  by (auto simp: px_store_def split: prod.split sum.split)

lemma keeps_store: "is_read q g \<Longrightarrow> keeps (safe_since m K old) (px_store m' q)"
  unfolding keeps_def px_store_result by (simp add: is_read_def safe_since_def)

text \<open>Continuing after a read: the value is the one of tables with the same keys.\<close>

lemma keeps_read_then:
  assumes "is_read q g"
    and "\<And>x T. keys_of T = K \<Longrightarrow> g T = Inr x \<Longrightarrow> keeps (safe_since m K old) (f x)"
  shows "keeps (safe_since m K old) (and_then (px_store m' q) f)"
proof (rule keeps_and_then_Inr)
  show "keeps (safe_since m K old) (px_store m' q)" using assms(1) by (rule keeps_store)
next
  fix x s s'
  assume r: "px_store m' q s = (Inr x, s')" and i: "safe_since m K old s'"
  then have "fst (q (px_dom s)) = Inr x" "px_dom s' = snd (q (px_dom s))"
    using px_store_result [of m' q s] by auto
  then have "g (tbl (px_dom s')) = Inr x"
    using assms(1) unfolding is_read_def by (metis sum.distinct(1))
  moreover have "keys_of (tbl (px_dom s')) = K" using i by (simp add: safe_since_def)
  ultimately show "safe_since m K old (snd (f x s'))" using assms(2) keepsD i by metis
qed

lemma keeps_collect: "keeps I q \<Longrightarrow> keeps I (collect q)"
  unfolding collect_def by (intro vac_wp)

lemma keeps_join_errs: "keeps I (join_errs es)"
  unfolding join_errs_def by (intro vac_wp)

lemma keeps_collect_each: "(\<And>x. x \<in> set xs \<Longrightarrow> keeps I (f x)) \<Longrightarrow> keeps I (collect_each f xs)"
  by (induction xs) (auto intro!: vac_wp)

lemma keeps_docker_calls:
  "keeps (safe_since m K old) (ensure_network m')" "keeps (safe_since m K old) (detach_all m' svcs)"
  unfolding ensure_network_def detach_all_def
  by (intro keeps_docker keeps_collect_each keeps_if keeps_collect keeps_ret)+

lemma keeps_ensure_base: "keeps (safe_since m K old) (ensure_base_config m')"
  unfolding ensure_base_config_def by (intro vac_wp keeps_admin_reads)

lemma keeps_push_certs: "keeps (safe_since m K old) (push_certs m')"
proof -
  obtain g where "is_read list_uploaded_certs (\<lambda>T. Inr (g T) :: store_err + uploaded_cert list)"
    using read_certs by blast
  then show ?thesis
    unfolding push_certs_def desired_certs_def by (intro vac_wp keeps_admin_reads keeps_store)
qed

lemma keeps_auto_hosts_of: "keeps (safe_since m K old) (auto_hosts_of m' aps)"
  by (induction aps) (auto intro!: vac_wp keeps_store read_services)

lemma keeps_prune_orphans: "keeps (safe_since m K old) (prune_orphans m')"
  unfolding prune_orphans_def auto_hosts_def
  by (intro vac_wp keeps_store [OF read_all_domains] keeps_store [OF read_list_apps] keeps_auto_hosts_of
      keeps_admin_reads keeps_collect_each keeps_collect keeps_join_errs)

section \<open>The routes built\<close>

lemma control_only_safe:
  assumes "\<forall>h\<in>set (r_handle r). h_kind h = ''reverse_proxy'' \<longrightarrow> h_upstreams h = [control_dial m]"
  shows "route_safe m S V r"
  unfolding route_safe_def exposes_ok_def using assms by auto

lemma plain_routes_safe:
  "route_safe m S V (redirect_route i h t)" "route_safe m S V (maintenance_route i h p)"
  "route_safe m S V (wake_route m i h)" "route_safe m S V (suspended_route m sp)"
  "route_safe m S V (control_route m)"
  by (rule control_only_safe,
      simp add: redirect_route_def maintenance_route_def wake_route_def suspended_route_def control_route_def
        static_handler_def headers_handler_def rewrite_handler_def proxy_handler_def Let_def)+

lemma guard_is_forward_auth: "list_ex (forward_auth m) (guard_handlers m)"
  by (simp add: guard_handlers_def Let_def forward_auth_def auth_handler_def headers_handler_def has_prefix_def)

lemma app_route_safe:
  assumes "(s_app v, slug) \<in> set S" "v \<in> set V" "routable m v"
  shows "route_safe m S V (app_route m i h v slug rpm)"
proof -
  define pre where "pre = (case rpm of Some n \<Rightarrow> if n > 0 then [rate_limit_handler i n] else [] | None \<Rightarrow> [])
      @ (if s_requires_auth v \<and> pc_guard_enabled (pm_cfg m) then guard_handlers m else [])"
  define fin where "fin = proxy_handler (dial slug v)
     (Some (health_check_of m (case s_health_path v of Some p \<Rightarrow> if p \<noteq> [] then p else ''/'' | None \<Rightarrow> ''/'')))"
  have eq: "r_handle (app_route m i h v slug rpm) = pre @ [fin]"
    by (simp add: app_route_def Let_def pre_def fin_def)
  have pre: "\<forall>g\<in>set pre. h_kind g = ''reverse_proxy'' \<longrightarrow> h_upstreams g = [control_dial m]"
    by (auto simp: pre_def guard_handlers_def Let_def auth_handler_def headers_handler_def rate_limit_handler_def
        split: option.splits if_splits)
  have gate: "s_requires_auth v \<Longrightarrow> list_ex (forward_auth m) pre"
    using assms(3) guard_is_forward_auth [of m] by (simp add: pre_def routable_def)
  show ?thesis
    unfolding route_safe_def
  proof (intro allI impI)
    fix before g after
    assume h: "r_handle (app_route m i h v slug rpm) = before @ g # after" "h_kind g = ''reverse_proxy''"
    show "exposes_ok m S V before g"
    proof (cases after rule: rev_cases)
      case Nil
      then have "before = pre" "g = fin" using h(1) eq by auto
      then have "h_upstreams g = [dial slug v]" "s_requires_auth v \<longrightarrow> list_ex (forward_auth m) before"
        using gate by (simp_all add: fin_def proxy_handler_def)
      then show ?thesis
        using assms unfolding exposes_ok_def routable_def by blast
    next
      case (snoc ys y)
      then have "pre = before @ g # ys" using h(1) eq by auto
      then show ?thesis using pre h(2) by (simp add: exposes_ok_def)
    qed
  qed
qed

lemma with_id_suspended: "with_id (rs_id sp) (suspended_route m sp) = suspended_route m sp"
  by (simp add: suspended_route_def)

lemma keeps_push_route:
  "route_safe m (fst K) (fst (snd K)) (with_id (rs_id sp) r) \<Longrightarrow> keeps (safe_since m K old) (push_route m' lab sp r)"
  unfolding push_route_def by (intro vac_wp keeps_put_route keeps_status)

lemma keeps_apply_spec:
  assumes "\<And>v. v \<in> set svcs \<Longrightarrow> v \<in> set (fst (snd K)) \<and> (s_app v, a_slug ap) \<in> set (fst K)"
  shows "keeps (safe_since m K old) (apply_spec m ap svcs att sp)"
  unfolding apply_spec_def
  using assms by_name_mem
  by (fastforce intro!: vac_wp keeps_push_route keeps_admin_reads keeps_collect keeps_docker
        app_route_safe plain_routes_safe)

lemma keeps_apply_specs:
  assumes "\<And>v. v \<in> set svcs \<Longrightarrow> v \<in> set (fst (snd K)) \<and> (s_app v, a_slug ap) \<in> set (fst K)"
  shows "keeps (safe_since m K old) (apply_specs m ap svcs att sps)"
proof (induction sps arbitrary: att)
  case (Cons sp sps)
  show ?case
    by (simp, intro keeps_and_then keeps_ret keeps_apply_spec Cons assms)
qed (simp add: keeps_ret)

section \<open>Every operation\<close>

lemma read_specs_safe:
  assumes "keys_of T = K" "app_of i T = Inr ap" "keys_of T2 = K" "v \<in> set (services_of i T2)"
  shows "v \<in> set (fst (snd K)) \<and> (s_app v, a_slug ap) \<in> set (fst K)"
  using assms app_of_Inr [OF assms(2)]
  by (force simp: services_of_mem keys_of_def slugs_of_def)

lemma keeps_apply_app: "keeps (safe_since m K old) (apply_app m i)"
  unfolding apply_app_def Let_def
proof (intro keeps_read_then [OF read_get_app] keeps_read_then [OF read_domains]
    keeps_read_then [OF read_services] keeps_if, goal_cases)
  case (3 ap T1 ds T2 svcs T3)
  then show ?case
    by (intro vac_wp keeps_apply_specs keeps_join_errs) (use read_specs_safe [of T1 K i ap T3] in auto)
qed (intro keeps_and_then keeps_collect_each keeps_push_route keeps_join_errs,
      simp add: plain_routes_safe with_id_suspended)+

lemma keeps_control: "keeps (safe_since m K old) (apply_control_route m)"
  unfolding apply_control_route_def
  by (intro vac_wp keeps_admin_reads keeps_put_route) (simp add: plain_routes_safe)

lemma keeps_sync: "keeps (safe_since m K old) (sync m i)"
  unfolding sync_def
  by (intro vac_wp keeps_docker_calls keeps_ensure_base keeps_collect keeps_apply_app keeps_control keeps_prune_orphans
      keeps_push_certs keeps_join_errs)

lemma keeps_reconcile: "keeps (safe_since m K old) (reconcile m)"
  unfolding reconcile_def
  by (intro vac_wp keeps_docker_calls keeps_ensure_base keeps_collect keeps_collect_each keeps_apply_app
      keeps_control keeps_prune_orphans keeps_push_certs keeps_join_errs keeps_store [OF read_list_apps])

lemma keeps_teardown: "keeps (safe_since m K old) (teardown m i)"
  unfolding teardown_def
  by (intro vac_wp keeps_docker_calls keeps_collect_each keeps_join_errs keeps_admin_reads
      keeps_store [OF read_get_app] keeps_store [OF read_domains] keeps_store [OF read_services])

lemma keeps_install_wake: "keeps (safe_since m K old) (install_wake_routes m i)"
proof -
  have put: "keeps (safe_since m K old) (put_route (pm_api m) (rs_id sp) (wake_route m (rs_id sp) (rs_hostname sp)))" for sp
    by (intro keeps_put_route) (simp add: plain_routes_safe)
  show ?thesis
    unfolding install_wake_routes_def
    by (intro vac_wp keeps_ensure_base keeps_docker_calls keeps_collect_each keeps_collect keeps_join_errs put
        keeps_store [OF read_get_app] keeps_store [OF read_domains] keeps_store [OF read_services])
qed

lemma slugs_update: "(\<And>a. a_id (f a) = a_id a \<and> a_slug (f a) = a_slug a) \<Longrightarrow>
    slugs_of (map (\<lambda>a. if p a then f a else a) aps) = slugs_of aps"
  by (simp add: slugs_of_def comp_def)

lemma maintenance_keys:
  "keys_of (tbl (snd (on_dm (set_app_maintenance_active i b) d))) = keys_of (tbl d)"
  "keys_of (tbl (snd (on_dm (clear_maintenance_if_manual_off i) d))) = keys_of (tbl d)"
  by (simp_all add: on_dm_def set_app_maintenance_active_def clear_maintenance_if_manual_off_def or_not_found_def
      update_apps_def db_call_def sem_defs Let_def keys_of_def tbl_def slugs_update split: prod.split)

lemma keeps_maintain:
  "keeps (safe_since m K old) (maintain_on_app m i)" "keeps (safe_since m K old) (maintain_off_app m i)"
  unfolding maintain_on_app_def maintain_off_app_def
  by (intro vac_wp keeps_sync; simp add: keeps_def px_store_result safe_since_def maintenance_keys)+

text \<open>The operations that can add routes.\<close>

definition route_ops :: "'w manager \<Rightarrow> string \<Rightarrow> ('w, unit) pxop list" where
  "route_ops m i = [sync m i, reconcile m, maintain_on_app m i, maintain_off_app m i,
     install_wake_routes m i, teardown m i, sync_certs m]"

lemma route_ops_safe:
  assumes "q \<in> set (route_ops m i)"
  shows "keeps (safe_since m K old) q"
proof -
  have "keeps (safe_since m K old) (sync_certs m)"
    unfolding sync_certs_def by (intro vac_wp keeps_ensure_base keeps_push_certs)
  with assms show ?thesis
    by (auto simp: route_ops_def keeps_sync keeps_reconcile keeps_maintain keeps_install_wake keeps_teardown)
qed

text \<open>
  C6: the login gate fails closed. Whatever the database, docker and Caddy answer, a route the
  manager adds to Caddy proxies only to vac-api itself or to a deployed service of an app that is
  not private; and when the operator marked the service as requiring a login, a forward_auth check
  against vac-api's verify endpoint, which passes on 2xx alone, stands before the proxy handler.
\<close>

theorem guarded_never_exposed:
  assumes "q \<in> set (route_ops m i)"
    and "ou_admin (snd (q s)) = ou_admin s @ sent" and "Post_Route r \<in> set sent"
    and "r_handle r = before @ h # after" and "h_kind h = ''reverse_proxy''"
    and "h_upstreams h \<noteq> [control_dial m]"
  shows "\<exists>ap \<in> set (apps (dm_db (px_dom s))). \<exists>v \<in> set (services (dm_db (px_dom s))).
      s_app v = a_id ap \<and> h_upstreams h = [dial (a_slug ap) v] \<and> has_container v \<and> \<not> s_private v
    \<and> (s_requires_auth v \<longrightarrow> list_ex (forward_auth m) before)"
proof -
  let ?K = "keys_of (tbl (px_dom s))"
  have "safe_since m ?K (ou_admin s) s" by (simp add: safe_since_def)
  then have "safe_since m ?K (ou_admin s) (snd (q s))"
    by (rule keepsD [OF route_ops_safe [OF assms(1)]])
  then obtain new where new: "ou_admin (snd (q s)) = ou_admin s @ new"
      "\<forall>r. Post_Route r \<in> set new \<longrightarrow> route_safe m (fst ?K) (fst (snd ?K)) r"
    unfolding safe_since_def by blast
  have "new = sent" using new(1) assms(2) by simp
  with new(2) assms(3) have "route_safe m (fst ?K) (fst (snd ?K)) r" by blast
  then have "exposes_ok m (fst ?K) (fst (snd ?K)) before h"
    using assms(4,5) unfolding route_safe_def by blast
  then obtain j slug v where v: "(j, slug) \<in> set (fst ?K)" "v \<in> set (fst (snd ?K))" "s_app v = j"
      "h_upstreams h = [dial slug v]" "has_container v" "\<not> s_private v"
      "s_requires_auth v \<longrightarrow> list_ex (forward_auth m) before"
    using assms(6) unfolding exposes_ok_def by blast
  from v(1) obtain ap where "ap \<in> set (apps (dm_db (px_dom s)))" "a_id ap = j" "a_slug ap = slug"
    by (auto simp: keys_of_def slugs_of_def tbl_def)
  moreover from v(2) have "v \<in> set (services (dm_db (px_dom s)))"
    by (simp add: keys_of_def tbl_def)
  ultimately show ?thesis using v(3-7) by blast
qed

text \<open>A small instance: one app with one guarded service, and a Caddy that is a list of routes.\<close>

definition demo_service :: service where
  "demo_service = \<lparr>s_app = ''a'', s_name = ''web'', s_container = Some ''c1'', s_exposed_port = None,
     s_internal_port = Some 80, s_health_path = None, s_status = St_Running, s_restarts = 0,
     s_exit_code = None, s_oom_killed = 0, s_has_volumes = False, s_private = False, s_requires_auth = True, s_guest_code = None\<rparr>"

definition demo_manager :: "route list manager" where
  "demo_manager = \<lparr>pm_cfg = new_config \<lparr>pc_edge = [], pc_base_domain = ''example.com'', pc_control_domain = [],
       pc_control_port = 0, pc_health_interval = 0, pc_health_timeout = 0, pc_health_retries = 0,
       pc_wake_token = [], pc_guard_enabled = True\<rparr>,
     pm_override = None, pm_base_config = None, pm_engine = False, pm_certs = False, pm_api = list_caddy,
     pm_net = (\<lambda>_ w. (None, w)), pm_open_key = (\<lambda>_. None), pm_default_html = ''soon'', pm_err_text = (\<lambda>_. ''db'')\<rparr>"

definition demo_px :: "route list pxst" where
  "demo_px = \<lparr>ou_world = [], ou_admin = [], px_dom = \<lparr>dm_db = empty_db\<lparr>apps := [maint_app ''a'' False], services := [demo_service]\<rparr>,
     dm_rows = []\<rparr>, px_net = [], px_engine = []\<rparr>"

definition demo_at :: "nat \<Rightarrow> route list pxst" where
  "demo_at n = demo_px\<lparr>px_net := [Net_Create ''vac-edge''],
     px_dom := (px_dom demo_px)\<lparr>dm_db := (dm_db (px_dom demo_px))\<lparr>db_calls := n\<rparr>\<rparr>\<rparr>"

lemmas demo_defs = demo_at_def demo_px_def demo_manager_def demo_service_def maint_app_def empty_db_def new_config_def

lemma demo_reads:
  "px_store demo_manager (on_dm (get_app ''a'')) (demo_at n) = (Inr (maint_app ''a'' False), demo_at (Suc n))"
  "px_store demo_manager (list_domains_by_app ''a'') (demo_at n) = (Inr [], demo_at (Suc n))"
  "px_store demo_manager (on_dm (list_services_for_app ''a'')) (demo_at n) = (Inr [demo_service], demo_at (Suc n))"
  by (simp_all add: demo_defs px_store_def on_dm_def dom_call_def db_call_def sem_defs Let_def
    get_app_def list_domains_by_app_def query_domains_def list_services_for_app_def)

definition demo_route :: route where
  "demo_route = app_route demo_manager ''vac-auto-a-web'' ''a.example.com'' demo_service ''a'' None"

lemma demo_specs: "desired_routes demo_manager (maint_app ''a'' False) [] [demo_service] =
    [\<lparr>rs_id = ''vac-auto-a-web'', rs_hostname = ''a.example.com'', rs_service = ''web'', rs_redirect = []\<rparr>]"
  by (simp add: demo_defs desired_routes_def auto_hosts_for_app_def base_domain_def http_service_def
      List.map_filter_def auto_subdomain_def auto_route_id_def auto_route_id_prefix_def)

lemma demo_apply: "ou_admin (snd (apply_app demo_manager ''a'' (demo_at 0))) = [Delete_Id ''vac-auto-a-web'', Post_Route demo_route]"
proof -
  have flags: "\<not> a_maintenance_active (maint_app ''a'' False)" "\<not> a_suspended (maint_app ''a'' False)"
    "a_slug (maint_app ''a'' False) = ''a''" "a_rate_limit (maint_app ''a'' False) = None"
    by (simp_all add: maint_app_def)
  have mgr: "pm_api demo_manager = list_caddy" "pm_engine demo_manager = False" "\<And>c w. pm_net demo_manager c w = (None, w)"
     "pc_guard_enabled (pm_cfg demo_manager)" by (simp_all add: demo_manager_def new_config_def)
  have svc: "by_name [demo_service] ''web'' = Some demo_service" "routable demo_manager demo_service" "s_container demo_service = Some ''c1''"
    by (simp_all add: demo_service_def by_name_def routable_def has_container_def mgr)
  show ?thesis
    unfolding apply_app_def
    by (simp add: demo_reads demo_specs Let_def
       flags mgr svc apply_spec_def push_route_def put_route_def delete_route_def client_do_def px_status_def sem_defs px_docker_def collect_def
       demo_route_def join_errs_def split: prod.split sum.split)
      (simp add: demo_at_def demo_px_def)
qed

lemma ensure_base_ok: "\<exists>t. ensure_base_config m s = (Inr (), t)"
  by (cases "pm_base_config m") (auto simp: ensure_base_config_def sem_defs split: prod.split sum.split)

lemma sync_prefix: "\<exists>new. ou_admin (snd (sync m i s)) =
    ou_admin (snd (apply_app m i (snd (ensure_base_config m (snd (ensure_network m s)))))) @ new"
proof -
  let ?t = "snd (apply_app m i (snd (ensure_base_config m (snd (ensure_network m s)))))"
  define rest where "rest = (\<lambda>e1. and_then (collect (apply_control_route m)) (\<lambda>e2.
     and_then (collect (prune_orphans m)) (\<lambda>e3. and_then (collect (push_certs m)) (\<lambda>e4. join_errs (e1 @ e2 @ e3 @ e4)))))"
  obtain t where base: "ensure_base_config m (snd (ensure_network m s)) = (Inr (), t)"
    using ensure_base_ok by metis
  have "\<exists>es. sync m i s = rest es (snd (apply_app m i t))"
    unfolding sync_def rest_def [symmetric]
    by (simp add: and_then_def ignore_def collect_def attempt_def ret_def base split: prod.split sum.split) blast
  then obtain es where es: "sync m i s = rest es ?t" by (auto simp: base)
  have k: "keeps (safe_since m (keys_of (tbl (px_dom ?t))) (ou_admin ?t)) (rest es)"
    unfolding rest_def by (intro vac_wp keeps_control keeps_prune_orphans keeps_push_certs keeps_collect keeps_join_errs)
  have "safe_since m (keys_of (tbl (px_dom ?t))) (ou_admin ?t) (snd (rest es ?t))"
    by (rule keepsD [OF k]) (simp add: safe_since_def)
  then show ?thesis unfolding es safe_since_def by blast
qed

theorem guarded_never_exposed_witness:
  "\<exists>ap \<in> {maint_app ''a'' False}. \<exists>v \<in> {demo_service}. s_app v = a_id ap \<and> s_requires_auth v
     \<and> list_ex (forward_auth demo_manager) (guard_handlers demo_manager)"
proof -
  obtain new where tr: "ou_admin (snd (sync demo_manager ''a'' demo_px)) =
      ou_admin (snd (apply_app demo_manager ''a'' (snd (ensure_base_config demo_manager (snd (ensure_network demo_manager demo_px)))))) @ new"
    using sync_prefix by blast
  have "snd (ensure_base_config demo_manager (snd (ensure_network demo_manager demo_px))) = demo_at 0"
    by (simp add: ensure_base_config_def ensure_network_def px_docker_def ret_def demo_defs)
  then have sent: "ou_admin (snd (sync demo_manager ''a'' demo_px)) = ou_admin demo_px @ [Delete_Id ''vac-auto-a-web'', Post_Route demo_route] @ new"
    using tr demo_apply by (simp add: demo_px_def)
  have n80: "show_int 80 = ''80''" by code_simp
  have h: "r_handle demo_route = guard_handlers demo_manager @ proxy_handler ''a--web:80'' (Some (health_check_of demo_manager ''/'')) # []"
    by (simp add: demo_route_def app_route_def Let_def demo_defs dial_def service_alias_def port_or_def n80)
  have "\<exists>ap \<in> set (apps (dm_db (px_dom demo_px))). \<exists>v \<in> set (services (dm_db (px_dom demo_px))).
      s_app v = a_id ap \<and> [''a--web:80''] = [dial (a_slug ap) v] \<and> has_container v \<and> \<not> s_private v
    \<and> (s_requires_auth v \<longrightarrow> list_ex (forward_auth demo_manager) (guard_handlers demo_manager))"
    using guarded_never_exposed [where q = "sync demo_manager ''a''" and s = demo_px and i = "''a''" and r = demo_route, OF _ sent _ h]
    by (simp add: route_ops_def proxy_handler_def demo_manager_def new_config_def control_dial_def)
  then show ?thesis by (simp add: demo_px_def empty_db_def) (simp add: demo_service_def)
qed

end
