(* ===== verification/Proxy_Converge.thy ===== *)
theory Proxy_Converge
  imports Proxy_Safety
begin

text \<open>
  Caddy as a cache of the database. With a database, a docker and a Caddy that answer, the
  operations of the manager act on the table of routes, seen as a map from @id to route, by a
  function of the tables alone; the composition of these functions is what Reconcile leaves.
\<close>

section \<open>The abstract operations\<close>

type_synonym rtable = "string \<Rightarrow> route option"

text \<open>What the route of a desired host should be; None where nothing must be served.\<close>

definition target :: "'w manager \<Rightarrow> app \<Rightarrow> service list \<Rightarrow> route_spec \<Rightarrow> route option" where
  "target m ap svcs sp =
     (if a_maintenance_active ap
      then Some (maintenance_route (rs_id sp) (rs_hostname sp) (render_maintenance (pm_default_html m) (a_maintenance_html ap)))
      else if a_suspended ap then Some (suspended_route m sp)
      else if rs_redirect sp \<noteq> [] then Some (redirect_route (rs_id sp) (rs_hostname sp) (rs_redirect sp))
      else case by_name svcs (rs_service sp) of
        Some v \<Rightarrow> if routable m v then Some (app_route m (rs_id sp) (rs_hostname sp) v (a_slug ap) (a_rate_limit ap)) else None
      | None \<Rightarrow> None)"

definition put_target :: "'w manager \<Rightarrow> app \<Rightarrow> service list \<Rightarrow> route_spec \<Rightarrow> rtable \<Rightarrow> rtable" where
  "put_target m ap svcs sp M = M(rs_id sp := target m ap svcs sp)"

definition app_specs :: "'w manager \<Rightarrow> tables \<Rightarrow> app \<Rightarrow> route_spec list" where
  "app_specs m T ap = desired_routes m ap (domains_of (a_id ap) T) (services_of (a_id ap) T)"

definition put_app :: "'w manager \<Rightarrow> tables \<Rightarrow> app \<Rightarrow> rtable \<Rightarrow> rtable" where
  "put_app m T ap = fold (put_target m ap (services_of (a_id ap) T)) (app_specs m T ap)"

definition put_control :: "'w manager \<Rightarrow> rtable \<Rightarrow> rtable" where
  "put_control m M = M(control_route_id := (if pc_control_domain (pm_cfg m) = [] then None else Some (control_route m)))"

definition all_auto :: "'w manager \<Rightarrow> tables \<Rightarrow> app list \<Rightarrow> auto_host list" where
  "all_auto m T aps = concat (map (\<lambda>ap. auto_hosts_for_app m ap (services_of (a_id ap) T)) aps)"

definition live_ids :: "'w manager \<Rightarrow> tables \<Rightarrow> string list" where
  "live_ids m T = valid_ids (all_domains_of T) (all_auto m T (apps_of T))"

definition pruned :: "'w manager \<Rightarrow> tables \<Rightarrow> rtable \<Rightarrow> rtable" where
  "pruned m T M = (\<lambda>i. if is_managed_route_id i \<and> i \<notin> set (live_ids m T) then None else M i)"

section \<open>The operations refine them\<close>

definition at_table :: "('w \<Rightarrow> route list) \<Rightarrow> tables \<Rightarrow> rtable \<Rightarrow> 'w pxst \<Rightarrow> bool" where
  "at_table view T M s = (quiet (px_dom s) \<and> tbl (px_dom s) = T \<and> ids_ok (view (ou_world s))
     \<and> route_map (view (ou_world s)) = M)"

definition net_answers :: "(net_call \<Rightarrow> 'w \<Rightarrow> string option \<times> 'w) \<Rightarrow> ('w \<Rightarrow> route list) \<Rightarrow> bool" where
  "net_answers net view = (\<forall>c w. \<exists>w'. net c w = (None, w') \<and> view w' = view w)"

text \<open>From the first table to the second, with the value, without an error.\<close>

definition moves ::
  "('w \<Rightarrow> route list) \<Rightarrow> tables \<Rightarrow> rtable \<Rightarrow> ('w, 'a) pxop \<Rightarrow> 'a \<Rightarrow> rtable \<Rightarrow> bool" where
  "moves view T M q x N = (\<forall>s. at_table view T M s \<longrightarrow> fst (q s) = Inr x \<and> at_table view T N (snd (q s)))"

lemma moves_then: "moves view T M q x N \<Longrightarrow> moves view T N (f x) y O' \<Longrightarrow> moves view T M (and_then q f) y O'"
  unfolding moves_def and_then_def
  by (fastforce split: prod.split sum.split)

lemma moves_ret: "moves view T M (ret x) x M"
  by (simp add: moves_def ret_def)

lemma moves_collect: "moves view T M q () N \<Longrightarrow> moves view T M (collect q) [] N"
  unfolding moves_def collect_def by (fastforce simp: sem_defs split: prod.splits sum.splits)

lemma moves_ignore: "moves view T M q x N \<Longrightarrow> moves view T M (ignore q) () N"
  by (simp add: moves_def ignore_def)

lemma moves_store: "is_read q g \<Longrightarrow> g T = Inr x \<Longrightarrow> moves view T M (px_store m q) x M"
  unfolding moves_def at_table_def px_store_result
  by (auto simp: is_read_def quiet_def px_store_result)

lemma moves_join: "moves view T M (join_errs []) () M"
  by (simp add: join_errs_def moves_ret)

lemma moves_then_join: "moves view T M q [] N \<Longrightarrow> moves view T M (and_then q join_errs) () N"
  by (rule moves_then, assumption, rule moves_join)

text \<open>A Caddy and a docker that answer.\<close>

definition answering :: "'w manager \<Rightarrow> ('w \<Rightarrow> route list) \<Rightarrow> bool" where
  "answering m view = (caddy_answers (pm_api m) view \<and> net_answers (pm_net m) view)"

lemma answering_laws:
  assumes "answering m view"
  shows "\<exists>w'. pm_api m Get_Routes w = (Inr (Routes_Reply (view w)), w') \<and> view w' = view w"
    and "\<exists>rep w'. pm_api m (Post_Route r) w = (Inr rep, w') \<and> view w' = view w @ [r]"
    and "i \<noteq> [] \<Longrightarrow> ids_ok (view w) \<Longrightarrow> view (snd (pm_api m (Delete_Id i) w)) = filter (\<lambda>r. r_id r \<noteq> i) (view w)"
    and "i \<noteq> [] \<Longrightarrow> ids_ok (view w) \<Longrightarrow> i \<in> r_id ` set (view w) \<Longrightarrow> \<exists>rep. fst (pm_api m (Delete_Id i) w) = Inr rep"
    and "\<exists>rep w'. pm_api m (Patch_Certs cs) w = (Inr rep, w') \<and> view w' = view w"
    and "\<exists>w'. pm_net m c w = (None, w') \<and> view w' = view w"
  using assms unfolding answering_def caddy_answers_def net_answers_def by blast+

lemma put_moves:
  assumes ans: "answering m view" and "i \<noteq> []"
  shows "moves view T M (put_route (pm_api m) i r) () (M(i := Some (with_id i r)))"
  unfolding moves_def
proof (intro allI impI)
  fix s
  assume a: "at_table view T M s"
  obtain rep w where d: "pm_api m (Delete_Id i) (ou_world s) = (rep, w)" by fastforce
  have w: "view w = filter (\<lambda>x. r_id x \<noteq> i) (view (ou_world s))"
    using answering_laws(3) [OF assms] a d unfolding at_table_def by (metis snd_conv)
  obtain rep2 w2 where p: "pm_api m (Post_Route (with_id i r)) w = (Inr rep2, w2)" "view w2 = view w @ [with_id i r]"
    using answering_laws(2) [OF ans] by blast
  have "put_route (pm_api m) i r s =
      (Inr (), s\<lparr>ou_world := w2, ou_admin := ou_admin s @ [Delete_Id i, Post_Route (with_id i r)]\<rparr>)"
    using d p by (simp add: put_route_def delete_route_def client_do_def sem_defs split: sum.split)
  then show "fst (put_route (pm_api m) i r s) = Inr () \<and> at_table view T (M(i := Some (with_id i r))) (snd (put_route (pm_api m) i r s))"
    using a p w assms ids_ok_put [of "view (ou_world s)" i r] route_map_put [of "with_id i r" i "view (ou_world s)"]
    by (simp add: at_table_def with_id_def)
qed

lemma delete_effect:
  assumes ans: "answering m view" and "i \<noteq> []" "at_table view T M s"
  shows "at_table view T (M(i := None)) (snd (delete_route (pm_api m) i s))"
    and "M i \<noteq> None \<Longrightarrow> fst (delete_route (pm_api m) i s) = Inr ()"
proof -
  obtain rep w where d: "pm_api m (Delete_Id i) (ou_world s) = (rep, w)" by fastforce
  have ids: "ids_ok (view (ou_world s))" and M: "route_map (view (ou_world s)) = M"
    using assms(3) by (simp_all add: at_table_def)
  have w: "view w = filter (\<lambda>x. r_id x \<noteq> i) (view (ou_world s))"
    using answering_laws(3) [OF ans assms(2) ids] d by simp
  have "snd (delete_route (pm_api m) i s) = s\<lparr>ou_world := w, ou_admin := ou_admin s @ [Delete_Id i]\<rparr>"
    using d by (simp add: delete_route_def client_do_def sem_defs split: sum.split)
  then show "at_table view T (M(i := None)) (snd (delete_route (pm_api m) i s))"
    using assms(3) w ids M by (simp add: at_table_def ids_ok_filter route_map_del)
  assume "M i \<noteq> None"
  then have "i \<in> r_id ` set (view (ou_world s))" using M route_map_None by metis
  then obtain rp where "rep = Inr rp"
    using answering_laws(4) [OF ans assms(2) ids] d by (metis fst_conv)
  then show "fst (delete_route (pm_api m) i s) = Inr ()"
    using d by (simp add: delete_route_def client_do_def sem_defs)
qed

lemma drop_moves: "answering m view \<Longrightarrow> i \<noteq> [] \<Longrightarrow> moves view T M (ignore (delete_route (pm_api m) i)) () (M(i := None))"
  by (simp add: moves_def ignore_def delete_effect(1))

lemma delete_moves: "answering m view \<Longrightarrow> i \<noteq> [] \<Longrightarrow> M i \<noteq> None \<Longrightarrow> moves view T M (delete_route (pm_api m) i) () (M(i := None))"
  by (simp add: moves_def delete_effect del: not_None_eq)

lemma get_routes_moves:
  assumes ans: "answering m view" and "at_table view T M s"
  shows "\<exists>t. get_routes (pm_api m) s = (Inr (view (ou_world s)), t) \<and> at_table view T M t"
proof -
  obtain w where w: "pm_api m Get_Routes (ou_world s) = (Inr (Routes_Reply (view (ou_world s))), w)" "view w = view (ou_world s)"
    using answering_laws(1) [OF ans] by blast
  then have "get_routes (pm_api m) s =
     (Inr (view (ou_world s)), s\<lparr>ou_world := w, ou_admin := ou_admin s @ [Get_Routes]\<rparr>)"
    by (simp add: get_routes_def client_do_def sem_defs)
  then show ?thesis using assms w by (simp add: at_table_def)
qed

lemma docker_moves:
  assumes ans: "answering m view"
  shows "moves view T M (px_docker m c) () M"
proof -
  note answering_laws(6) [OF ans, of c]
  then show ?thesis
    unfolding moves_def px_docker_def at_table_def
    by (auto split: prod.split option.split) (metis option.distinct(1) prod.inject)+
qed

lemma status_moves: "moves view T M (px_status m h d) () M"
  by (simp add: moves_def px_status_def act_def at_table_def)

lemma attempt_moves: "moves view T M q x N \<Longrightarrow> moves view T M (attempt q) (Inr x) N"
  unfolding moves_def attempt_def by (auto split: prod.split)

lemma push_moves:
  assumes "answering m view" "rs_id sp \<noteq> []"
  shows "moves view T M (push_route m lab sp r) [] (M(rs_id sp := Some (with_id (rs_id sp) r)))"
  unfolding push_route_def
  by (rule moves_then [OF attempt_moves [OF put_moves [OF assms]]])
     (simp, intro moves_then [OF status_moves] moves_ret)

lemma apply_spec_moves:
  assumes ans: "answering m view" and "rs_id sp \<noteq> []" "\<not> a_maintenance_active ap" "\<not> a_suspended ap"
  shows "\<exists>att'. moves view T M (apply_spec m ap svcs att sp) (att', []) (put_target m ap svcs sp M)"
proof (cases "rs_redirect sp \<noteq> []")
  case True
  let ?r = "redirect_route (rs_id sp) (rs_hostname sp) (rs_redirect sp)"
  have "moves view T M (and_then (push_route m ''redirect'' sp ?r) (\<lambda>es. ret (att, es))) (att, [])
      (M(rs_id sp := Some (with_id (rs_id sp) ?r)))"
    by (rule moves_then [OF push_moves [OF assms(1,2)] moves_ret])
  with True show ?thesis
    by (auto simp: apply_spec_def put_target_def target_def assms)
next
  case False
  note red = this
  show ?thesis
  proof (cases "\<exists>v. by_name svcs (rs_service sp) = Some v \<and> routable m v")
    case True
    then obtain v where v: "by_name svcs (rs_service sp) = Some v" "routable m v" by blast
    have att: "moves view T M (if the (s_container v) \<in> set att then ret []
        else collect (px_docker m (Net_Connect (pc_edge (pm_cfg m)) (the (s_container v)) (service_alias (a_slug ap) (s_name v))))) [] M"
      by (simp add: moves_ret moves_collect docker_moves [OF ans])
    show ?thesis
      using moves_then [OF att, of "\<lambda>aes. case aes of e # _ \<Rightarrow> ret (att, [''attach '' @ s_name v @ '': '' @ e])
          | [] \<Rightarrow> and_then (push_route m ''route'' sp (app_route m (rs_id sp) (rs_hostname sp) v (a_slug ap) (a_rate_limit ap)))
              (\<lambda>es. ret (the (s_container v) # att, es))"]
        moves_then [OF push_moves [OF assms(1,2)] moves_ret] red v
      by (fastforce simp: apply_spec_def put_target_def target_def assms)
  next
    case False
    have d: "moves view T M (and_then (ignore (delete_route (pm_api m) (rs_id sp))) (\<lambda>_. ret (att, [] :: string list))) (att, []) (M(rs_id sp := None))"
      by (rule moves_then [OF drop_moves [OF assms(1,2)] moves_ret])
    show ?thesis
      using red False d by (auto simp: apply_spec_def put_target_def target_def assms split: option.split)
  qed
qed

lemma apply_specs_moves:
  assumes ans: "answering m view" and ids: "\<forall>sp\<in>set sps. rs_id sp \<noteq> []" and flags: "\<not> a_maintenance_active ap" "\<not> a_suspended ap"
  shows "moves view T M (apply_specs m ap svcs att sps) [] (fold (put_target m ap svcs) sps M)"
  using ids
proof (induction sps arbitrary: att M)
  case (Cons sp sps)
  obtain att' where "moves view T M (apply_spec m ap svcs att sp) (att', []) (put_target m ap svcs sp M)"
    using apply_spec_moves [OF ans _ flags, of sp T M svcs att] Cons.prems by auto
  moreover have "moves view T (put_target m ap svcs sp M) (apply_specs m ap svcs att' sps) []
      (fold (put_target m ap svcs) sps (put_target m ap svcs sp M))" using Cons by simp
  ultimately show ?case
    by (auto intro!: moves_then [where x = "(att', [])"] moves_then [where x = "[]"] simp: moves_ret)
qed (simp add: moves_ret)

lemma push_all_moves:
  assumes ans: "answering m view" and sps: "\<forall>sp\<in>set sps. rs_id sp \<noteq> [] \<and> with_id (rs_id sp) (f sp) = f sp \<and> target m ap svcs sp = Some (f sp)"
  shows "moves view T M (collect_each (\<lambda>sp. push_route m lab sp (f sp)) sps) [] (fold (put_target m ap svcs) sps M)"
  using sps
proof (induction sps arbitrary: M)
  case (Cons sp sps)
  then have "moves view T M (push_route m lab sp (f sp)) [] (put_target m ap svcs sp M)"
    using push_moves [OF ans, of sp T M lab "f sp"] by (simp add: put_target_def)
  then show ?case
    using Cons by (simp, intro moves_then [where x = "[]"]) (auto intro: moves_then moves_ret)
qed (simp add: moves_ret)

lemma desired_ids:
  assumes "sp \<in> set (desired_routes m ap ds svcs)"
  shows "rs_id sp \<noteq> []"
  using assms by (auto simp: desired_routes_def domain_spec_def)

lemma apply_app_moves:
  assumes ans: "answering m view" and ap: "app_of i T = Inr ap"
  shows "moves view T M (apply_app m i) () (put_app m T ap M)"
proof -
  have i: "a_id ap = i" using app_of_Inr [OF ap] by simp
  let ?svcs = "services_of i T" and ?specs = "desired_routes m ap (domains_of i T) (services_of i T)"
  have ids: "\<forall>sp\<in>set ?specs. rs_id sp \<noteq> []" using desired_ids by blast
  let ?N = "fold (put_target m ap ?svcs) ?specs M"
  have maint: "moves view T M (collect_each (\<lambda>sp. push_route m ''maintenance'' sp
      (maintenance_route (rs_id sp) (rs_hostname sp) (render_maintenance (pm_default_html m) (a_maintenance_html ap)))) ?specs) [] ?N"
    if "a_maintenance_active ap"
    by (rule push_all_moves [OF ans]) (use ids that in \<open>simp add: target_def\<close>)
  have susp: "moves view T M (collect_each (\<lambda>sp. push_route m ''wake'' sp (suspended_route m sp)) ?specs) [] ?N"
    if "\<not> a_maintenance_active ap" "a_suspended ap"
    by (rule push_all_moves [OF ans]) (use ids that in \<open>simp add: target_def with_id_suspended\<close>)
  have norm: "moves view T M (apply_specs m ap ?svcs [] ?specs) [] ?N"
    if "\<not> a_maintenance_active ap" "\<not> a_suspended ap"
    by (rule apply_specs_moves [OF ans ids that])
  have core: "moves view T M (if a_maintenance_active ap
        then and_then (collect_each (\<lambda>sp. push_route m ''maintenance'' sp
               (maintenance_route (rs_id sp) (rs_hostname sp) (render_maintenance (pm_default_html m) (a_maintenance_html ap)))) ?specs)
               join_errs
        else if a_suspended ap
        then and_then (collect_each (\<lambda>sp. push_route m ''wake'' sp (suspended_route m sp)) ?specs) join_errs
        else and_then (apply_specs m ap ?svcs [] ?specs) join_errs) () ?N"
    using moves_then_join [OF maint] moves_then_join [OF susp] moves_then_join [OF norm] by simp
  show ?thesis
    unfolding apply_app_def put_app_def app_specs_def i
    by (rule moves_then [OF moves_store [OF read_get_app ap]],
        rule moves_then [OF moves_store [OF read_domains refl]],
        rule moves_then [OF moves_store [OF read_services refl]], unfold Let_def, rule core)
qed

lemma control_moves:
  assumes ans: "answering m view"
  shows "moves view T M (apply_control_route m) () (put_control m M)"
  using drop_moves [OF ans, of control_route_id T M] put_moves [OF ans, of control_route_id T M "control_route m"]
  by (auto simp: apply_control_route_def put_control_def)

lemma prune_list_moves:
  assumes ans: "answering m view" and "ids_ok rs"
    and "\<forall>r\<in>set rs. is_managed_route_id (r_id r) \<and> r_id r \<notin> V \<longrightarrow> M (r_id r) \<noteq> None"
  shows "moves view T M (collect_each (\<lambda>r. if \<not> is_managed_route_id (r_id r) \<or> r_id r \<in> V then ret []
            else collect (delete_route (pm_api m) (r_id r))) rs) []
          (\<lambda>i. if i \<in> r_id ` set rs \<and> is_managed_route_id i \<and> i \<notin> V then None else M i)"
  using assms(2,3)
proof (induction rs arbitrary: M)
  case Nil
  then show ?case by (simp add: moves_ret)
next
  case (Cons r rs)
  let ?f = "\<lambda>r. if \<not> is_managed_route_id (r_id r) \<or> r_id r \<in> V then ret []
            else collect (delete_route (pm_api m) (r_id r))"
  let ?N = "\<lambda>i. if i = r_id r \<and> is_managed_route_id i \<and> i \<notin> V then None else M i"
  have managed: "is_managed_route_id [] = False"
    by (simp add: is_managed_route_id_def has_prefix_def route_id_prefix_def auto_route_id_prefix_def)
  have one: "moves view T M (?f r) [] ?N"
  proof (cases "is_managed_route_id (r_id r) \<and> r_id r \<notin> V")
    case True
    then have "r_id r \<noteq> []" "M (r_id r) \<noteq> None" using managed Cons.prems(2) by auto
    from moves_collect [OF delete_moves [where M = M, OF ans this]] have "moves view T M (?f r) [] (M(r_id r := None))"
      using True by simp
    moreover have "M(r_id r := None) = ?N" using True by (intro ext) simp
    ultimately show ?thesis by simp
  next
    case False
    then have "?N = M" "?f r = ret []" by (auto intro!: ext)
    then show ?thesis by (simp add: moves_ret)
  qed
  have fresh: "is_managed_route_id (r_id r) \<Longrightarrow> r_id r \<notin> r_id ` set rs" "ids_ok rs"
    using Cons.prems(1) managed by (auto simp: ids_ok_def split: if_splits)
  have "moves view T ?N (collect_each ?f rs) [] (\<lambda>i. if i \<in> r_id ` set rs \<and> is_managed_route_id i \<and> i \<notin> V then None else ?N i)"
    by (rule Cons.IH [OF fresh(2)]) (use Cons.prems(2) fresh(1) in \<open>fastforce simp: image_iff\<close>)
  moreover have "(\<lambda>i. if i \<in> r_id ` set rs \<and> is_managed_route_id i \<and> i \<notin> V then None else ?N i)
      = (\<lambda>i. if i \<in> r_id ` set (r # rs) \<and> is_managed_route_id i \<and> i \<notin> V then None else M i)"
    by (rule ext) auto
  ultimately have "moves view T ?N (collect_each ?f rs) [] (\<lambda>i. if i \<in> r_id ` set (r # rs) \<and> is_managed_route_id i \<and> i \<notin> V then None else M i)"
    by simp
  then show ?case
    by (simp only: collect_each.simps) (rule moves_then [OF one], rule moves_then, assumption, simp add: moves_ret)
qed

lemma auto_hosts_of_moves: "moves view T M (auto_hosts_of m aps) (all_auto m T aps) M"
proof (induction aps)
  case Nil
  then show ?case by (simp add: all_auto_def moves_ret)
next
  case (Cons ap aps)
  then show ?case
    by (simp only: auto_hosts_of.simps)
       (rule moves_then [OF moves_store [OF read_services refl]], rule moves_then, assumption,
        simp add: all_auto_def moves_ret)
qed

lemma auto_hosts_moves: "moves view T M (auto_hosts m) (all_auto m T (apps_of T)) M"
  unfolding auto_hosts_def by (rule moves_then [OF moves_store [OF read_list_apps refl] auto_hosts_of_moves])

lemma prune_moves:
  assumes ans: "answering m view"
  shows "moves view T M (prune_orphans m) () (pruned m T M)"
proof -
  let ?V = "set (live_ids m T)"
  let ?del = "collect_each (\<lambda>r. if \<not> is_managed_route_id (r_id r) \<or> r_id r \<in> ?V then ret []
            else collect (delete_route (pm_api m) (r_id r)))"
  have "moves view T M (and_then (get_routes (pm_api m)) (\<lambda>rs. and_then (?del rs) join_errs)) () (pruned m T M)"
    unfolding moves_def
  proof (intro allI impI)
    fix s
    assume a: "at_table view T M s"
    let ?rs = "view (ou_world s)"
    obtain t where g: "get_routes (pm_api m) s = (Inr ?rs, t)" "at_table view T M t"
      using get_routes_moves [OF ans a] by blast
    have M: "route_map ?rs = M" "ids_ok ?rs" using a by (simp_all add: at_table_def)
    have present: "M i = None \<longleftrightarrow> i \<notin> r_id ` set ?rs" for i using M(1) route_map_None by metis
    have "moves view T M (and_then (?del ?rs) join_errs) ()
        (\<lambda>i. if i \<in> r_id ` set ?rs \<and> is_managed_route_id i \<and> i \<notin> ?V then None else M i)"
      using present by (intro moves_then_join prune_list_moves [OF ans M(2)]) auto
    moreover have "(\<lambda>i. if i \<in> r_id ` set ?rs \<and> is_managed_route_id i \<and> i \<notin> ?V then None else M i) = pruned m T M"
      using present by (intro ext) (auto simp: pruned_def)
    ultimately have "moves view T M (and_then (?del ?rs) join_errs) () (pruned m T M)" by simp
    moreover have "and_then (get_routes (pm_api m)) (\<lambda>rs. and_then (?del rs) join_errs) s = and_then (?del ?rs) join_errs t"
      unfolding and_then_def [of "get_routes (pm_api m)"] g(1) by simp
    ultimately show "fst (and_then (get_routes (pm_api m)) (\<lambda>rs. and_then (?del rs) join_errs) s) = Inr ()
        \<and> at_table view T (pruned m T M) (snd (and_then (get_routes (pm_api m)) (\<lambda>rs. and_then (?del rs) join_errs) s))"
      using g(2) unfolding moves_def by simp
  qed
  then show ?thesis
    unfolding prune_orphans_def
    by (intro moves_then [OF moves_store [OF read_all_domains refl]] moves_then [OF auto_hosts_moves])
       (simp add: live_ids_def)
qed

lemma certs_moves:
  assumes ans: "answering m view"
  shows "moves view T M (push_certs m) () M"
proof (cases "pm_certs m")
  case True
  obtain g where g: "is_read list_uploaded_certs (\<lambda>T. Inr (g T) :: store_err + uploaded_cert list)"
    using read_certs by blast
  have patch: "moves view T M (put_cert_set (pm_api m) cs) () M" for cs
    unfolding moves_def
  proof (intro allI impI)
    fix s
    assume a: "at_table view T M s"
    obtain rep w where "pm_api m (Patch_Certs cs) (ou_world s) = (Inr rep, w)" "view w = view (ou_world s)"
      using answering_laws(5) [OF ans] by blast
    then show "fst (put_cert_set (pm_api m) cs s) = Inr () \<and> at_table view T M (snd (put_cert_set (pm_api m) cs s))"
      using a by (simp add: put_cert_set_def client_do_def sem_defs at_table_def)
  qed
  have des: "moves view T M (desired_certs m) (List.map_filter (cert_entry m) (g T)) M"
    unfolding desired_certs_def using True
    by simp (rule moves_then [OF moves_store [OF g refl] moves_ret])
  show ?thesis
    unfolding push_certs_def using True by simp (rule moves_then [OF des patch])
qed (simp add: push_certs_def moves_ret)

lemma base_moves:
  assumes ans: "answering m view"
  shows "moves view T M (ensure_base_config m) () M"
proof (cases "pm_base_config m")
  case (Some cfg)
  show ?thesis
    unfolding moves_def
  proof (intro allI impI)
    fix s
    assume a: "at_table view T M s"
    obtain t where "get_routes (pm_api m) s = (Inr (view (ou_world s)), t)" "at_table view T M t"
      using get_routes_moves [OF ans a] by blast
    then show "fst (ensure_base_config m s) = Inr () \<and> at_table view T M (snd (ensure_base_config m s))"
      using Some by (simp add: ensure_base_config_def sem_defs)
  qed
qed (simp add: ensure_base_config_def moves_ret)

lemma network_moves: "answering m view \<Longrightarrow> moves view T M (ignore (ensure_network m)) () M"
  unfolding ensure_network_def by (rule moves_ignore [OF docker_moves])

lemma tail_moves:
  assumes ans: "answering m view"
  shows "moves view T M (and_then (collect (apply_control_route m)) (\<lambda>e2.
     and_then (collect (prune_orphans m)) (\<lambda>e3. and_then (collect (push_certs m)) (\<lambda>e4. join_errs ([] @ e2 @ e3 @ e4)))))
     () (pruned m T (put_control m M))"
  by (rule moves_then [OF moves_collect [OF control_moves [OF ans]]],
      rule moves_then [OF moves_collect [OF prune_moves [OF ans]]],
      rule moves_then [OF moves_collect [OF certs_moves [OF ans]]]) (simp add: moves_join)

lemma sync_moves:
  assumes ans: "answering m view" and ap: "app_of i T = Inr ap"
  shows "moves view T M (sync m i) () (pruned m T (put_control m (put_app m T ap M)))"
  unfolding sync_def
  by (rule moves_then [OF network_moves [OF ans]], rule moves_then [OF base_moves [OF ans]],
      rule moves_then [OF moves_collect [OF apply_app_moves [OF assms]]], rule tail_moves [OF ans])

lemma apply_all_moves:
  assumes ans: "answering m view" and "\<forall>ap\<in>set aps. app_of (a_id ap) T = Inr ap"
  shows "moves view T M (collect_each (\<lambda>ap. collect (apply_app m (a_id ap))) aps) [] (fold (put_app m T) aps M)"
  using assms(2)
proof (induction aps arbitrary: M)
  case (Cons ap aps)
  have one: "moves view T M (collect (apply_app m (a_id ap))) [] (put_app m T ap M)"
    by (rule moves_collect [OF apply_app_moves [OF ans]]) (use Cons in simp)
  have "moves view T (put_app m T ap M) (collect_each (\<lambda>ap. collect (apply_app m (a_id ap))) aps) []
      (fold (put_app m T) (ap # aps) M)" using Cons by simp
  then show ?case
    by (simp only: collect_each.simps) (rule moves_then [OF one], rule moves_then, assumption, simp add: moves_ret)
qed (simp add: moves_ret)

lemma reconcile_moves:
  assumes ans: "answering m view" and "\<forall>ap\<in>set (apps_of T). app_of (a_id ap) T = Inr ap"
  shows "moves view T M (reconcile m) () (pruned m T (put_control m (fold (put_app m T) (apps_of T) M)))"
  unfolding reconcile_def
  by (rule moves_then [OF network_moves [OF ans]], rule moves_then [OF base_moves [OF ans]],
      rule moves_then [OF moves_store [OF read_list_apps refl]],
      rule moves_then [OF apply_all_moves [OF assms]], rule tail_moves [OF ans])

section \<open>What Reconcile leaves\<close>

text \<open>The constraints of the schema the table of routes rests on: the primary keys, UUIDs of 36
  characters, and the key of services.\<close>

definition schema_ok :: "tables \<Rightarrow> bool" where
  "schema_ok T = (distinct (map a_id (fst T)) \<and> (\<forall>a\<in>set (fst T). length (a_id a) = 36)
     \<and> distinct (map (\<lambda>v. (s_app v, s_name v)) (fst (snd T))) \<and> distinct (map dn_id (snd (snd T))))"

definition all_specs :: "'w manager \<Rightarrow> tables \<Rightarrow> (app \<times> route_spec) list" where
  "all_specs m T = concat (map (\<lambda>ap. map (Pair ap) (app_specs m T ap)) (apps_of T))"

definition wanted :: "'w manager \<Rightarrow> tables \<Rightarrow> string \<Rightarrow> route option option" where
  "wanted m T i = (case find (\<lambda>x. rs_id (snd x) = i) (all_specs m T) of
     None \<Rightarrow> None | Some (ap, sp) \<Rightarrow> Some (target m ap (services_of (a_id ap) T) sp))"

lemma fold_update_find:
  "distinct (map k xs) \<Longrightarrow> fold (\<lambda>x M. M(k x := t x)) xs M i =
     (case find (\<lambda>x. k x = i) xs of None \<Rightarrow> M i | Some x \<Rightarrow> t x)"
proof (induction xs arbitrary: M)
  case (Cons x xs)
  then have "k x \<notin> k ` set xs" by simp
  then have "find (\<lambda>y. k y = k x) xs = None" unfolding find_None_iff by (metis imageI)
  with Cons show ?case by (auto split: option.split)
qed simp

lemma fold_put_apps:
  "fold (put_app m T) aps M = fold (\<lambda>x M. M(rs_id (snd x) := target m (fst x) (services_of (a_id (fst x)) T) (snd x)))
     (concat (map (\<lambda>ap. map (Pair ap) (app_specs m T ap)) aps)) M"
proof (induction aps arbitrary: M)
  case (Cons ap aps)
  have "put_app m T ap N = fold (\<lambda>x M. M(rs_id (snd x) := target m (fst x) (services_of (a_id (fst x)) T) (snd x)))
      (map (Pair ap) (app_specs m T ap)) N" for N
    by (simp add: put_app_def fold_map put_target_def [abs_def] comp_def)
  then show ?case
    by (simp only: fold_simps comp_apply list.map concat.simps fold_append Cons)
qed simp

lemma distinct_concat_map:
  "distinct (map g xs) \<Longrightarrow> (\<forall>x\<in>set xs. distinct (F x)) \<Longrightarrow>
   (\<forall>x\<in>set xs. \<forall>y\<in>set xs. g x \<noteq> g y \<longrightarrow> set (F x) \<inter> set (F y) = {}) \<Longrightarrow> distinct (concat (map F xs))"
proof (induction xs)
  case (Cons x xs)
  have "set (F x) \<inter> (\<Union>y\<in>set xs. set (F y)) = {}"
  proof -
    have "g x \<noteq> g y" if "y \<in> set xs" for y using Cons.prems(1) that by auto
    then show ?thesis using Cons.prems(3) by auto
  qed
  with Cons show ?case by simp
qed simp

definition app_autos :: "'w manager \<Rightarrow> tables \<Rightarrow> app \<Rightarrow> auto_host list" where
  "app_autos m T ap = auto_hosts_for_app m ap (services_of (a_id ap) T)"

lemma app_spec_ids:
  "map rs_id (app_specs m T ap) =
     map (\<lambda>d. route_id (dn_id d)) (filter assigned (domains_of (a_id ap) T))
     @ map (auto_route_id (a_id ap)) (map ah_service_name (app_autos m T ap))"
  by (simp add: app_specs_def desired_routes_def domain_spec_def comp_def app_autos_def)

lemma distinct_app_spec_ids:
  assumes "schema_ok T"
  shows "distinct (map rs_id (app_specs m T ap))"
proof -
  have "inj_on dn_id (set (snd (snd T)))" "distinct (snd (snd T))"
    using assms by (simp_all add: schema_ok_def distinct_map)
  then have d: "distinct (map (\<lambda>d. route_id (dn_id d)) (filter assigned (domains_of (a_id ap) T)))"
    by (auto simp: distinct_map domains_of_def inj_on_def)
  have "inj_on (\<lambda>v. (s_app v, s_name v)) (set (fst (snd T)))" "distinct (fst (snd T))"
    using assms by (simp_all add: schema_ok_def distinct_map)
  then have "distinct (map s_name (filter http_service (services_of (a_id ap) T)))"
    by (auto simp: distinct_map services_of_def inj_on_def)
  then have "distinct (map ah_service_name (app_autos m T ap))"
    by (simp add: app_autos_def auto_host_names)
  then have s: "distinct (map (auto_route_id (a_id ap)) (map ah_service_name (app_autos m T ap)))"
    by (auto simp: distinct_map inj_on_def auto_route_id_inj)
  show ?thesis unfolding app_spec_ids using d s by auto
qed

lemma apps_of_mem [simp]: "set (apps_of T) = set (fst T)"
  by (simp add: apps_of_def)

lemma distinct_spec_ids:
  assumes "schema_ok T"
  shows "distinct (map (\<lambda>x. rs_id (snd x)) (all_specs m T))"
proof -
  have eq: "map (\<lambda>x. rs_id (snd x)) (all_specs m T) = concat (map (\<lambda>ap. map rs_id (app_specs m T ap)) (apps_of T))"
    by (simp add: all_specs_def map_concat comp_def)
  have "inj_on dn_id (set (snd (snd T)))" using assms by (simp add: schema_ok_def distinct_map)
  then have rows: "dn_app d = dn_app e" if "d \<in> set (snd (snd T))" "e \<in> set (snd (snd T))" "dn_id d = dn_id e" for d e
    using that by (auto simp: inj_on_def)
  have disj: "set (map rs_id (app_specs m T a)) \<inter> set (map rs_id (app_specs m T b)) = {}"
    if "a \<in> set (fst T)" "b \<in> set (fst T)" "a_id a \<noteq> a_id b" for a b
  proof -
    have "length (a_id a) = length (a_id b)" using that assms by (simp add: schema_ok_def)
    then have "auto_route_id (a_id a) n \<noteq> auto_route_id (a_id b) k" for n k
      using that(3) by (simp add: auto_route_id_inj)
    moreover have "dn_id d \<noteq> dn_id e" if "d \<in> set (domains_of (a_id a) T)" "e \<in> set (domains_of (a_id b) T)" for d e
      using rows [of d e] that \<open>a_id a \<noteq> a_id b\<close> by (auto simp: domains_of_mem)
    ultimately show ?thesis
      unfolding app_spec_ids by auto
  qed
  have "distinct (map a_id (apps_of T))"
    using assms by (simp add: schema_ok_def apps_of_def distinct_map)
  then show ?thesis
    unfolding eq
    by (rule distinct_concat_map) (use distinct_app_spec_ids [OF assms] disj in auto)
qed

lemma put_apps_wanted:
  assumes "schema_ok T"
  shows "fold (put_app m T) (apps_of T) M i = (case wanted m T i of Some t \<Rightarrow> t | None \<Rightarrow> M i)"
  unfolding fold_put_apps all_specs_def [symmetric] fold_update_find [OF distinct_spec_ids [OF assms]] wanted_def
  by (auto split: option.split)

lemma spec_ids_live:
  assumes "x \<in> set (all_specs m T)"
  shows "rs_id (snd x) \<in> set (live_ids m T) \<and> is_managed_route_id (rs_id (snd x))"
proof -
  obtain ap where ap: "ap \<in> set (apps_of T)" "rs_id (snd x) \<in> set (map rs_id (app_specs m T ap))"
    using assms by (auto simp: all_specs_def)
  from ap(2) consider d where "d \<in> set (domains_of (a_id ap) T)" "rs_id (snd x) = route_id (dn_id d)"
    | h where "h \<in> set (auto_hosts_for_app m ap (services_of (a_id ap) T))" "rs_id (snd x) = auto_route_id (a_id ap) (ah_service_name h)"
    unfolding app_spec_ids app_autos_def by auto
  then show ?thesis
  proof cases
    case 1
    then show ?thesis by (auto simp: live_ids_def valid_ids_def all_domains_of_def domains_of_def)
  next
    case 2
    then have "h \<in> set (all_auto m T (apps_of T))" "ah_app h = a_id ap"
      using ap(1) auto_host_service by (fastforce simp: all_auto_def)+
    then have "rs_id (snd x) \<in> (\<lambda>h. auto_route_id (ah_app h) (ah_service_name h)) ` set (all_auto m T (apps_of T))"
      using 2 by (intro image_eqI [of _ _ h]) simp_all
    with 2 show ?thesis by (simp add: live_ids_def valid_ids_def)
  qed
qed

lemma live_unwanted:
  assumes "i \<in> set (live_ids m T)" "wanted m T i = None"
  shows "i \<in> route_id ` dn_id ` set (snd (snd T))"
proof (rule ccontr)
  assume n: "i \<notin> route_id ` dn_id ` set (snd (snd T))"
  then obtain h where h: "h \<in> set (all_auto m T (apps_of T))" "i = auto_route_id (ah_app h) (ah_service_name h)"
    using assms(1) by (auto simp: live_ids_def valid_ids_def all_domains_of_def)
  then obtain ap where ap: "ap \<in> set (apps_of T)" "h \<in> set (auto_hosts_for_app m ap (services_of (a_id ap) T))"
    by (auto simp: all_auto_def)
  have "i \<in> (\<lambda>h. auto_route_id (a_id ap) (ah_service_name h)) ` set (app_autos m T ap)"
    using h(2) ap(2) auto_host_service [OF ap(2)] by (intro image_eqI [of _ _ h]) (simp_all add: app_autos_def)
  then have "i \<in> set (map rs_id (app_specs m T ap))"
    unfolding app_spec_ids by auto
  then obtain sp where "sp \<in> set (app_specs m T ap)" "rs_id sp = i" by auto
  with ap(1) have "(ap, sp) \<in> set (all_specs m T)" "rs_id (snd (ap, sp)) = i" by (auto simp: all_specs_def)
  then have "find (\<lambda>x. rs_id (snd x) = i) (all_specs m T) \<noteq> None" by (auto simp: find_None_iff)
  with assms(2) show False by (auto simp: wanted_def split: option.splits)
qed

lemma wanted_live:
  assumes "wanted m T i = Some t"
  shows "i \<in> set (live_ids m T) \<and> is_managed_route_id i"
proof -
  obtain x where "find (\<lambda>x. rs_id (snd x) = i) (all_specs m T) = Some x"
    using assms by (cases "find (\<lambda>x. rs_id (snd x) = i) (all_specs m T)") (auto simp: wanted_def)
  then have "x \<in> set (all_specs m T)" "rs_id (snd x) = i"
    by (metis (mono_tags, lifting) find_Some_iff nth_mem)+
  then show ?thesis using spec_ids_live by blast
qed

lemma schema_apps: "schema_ok T \<Longrightarrow> \<forall>ap\<in>set (apps_of T). app_of (a_id ap) T = Inr ap"
proof
  fix ap
  assume s: "schema_ok T" and ap: "ap \<in> set (apps_of T)"
  have "inj_on a_id (set (fst T))" using s by (simp add: schema_ok_def distinct_map)
  moreover obtain b where b: "find (\<lambda>a. a_id a = a_id ap) (fst T) = Some b"
    using ap by (cases "find (\<lambda>a. a_id a = a_id ap) (fst T)") (auto simp: find_None_iff)
  moreover have "b \<in> set (fst T) \<and> a_id b = a_id ap"
    using b by (metis (mono_tags, lifting) find_Some_iff nth_mem)
  ultimately have "b = ap" using ap by (auto simp: inj_on_def)
  with b show "app_of (a_id ap) T = Inr ap" by (simp add: app_of_def)
qed

definition route_now :: "('w \<Rightarrow> route list) \<Rightarrow> 'w pxst \<Rightarrow> string \<Rightarrow> route option" where
  "route_now view s i = route_map (view (ou_world s)) i"

lemma reconcile_table:
  assumes "answering m view" "quiet (px_dom s)" "schema_ok (tbl (px_dom s))" "ids_ok (view (ou_world s))"
  shows "fst (reconcile m s) = Inr ()"
    and "route_now view (snd (reconcile m s)) i =
      (if i = control_route_id
       then (if pc_control_domain (pm_cfg m) = [] then None else Some (control_route m))
       else if \<not> is_managed_route_id i then route_now view s i
       else case wanted m (tbl (px_dom s)) i of
         Some r \<Rightarrow> r
       | None \<Rightarrow> if i \<in> route_id ` dn_id ` set (dm_rows (px_dom s)) then route_now view s i else None)"
proof -
  let ?T = "tbl (px_dom s)" and ?M = "route_map (view (ou_world s))"
  have "at_table view ?T ?M s" using assms by (simp add: at_table_def)
  then have r: "fst (reconcile m s) = Inr ()"
      "at_table view ?T (pruned m ?T (put_control m (fold (put_app m ?T) (apps_of ?T) ?M))) (snd (reconcile m s))"
    using reconcile_moves [OF assms(1) schema_apps [OF assms(3)]] by (simp_all add: moves_def)
  show "fst (reconcile m s) = Inr ()" by (rule r)
  have now: "route_now view (snd (reconcile m s)) i = pruned m ?T (put_control m (fold (put_app m ?T) (apps_of ?T) ?M)) i"
    using r(2) by (simp add: at_table_def route_now_def)
  have rows: "snd (snd ?T) = dm_rows (px_dom s)" by (simp add: tbl_def)
  have row_live: "i \<in> route_id ` dn_id ` set (snd (snd ?T)) \<Longrightarrow> i \<in> set (live_ids m ?T)"
    by (auto simp: live_ids_def valid_ids_def all_domains_of_def)
  have wn: "\<not> is_managed_route_id i \<Longrightarrow> wanted m ?T i = None"
    using wanted_live [of m ?T i] by (cases "wanted m ?T i") auto
  show "route_now view (snd (reconcile m s)) i =
      (if i = control_route_id
       then (if pc_control_domain (pm_cfg m) = [] then None else Some (control_route m))
       else if \<not> is_managed_route_id i then route_now view s i
       else case wanted m (tbl (px_dom s)) i of
         Some r \<Rightarrow> r
       | None \<Rightarrow> if i \<in> route_id ` dn_id ` set (dm_rows (px_dom s)) then route_now view s i else None)"
    unfolding now pruned_def put_control_def
    using put_apps_wanted [OF assms(3), of m ?M i] wanted_live [of m ?T i] live_unwanted [of i m ?T] row_live wn
    by (auto simp: route_now_def rows split: option.splits)
qed

text \<open>
  C5: Reconcile makes Caddy a copy of the database. With collaborators that answer, it returns no
  error, and every VAC route of the server is afterwards the one the tables ask for: the route of
  an assigned domain or a derived host, by the state of its app, nothing where its service cannot
  be routed, and nothing for an @id that belongs to neither. The dashboard's route follows the
  configuration, and routes of others are left alone. The one exception is a domain row whose
  domain is not assigned to an app: its route, if any, stays as it was.
\<close>

theorem reconcile_converges:
  assumes "answering m view" and "quiet (px_dom s)" and "schema_ok (tbl (px_dom s))" and "ids_ok (view (ou_world s))"
  shows "fst (reconcile m s) = Inr () \<and> route_now view (snd (reconcile m s)) i =
      (if i = control_route_id
       then (if pc_control_domain (pm_cfg m) = [] then None else Some (control_route m))
       else if \<not> is_managed_route_id i then route_now view s i
       else case wanted m (tbl (px_dom s)) i of
         Some r \<Rightarrow> r
       | None \<Rightarrow> if i \<in> route_id ` dn_id ` set (dm_rows (px_dom s)) then route_now view s i else None)"
  using reconcile_table [OF assms] by blast

text \<open>An instance with an app of a proper identifier and a stale route left in Caddy.\<close>

definition demo_uuid :: string where
  "demo_uuid = replicate 36 CHR ''0''"

definition demo_stale :: route where
  "demo_stale = Route ''vac-route-gone'' [] []"

definition demo_sys :: "route list pxst" where
  "demo_sys = \<lparr>ou_world = [demo_stale], ou_admin = [],
     px_dom = \<lparr>dm_db = empty_db\<lparr>apps := [maint_app demo_uuid False], services := [demo_service\<lparr>s_app := demo_uuid\<rparr>]\<rparr>, dm_rows = []\<rparr>,
     px_net = [], px_engine = []\<rparr>"

lemma demo_answering: "answering demo_manager (\<lambda>rs. rs)"
  using list_caddy_answers by (simp add: answering_def net_answers_def demo_manager_def)

theorem reconcile_converges_witness:
  "fst (reconcile demo_manager demo_sys) = Inr ()
   \<and> route_now (\<lambda>rs. rs) demo_sys ''vac-route-gone'' = Some demo_stale
   \<and> route_now (\<lambda>rs. rs) (snd (reconcile demo_manager demo_sys)) ''vac-route-gone'' = None"
proof -
  have hyps: "quiet (px_dom demo_sys)" "schema_ok (tbl (px_dom demo_sys))" "ids_ok (ou_world demo_sys)"
    by (simp_all add: quiet_def schema_ok_def tbl_def ids_ok_def demo_sys_def empty_db_def maint_app_def demo_uuid_def demo_stale_def)
  note r = reconcile_converges [where view = "\<lambda>rs. rs", OF demo_answering hyps, of "''vac-route-gone''"]
  have "is_managed_route_id ''vac-route-gone''"
    by (simp add: is_managed_route_id_def has_prefix_def route_id_prefix_def)
  moreover have "wanted demo_manager (tbl (px_dom demo_sys)) ''vac-route-gone'' = None"
  proof (rule ccontr)
    assume "wanted demo_manager (tbl (px_dom demo_sys)) ''vac-route-gone'' \<noteq> None"
    then have "''vac-route-gone'' \<in> set (live_ids demo_manager (tbl (px_dom demo_sys)))"
      using wanted_live by blast
    then show False
      by (auto simp: live_ids_def valid_ids_def all_domains_of_def tbl_def demo_sys_def auto_route_id_def auto_route_id_prefix_def)
  qed
  ultimately have "route_now (\<lambda>rs. rs) (snd (reconcile demo_manager demo_sys)) ''vac-route-gone'' = None"
    using r by (simp add: control_route_id_def) (simp add: demo_sys_def)
  then show ?thesis using r by (simp add: route_now_def route_map_def demo_sys_def demo_stale_def)
qed

end
