(* ===== verification/Domain_Status.thy ===== *)
theory Domain_Status
  imports Proxy_Hostname Go_Time
begin

text \<open>
  The status of hosts: api/internal/domainstatus/engine.go, status.go and resolver.go. The two maps of
  the engine are association lists with distinct keys. What DNS and the certificate probe answer for
  a host are functions, as is the public-suffix list. Each operation runs under the lock of the code, so
  a pass is its bookkeeping followed by one store per probe, in any order of the hosts.
\<close>

record host_status =
  hs_state :: string
  hs_detail :: string
  hs_cert_not_after :: "instant option"
  hs_last_checked :: "instant option"

definition blank_status :: "string \<Rightarrow> host_status" where
  "blank_status st = \<lparr>hs_state = st, hs_detail = [], hs_cert_not_after = None, hs_last_checked = None\<rparr>"

definition state_checking :: string where "state_checking = ''checking''"
definition state_awaiting_dns :: string where "state_awaiting_dns = ''awaiting_dns''"
definition state_misconfigured :: string where "state_misconfigured = ''misconfigured''"
definition state_issuing :: string where "state_issuing = ''issuing''"
definition state_active :: string where "state_active = ''active''"
definition state_error :: string where "state_error = ''error''"

lemmas state_defs = state_checking_def state_awaiting_dns_def state_misconfigured_def state_issuing_def
  state_active_def state_error_def

text \<open>What a probe sees: the addresses, the canonical name, and the served certificate.\<close>

record probe_world =
  pw_lookup :: "string \<Rightarrow> string list option"
  pw_cname :: "string \<Rightarrow> string option"
  pw_etld1 :: "string \<Rightarrow> string option"
  pw_cert :: "string \<Rightarrow> (instant \<times> bool) option"   \<comment> \<open>expiry and trust; None for an error\<close>

record engine_cfg =
  ec_cert_probe :: bool
  ec_vps_ip :: string
  ec_active_interval :: duration
  ec_pending_interval :: duration
  ec_cache_window :: duration

definition new_engine_cfg :: "engine_cfg \<Rightarrow> engine_cfg" where
  "new_engine_cfg c = c\<lparr>
     ec_active_interval := (if ec_active_interval c \<le> 0 then 5 * minute else ec_active_interval c),
     ec_pending_interval := (if ec_pending_interval c \<le> 0 then 30 * second else ec_pending_interval c),
     ec_cache_window := (if ec_cache_window c \<le> 0 then 15 * second else ec_cache_window c)\<rparr>"

record engine =
  en_entries :: "(string \<times> host_status) list"
  en_push_err :: "(string \<times> string) list"

definition is_apex :: "probe_world \<Rightarrow> string \<Rightarrow> bool" where
  "is_apex w host = (case pw_etld1 w host of
     None \<Rightarrow> length (filter (\<lambda>c. c = dot) host) \<le> 1
   | Some e \<Rightarrow> to_lower e = to_lower host)"

definition untrusted_detail :: string where
  "untrusted_detail = ''a certificate is being served but is not yet publicly trusted '' @ em_dash
     @ '' still issuing, or using a staging/self-signed CA''"

definition probe_host :: "engine_cfg \<Rightarrow> probe_world \<Rightarrow> instant \<Rightarrow> string \<Rightarrow> host_status" where
  "probe_host cfg w now host =
     (let st = (blank_status [])\<lparr>hs_last_checked := Some now\<rparr>
      in case pw_lookup w host of
           None \<Rightarrow> st\<lparr>hs_state := state_awaiting_dns\<rparr>
         | Some [] \<Rightarrow> st\<lparr>hs_state := state_awaiting_dns\<rparr>
         | Some addrs \<Rightarrow>
             if is_apex w host \<and> (case pw_cname w host of
                  Some c \<Rightarrow> c \<noteq> [] \<and> to_lower (trim_suffix c ''.'') \<noteq> to_lower host | None \<Rightarrow> False)
             then st\<lparr>hs_state := state_misconfigured,
                     hs_detail := ''CNAME at apex is invalid '' @ em_dash @ '' use an A record to '' @ ec_vps_ip cfg\<rparr>
             else if ec_vps_ip cfg \<noteq> [] \<and> ec_vps_ip cfg \<notin> set addrs
             then st\<lparr>hs_state := state_misconfigured,
                     hs_detail := ''resolves to '' @ join_str '', '' addrs @ '' '' @ em_dash @ '' expected '' @ ec_vps_ip cfg\<rparr>
             else case (if ec_cert_probe cfg then pw_cert w host else None) of
                 None \<Rightarrow> st\<lparr>hs_state := state_issuing\<rparr>
               | Some (notAfter, trusted) \<Rightarrow>
                   if trusted \<and> now < notAfter
                   then st\<lparr>hs_state := state_active, hs_cert_not_after := Some notAfter\<rparr>
                   else st\<lparr>hs_state := state_issuing, hs_detail := (if trusted then [] else untrusted_detail)\<rparr>)"

section \<open>The projection\<close>

definition alist_put :: "'k \<Rightarrow> 'v \<Rightarrow> ('k \<times> 'v) list \<Rightarrow> ('k \<times> 'v) list" where
  "alist_put k v xs = (k, v) # filter (\<lambda>x. fst x \<noteq> k) xs"

definition store_status :: "string \<Rightarrow> host_status \<Rightarrow> engine \<Rightarrow> engine" where
  "store_status host st e = (if map_of (en_entries e) host = None then e
     else e\<lparr>en_entries := map (\<lambda>x. if fst x = host then (host, st) else x) (en_entries e)\<rparr>)"

definition due_check :: "engine_cfg \<Rightarrow> instant \<Rightarrow> host_status \<Rightarrow> bool" where
  "due_check cfg now st = (case hs_last_checked st of
     None \<Rightarrow> True
   | Some t \<Rightarrow> now - t \<ge> (if hs_state st = state_active then ec_active_interval cfg else ec_pending_interval cfg))"

fun enrol :: "string list \<Rightarrow> (string \<times> host_status) list \<Rightarrow> (string \<times> host_status) list" where
  "enrol [] es = es"
| "enrol (h # hs) es =
     (if map_of es (to_lower h) = None then enrol hs ((to_lower h, blank_status state_checking) # es) else enrol hs es)"

text \<open>The bookkeeping of a pass, and the hosts it leaves to probe.\<close>

definition refresh_hosts :: "engine_cfg \<Rightarrow> instant \<Rightarrow> string list \<Rightarrow> engine \<Rightarrow> engine \<times> string list" where
  "refresh_hosts cfg now hosts e =
     (let es = filter (\<lambda>x. fst x \<in> set (map to_lower hosts)) (enrol hosts (en_entries e));
          gone = filter (\<lambda>h. h \<notin> set (map to_lower hosts)) (map fst (en_entries e))
      in (e\<lparr>en_entries := es, en_push_err := filter (\<lambda>x. fst x \<notin> set gone) (en_push_err e)\<rparr>,
          map fst (filter (\<lambda>x. due_check cfg now (snd x)) es)))"

definition status_pass :: "engine_cfg \<Rightarrow> probe_world \<Rightarrow> instant \<Rightarrow> string list option \<Rightarrow> engine \<Rightarrow> engine" where
  "status_pass cfg w now hosts e = (case hosts of
     None \<Rightarrow> e
   | Some hs \<Rightarrow> (case refresh_hosts cfg now hs e of
       (e', todo) \<Rightarrow> fold (\<lambda>h. store_status h (probe_host cfg w now h)) todo e'))"

definition push_err_of :: "engine \<Rightarrow> string \<Rightarrow> string" where
  "push_err_of e host = (case map_of (en_push_err e) host of Some d \<Rightarrow> d | None \<Rightarrow> [])"

definition get_status :: "string \<Rightarrow> engine \<Rightarrow> host_status option" where
  "get_status host0 e =
     (let host = to_lower host0; d = push_err_of e host
      in case map_of (en_entries e) host of
           None \<Rightarrow> if d \<noteq> [] then Some ((blank_status state_error)\<lparr>hs_detail := d\<rparr>) else None
         | Some st \<Rightarrow> Some (if d \<noteq> [] then st\<lparr>hs_state := state_error, hs_detail := d\<rparr> else st))"

definition refresh_status :: "engine_cfg \<Rightarrow> probe_world \<Rightarrow> instant \<Rightarrow> string \<Rightarrow> engine \<Rightarrow> host_status option \<times> engine" where
  "refresh_status cfg w now host0 e =
     (let host = to_lower host0
      in case map_of (en_entries e) host of
           None \<Rightarrow> (None, e)
         | Some st \<Rightarrow>
             if (case hs_last_checked st of Some t \<Rightarrow> now - t < ec_cache_window cfg | None \<Rightarrow> False)
             then (get_status host e, e)
             else let e' = store_status host (probe_host cfg w now host) e in (get_status host e', e'))"

definition set_push_error :: "string \<Rightarrow> string \<Rightarrow> engine \<Rightarrow> engine" where
  "set_push_error host d e = e\<lparr>en_push_err := alist_put (to_lower host) d (en_push_err e)\<rparr>"

definition clear_push_error :: "string \<Rightarrow> engine \<Rightarrow> engine" where
  "clear_push_error host e = e\<lparr>en_push_err := filter (\<lambda>x. fst x \<noteq> to_lower host) (en_push_err e)\<rparr>"

section \<open>Lemmas\<close>

text \<open>DNS of a host points here: it has an address, an apex has no foreign alias, and the expected
  address, when one is configured, is among them.\<close>

definition dns_valid :: "engine_cfg \<Rightarrow> probe_world \<Rightarrow> string \<Rightarrow> bool" where
  "dns_valid cfg w host = (case pw_lookup w host of None \<Rightarrow> False | Some addrs \<Rightarrow>
     addrs \<noteq> [] \<and> (ec_vps_ip cfg = [] \<or> ec_vps_ip cfg \<in> set addrs)
     \<and> \<not> (is_apex w host \<and> (case pw_cname w host of
           Some c \<Rightarrow> c \<noteq> [] \<and> to_lower (trim_suffix c ''.'') \<noteq> to_lower host | None \<Rightarrow> False)))"

definition trusted_now :: "engine_cfg \<Rightarrow> probe_world \<Rightarrow> instant \<Rightarrow> string \<Rightarrow> bool" where
  "trusted_now cfg w now host = (ec_cert_probe cfg \<and>
     (case pw_cert w host of Some (exp, ok) \<Rightarrow> ok \<and> now < exp | None \<Rightarrow> False))"

lemma probe_state:
  "hs_state (probe_host cfg w now host) =
     (if dns_valid cfg w host
      then (if trusted_now cfg w now host then state_active else state_issuing)
      else if pw_lookup w host \<in> {None, Some []} then state_awaiting_dns else state_misconfigured)"
proof (cases "pw_lookup w host")
  case (Some addrs)
  then show ?thesis
    by (cases addrs) (auto simp: probe_host_def dns_valid_def trusted_now_def Let_def split: option.split prod.split)
qed (simp add: probe_host_def dns_valid_def Let_def)

lemma map_of_store: "map_of (en_entries e) h \<noteq> None \<Longrightarrow> map_of (en_entries (store_status h st e)) h = Some st"
proof -
  have "map_of xs h \<noteq> None \<Longrightarrow> map_of (map (\<lambda>x. if fst x = h then (h, st) else x) xs) h = Some st" for xs
    by (induction xs) auto
  then show "map_of (en_entries e) h \<noteq> None \<Longrightarrow> ?thesis" by (simp add: store_status_def)
qed

lemma push_err_store [simp]: "push_err_of (store_status h st e) k = push_err_of e k"
  by (simp add: push_err_of_def store_status_def)

lemma push_err_set: "push_err_of (set_push_error host d e) (to_lower host) = d"
  by (simp add: push_err_of_def set_push_error_def alist_put_def)

lemma push_err_clear: "push_err_of (clear_push_error host e) (to_lower host) = []"
proof -
  have "map_of (filter (\<lambda>x. fst x \<noteq> k) xs) k = None" for k :: string and xs :: "(string \<times> string) list"
    by (induction xs) auto
  then show ?thesis by (simp add: push_err_of_def clear_push_error_def)
qed

text \<open>
  A domain reads active exactly when it is. A forced refresh outside the cache window of a known
  host reports active only if the host resolves, an apex has no alias elsewhere, the expected
  address is among its addresses, a publicly trusted certificate that has not expired is served, and the
  last push of its route did not fail; and then it does. A failed push reads error with its
  message whatever DNS says, until the push succeeds.
\<close>

theorem status_active_iff:
  assumes "map_of (en_entries e) (to_lower host) = Some st"
    and "case hs_last_checked st of Some t \<Rightarrow> ec_cache_window cfg \<le> now - t | None \<Rightarrow> True"
  shows "(\<exists>r e'. refresh_status cfg w now host e = (Some r, e')
      \<and> (hs_state r = state_active) =
          (dns_valid cfg w (to_lower host) \<and> trusted_now cfg w now (to_lower host) \<and> push_err_of e (to_lower host) = []))
    \<and> (d \<noteq> [] \<longrightarrow> (\<exists>r. get_status host (set_push_error host d e) = Some r \<and> hs_state r = state_error \<and> hs_detail r = d))
    \<and> get_status host (clear_push_error host (set_push_error host d e)) = Some st"
proof (intro conjI)
  let ?h = "to_lower host" and ?p = "probe_host cfg w now (to_lower host)"
  have "refresh_status cfg w now host e =
      (get_status ?h (store_status ?h ?p e), store_status ?h ?p e)"
    using assms by (auto simp: refresh_status_def Let_def split: option.splits)
  moreover have "get_status ?h (store_status ?h ?p e) =
      Some (if push_err_of e ?h \<noteq> [] then ?p\<lparr>hs_state := state_error, hs_detail := push_err_of e ?h\<rparr> else ?p)"
    using map_of_store [of e ?h ?p] assms(1) by (simp add: get_status_def Let_def)
  ultimately show "\<exists>r e'. refresh_status cfg w now host e = (Some r, e')
      \<and> (hs_state r = state_active) = (dns_valid cfg w ?h \<and> trusted_now cfg w now ?h \<and> push_err_of e ?h = [])"
    by (simp add: probe_state state_defs)
  show "d \<noteq> [] \<longrightarrow> (\<exists>r. get_status host (set_push_error host d e) = Some r \<and> hs_state r = state_error \<and> hs_detail r = d)"
    using assms(1) push_err_set [of host d e] by (simp add: get_status_def Let_def) (simp add: set_push_error_def)
  show "get_status host (clear_push_error host (set_push_error host d e)) = Some st"
    using assms(1) push_err_clear [of host "set_push_error host d e"]
    by (simp add: get_status_def Let_def) (simp add: set_push_error_def clear_push_error_def)
qed

definition demo_probe :: probe_world where
  "demo_probe = \<lparr>pw_lookup = (\<lambda>_. Some [''192.0.2.1'']), pw_cname = (\<lambda>_. None), pw_etld1 = (\<lambda>h. Some h),
     pw_cert = (\<lambda>_. Some (1000, True))\<rparr>"

theorem status_active_iff_witness:
  "\<exists>r e'. refresh_status (new_engine_cfg \<lparr>ec_cert_probe = True, ec_vps_ip = ''192.0.2.1'', ec_active_interval = 0,
       ec_pending_interval = 0, ec_cache_window = 0\<rparr>) demo_probe 10 ''A.io''
     \<lparr>en_entries = [(''a.io'', blank_status state_checking)], en_push_err = []\<rparr> = (Some r, e') \<and> hs_state r = state_active"
proof -
  let ?cfg = "new_engine_cfg \<lparr>ec_cert_probe = True, ec_vps_ip = ''192.0.2.1'', ec_active_interval = 0,
       ec_pending_interval = 0, ec_cache_window = 0\<rparr>"
  let ?e = "\<lparr>en_entries = [(''a.io'', blank_status state_checking)], en_push_err = []\<rparr>"
  have low: "to_lower ''A.io'' = ''a.io''" by code_simp
  have "map_of (en_entries ?e) (to_lower ''A.io'') = Some (blank_status state_checking)" by (simp add: low)
  note r = status_active_iff [OF this, of ?cfg 10 demo_probe "[]"]
  have "dns_valid ?cfg demo_probe ''a.io''" "trusted_now ?cfg demo_probe 10 ''a.io''" "push_err_of ?e ''a.io'' = []"
    by (simp_all add: dns_valid_def trusted_now_def push_err_of_def demo_probe_def new_engine_cfg_def)
  with r show ?thesis by (simp add: blank_status_def low)
qed

end
