(* ===== verification/Cert_Upload.thy ===== *)
theory Cert_Upload
  imports Proxy_Hostname Go_Time
begin

text \<open>
  Uploaded certificates: api/internal/certupload/certupload.go. The parsing of the key pair, the
  PEM blocks and the format of a date belong to the standard library and are fields of \<open>cert_lib\<close>;
  the checks on the parsed leaf are the code's own.
\<close>

record leaf =
  lf_cn :: string
  lf_dns_names :: "string list"
  lf_not_before :: instant
  lf_not_after :: instant
  lf_issuer_cn :: string
  lf_raw_issuer :: string
  lf_raw_subject :: string

record cert_meta =
  cm_subject :: string
  cm_dns_names :: "string list"
  cm_not_before :: instant
  cm_not_after :: instant
  cm_issuer :: string
  cm_self_signed :: bool

text \<open>The error texts of X509KeyPair and ParseCertificate come with the wrapping of the code.\<close>

datatype parse_result = Bad_Pair string | No_Certificate | Bad_Leaf string | Leaf_Ok leaf

record cert_lib =
  cl_parse :: "string \<Rightarrow> string \<Rightarrow> parse_result"
  cl_pem_types :: "string \<Rightarrow> string list"
  cl_date :: "instant \<Rightarrow> string"

fun dedup_lower :: "string list \<Rightarrow> string list \<Rightarrow> string list" where
  "dedup_lower seen [] = []"
| "dedup_lower seen (n # ns) =
     (if to_lower n \<in> set seen then dedup_lower seen ns else to_lower n # dedup_lower (to_lower n # seen) ns)"

definition cert_names :: "leaf \<Rightarrow> string list" where
  "cert_names l = (let names = dedup_lower [] (lf_dns_names l); cn = to_lower (lf_cn l)
     in if cn \<noteq> [] \<and> contains_str cn ''.'' \<and> cn \<notin> set names then names @ [cn] else names)"

definition name_covers :: "string \<Rightarrow> string \<Rightarrow> bool" where
  "name_covers host name = (name = host \<or>
     (has_prefix name ''*.'' \<and>
        (let suffix = drop 1 name; rest = trim_suffix host suffix
         in rest \<noteq> host \<and> rest \<noteq> [] \<and> \<not> contains_str rest ''.'')))"

definition covers :: "leaf \<Rightarrow> string \<Rightarrow> bool" where
  "covers l host = list_ex (name_covers host) (cert_names l)"

definition is_self_signed :: "leaf \<Rightarrow> bool" where
  "is_self_signed l = (lf_raw_issuer l = lf_raw_subject l)"

definition validate_cert :: "cert_lib \<Rightarrow> instant \<Rightarrow> string \<Rightarrow> string \<Rightarrow> string \<Rightarrow> string + cert_meta" where
  "validate_cert lib now certPem keyPem hostname =
     (case cl_parse lib certPem keyPem of
        Bad_Pair e \<Rightarrow> Inl (''certupload: cert and key do not form a valid pair: '' @ e)
      | No_Certificate \<Rightarrow> Inl ''certupload: no certificate found in PEM''
      | Bad_Leaf e \<Rightarrow> Inl (''certupload: parse leaf certificate: '' @ e)
      | Leaf_Ok l \<Rightarrow>
          (let host = to_lower (trim_suffix (trim_space hostname) ''.'')
           in if host = [] then Inl ''certupload: hostname is required''
              else if now > lf_not_after l
                then Inl (''certupload: certificate has already expired (expired '' @ cl_date lib (lf_not_after l) @ '')'')
              else if \<not> covers l host
                then Inl (''certupload: certificate does not cover this hostname '' @ quote_str host
                          @ '' (covers: '' @ join_str '', '' (cert_names l) @ '')'')
              else Inr \<lparr>cm_subject = lf_cn l, cm_dns_names = cert_names l, cm_not_before = lf_not_before l,
                        cm_not_after = lf_not_after l, cm_issuer = lf_issuer_cn l, cm_self_signed = is_self_signed l\<rparr>))"

definition first_cert_block :: "cert_lib \<Rightarrow> string \<Rightarrow> bool" where
  "first_cert_block lib b = list_ex (\<lambda>t. t = ''CERTIFICATE'') (cl_pem_types lib b)"

section \<open>What a certificate covers\<close>

lemma dedup_lower_set: "set (dedup_lower seen ns) = to_lower ` set ns - set seen"
  by (induction ns arbitrary: seen) auto

lemma cert_names_set:
  "set (cert_names l) = to_lower ` set (lf_dns_names l)
     \<union> (if CHR ''.'' \<in> set (to_lower (lf_cn l)) then {to_lower (lf_cn l)} else {})"
proof -
  have "contains_str s ''.'' \<longleftrightarrow> CHR ''.'' \<in> set s" for s by (rule contains_char)
  then show ?thesis by (auto simp: cert_names_def Let_def dedup_lower_set)
qed

lemma trim_suffix_strict:
  "trim_suffix h s \<noteq> h \<longleftrightarrow> s \<noteq> [] \<and> (\<exists>p. h = p @ s)"
proof
  assume a: "trim_suffix h s \<noteq> h"
  then have "has_suffix h s" by (auto simp: trim_suffix_def split: if_splits)
  moreover have "s \<noteq> []"
  proof
    assume "s = []"
    then have "trim_suffix h s = h" by (simp add: trim_suffix_def)
    with a show False by simp
  qed
  ultimately show "s \<noteq> [] \<and> (\<exists>p. h = p @ s)" by (auto simp: has_suffix_def suffix_def)
next
  assume "s \<noteq> [] \<and> (\<exists>p. h = p @ s)"
  then obtain p where "h = p @ s" "s \<noteq> []" by blast
  then show "trim_suffix h s \<noteq> h" by (simp add: trim_suffix_def has_suffix_def suffix_def)
qed

lemma trim_suffix_append [simp]: "trim_suffix (p @ s) s = p"
  by (simp add: trim_suffix_def has_suffix_def suffix_def)

text \<open>RFC 6125: a wildcard stands for exactly one label.\<close>

lemma name_covers_iff:
  "name_covers host name \<longleftrightarrow> name = host \<or>
     (\<exists>label suffix. name = ''*'' @ CHR ''.'' # suffix \<and> host = label @ CHR ''.'' # suffix \<and> label \<noteq> [] \<and> CHR ''.'' \<notin> set label)"
proof (cases "\<exists>suffix. name = ''*'' @ CHR ''.'' # suffix")
  case True
  then obtain s where n: "name = ''*'' @ CHR ''.'' # s" by blast
  let ?s = "CHR ''.'' # s"
  have "has_prefix name ''*.''" "drop 1 name = ?s" using n by (simp_all add: has_prefix_def)
  then have "name_covers host name \<longleftrightarrow> name = host \<or>
      (trim_suffix host ?s \<noteq> host \<and> trim_suffix host ?s \<noteq> [] \<and> CHR ''.'' \<notin> set (trim_suffix host ?s))"
    by (simp add: name_covers_def Let_def contains_char)
  also have "\<dots> \<longleftrightarrow> name = host \<or> (\<exists>label. host = label @ ?s \<and> label \<noteq> [] \<and> CHR ''.'' \<notin> set label)"
    using trim_suffix_strict [of host ?s] by auto
  finally show ?thesis using n by auto
next
  case False
  then have "\<not> has_prefix name ''*.''" by (auto simp: has_prefix_def prefix_def)
  with False show ?thesis by (simp add: name_covers_def)
qed

text \<open>
  An upload is accepted only for a matching key pair whose leaf has not expired and names the
  host, exactly or through a wildcard that stands for one label, by its alternative names or by a common
  name with a dot; and every such upload is accepted.
\<close>

theorem validate_cert_accepts:
  assumes "host = to_lower (trim_suffix (trim_space hostname) ''.'')"
  shows "(\<exists>meta. validate_cert lib now certPem keyPem hostname = Inr meta) \<longleftrightarrow>
    host \<noteq> [] \<and> (\<exists>l. cl_parse lib certPem keyPem = Leaf_Ok l \<and> now \<le> lf_not_after l
      \<and> (\<exists>name. (name \<in> to_lower ` set (lf_dns_names l) \<or> (name = to_lower (lf_cn l) \<and> CHR ''.'' \<in> set name))
          \<and> (name = host \<or> (\<exists>label suffix. name = ''*'' @ CHR ''.'' # suffix \<and> host = label @ CHR ''.'' # suffix
                \<and> label \<noteq> [] \<and> CHR ''.'' \<notin> set label))))"
proof (cases "cl_parse lib certPem keyPem")
  case (Leaf_Ok l)
  have "covers l host \<longleftrightarrow> (\<exists>name. (name \<in> to_lower ` set (lf_dns_names l) \<or> (name = to_lower (lf_cn l) \<and> CHR ''.'' \<in> set name))
      \<and> name_covers host name)"
    by (auto simp: covers_def list_ex_iff cert_names_set split: if_splits)
  note cov = this [unfolded name_covers_iff]
  have "(\<exists>meta. validate_cert lib now certPem keyPem hostname = Inr meta) \<longleftrightarrow>
      host \<noteq> [] \<and> now \<le> lf_not_after l \<and> covers l host"
    using Leaf_Ok by (simp add: validate_cert_def Let_def assms [symmetric] not_less)
  then show ?thesis unfolding cov Leaf_Ok by auto
qed (simp_all add: validate_cert_def)

theorem validate_cert_accepts_witness:
  "\<exists>meta. validate_cert \<lparr>cl_parse = (\<lambda>_ _. Leaf_Ok \<lparr>lf_cn = [], lf_dns_names = [''*.ex.io''], lf_not_before = 0,
      lf_not_after = 9, lf_issuer_cn = [], lf_raw_issuer = [], lf_raw_subject = []\<rparr>), cl_pem_types = (\<lambda>_. []), cl_date = (\<lambda>_. [])\<rparr>
     5 [] [] ''A.ex.io'' = Inr meta"
proof -
  have h: "''a.ex.io'' = to_lower (trim_suffix (trim_space ''A.ex.io'') ''.'')" by code_simp
  have w: "to_lower ''*.ex.io'' = ''*'' @ CHR ''.'' # ''ex.io''" by code_simp
  show ?thesis
    unfolding validate_cert_accepts [OF h]
    by (rule conjI, simp, rule exI, rule conjI, simp, rule conjI, simp)
      (rule exI [of _ "to_lower ''*.ex.io''"], simp add: w)
qed

end
