(* ===== verification/Domain_Handlers.thy ===== *)
theory Domain_Handlers
  imports Proxy_Converge Domain_Status Cert_Upload Deploy_Handlers
begin

text \<open>
  The domain endpoints: api/internal/server/handler/domains.go, domain_cert.go and caddy_ask.go, over
  the route manager and the status engine. The reports the manager makes to the engine during an
  operation reach it when the operation ends. Decoding a request body is the argument \<open>req\<close>, None for
  invalid JSON; the DNS automation, sealing and the certificate library are fields of the environment.
\<close>

section \<open>State and environment\<close>

record 'w hub =
  hb_px :: "'w pxst"
  hb_engine :: engine
  hb_audit :: "(string \<times> (string \<times> string) list) list"

record dns_outcome =
  do_attempted :: bool
  do_created :: bool
  do_detail :: string
  do_error :: string

datatype dns_answer = Dns_Ok bool bool string | Dns_Private string bool bool string | Dns_Failed string bool bool string

record 'w hub_env =
  he_manager :: "'w manager"
  he_syncer :: bool
  he_status :: bool
  he_autos :: bool
  he_dns_enabled :: bool
  he_dns_ensure :: "string \<Rightarrow> dns_answer"
  he_dns_delete :: "string \<Rightarrow> bool"
  he_engine_cfg :: engine_cfg
  he_probe :: probe_world
  he_now :: instant
  he_seal :: "(string \<Rightarrow> string option) option"
  he_cert_lib :: cert_lib
  he_ask_token :: string

record domain_dto =
  dt_id :: string
  dt_app :: string
  dt_service :: string
  dt_hostname :: string
  dt_type :: string
  dt_managed :: bool
  dt_redirect :: string
  dt_cert_source :: string
  dt_cert_uploaded_at :: "instant option"
  dt_status :: string
  dt_status_detail :: string
  dt_cert_not_after :: "instant option"
  dt_last_checked :: "instant option"
  dt_dns :: "dns_outcome option"
  dt_created_at :: instant

datatype hub_body =
    Domain_Body domain_dto
  | Domains_Body "domain_dto list"
  | Status_Body host_status
  | Cert_Body cert_meta string "instant option"
  | Fields_Body "(string \<times> string) list"
  | Message_Body string string

datatype hub_reply = Hub_Reply int hub_body

type_synonym ('w, 'a) hubop = "('w hub, hub_reply, 'a) sem"

definition hub_error :: "int \<Rightarrow> string \<Rightarrow> hub_reply" where
  "hub_error status msg = Hub_Reply status (Message_Body msg (default_code_for_status status))"

definition hub_status :: "hub_reply \<Rightarrow> int" where
  "hub_status r = (case r of Hub_Reply n _ \<Rightarrow> n)"

definition hub_serve :: "('w, hub_reply) hubop \<Rightarrow> 'w hub \<Rightarrow> hub_reply \<times> 'w hub" where
  "hub_serve h s = (case h s of (Inl r, s') \<Rightarrow> (r, s') | (Inr r, s') \<Rightarrow> (r, s'))"

text \<open>The manager's reports, delivered to the engine.\<close>

definition deliver :: "(string \<times> string option) list \<Rightarrow> engine \<Rightarrow> engine" where
  "deliver = fold (\<lambda>(h, d). case d of Some msg \<Rightarrow> set_push_error h msg | None \<Rightarrow> clear_push_error h)"

definition on_px :: "('w, 'a) pxop \<Rightarrow> ('w hub, string, 'a) sem" where
  "on_px q = (\<lambda>s. case q (hb_px s) of (r, x) \<Rightarrow>
     (r, s\<lparr>hb_px := x, hb_engine := deliver (drop (length (px_engine (hb_px s))) (px_engine x)) (hb_engine s)\<rparr>))"

definition on_store :: "'a domop \<Rightarrow> ('w hub, store_err, 'a) sem" where
  "on_store q = (\<lambda>s. case q (px_dom (hb_px s)) of (r, d) \<Rightarrow> (r, s\<lparr>hb_px := (hb_px s)\<lparr>px_dom := d\<rparr>\<rparr>))"

definition hub_audit :: "string \<Rightarrow> (string \<times> string) list \<Rightarrow> ('w hub, 'e, unit) sem" where
  "hub_audit key params = act (\<lambda>s. s\<lparr>hb_audit := hb_audit s @ [(key, params)]\<rparr>)"

text \<open>syncRoutes and syncCerts: best effort.\<close>

definition sync_routes :: "'w hub_env \<Rightarrow> string \<Rightarrow> ('w hub, 'e, unit) sem" where
  "sync_routes env app = (if he_syncer env then ignore (on_px (sync (he_manager env) app)) else ret ())"

definition sync_certs_best :: "'w hub_env \<Rightarrow> ('w hub, 'e, unit) sem" where
  "sync_certs_best env = (if he_syncer env then ignore (on_px (sync_certs (he_manager env))) else ret ())"

section \<open>Rendering\<close>

definition to_domain_dto :: "domain \<Rightarrow> domain_dto" where
  "to_domain_dto d = \<lparr>dt_id = dn_id d, dt_app = dn_app d, dt_service = dn_service d, dt_hostname = dn_hostname d,
     dt_type = dn_type d, dt_managed = False, dt_redirect = dn_redirect d, dt_cert_source = dn_cert_source d,
     dt_cert_uploaded_at = dn_cert_uploaded_at d, dt_status = [], dt_status_detail = [], dt_cert_not_after = None,
     dt_last_checked = None, dt_dns = None, dt_created_at = dn_created_at d\<rparr>"

definition auto_host_dto :: "auto_host \<Rightarrow> domain_dto" where
  "auto_host_dto h = \<lparr>dt_id = [], dt_app = ah_app h, dt_service = ah_service_name h, dt_hostname = ah_hostname h,
     dt_type = domain_type_auto, dt_managed = True, dt_redirect = [], dt_cert_source = [],
     dt_cert_uploaded_at = None, dt_status = [], dt_status_detail = [], dt_cert_not_after = None,
     dt_last_checked = None, dt_dns = None, dt_created_at = 0\<rparr>"

definition with_status :: "'w hub_env \<Rightarrow> engine \<Rightarrow> domain_dto \<Rightarrow> domain_dto" where
  "with_status env e dto =
     (if \<not> he_status env then dto
      else case get_status (dt_hostname dto) e of
        Some st \<Rightarrow> dto\<lparr>dt_status := hs_state st, dt_status_detail := hs_detail st,
                      dt_cert_not_after := hs_cert_not_after st, dt_last_checked := hs_last_checked st\<rparr>
      | None \<Rightarrow> dto\<lparr>dt_status := state_checking\<rparr>)"

section \<open>Listing\<close>

definition derived_hosts :: "'w hub_env \<Rightarrow> (auto_host \<Rightarrow> bool) \<Rightarrow> ('w, domain_dto list) hubop" where
  "derived_hosts env p =
     (if \<not> he_autos env then ret []
      else and_then (attempt (on_px (auto_hosts (he_manager env)))) (\<lambda>r.
           and_then (reads hb_engine) (\<lambda>e.
           ret (case r of Inl _ \<Rightarrow> [] | Inr hs \<Rightarrow> map (\<lambda>h. with_status env e (auto_host_dto h)) (filter p hs)))))"

definition list_app_domains :: "'w hub_env \<Rightarrow> string \<Rightarrow> ('w, hub_reply) hubop" where
  "list_app_domains env app =
     and_then (map_err (\<lambda>_. hub_error 500 ''could not list domains'') (on_store (list_domains_by_app app))) (\<lambda>rows.
     and_then (reads hb_engine) (\<lambda>e.
     and_then (derived_hosts env (\<lambda>h. ah_app h = app)) (\<lambda>autos.
     ret (Hub_Reply 200 (Domains_Body (map (\<lambda>d. with_status env e (to_domain_dto d)) rows @ autos))))))"

definition list_domains_hub :: "'w hub_env \<Rightarrow> ('w, hub_reply) hubop" where
  "list_domains_hub env =
     and_then (map_err (\<lambda>_. hub_error 500 ''could not list domains'') (on_store list_all_domains)) (\<lambda>rows.
     and_then (reads hb_engine) (\<lambda>e.
     and_then (derived_hosts env (\<lambda>_. True)) (\<lambda>autos.
     ret (Hub_Reply 200 (Domains_Body (map (\<lambda>d. with_status env e (to_domain_dto d)) rows @ autos))))))"

section \<open>Changing domains\<close>

definition normalize_or_400 :: "string \<Rightarrow> string \<Rightarrow> ('w, string) hubop" where
  "normalize_or_400 lead raw = (case normalize_hostname raw of
     Inl e \<Rightarrow> throw (hub_error 400 (lead @ host_err_text e)) | Inr h \<Rightarrow> ret h)"

definition create_error :: "store_err \<Rightarrow> hub_reply" where
  "create_error e = (if e = ErrConflict then hub_error 409 ''hostname already in use''
                     else hub_error 500 ''could not create domain'')"

definition domain_lookup_error :: "store_err \<Rightarrow> hub_reply" where
  "domain_lookup_error e = (if e = ErrNotFound then hub_error 404 ''domain not found''
                            else hub_error 500 ''could not load domain'')"

definition domain_delete_error :: "store_err \<Rightarrow> hub_reply" where
  "domain_delete_error e = (if e = ErrNotFound then hub_error 404 ''domain not found''
                            else hub_error 500 ''could not delete domain'')"

definition add_custom_domain :: "'w hub_env \<Rightarrow> string \<Rightarrow> string \<Rightarrow> string \<Rightarrow> string option \<Rightarrow> ('w, hub_reply) hubop" where
  "add_custom_domain env new app name req =
     (case req of
        None \<Rightarrow> throw (hub_error 400 ''invalid json'')
      | Some raw \<Rightarrow>
          and_then (normalize_or_400 [] raw) (\<lambda>host.
          and_then (map_err (\<lambda>e. if e = ErrNotFound then hub_error 404 ''service not found''
                       else hub_error 500 ''could not load service'') (on_store (on_dm (get_service app name)))) (\<lambda>_.
          and_then (map_err create_error (on_store (create_domain new app name host domain_type_custom))) (\<lambda>d.
          and_then (sync_routes env app) (\<lambda>_.
          ret (Hub_Reply 201 (Domain_Body (to_domain_dto d))))))))"

definition delete_app_domain :: "'w hub_env \<Rightarrow> string \<Rightarrow> string \<Rightarrow> ('w, hub_reply) hubop" where
  "delete_app_domain env app i =
     and_then (map_err domain_delete_error (on_store (delete_domain app i))) (\<lambda>_.
     and_then (sync_routes env app) (\<lambda>_.
     ret (Hub_Reply 200 (Fields_Body [(''status'', ''deleted'')]))))"

record hub_request =
  hr_hostname :: string
  hr_app :: string
  hr_service :: string
  hr_redirect :: string

text \<open>validateAssignment, with the reply its callers make of its error.\<close>

definition validate_assignment :: "string \<Rightarrow> string \<Rightarrow> ('w, unit) hubop" where
  "validate_assignment app name =
     (if (app = []) \<noteq> (name = [])
      then throw (hub_error 400 ''assign both an app and a service, or leave both blank'')
      else if app \<noteq> []
      then and_then (map_err (\<lambda>e. if e = ErrNotFound then hub_error 404 ''service not found''
                       else hub_error 400 ''could not load service'') (on_store (on_dm (get_service app name)))) (\<lambda>_. ret ())
      else ret ())"

definition ensure_dns_record :: "'w hub_env \<Rightarrow> string \<Rightarrow> ('w hub, 'e, dns_outcome option) sem" where
  "ensure_dns_record env host =
     (if \<not> he_dns_enabled env then ret None
      else case he_dns_ensure env host of
        Dns_Ok attempted created detail \<Rightarrow>
          and_then (if created then hub_audit ''dns.record_auto_created'' [(''hostname'', host)] else ret ()) (\<lambda>_.
          ret (if attempted then Some \<lparr>do_attempted = True, do_created = created, do_detail = detail, do_error = []\<rparr> else None))
      | Dns_Private e attempted created detail \<Rightarrow>
          (let msg = ''refused private address: '' @ e in
           and_then (hub_audit ''dns.record_failed'' [(''hostname'', host), (''error'', msg)]) (\<lambda>_.
           ret (Some \<lparr>do_attempted = True, do_created = created, do_detail = detail, do_error = msg\<rparr>)))
      | Dns_Failed e attempted created detail \<Rightarrow>
          and_then (hub_audit ''dns.record_failed'' [(''hostname'', host), (''error'', e)]) (\<lambda>_.
          ret (Some \<lparr>do_attempted = True, do_created = created, do_detail = detail, do_error = e\<rparr>)))"

definition add_domain_hub :: "'w hub_env \<Rightarrow> string \<Rightarrow> hub_request option \<Rightarrow> ('w, hub_reply) hubop" where
  "add_domain_hub env new req0 =
     (case req0 of
        None \<Rightarrow> throw (hub_error 400 ''invalid json'')
      | Some req \<Rightarrow>
          and_then (normalize_or_400 [] (hr_hostname req)) (\<lambda>host.
          and_then (validate_assignment (hr_app req) (hr_service req)) (\<lambda>_.
          and_then (map_err create_error (on_store (create_domain new (hr_app req) (hr_service req) host domain_type_custom))) (\<lambda>d.
          and_then (if assigned d then sync_routes env (dn_app d) else ret ()) (\<lambda>_.
          and_then (reads hb_engine) (\<lambda>e.
          and_then (ensure_dns_record env host) (\<lambda>rec.
          ret (Hub_Reply 201 (Domain_Body ((with_status env e (to_domain_dto d))\<lparr>dt_dns := rec\<rparr>))))))))))"

definition redirect_target :: "string \<Rightarrow> hub_request \<Rightarrow> ('w, string) hubop" where
  "redirect_target host req =
     (if hr_redirect req = [] then ret []
      else and_then (normalize_or_400 ''invalid redirect target: '' (hr_redirect req)) (\<lambda>to.
           if hr_app req = [] then throw (hub_error 400 ''assign the domain to an app before adding a redirect'')
           else if to = host then throw (hub_error 400 ''a domain cannot redirect to itself'')
           else ret to))"

definition update_error :: "store_err \<Rightarrow> hub_reply" where
  "update_error e = (if e = ErrConflict then hub_error 409 ''hostname already in use''
     else if e = ErrNotFound then hub_error 404 ''domain not found'' else hub_error 500 ''could not update domain'')"

text \<open>The re-sync of the old and of the new app.\<close>

definition sync_moved :: "'w hub_env \<Rightarrow> domain \<Rightarrow> domain \<Rightarrow> ('w, unit) hubop" where
  "sync_moved env old new =
     and_then (if assigned old then sync_routes env (dn_app old) else ret ()) (\<lambda>_.
     if assigned new \<and> dn_app new \<noteq> dn_app old then sync_routes env (dn_app new) else ret ())"

definition update_domain_hub :: "'w hub_env \<Rightarrow> string \<Rightarrow> hub_request option \<Rightarrow> ('w, hub_reply) hubop" where
  "update_domain_hub env i req0 =
     and_then (map_err domain_lookup_error (on_store (get_domain_by_id i))) (\<lambda>old.
     case req0 of
       None \<Rightarrow> throw (hub_error 400 ''invalid json'')
     | Some req \<Rightarrow>
         and_then (if hr_hostname req \<noteq> [] then normalize_or_400 [] (hr_hostname req) else ret (dn_hostname old)) (\<lambda>host.
         and_then (validate_assignment (hr_app req) (hr_service req)) (\<lambda>_.
         and_then (redirect_target host req) (\<lambda>to.
         and_then (map_err update_error (on_store (update_domain i (hr_app req) (hr_service req) host to))) (\<lambda>new.
         and_then (sync_moved env old new) (\<lambda>_.
         and_then (reads hb_engine) (\<lambda>e.
         ret (Hub_Reply 200 (Domain_Body (with_status env e (to_domain_dto new)))))))))))"

definition delete_domain_hub :: "'w hub_env \<Rightarrow> string \<Rightarrow> bool \<Rightarrow> ('w, hub_reply) hubop" where
  "delete_domain_hub env i deleteDns =
     and_then (map_err domain_lookup_error (on_store (get_domain_by_id i))) (\<lambda>old.
     and_then (map_err domain_delete_error (on_store (delete_domain_by_id i))) (\<lambda>_.
     and_then (if assigned old then sync_routes env (dn_app old) else ret ()) (\<lambda>_.
     and_then (if he_dns_enabled env \<and> deleteDns \<and> he_dns_delete env (dn_hostname old)
               then hub_audit ''dns.record_auto_deleted'' [(''hostname'', dn_hostname old)] else ret ()) (\<lambda>_.
     ret (Hub_Reply 200 (Fields_Body [(''status'', ''deleted'')]))))))"

definition refresh_domain_status :: "'w hub_env \<Rightarrow> string \<Rightarrow> ('w, hub_reply) hubop" where
  "refresh_domain_status env raw =
     and_then (normalize_or_400 [] raw) (\<lambda>host.
     if \<not> he_status env then ret (Hub_Reply 200 (Status_Body (blank_status state_checking)))
     else (\<lambda>s. case refresh_status (he_engine_cfg env) (he_probe env) (he_now env) host (hb_engine s) of
            (None, e) \<Rightarrow> (Inl (hub_error 404 ''unknown host''), s\<lparr>hb_engine := e\<rparr>)
          | (Some st, e) \<Rightarrow> (Inr (Hub_Reply 200 (Status_Body st)), s\<lparr>hb_engine := e\<rparr>)))"

section \<open>Certificates\<close>

definition upload_domain_cert :: "'w hub_env \<Rightarrow> string \<Rightarrow> (string \<times> string) option \<Rightarrow> ('w, hub_reply) hubop" where
  "upload_domain_cert env i req =
     (case he_seal env of
        None \<Rightarrow> throw (hub_error 503 ''encryption is not configured (VAC_MASTER_KEY); cannot store a certificate key'')
      | Some seal \<Rightarrow>
          and_then (map_err domain_lookup_error (on_store (get_domain_by_id i))) (\<lambda>d.
          case req of
            None \<Rightarrow> throw (hub_error 400 ''invalid json'')
          | Some (certPem, keyPem) \<Rightarrow>
              if \<not> first_cert_block (he_cert_lib env) certPem
              then throw (hub_error 400 ''cert_pem must contain a PEM-encoded certificate'')
              else case validate_cert (he_cert_lib env) (he_now env) certPem keyPem (dn_hostname d) of
                Inl e \<Rightarrow> throw (hub_error 400 e)
              | Inr meta \<Rightarrow>
                  (case seal keyPem of
                     None \<Rightarrow> throw (hub_error 500 ''could not seal certificate key'')
                   | Some enc \<Rightarrow>
                       and_then (map_err (\<lambda>e. if e = ErrNotFound then hub_error 404 ''domain not found''
                                    else hub_error 500 ''could not store certificate'')
                                  (on_store (set_domain_cert i certPem enc (he_now env)))) (\<lambda>_.
                       and_then (sync_certs_best env) (\<lambda>_.
                       and_then (hub_audit ''cert.uploaded'' [(''hostname'', dn_hostname d)]) (\<lambda>_.
                       ret (Hub_Reply 200 (Cert_Body meta ''uploaded'' (Some (he_now env))))))))))"

definition clear_domain_cert_handler :: "'w hub_env \<Rightarrow> string \<Rightarrow> ('w, hub_reply) hubop" where
  "clear_domain_cert_handler env i =
     and_then (map_err domain_lookup_error (on_store (get_domain_by_id i))) (\<lambda>d.
     and_then (map_err (\<lambda>e. if e = ErrNotFound then hub_error 404 ''domain not found''
                  else hub_error 500 ''could not clear certificate'') (on_store (clear_domain_cert i))) (\<lambda>_.
     and_then (sync_certs_best env) (\<lambda>_.
     and_then (hub_audit ''cert.removed'' [(''hostname'', dn_hostname d)]) (\<lambda>_.
     ret (Hub_Reply 200 (Fields_Body [(''status'', ''cleared''), (''tls_cert_source'', ''acme'')]))))))"

section \<open>The on-demand TLS hook\<close>

text \<open>CaddyAsk; the result is the status code. The token is the header, or else the query parameter.\<close>

definition caddy_ask :: "'w hub_env \<Rightarrow> string \<Rightarrow> string \<Rightarrow> ('w hub, int, int) sem" where
  "caddy_ask env presented domain =
     (if he_ask_token env \<noteq> [] \<and> presented \<noteq> he_ask_token env then throw 403
      else let host = to_lower (trim_suffix (trim_space domain) ''.'')
           in if host = [] then throw 400
              else if he_syncer env \<and> is_control_domain (he_manager env) host then throw 200
              else and_then (attempt (on_store (get_domain_by_hostname host))) (\<lambda>r.
                   case r of
                     Inr d \<Rightarrow> if dn_cert_source d = ''uploaded'' then throw 403 else throw 200
                   | Inl _ \<Rightarrow>
                       if \<not> he_autos env then ret 403
                       else and_then (attempt (on_px (is_auto_host (he_manager env) host))) (\<lambda>a.
                            ret (if a = Inr True then 200 else 403))))"

end
