(* ===== verification/Domain_Safety.thy ===== *)
theory Domain_Safety
  imports Domain_Handlers
begin

text \<open>
  What the domain endpoints guarantee: the shape of the domains table in every reachable state, the
  hosts for which a certificate may be issued, and the route that outlives its domain's assignment.
\<close>

section \<open>The shape of the table\<close>

definition domain_wf :: "domain \<Rightarrow> bool" where
  "domain_wf d = (valid_hostname (dn_hostname d)
     \<and> (dn_redirect d \<noteq> [] \<longrightarrow> valid_hostname (dn_redirect d) \<and> dn_redirect d \<noteq> dn_hostname d \<and> assigned d))"

definition rows_wf :: "dom_db \<Rightarrow> bool" where
  "rows_wf d = (domains_ok d \<and> list_all domain_wf (dm_rows d))"

definition hub_inv :: "'w hub \<Rightarrow> bool" where
  "hub_inv s = rows_wf (px_dom (hb_px s))"

lemma rows_wf_rows: "dm_rows d' = dm_rows d \<Longrightarrow> rows_wf d' = rows_wf d"
  by (simp add: rows_wf_def domains_ok_def)

lemma hub_ops_px:
  "hb_px (snd (on_store q s)) = (hb_px s)\<lparr>px_dom := snd (q (px_dom (hb_px s)))\<rparr>"
  "hb_px (snd (on_px p s)) = snd (p (hb_px s))"
  by (simp_all add: on_store_def on_px_def split: prod.split)

lemma keeps_on_store: "keeps rows_wf q \<Longrightarrow> keeps hub_inv (on_store q)"
  by (simp add: keeps_def hub_inv_def hub_ops_px)

lemma keeps_on_px_rows:
  assumes "\<And>s. dm_rows (px_dom (snd (q s))) = dm_rows (px_dom s)"
  shows "keeps hub_inv (on_px q)"
  by (simp add: keeps_def hub_inv_def hub_ops_px rows_wf_rows [OF assms])

lemma keeps_dom_call_wf: "keeps rows_wf q \<Longrightarrow> keeps rows_wf (dom_call q)"
proof -
  have "keeps rows_wf (on_dm (db_call (\<lambda>d. (Inr (), d))))"
    by (simp add: keeps_def on_dm_def rows_wf_def domains_ok_def split: prod.split)
  then show "keeps rows_wf q \<Longrightarrow> ?thesis" unfolding dom_call_def by (intro keeps_and_then)
qed

lemma keeps_on_dm_wf: "keeps rows_wf (on_dm q)"
  by (simp add: keeps_def on_dm_def rows_wf_def domains_ok_def split: prod.split)

lemma keeps_query_wf: "keeps rows_wf (query_domains p)" "keeps rows_wf (get_domain_where p)"
  unfolding query_domains_def get_domain_where_def
  by (rule keeps_dom_call_wf, simp add: keeps_def split: option.split)+

lemma keeps_reads_wf:
  "keeps rows_wf (list_domains_by_app i)" "keeps rows_wf list_all_domains"
  "keeps rows_wf (get_domain_by_hostname h)" "keeps rows_wf (get_domain_by_id i)"
  by (simp_all add: list_domains_by_app_def list_all_domains_def get_domain_by_hostname_def get_domain_by_id_def keeps_query_wf)

lemma keeps_delete_wf: "keeps rows_wf (delete_domain_by_id i)" "keeps rows_wf (delete_domain a i)"
proof -
  have "keeps rows_wf (delete_domains p)" for p
    unfolding delete_domains_def
    by (rule keeps_dom_call_wf)
       (auto simp: keeps_def rows_wf_def domains_ok_def keys_ok_def list_all_iff intro: distinct_map_filter)
  then show "keeps rows_wf (delete_domain_by_id i)" "keeps rows_wf (delete_domain a i)"
    by (auto simp: delete_domain_by_id_def delete_domain_def dom_or_not_found_def intro!: vac_wp)
qed

lemma keeps_certs_wf: "keeps rows_wf (set_domain_cert i pem key t)" "keeps rows_wf (clear_domain_cert i)"
proof -
  have "keeps rows_wf (update_domains p f)"
    if "\<And>d. dn_id (f d) = dn_id d" "\<And>d. dn_hostname (f d) = dn_hostname d" "\<And>d. dn_app (f d) = dn_app d"
      "\<And>d. dn_service (f d) = dn_service d" "\<And>d. dn_redirect (f d) = dn_redirect d" for p f
  proof -
    have "domain_wf (f d) = domain_wf d" "paired (f d) = paired d" for d
      using that by (simp_all add: domain_wf_def assigned_def paired_def)
    then show ?thesis
      unfolding update_domains_def
      by (intro keeps_dom_call_wf)
         (simp add: keeps_def rows_wf_def domains_ok_def keys_ok_def list.pred_map comp_update that)
  qed
  then show "keeps rows_wf (set_domain_cert i pem key t)" "keeps rows_wf (clear_domain_cert i)"
    unfolding set_domain_cert_def clear_domain_cert_def dom_or_not_found_def by (intro vac_wp; simp)+
qed

lemma keeps_create_wf: "valid_hostname host \<Longrightarrow> keeps rows_wf (create_domain new app name host typ)"
  unfolding create_domain_def
  by (intro keeps_map_err keeps_dom_call_wf)
     (simp add: keeps_def rows_wf_def domains_ok_def row_ok_def paired_def domain_wf_def Let_def)

lemma keeps_update_wf:
  assumes "valid_hostname host" "to \<noteq> [] \<longrightarrow> valid_hostname to \<and> to \<noteq> host \<and> app \<noteq> []"
  shows "keeps rows_wf (update_domain i app name host to)"
  unfolding update_domain_def
  by (intro keeps_map_err keeps_dom_call_wf)
     (use assms in \<open>auto simp: keeps_def rows_wf_def domains_ok_def row_ok_def paired_def domain_wf_def assigned_def
        list_all_iff Let_def split: option.split\<close>)

lemma rows_kept:
  assumes "q \<in> set (route_ops m i)"
  shows "dm_rows (px_dom (snd (q s))) = dm_rows (px_dom s)" "services (dm_db (px_dom (snd (q s)))) = services (dm_db (px_dom s))"
proof -
  let ?K = "keys_of (tbl (px_dom s))"
  have "safe_since m ?K (ou_admin s) (snd (q s))"
    by (rule keepsD [OF route_ops_safe [OF assms]]) (simp add: safe_since_def)
  then show "dm_rows (px_dom (snd (q s))) = dm_rows (px_dom s)" "services (dm_db (px_dom (snd (q s)))) = services (dm_db (px_dom s))"
    by (simp_all add: safe_since_def keys_of_def tbl_def)
qed

lemma keeps_on_px: "q \<in> set (route_ops m i) \<Longrightarrow> keeps hub_inv (on_px q)"
  by (rule keeps_on_px_rows) (rule rows_kept)

lemma keeps_sync_best: "keeps hub_inv (sync_routes env app)" "keeps hub_inv (sync_certs_best env)"
  unfolding sync_routes_def sync_certs_best_def
  by (intro vac_wp keeps_on_px [where m = "he_manager env" and i = app], simp add: route_ops_def)
     (intro vac_wp keeps_on_px [where m = "he_manager env" and i = "[]"], simp add: route_ops_def)

lemma keeps_audit: "keeps hub_inv (hub_audit k ps)"
  unfolding hub_audit_def by (intro keeps_act) (simp add: hub_inv_def)

lemma keeps_auto_hosts: "keeps hub_inv (on_px (auto_hosts m))" "keeps hub_inv (on_px (is_auto_host m h))"
proof -
  have k: "keeps (safe_since m K old) (auto_hosts m)" for K old
    unfolding auto_hosts_def by (intro vac_wp keeps_store [OF read_list_apps] keeps_auto_hosts_of)
  have k2: "keeps (safe_since m K old) (is_auto_host m h)" for K old
    unfolding is_auto_host_def by (intro vac_wp k)
  have rows: "dm_rows (px_dom (snd (q s))) = dm_rows (px_dom s)"
    if "\<And>K old. keeps (safe_since m K old) q" for q :: "('a, 'b) pxop" and s
  proof -
    have "safe_since m (keys_of (tbl (px_dom s))) (ou_admin s) (snd (q s))"
      by (rule keepsD [OF that]) (simp add: safe_since_def)
    then show ?thesis by (simp add: safe_since_def keys_of_def tbl_def)
  qed
  show "keeps hub_inv (on_px (auto_hosts m))" by (rule keeps_on_px_rows) (rule rows [OF k])
  show "keeps hub_inv (on_px (is_auto_host m h))" by (rule keeps_on_px_rows) (rule rows [OF k2])
qed

lemma normalize_or_400_Inr: "normalize_or_400 lead raw s = (Inr h, s') \<Longrightarrow> valid_hostname h \<and> s' = s"
  by (auto simp: normalize_or_400_def normalize_hostname_iff sem_defs split: sum.splits)

lemma keeps_normalize: "keeps I (normalize_or_400 lead raw)"
  unfolding normalize_or_400_def by (intro vac_wp)

lemma keeps_normalize_then:
  "(\<And>h. valid_hostname h \<Longrightarrow> keeps I (f h)) \<Longrightarrow> keeps I (and_then (normalize_or_400 lead raw) f)"
  by (rule keeps_and_then_Inr [OF keeps_normalize]) (auto dest!: normalize_or_400_Inr intro: keepsD)

lemma get_domain_Inr: "get_domain_by_id i d = (Inr x, d') \<Longrightarrow> x \<in> set (dm_rows d') \<and> dn_id x = i"
  unfolding get_domain_by_id_def get_domain_where_def dom_call_def
  by (auto simp: sem_defs on_dm_def db_call_def Let_def find_Some_iff split: prod.splits sum.splits option.splits if_splits)

lemma keeps_lookup_then:
  fixes f :: "domain \<Rightarrow> ('w hub, 'e, 'b) sem"
  assumes "\<And>d. domain_wf d \<Longrightarrow> keeps hub_inv (f d)"
  shows "keeps hub_inv (and_then (map_err g (on_store (get_domain_by_id i))) f)"
proof (rule keeps_and_then_Inr)
  show "keeps hub_inv (map_err g (on_store (get_domain_by_id i)))"
    by (intro keeps_map_err keeps_on_store keeps_reads_wf)
next
  fix d and s s' :: "'w hub"
  assume r: "map_err g (on_store (get_domain_by_id i)) s = (Inr d, s')" and inv: "hub_inv s'"
  have "get_domain_by_id i (px_dom (hb_px s)) = (Inr d, px_dom (hb_px s'))"
    using r by (auto simp: map_err_def on_store_def split: prod.splits sum.splits)
  then have "domain_wf d" using get_domain_Inr inv by (fastforce simp: hub_inv_def rows_wf_def list_all_iff)
  then show "hub_inv (snd (f d s'))" by (rule keepsD [OF assms inv])
qed

lemma keeps_assignment: "keeps hub_inv (validate_assignment app name)"
  unfolding validate_assignment_def by (intro vac_wp keeps_on_store keeps_on_dm_wf)

lemma keeps_ensure_dns: "keeps hub_inv (ensure_dns_record env host)"
  unfolding ensure_dns_record_def Let_def
  by (cases "he_dns_ensure env host") (auto intro!: vac_wp keeps_audit)

lemma keeps_redirect_then:
  assumes "\<And>to. to \<noteq> [] \<longrightarrow> valid_hostname to \<and> to \<noteq> host \<and> hr_app req \<noteq> [] \<Longrightarrow> keeps I (f to)"
  shows "keeps I (and_then (redirect_target host req) f)"
proof (rule keeps_and_then_Inr)
  show "keeps I (redirect_target host req)"
    unfolding redirect_target_def by (intro vac_wp keeps_normalize)
next
  fix to s s'
  assume "redirect_target host req s = (Inr to, s')" "I s'"
  then have "to \<noteq> [] \<longrightarrow> valid_hostname to \<and> to \<noteq> host \<and> hr_app req \<noteq> []"
    by (auto simp: redirect_target_def sem_defs dest!: normalize_or_400_Inr split: if_splits prod.splits sum.splits)
  then show "I (snd (f to s'))" by (rule keepsD [OF assms \<open>I s'\<close>])
qed

lemma keeps_derived: "keeps hub_inv (derived_hosts env p)"
  unfolding derived_hosts_def by (intro vac_wp keeps_auto_hosts)

lemma keeps_list: "keeps hub_inv (list_app_domains env app)" "keeps hub_inv (list_domains_hub env)"
  unfolding list_app_domains_def list_domains_hub_def
  by (intro vac_wp keeps_on_store keeps_reads_wf keeps_derived)+

lemma keeps_add_custom: "keeps hub_inv (add_custom_domain env new app name req)"
  unfolding add_custom_domain_def
  by (intro keeps_case_option keeps_throw keeps_normalize_then keeps_and_then keeps_map_err keeps_on_store
      keeps_on_dm_wf keeps_create_wf keeps_sync_best keeps_ret)

lemma keeps_delete_app_domain: "keeps hub_inv (delete_app_domain env app i)"
  unfolding delete_app_domain_def by (intro vac_wp keeps_on_store keeps_delete_wf keeps_sync_best)

lemma keeps_add_hub: "keeps hub_inv (add_domain_hub env new req)"
  unfolding add_domain_hub_def
  by (intro keeps_case_option keeps_throw keeps_normalize_then keeps_and_then keeps_map_err keeps_on_store
      keeps_create_wf keeps_sync_best keeps_ret keeps_if keeps_assignment keeps_reads keeps_ensure_dns)

lemma keeps_sync_moved: "keeps hub_inv (sync_moved env old new)"
  unfolding sync_moved_def by (intro vac_wp keeps_sync_best)

lemma keeps_update_hub: "keeps hub_inv (update_domain_hub env i req)"
  unfolding update_domain_hub_def
proof (intro keeps_lookup_then keeps_case_option keeps_throw)
  fix d r
  assume d: "domain_wf d"
  let ?tail = "\<lambda>host. and_then (validate_assignment (hr_app r) (hr_service r)) (\<lambda>_.
         and_then (redirect_target host r) (\<lambda>to.
         and_then (map_err update_error (on_store (update_domain i (hr_app r) (hr_service r) host to))) (\<lambda>new.
         and_then (sync_moved env d new) (\<lambda>_.
         and_then (reads hb_engine) (\<lambda>e.
         ret (Hub_Reply 200 (Domain_Body (with_status env e (to_domain_dto new)))))))))"
  have tail: "keeps hub_inv (?tail host)" if "valid_hostname host" for host
    using that
    by (intro keeps_and_then keeps_assignment keeps_redirect_then keeps_map_err keeps_on_store keeps_update_wf
        keeps_sync_moved keeps_reads keeps_ret) auto
  show "keeps hub_inv (and_then (if hr_hostname r \<noteq> [] then normalize_or_400 [] (hr_hostname r) else ret (dn_hostname d)) ?tail)"
  proof (cases "hr_hostname r \<noteq> []")
    case True
    then show ?thesis by (simp add: keeps_normalize_then tail)
  next
    case False
    have "valid_hostname (dn_hostname d)" using d by (simp add: domain_wf_def)
    from tail [OF this] show ?thesis using False by (simp add: keeps_def and_then_def [of "ret (dn_hostname d)"] ret_def [THEN fun_cong])
  qed
qed

lemma keeps_delete_hub: "keeps hub_inv (delete_domain_hub env i b)"
  unfolding delete_domain_hub_def
  by (intro vac_wp keeps_on_store keeps_reads_wf keeps_delete_wf keeps_sync_best keeps_audit)

lemma keeps_refresh: "keeps hub_inv (refresh_domain_status env raw)"
proof -
  have "keeps hub_inv (\<lambda>s. case refresh_status (he_engine_cfg env) (he_probe env) (he_now env) host (hb_engine s) of
            (None, e) \<Rightarrow> (Inl (hub_error 404 ''unknown host''), s\<lparr>hb_engine := e\<rparr>)
          | (Some st, e) \<Rightarrow> (Inr (Hub_Reply 200 (Status_Body st)), s\<lparr>hb_engine := e\<rparr>))" for host
    by (simp add: keeps_def hub_inv_def split: prod.split option.split)
  then show ?thesis unfolding refresh_domain_status_def by (intro keeps_and_then keeps_normalize keeps_if keeps_ret)
qed

lemma keeps_cert_handlers:
  "keeps hub_inv (upload_domain_cert env i req)" "keeps hub_inv (clear_domain_cert_handler env i)"
  unfolding upload_domain_cert_def clear_domain_cert_handler_def
  by (intro vac_wp keeps_on_store keeps_reads_wf keeps_certs_wf keeps_sync_best keeps_audit
      | simp split: prod.split)+

text \<open>A request to one of the endpoints, in any environment.\<close>

inductive hub_step :: "'w hub \<Rightarrow> 'w hub \<Rightarrow> bool" where
  "hub_step s (snd (list_app_domains env app s))"
| "hub_step s (snd (list_domains_hub env s))"
| "hub_step s (snd (add_custom_domain env new app name req s))"
| "hub_step s (snd (delete_app_domain env app i s))"
| "hub_step s (snd (add_domain_hub env new hreq s))"
| "hub_step s (snd (update_domain_hub env i hreq s))"
| "hub_step s (snd (delete_domain_hub env i b s))"
| "hub_step s (snd (refresh_domain_status env raw s))"
| "hub_step s (snd (upload_domain_cert env i creq s))"
| "hub_step s (snd (clear_domain_cert_handler env i s))"

lemma hub_step_inv: "hub_step s s' \<Longrightarrow> hub_inv s \<Longrightarrow> hub_inv s'"
  by (erule hub_step.cases)
     (simp_all add: keepsD [where I = hub_inv] keeps_list keeps_add_custom keeps_delete_app_domain keeps_add_hub
        keeps_update_hub keeps_delete_hub keeps_refresh keeps_cert_handlers)

lemma hub_steps_inv: "hub_step\<^sup>*\<^sup>* s s' \<Longrightarrow> hub_inv s \<Longrightarrow> hub_inv s'"
  by (induction rule: rtranclp_induct) (auto intro: hub_step_inv)


section \<open>The route of a domain that is no longer assigned\<close>

lemma sync_keeps_unassigned:
  assumes "schema_ok T" "d \<in> set (snd (snd T))" "\<not> assigned d"
  shows "pruned m T (put_control m (put_app m T ap M)) (route_id (dn_id d)) = M (route_id (dn_id d))"
proof -
  have inj: "inj_on dn_id (set (snd (snd T)))" using assms(1) by (simp add: schema_ok_def distinct_map)
  have "route_id (dn_id d) \<notin> set (map rs_id (app_specs m T ap))"
    unfolding app_spec_ids using inj assms(2,3) by (auto simp: domains_of_mem inj_on_def)
  then have "find (\<lambda>sp. rs_id sp = route_id (dn_id d)) (app_specs m T ap) = None"
    unfolding find_None_iff by (metis image_eqI set_map)
  then have "put_app m T ap M (route_id (dn_id d)) = M (route_id (dn_id d))"
    using fold_update_find [where k = rs_id and t = "target m ap (services_of (a_id ap) T)",
        OF distinct_app_spec_ids [OF assms(1)], of m ap M "route_id (dn_id d)"]
    by (simp add: put_app_def put_target_def [abs_def])
  moreover have "route_id (dn_id d) \<in> set (live_ids m T)"
    using assms(2) by (auto simp: live_ids_def valid_ids_def all_domains_of_def)
  moreover have "route_id (dn_id d) \<noteq> control_route_id"
    by (metis managed_ids(1,3))
  ultimately show ?thesis by (simp add: pruned_def put_control_def)
qed

definition unassign_row :: "domain \<Rightarrow> domain" where
  "unassign_row d = d\<lparr>dn_app := [], dn_service := [], dn_redirect := []\<rparr>"

lemma update_quiet:
  assumes "quiet dd" and "find (\<lambda>d. dn_id d = i) (dm_rows dd) = Some d"
    and "dn_type d \<in> {domain_type_auto, domain_type_custom}" and "keys_ok (dm_rows dd)"
  shows "\<exists>n. update_domain i [] [] (dn_hostname d) [] dd = (Inr (unassign_row d),
     dd\<lparr>dm_db := (dm_db dd)\<lparr>db_calls := n\<rparr>, dm_rows := map (\<lambda>x. if dn_id x = i then unassign_row x else x) (dm_rows dd)\<rparr>)"
proof -
  have mem: "d \<in> set (dm_rows dd)" "dn_id d = i"
    using assms(2) by (metis (mono_tags, lifting) find_Some_iff nth_mem)+
  have inj: "inj_on dn_id (set (dm_rows dd))" using assms(4) by (simp add: keys_ok_def distinct_map)
  let ?f = "\<lambda>x. x\<lparr>dn_app := [], dn_service := [], dn_hostname := dn_hostname d, dn_redirect := []\<rparr>"
  have rows: "map (\<lambda>x. if dn_id x = i then ?f x else x) (dm_rows dd) = map (\<lambda>x. if dn_id x = i then unassign_row x else x) (dm_rows dd)"
    using inj mem by (intro map_cong) (auto simp: unassign_row_def inj_on_def)
  have fd: "?f d = unassign_row d" "d\<lparr>dn_app := [], dn_service := [], dn_redirect := []\<rparr> = unassign_row d"
    by (simp_all add: unassign_row_def)
  have keys: "keys_ok (map (\<lambda>x. if dn_id x = i then unassign_row x else x) (dm_rows dd))"
    using assms(4) by (simp add: keys_ok_def comp_update unassign_row_def)
  have rok: "row_ok svcs (unassign_row d)" for svcs using assms(3) by (simp add: row_ok_def unassign_row_def)
  show ?thesis
    using assms(1,2) keys rok
    unfolding update_domain_def rows Let_def
    by (intro exI [of _ "Suc (db_calls (dm_db dd))"])
       (simp add: fd rok rows dom_call_def on_dm_def db_call_def quiet_def sem_defs Let_def)
qed

lemma get_quiet:
  assumes "quiet dd" and "find (\<lambda>d. dn_id d = i) (dm_rows dd) = Some d"
  shows "\<exists>n. get_domain_by_id i dd = (Inr d, dd\<lparr>dm_db := (dm_db dd)\<lparr>db_calls := n\<rparr>\<rparr>)"
  using assms
  by (intro exI [of _ "Suc (db_calls (dm_db dd))"])
     (simp add: get_domain_by_id_def get_domain_where_def dom_call_def on_dm_def db_call_def quiet_def sem_defs Let_def)

text \<open>The request that unassigns a domain and changes nothing else.\<close>

definition unassign_request :: hub_request where
  "unassign_request = \<lparr>hr_hostname = [], hr_app = [], hr_service = [], hr_redirect = []\<rparr>"

lemma unassign_runs:
  assumes ans: "answering (he_manager env) view" and q: "quiet (px_dom (hb_px s))"
    and schema: "schema_ok (tbl (px_dom (hb_px s)))" and ids: "ids_ok (view (ou_world (hb_px s)))" and inv: "hub_inv s"
    and d: "d \<in> set (dm_rows (px_dom (hb_px s)))" "dn_type d = domain_type_custom" "assigned d"
    and ap: "dn_app d \<in> a_id ` set (apps (dm_db (px_dom (hb_px s))))"
  shows "\<exists>s'. hub_status (fst (hub_serve (update_domain_hub env (dn_id d) (Some unassign_request)) s)) = 200
      \<and> snd (hub_serve (update_domain_hub env (dn_id d) (Some unassign_request)) s) = s'
      \<and> unassign_row d \<in> set (dm_rows (px_dom (hb_px s')))
      \<and> quiet (px_dom (hb_px s')) \<and> schema_ok (tbl (px_dom (hb_px s'))) \<and> ids_ok (view (ou_world (hb_px s')))
      \<and> route_now view (hb_px s') (route_id (dn_id d)) = route_now view (hb_px s) (route_id (dn_id d))"
proof -
  let ?dd = "px_dom (hb_px s)" and ?i = "dn_id d" and ?m = "he_manager env"
  let ?M = "route_map (view (ou_world (hb_px s)))"
  let ?rows = "map (\<lambda>x. if dn_id x = ?i then unassign_row x else x) (dm_rows ?dd)"
  let ?T = "(apps (dm_db ?dd), services (dm_db ?dd), ?rows)"
  have keys: "keys_ok (dm_rows ?dd)" using inv by (simp add: hub_inv_def rows_wf_def domains_ok_def)
  then have inj: "inj_on dn_id (set (dm_rows ?dd))" by (simp add: keys_ok_def distinct_map)
  have find: "find (\<lambda>x. dn_id x = ?i) (dm_rows ?dd) = Some d"
  proof (cases "find (\<lambda>x. dn_id x = ?i) (dm_rows ?dd)")
    case (Some e)
    then have "e \<in> set (dm_rows ?dd)" "dn_id e = ?i" by (metis (mono_tags, lifting) find_Some_iff nth_mem)+
    with inj d(1) Some show ?thesis by (auto simp: inj_on_def)
  qed (use d(1) in \<open>auto simp: find_None_iff\<close>)
  obtain n where g: "get_domain_by_id ?i ?dd = (Inr d, ?dd\<lparr>dm_db := (dm_db ?dd)\<lparr>db_calls := n\<rparr>\<rparr>)"
    using get_quiet [OF q find] by blast
  let ?d1 = "?dd\<lparr>dm_db := (dm_db ?dd)\<lparr>db_calls := n\<rparr>\<rparr>"
  obtain k where u: "update_domain ?i [] [] (dn_hostname d) [] ?d1 = (Inr (unassign_row d),
      ?d1\<lparr>dm_db := (dm_db ?d1)\<lparr>db_calls := k\<rparr>, dm_rows := ?rows\<rparr>)"
    using update_quiet [of ?d1 ?i d] q find d(2) keys by (auto simp: quiet_def)
  let ?d2 = "?d1\<lparr>dm_db := (dm_db ?d1)\<lparr>db_calls := k\<rparr>, dm_rows := ?rows\<rparr>"
  let ?x2 = "(hb_px s)\<lparr>px_dom := ?d2\<rparr>"
  have schema2: "schema_ok ?T"
    using schema by (simp add: schema_ok_def tbl_def comp_update unassign_row_def)
  have at2: "at_table view ?T ?M ?x2"
    using q ids by (simp add: at_table_def quiet_def tbl_def)
  obtain a where a: "app_of (dn_app d) ?T = Inr a"
    using ap schema_apps [OF schema2] by auto
  have row: "unassign_row d \<in> set ?rows" "\<not> assigned (unassign_row d)" "dn_id (unassign_row d) = ?i"
    using d(1) by (auto simp: unassign_row_def assigned_def)
  have sy: "fst (sync ?m (dn_app d) ?x2) = Inr ()"
      "at_table view ?T (pruned ?m ?T (put_control ?m (put_app ?m ?T a ?M))) (snd (sync ?m (dn_app d) ?x2))"
    using sync_moves [OF ans a, of ?M] at2 by (simp_all add: moves_def)
  have same: "pruned ?m ?T (put_control ?m (put_app ?m ?T a ?M)) (route_id ?i) = ?M (route_id ?i)"
    using sync_keeps_unassigned [OF schema2, of "unassign_row d" ?m a ?M] row by simp
  let ?x3 = "if he_syncer env then snd (sync ?m (dn_app d) ?x2) else ?x2"
  have fin: "dm_rows (px_dom ?x3) = ?rows" "quiet (px_dom ?x3)" "tbl (px_dom ?x3) = ?T" "ids_ok (view (ou_world ?x3))"
      "route_now view ?x3 (route_id ?i) = ?M (route_id ?i)"
    using sy(2) at2 same by (auto simp: at_table_def route_now_def tbl_def)
  have "\<exists>s' dto. update_domain_hub env ?i (Some unassign_request) s = (Inr (Hub_Reply 200 (Domain_Body dto)), s') \<and> hb_px s' = ?x3"
    using g u sy(1) d(3) row(2)
    by (simp add: update_domain_hub_def on_store_def unassign_request_def sem_defs validate_assignment_def redirect_target_def
        sync_moved_def sync_routes_def on_px_def split: prod.split)
  then obtain s' dto where s': "update_domain_hub env ?i (Some unassign_request) s = (Inr (Hub_Reply 200 (Domain_Body dto)), s')" "hb_px s' = ?x3"
    by blast
  show ?thesis
    by (rule exI [of _ s']) (use s' fin row(1) schema2 in \<open>simp add: hub_serve_def hub_status_def route_now_def\<close>)
qed

text \<open>
  C40: A domain that is unassigned goes on being served. With everything answering, the request that
  takes a custom domain away from its app is answered 200 and clears the row, and the re-sync that follows
  leaves the domain's route in Caddy exactly as it was; so does every later Reconcile, since the prune spares
  the @id of every domain row, assigned or not.
\<close>

theorem unassigned_route_lingers:
  assumes "answering (he_manager env) view" and "quiet (px_dom (hb_px s))"
    and "schema_ok (tbl (px_dom (hb_px s)))" and "ids_ok (view (ou_world (hb_px s)))" and "hub_inv s"
    and "d \<in> set (dm_rows (px_dom (hb_px s)))" and "dn_type d = domain_type_custom" and "assigned d"
    and "dn_app d \<in> a_id ` set (apps (dm_db (px_dom (hb_px s))))"
    and "hub_serve (update_domain_hub env (dn_id d) (Some unassign_request)) s = (r, s')"
  shows "hub_status r = 200 \<and> unassign_row d \<in> set (dm_rows (px_dom (hb_px s')))
    \<and> route_now view (hb_px s') (route_id (dn_id d)) = route_now view (hb_px s) (route_id (dn_id d))
    \<and> route_now view (snd (reconcile (he_manager env) (hb_px s'))) (route_id (dn_id d)) = route_now view (hb_px s) (route_id (dn_id d))"
proof -
  have s': "hub_status r = 200" "unassign_row d \<in> set (dm_rows (px_dom (hb_px s')))"
      "quiet (px_dom (hb_px s'))" "schema_ok (tbl (px_dom (hb_px s')))" "ids_ok (view (ou_world (hb_px s')))"
      "route_now view (hb_px s') (route_id (dn_id d)) = route_now view (hb_px s) (route_id (dn_id d))"
    using unassign_runs [OF assms(1-9)] assms(10) by auto
  have inj: "inj_on dn_id (set (dm_rows (px_dom (hb_px s'))))"
    using s'(4) by (simp add: schema_ok_def tbl_def distinct_map)
  have "wanted (he_manager env) (tbl (px_dom (hb_px s'))) (route_id (dn_id d)) = None"
  proof (rule ccontr)
    assume "wanted (he_manager env) (tbl (px_dom (hb_px s'))) (route_id (dn_id d)) \<noteq> None"
    then obtain x where "x \<in> set (all_specs (he_manager env) (tbl (px_dom (hb_px s'))))" "rs_id (snd x) = route_id (dn_id d)"
      by (auto simp: wanted_def find_Some_iff split: option.splits) (metis nth_mem snd_conv)
    then obtain ap where "snd x \<in> set (app_specs (he_manager env) (tbl (px_dom (hb_px s'))) ap)" "rs_id (snd x) = route_id (dn_id d)"
      by (auto simp: all_specs_def)
    then have "route_id (dn_id d) \<in> set (map rs_id (app_specs (he_manager env) (tbl (px_dom (hb_px s'))) ap))"
      by (metis image_eqI set_map)
    then obtain e where e: "e \<in> set (dm_rows (px_dom (hb_px s')))" "assigned e" "dn_id e = dn_id d"
      unfolding app_spec_ids by (auto simp: domains_of_mem tbl_def)
    have "dn_id e = dn_id (unassign_row d)" using e(3) by (simp add: unassign_row_def)
    then have "e = unassign_row d" using inj e(1) s'(2) by (simp add: inj_on_def)
    with e(2) show False by (simp add: assigned_def unassign_row_def)
  qed
  moreover have "route_id (dn_id d) \<in> route_id ` dn_id ` set (dm_rows (px_dom (hb_px s')))"
    using s'(2) by (intro image_eqI [OF refl] image_eqI [of _ _ "unassign_row d"]) (simp_all add: unassign_row_def)
  moreover have "route_id (dn_id d) \<noteq> control_route_id" by (metis managed_ids(1,3))
  ultimately have "route_now view (snd (reconcile (he_manager env) (hb_px s'))) (route_id (dn_id d)) = route_now view (hb_px s') (route_id (dn_id d))"
    using reconcile_table(2) [OF assms(1) s'(3-5), of "route_id (dn_id d)"] by simp
  with s' show ?thesis by simp
qed

section \<open>Certificates are issued for known hosts only\<close>

lemma store_Inr:
  assumes "is_read q (\<lambda>T. Inr (g T))" "px_store m q s = (Inr x, s')"
  shows "x = g (tbl (px_dom s))" "tbl (px_dom s') = tbl (px_dom s)"
proof -
  have "fst (q (px_dom s)) = Inr x" "px_dom s' = snd (q (px_dom s))"
    using assms(2) px_store_result [of m q s] by auto
  then show "x = g (tbl (px_dom s))" "tbl (px_dom s') = tbl (px_dom s)"
    using assms(1) unfolding is_read_def by (metis sum.distinct(1) sum.inject(2))+
qed

lemma auto_hosts_of_Inr: "auto_hosts_of m aps s = (Inr hs, s') \<Longrightarrow> hs = all_auto m (tbl (px_dom s)) aps"
proof (induction aps arbitrary: s hs s')
  case (Cons ap aps)
  obtain svcs s1 where 1: "px_store m (on_dm (list_services_for_app (a_id ap))) s = (Inr svcs, s1)"
      "and_then (auto_hosts_of m aps) (\<lambda>hs. ret (auto_hosts_for_app m ap svcs @ hs)) s1 = (Inr hs, s')"
    using and_then_Inr [OF Cons.prems [simplified]] by blast
  obtain gs s2 where 2: "auto_hosts_of m aps s1 = (Inr gs, s2)" "hs = auto_hosts_for_app m ap svcs @ gs"
    using and_then_Inr [OF 1(2)] by (auto simp: ret_def)
  show ?case
    using Cons.IH [OF 2(1)] 2(2) store_Inr [OF read_services 1(1)] by (simp add: all_auto_def)
qed (simp add: all_auto_def ret_def)

lemma auto_hosts_Inr:
  assumes h: "auto_hosts m s = (Inr hs, s')"
  shows "hs = all_auto m (tbl (px_dom s)) (apps_of (tbl (px_dom s)))"
proof -
  obtain aps s1 where a: "px_store m (on_dm list_apps) s = (Inr aps, s1)" "auto_hosts_of m aps s1 = (Inr hs, s')"
    using and_then_Inr [OF h [unfolded auto_hosts_def]] by blast
  then show ?thesis using auto_hosts_of_Inr [OF a(2)] store_Inr [OF read_list_apps a(1)] by simp
qed

lemma get_by_hostname_Inr:
  "get_domain_by_hostname h d = (Inr x, d') \<Longrightarrow> x \<in> set (dm_rows d) \<and> dn_hostname x = h"
  unfolding get_domain_by_hostname_def get_domain_where_def dom_call_def
  by (auto simp: sem_defs on_dm_def db_call_def Let_def find_Some_iff split: prod.splits sum.splits option.splits if_splits)

lemma get_by_hostname_tbl: "tbl (snd (get_domain_by_hostname h d)) = tbl d"
  unfolding get_domain_by_hostname_def get_domain_where_def
  by (auto simp: dom_call_def sem_defs on_dm_def db_call_def tbl_def Let_def split: prod.splits sum.splits option.splits)

definition ask_status :: "int + int \<Rightarrow> int" where
  "ask_status r = (case r of Inl n \<Rightarrow> n | Inr n \<Rightarrow> n)"

text \<open>
  C39: The on-demand TLS hook answers 200 only to a caller with the secret, and only for a host VAC knows:
  the dashboard's domain, a row of the domains table whose certificate was not uploaded, or a host derived
  from an app and one of its public HTTP services; whatever calls fail.
\<close>

theorem ask_allows_known_only:
  assumes "caddy_ask env presented raw s = (r, s')" and "ask_status r = 200"
    and "host = to_lower (trim_suffix (trim_space raw) ''.'')"
  shows "(he_ask_token env = [] \<or> presented = he_ask_token env) \<and> host \<noteq> []
    \<and> (is_control_domain (he_manager env) host
       \<or> (\<exists>d \<in> set (dm_rows (px_dom (hb_px s))). dn_hostname d = host \<and> dn_cert_source d \<noteq> ''uploaded'')
       \<or> (\<exists>ap \<in> set (apps (dm_db (px_dom (hb_px s)))). \<exists>h \<in> set (auto_hosts_for_app (he_manager env) ap
              (services_of (a_id ap) (tbl (px_dom (hb_px s))))). to_lower (ah_hostname h) = host))"
proof -
  let ?m = "he_manager env"
  obtain gr d1 where g: "get_domain_by_hostname host (px_dom (hb_px s)) = (gr, d1)" by fastforce
  let ?s1 = "s\<lparr>hb_px := (hb_px s)\<lparr>px_dom := d1\<rparr>\<rparr>"
  have host: "to_lower (trim_suffix (trim_space raw) ''.'') = host" by (simp add: assms(3))
  have pre: "he_ask_token env = [] \<or> presented = he_ask_token env" "host \<noteq> []"
    using assms(1,2) by (auto simp: caddy_ask_def throw_def ask_status_def Let_def host split: if_splits)
  show ?thesis
  proof (cases "he_syncer env \<and> is_control_domain ?m host")
    case False
    show ?thesis
    proof (cases gr)
      case (Inr d)
      then have "dn_cert_source d \<noteq> ''uploaded''"
        using assms(1,2) pre False g
        by (auto simp: caddy_ask_def sem_defs on_store_def ask_status_def Let_def host split: if_splits)
      then show ?thesis using pre get_by_hostname_Inr g Inr by blast
    next
      case (Inl e)
      obtain ar p where a: "is_auto_host ?m host (hb_px ?s1) = (ar, p)" by fastforce
      have "ar = Inr True"
        using assms(1,2) pre False g Inl a
        by (auto simp: caddy_ask_def sem_defs on_store_def on_px_def ask_status_def Let_def host split: if_splits)
      then obtain hs s2 where hs: "auto_hosts ?m (hb_px ?s1) = (Inr hs, s2)" "list_ex (\<lambda>h. to_lower (ah_hostname h) = to_lower (to_lower host)) hs"
        using and_then_Inr [of "auto_hosts ?m"] a unfolding is_auto_host_def by (fastforce simp: ret_def)
      have "tbl d1 = tbl (px_dom (hb_px s))" using get_by_hostname_tbl [of host "px_dom (hb_px s)"] g by simp
      then have "hs = all_auto ?m (tbl (px_dom (hb_px s))) (apps_of (tbl (px_dom (hb_px s))))"
        using auto_hosts_Inr [OF hs(1)] by simp
      moreover have "to_lower (to_lower host) = host" by (simp add: assms(3))
      ultimately show ?thesis using pre hs(2) by (auto simp: list_ex_iff all_auto_def tbl_def)
    qed
  qed (use pre in simp)
qed

section \<open>Instances\<close>

definition demo_hub_env :: "route list hub_env" where
  "demo_hub_env = \<lparr>he_manager = demo_manager, he_syncer = True, he_status = True, he_autos = True, he_dns_enabled = False,
     he_dns_ensure = (\<lambda>_. Dns_Ok False False []), he_dns_delete = (\<lambda>_. False),
     he_engine_cfg = new_engine_cfg \<lparr>ec_cert_probe = False, ec_vps_ip = [], ec_active_interval = 0, ec_pending_interval = 0, ec_cache_window = 0\<rparr>,
     he_probe = demo_probe, he_now = 0, he_seal = None,
     he_cert_lib = \<lparr>cl_parse = (\<lambda>_ _. No_Certificate), cl_pem_types = (\<lambda>_. []), cl_date = (\<lambda>_. [])\<rparr>, he_ask_token = ''t''\<rparr>"

definition demo_domain :: domain where
  "demo_domain = \<lparr>dn_id = ''d1'', dn_app = demo_uuid, dn_service = ''web'', dn_hostname = ''shop.io'', dn_type = domain_type_custom,
     dn_redirect = [], dn_cert_source = ''acme'', dn_cert_uploaded_at = None, dn_created_at = 0,
     dn_cert_pem = None, dn_key_enc = None, dn_cert_not_after = None, dn_cert_notified_at = None\<rparr>"

definition demo_serving :: route where
  "demo_serving = Route ''vac-route-d1'' [[''shop.io'']] [proxy_handler ''shop--web:80'' None]"

definition demo_hub :: "route list hub" where
  "demo_hub = \<lparr>hb_px = demo_sys\<lparr>ou_world := [demo_serving],
       px_dom := (px_dom demo_sys)\<lparr>dm_rows := [demo_domain]\<rparr>\<rparr>,
     hb_engine = \<lparr>en_entries = [], en_push_err = []\<rparr>, hb_audit = []\<rparr>"

lemma demo_hub_inv: "hub_inv demo_hub"
proof -
  have "valid_hostname ''shop.io''" unfolding valid_hostname_split by code_simp
  then show ?thesis
    by (simp add: hub_inv_def demo_hub_def rows_wf_def domains_ok_def keys_ok_def domain_wf_def demo_domain_def paired_def demo_uuid_def)
qed


theorem unassigned_route_lingers_witness:
  "let s' = snd (hub_serve (update_domain_hub demo_hub_env ''d1'' (Some unassign_request)) demo_hub)
   in map dn_app (dm_rows (px_dom (hb_px demo_hub))) = [demo_uuid]
      \<and> unassign_row demo_domain \<in> set (dm_rows (px_dom (hb_px s')))
      \<and> route_now (\<lambda>rs. rs) (snd (reconcile demo_manager (hb_px s'))) ''vac-route-d1'' = Some demo_serving"
proof -
  have hyps: "answering (he_manager demo_hub_env) (\<lambda>rs. rs)" "quiet (px_dom (hb_px demo_hub))"
      "schema_ok (tbl (px_dom (hb_px demo_hub)))" "ids_ok (ou_world (hb_px demo_hub))"
      "demo_domain \<in> set (dm_rows (px_dom (hb_px demo_hub)))" "dn_type demo_domain = domain_type_custom" "assigned demo_domain"
      "dn_app demo_domain \<in> a_id ` set (apps (dm_db (px_dom (hb_px demo_hub))))"
    using demo_answering
    by (simp_all add: demo_hub_env_def demo_hub_def demo_sys_def quiet_def schema_ok_def tbl_def ids_ok_def empty_db_def
        maint_app_def demo_uuid_def demo_serving_def demo_domain_def assigned_def)
  obtain r s' where rs: "hub_serve (update_domain_hub demo_hub_env ''d1'' (Some unassign_request)) demo_hub = (r, s')" by fastforce
  have i: "dn_id demo_domain = ''d1''" "route_id ''d1'' = ''vac-route-d1''" "he_manager demo_hub_env = demo_manager"
    by (simp_all add: demo_domain_def route_id_def route_id_prefix_def demo_hub_env_def)
  have now: "route_now (\<lambda>rs. rs) (hb_px demo_hub) ''vac-route-d1'' = Some demo_serving"
    by (simp add: route_now_def route_map_def demo_hub_def demo_sys_def demo_serving_def)
  from unassigned_route_lingers [OF hyps(1-4) demo_hub_inv hyps(5-8), of r s'] rs
  show ?thesis by (simp add: i now Let_def) (simp add: demo_hub_def demo_sys_def demo_domain_def)
qed

theorem ask_allows_known_only_witness:
  "\<exists>d \<in> set (dm_rows (px_dom (hb_px demo_hub))). dn_hostname d = ''shop.io'' \<and> ask_status (fst (caddy_ask demo_hub_env ''t'' ''Shop.io.'' demo_hub)) = 200"
proof -
  have h: "''shop.io'' = to_lower (trim_suffix (trim_space ''Shop.io.'') ''.'')" by code_simp
  have c: "\<not> is_control_domain (he_manager demo_hub_env) ''shop.io''"
    by (simp add: is_control_domain_def demo_hub_env_def demo_manager_def new_config_def)
  obtain r s' where rs: "caddy_ask demo_hub_env ''t'' ''Shop.io.'' demo_hub = (r, s')" by fastforce
  have ok: "ask_status (fst (caddy_ask demo_hub_env ''t'' ''Shop.io.'' demo_hub)) = 200"
    using c by (simp add: caddy_ask_def h [symmetric] Let_def demo_hub_env_def ask_status_def sem_defs on_store_def demo_hub_def demo_sys_def
        get_domain_by_hostname_def get_domain_where_def dom_call_def on_dm_def db_call_def empty_db_def demo_domain_def)
  with rs have st: "ask_status r = 200" by simp
  have noauto: "\<forall>h \<in> set (auto_hosts_for_app (he_manager demo_hub_env) ap (services_of (a_id ap) (tbl (px_dom (hb_px demo_hub))))).
      to_lower (ah_hostname h) \<noteq> ''shop.io''" if "ap \<in> set (apps (dm_db (px_dom (hb_px demo_hub))))" for ap
    using that
    by (simp add: demo_hub_def demo_sys_def auto_hosts_for_app_def demo_hub_env_def demo_manager_def new_config_def base_domain_def
        services_of_def tbl_def empty_db_def maint_app_def demo_service_def http_service_def List.map_filter_def auto_subdomain_def
        to_lower_def demo_uuid_def)
  from ask_allows_known_only [OF rs st h] c noauto ok show ?thesis by blast
qed

end
