(* ===== verification/Store_Apps.thy ===== *)
theory Store_Apps
  imports Deployment_Store Store_Domains "HOL-Library.Product_Lexorder"
begin

text \<open>
  The remaining statements on apps: api/internal/store/apps.go, scaletozero.go, app_registry.go,
  app_webhook.go and ListServiceProjects of services.go. The identifier that the database
  generates for a new row is an argument. The statements keep the primary key and the unique slug
  of the migrations, and deleting an app cascades as its foreign keys say.
\<close>

section \<open>Creating apps\<close>

definition app_keys_ok :: "app list \<Rightarrow> bool" where
  "app_keys_ok as = (distinct (map a_id as) \<and> distinct (map a_slug as))"

text \<open>A row with the defaults of the table.\<close>

definition fresh_app :: "string \<Rightarrow> string \<Rightarrow> string \<Rightarrow> instant \<Rightarrow> app" where
  "fresh_app new name slug now =
     \<lparr>a_id = new, a_name = name, a_slug = slug, a_git_url = [], a_git_branch = ''main'',
      a_compose_file = ''compose.yaml'', a_build_kind = ''auto'', a_build_config = ''{}'',
      a_status = St_Created, a_mem_limit = None, a_source = ''git'', a_template_id = None,
      a_maintenance_mode = False, a_maintenance_auto = False, a_maintenance_active = False,
      a_deploy_window = [], a_suspended = False, a_registry_auth = [], a_webhook_secret = [],
      a_disk_limit = None, a_created_at = now, a_is_preview = False, a_parent = None,
      a_last_preview_push = None, a_maintenance_html = None, a_idle_suspend = False,
      a_idle_timeout = None, a_last_traffic = None, a_rate_limit = None\<rparr>"

definition insert_app :: "app \<Rightarrow> app dbop" where
  "insert_app a = db_call (\<lambda>s.
     if \<not> app_keys_ok (apps s @ [a]) then (Inl ErrUnique, s)
     else (Inr a, s\<lparr>apps := apps s @ [a]\<rparr>))"

definition app_conflict :: "store_err \<Rightarrow> store_err" where
  "app_conflict e = (if e = ErrUnique then ErrConflict else e)"

definition create_app ::
  "string \<Rightarrow> string \<Rightarrow> string \<Rightarrow> string \<Rightarrow> string \<Rightarrow> string \<Rightarrow> string \<Rightarrow> string \<Rightarrow> app dbop" where
  "create_app new name slug url branch compose kind cfg = map_err app_conflict (\<lambda>s. insert_app
     ((fresh_app new name slug (db_now s))\<lparr>a_git_url := url, a_git_branch := branch, a_compose_file := compose,
        a_build_kind := (if kind = [] then ''auto'' else kind),
        a_build_config := (if cfg = [] then ''{}'' else cfg)\<rparr>) s)"

definition create_template_app :: "string \<Rightarrow> string \<Rightarrow> string \<Rightarrow> string \<Rightarrow> string \<Rightarrow> app dbop" where
  "create_template_app new name slug template compose = map_err app_conflict (\<lambda>s. insert_app
     ((fresh_app new name slug (db_now s))\<lparr>a_git_branch := [], a_compose_file := compose,
        a_build_kind := ''compose'', a_source := ''template'', a_template_id := Some template\<rparr>) s)"

definition create_image_app :: "string \<Rightarrow> string \<Rightarrow> string \<Rightarrow> string \<Rightarrow> app dbop" where
  "create_image_app new name slug cfg = map_err app_conflict (\<lambda>s. insert_app
     ((fresh_app new name slug (db_now s))\<lparr>a_git_branch := [], a_compose_file := [], a_build_kind := ''image'',
        a_build_config := (if cfg = [] then ''{}'' else cfg), a_source := ''image''\<rparr>) s)"

section \<open>Changing apps\<close>

record app_patch =
  ap_name :: "string option"
  ap_git_url :: "string option"
  ap_git_branch :: "string option"
  ap_compose_file :: "string option"
  ap_build_kind :: "string option"
  ap_build_config :: "string option"
  ap_mem_limit :: "int option"
  ap_disk_limit :: "int option"

definition or_else :: "'a option \<Rightarrow> 'a \<Rightarrow> 'a" where
  "or_else x y = (case x of Some v \<Rightarrow> v | None \<Rightarrow> y)"

text \<open>A limit: absent leaves the column, 0 clears it.\<close>

definition patch_limit :: "int option \<Rightarrow> int option \<Rightarrow> int option" where
  "patch_limit x old = (case x of None \<Rightarrow> old | Some n \<Rightarrow> if n = 0 then None else Some n)"

definition patch_app :: "app_patch \<Rightarrow> app \<Rightarrow> app" where
  "patch_app p a = a\<lparr>a_name := or_else (ap_name p) (a_name a), a_git_url := or_else (ap_git_url p) (a_git_url a),
     a_git_branch := or_else (ap_git_branch p) (a_git_branch a),
     a_compose_file := or_else (ap_compose_file p) (a_compose_file a),
     a_build_kind := or_else (ap_build_kind p) (a_build_kind a),
     a_build_config := or_else (ap_build_config p) (a_build_config a),
     a_mem_limit := patch_limit (ap_mem_limit p) (a_mem_limit a),
     a_disk_limit := patch_limit (ap_disk_limit p) (a_disk_limit a)\<rparr>"

definition update_app :: "string \<Rightarrow> app_patch \<Rightarrow> app dbop" where
  "update_app i p = db_call (\<lambda>s. case find (\<lambda>a. a_id a = i) (apps s) of
     None \<Rightarrow> (Inl ErrNotFound, s)
   | Some a \<Rightarrow> (Inr (patch_app p a), s\<lparr>apps := map (\<lambda>x. if a_id x = i then patch_app p x else x) (apps s)\<rparr>))"

definition set_idle_suspend_config :: "string \<Rightarrow> bool \<Rightarrow> int option \<Rightarrow> unit dbop" where
  "set_idle_suspend_config i enabled timeout = or_not_found (update_apps (\<lambda>a. a_id a = i)
     (\<lambda>a. a\<lparr>a_idle_suspend := enabled, a_idle_timeout := timeout\<rparr>))"

text \<open>SetLastTrafficAt does not look at the number of rows.\<close>

definition set_last_traffic :: "string \<Rightarrow> instant \<Rightarrow> unit dbop" where
  "set_last_traffic i t = and_then (update_apps (\<lambda>a. a_id a = i) (\<lambda>a. a\<lparr>a_last_traffic := Some t\<rparr>)) (\<lambda>_. ret ())"

definition count_idle_suspend_apps :: "nat dbop" where
  "count_idle_suspend_apps = db_call (\<lambda>s. (Inr (length (filter a_idle_suspend (apps s))), s))"

definition set_app_registry_auth :: "string \<Rightarrow> string \<Rightarrow> unit dbop" where
  "set_app_registry_auth i enc = or_not_found (update_apps (\<lambda>a. a_id a = i) (\<lambda>a. a\<lparr>a_registry_auth := enc\<rparr>))"

definition set_app_webhook_secret :: "string \<Rightarrow> string \<Rightarrow> unit dbop" where
  "set_app_webhook_secret i enc = or_not_found (update_apps (\<lambda>a. a_id a = i) (\<lambda>a. a\<lparr>a_webhook_secret := enc\<rparr>))"

text \<open>SumAppMemLimits: the sum, the apps with a limit, all apps.\<close>

definition sum_app_mem_limits :: "(int \<times> nat \<times> nat) dbop" where
  "sum_app_mem_limits = db_call (\<lambda>s. let limits = List.map_filter a_mem_limit (apps s)
     in (Inr (sum_list limits, length limits, length (apps s)), s))"

definition list_service_projects :: "(string \<times> string) list dbop" where
  "list_service_projects = db_call (\<lambda>s. (Inr (sort
     (concat (map (\<lambda>v. map (\<lambda>a. (a_slug a, s_name v)) (filter (\<lambda>a. a_id a = s_app v) (apps s))) (services s)))), s))"

section \<open>Deleting an app\<close>

text \<open>The rows the foreign keys take along: the previews of the app, transitively, and everything that
  belongs to one of them.\<close>

definition grow :: "app list \<Rightarrow> string list \<Rightarrow> string list" where
  "grow as is = remdups (is @ map a_id (filter (\<lambda>a. case a_parent a of Some p \<Rightarrow> p \<in> set is | None \<Rightarrow> False) as))"

definition doomed :: "string \<Rightarrow> app list \<Rightarrow> string list" where
  "doomed i as = (grow as ^^ length as) [i]"

definition cascade :: "string list \<Rightarrow> dom_db \<Rightarrow> dom_db" where
  "cascade gone s =
     (let d = dm_db s; lost = map d_id (filter (\<lambda>x. d_app x \<in> set gone) (deployments d))
      in s\<lparr>dm_db := d\<lparr>apps := filter (\<lambda>a. a_id a \<notin> set gone) (apps d),
                       services := filter (\<lambda>v. s_app v \<notin> set gone) (services d),
                       deployments := map (clear_pointer lost) (filter (\<lambda>x. d_app x \<notin> set gone) (deployments d))\<rparr>,
           dm_rows := filter (\<lambda>x. dn_app x \<notin> set gone) (dm_rows s)\<rparr>)"

definition delete_app :: "string \<Rightarrow> unit domop" where
  "delete_app i = dom_call (\<lambda>s.
     if \<not> list_ex (\<lambda>a. a_id a = i) (apps (dm_db s)) then (Inl ErrNotFound, s)
     else (Inr (), cascade (doomed i (apps (dm_db s))) s))"

section \<open>Integrity\<close>

text \<open>The foreign keys between the tables; an unassigned domain row has no app.\<close>

definition refs_ok :: "dom_db \<Rightarrow> bool" where
  "refs_ok s =
     (let ids = a_id ` set (apps (dm_db s))
      in (\<forall>a \<in> set (apps (dm_db s)). \<forall>p. a_parent a = Some p \<longrightarrow> p \<in> ids)
       \<and> (\<forall>v \<in> set (services (dm_db s)). s_app v \<in> ids)
       \<and> (\<forall>d \<in> set (deployments (dm_db s)). d_app d \<in> ids)
       \<and> (\<forall>d \<in> set (dm_rows s). dn_app d \<noteq> [] \<longrightarrow> dn_app d \<in> ids))"

lemma set_grow: "set (grow as is) = set is \<union> a_id ` {a \<in> set as. \<exists>p \<in> set is. a_parent a = Some p}"
  by (auto simp: grow_def split: option.splits)

lemma grow_mono: "set xs \<subseteq> set ((grow rows ^^ n) xs)"
  by (induction n) (auto simp: set_grow)

lemma card_grow:
  assumes "set (grow as ((grow as ^^ n) is)) \<noteq> set ((grow as ^^ n) is)"
  shows "n < card (set ((grow as ^^ Suc n) is) - set is)"
  using assms
proof (induction n)
  case 0
  have "set (grow as is) - set is \<noteq> {}" using 0 set_grow [of as "is"] by auto
  then show ?case by (simp add: card_gt_0_iff)
next
  case (Suc n)
  let ?X = "set ((grow as ^^ n) is)" and ?Y = "set ((grow as ^^ Suc n) is)" and ?Z = "set ((grow as ^^ Suc (Suc n)) is)"
  have sub: "?X \<subseteq> ?Y" "?Y \<subseteq> ?Z" "?Z \<noteq> ?Y" using Suc.prems by (simp_all add: set_grow)
  have "?Y \<noteq> ?X"
  proof
    assume "?Y = ?X"
    then have "?Z = ?Y" by (simp add: set_grow)
    with sub show False by simp
  qed
  then have n: "n < card (?Y - set is)" using Suc.IH by simp
  have "?Y - set is \<subset> ?Z - set is" using sub grow_mono [where xs = "is" and rows = "as" and n = "Suc n"] by blast
  then have "card (?Y - set is) < card (?Z - set is)" by (intro psubset_card_mono) auto
  with n show ?case by simp
qed

text \<open>As many rounds as there are apps reach every descendant.\<close>

lemma doomed_closed: "set (grow as (doomed i as)) = set (doomed i as)"
proof (rule ccontr)
  assume "set (grow as (doomed i as)) \<noteq> set (doomed i as)"
  then have "length as < card (set ((grow as ^^ Suc (length as)) [i]) - {i})"
    using card_grow [of as "length as" "[i]"] by (simp add: doomed_def)
  moreover have "set ((grow as ^^ n) [i]) \<subseteq> insert i (a_id ` set as)" for n
    by (induction n) (auto simp: set_grow)
  then have "set ((grow as ^^ Suc (length as)) [i]) - {i} \<subseteq> a_id ` set as" by blast
  then have "card (set ((grow as ^^ Suc (length as)) [i]) - {i}) \<le> card (a_id ` set as)"
    by (intro card_mono) auto
  moreover have "card (a_id ` set as) \<le> length as"
    by (metis card_length image_set length_map)
  ultimately show False by simp
qed

lemma doomed_mem: "i \<in> set (doomed i as)"
  using grow_mono [where xs = "[i]" and rows = "as" and n = "length as"] by (simp add: doomed_def)

lemma doomed_children:
  "a \<in> set as \<Longrightarrow> a_parent a = Some p \<Longrightarrow> p \<in> set (doomed i as) \<Longrightarrow> a_id a \<in> set (doomed i as)"
  using doomed_closed [of as i] by (auto simp: set_grow)

lemma cascade_refs:
  assumes "refs_ok s"
  shows "refs_ok (cascade (doomed i (apps (dm_db s))) s)"
proof -
  let ?as = "apps (dm_db s)" and ?g = "set (doomed i (apps (dm_db s)))"
  let ?s = "cascade (doomed i ?as) s"
  have ids: "p \<in> a_id ` set (apps (dm_db ?s))" if "p \<in> a_id ` set ?as" "p \<notin> ?g" for p
    using that by (auto simp: cascade_def Let_def)
  have par: "p \<in> a_id ` set (apps (dm_db ?s))" if a: "a \<in> set (apps (dm_db ?s))" "a_parent a = Some p" for a p
  proof -
    have m: "a \<in> set ?as" "a_id a \<notin> ?g" using a(1) by (simp_all add: cascade_def Let_def)
    then have "p \<notin> ?g" using doomed_children [of a ?as p i] a(2) by blast
    moreover have "p \<in> a_id ` set ?as" using assms m(1) a(2) unfolding refs_ok_def Let_def by blast
    ultimately show ?thesis by (rule ids [rotated])
  qed
  have svc: "s_app v \<in> a_id ` set (apps (dm_db ?s))" if v: "v \<in> set (services (dm_db ?s))" for v
  proof (rule ids)
    have "v \<in> set (services (dm_db s))" using v by (simp add: cascade_def Let_def)
    then show "s_app v \<in> a_id ` set ?as" using assms unfolding refs_ok_def Let_def by blast
    show "s_app v \<notin> ?g" using v by (simp add: cascade_def Let_def)
  qed
  have dep: "d_app d \<in> a_id ` set (apps (dm_db ?s))" if d: "d \<in> set (deployments (dm_db ?s))" for d
  proof -
    obtain x where x: "x \<in> set (deployments (dm_db s))" "d_app x \<notin> ?g" "d_app d = d_app x"
      using d by (auto simp: cascade_def Let_def)
    then have "d_app x \<in> a_id ` set ?as" using assms unfolding refs_ok_def Let_def by blast
    with x show ?thesis using ids by simp
  qed
  have dom: "dn_app d \<in> a_id ` set (apps (dm_db ?s))" if d: "d \<in> set (dm_rows ?s)" "dn_app d \<noteq> []" for d
  proof (rule ids)
    have "d \<in> set (dm_rows s)" using d(1) by (simp add: cascade_def Let_def)
    then show "dn_app d \<in> a_id ` set ?as" using assms d(2) unfolding refs_ok_def Let_def by blast
    show "dn_app d \<notin> ?g" using d(1) by (simp add: cascade_def Let_def)
  qed
  show ?thesis using par svc dep dom unfolding refs_ok_def Let_def by blast
qed

end
