(* ===== verification/Stack_Ops.thy ===== *)
theory Stack_Ops
  imports Proxy_Converge Crash_Loop Store_Apps Deploy_Handlers
begin

text \<open>
  The operator's controls of an app: api/internal/server/handler/stack_control.go and services.go;
  the settings are in App_Settings. The state is what the handlers share: the route manager
  with its database, the crash-loop monitor, the deploy worker, the in-flight set of the waker, the
  calls made to docker compose and the audit entries. Decoding a request body is an argument,
  None for invalid JSON; the request's path parameters are arguments too.
\<close>

section \<open>State and environment\<close>

datatype compose_call =
    Compose_Start string string | Compose_Stop string string | Compose_Restart string string
  | Compose_Down string bool

datatype op_audit =
    Audit_Key string string "(string \<times> string) list"   \<comment> \<open>target app, action, parameters\<close>
  | Audit_Summary string string
  | Audit_Snapshot string app

record 'w ops =
  op_px :: "'w pxst"
  op_mon :: monitor
  op_worker :: worker
  op_flight :: "string set"
  op_compose :: "compose_call list"
  op_audits :: "op_audit list"
  op_removed :: "string list"

text \<open>What is wired: the optional proxy, monitor, docker and worker of the handlers; docker's answer is a
  function of the call and the world; sealing and opening are None when no master key is set.\<close>

record 'w ops_env =
  oe_manager :: "'w manager"
  oe_proxy :: bool
  oe_crash :: bool
  oe_stack :: bool
  oe_work :: bool
  oe_docker :: "compose_call \<Rightarrow> 'w \<Rightarrow> string option \<times> 'w"
  oe_work_dir :: string
  oe_deprovision :: "string \<Rightarrow> 'w \<Rightarrow> 'w"
  oe_box :: "((string \<Rightarrow> string option) \<times> (string \<Rightarrow> string option)) option"
  oe_unmarshal :: "string \<Rightarrow> string + window list"
  oe_marshal :: "window list \<Rightarrow> string option"
  oe_zone :: "string \<Rightarrow> location option"

record service_dto =
  vd_app :: string
  vd_name :: string
  vd_container :: "string option"
  vd_exposed :: "int option"
  vd_internal :: "int option"
  vd_health :: "string option"
  vd_status :: stack_status
  vd_restarts :: int
  vd_exit_code :: "int option"
  vd_volumes :: bool
  vd_private :: bool
  vd_auth :: bool
  vd_guest :: bool

record maintenance_dto =
  md_enabled :: bool
  md_auto :: bool
  md_active :: bool
  md_custom :: bool

record idle_dto =
  id_enabled :: bool
  id_timeout :: "int option"
  id_suspended :: bool
  id_last_traffic :: "instant option"

record app_dto =
  ad_id :: string
  ad_name :: string
  ad_slug :: string
  ad_git_url :: string
  ad_git_branch :: string
  ad_compose_file :: string
  ad_build_kind :: string
  ad_build_config :: string
  ad_status :: stack_status
  ad_mem_limit :: "int option"
  ad_disk_limit :: "int option"
  ad_created_at :: instant
  ad_source :: string
  ad_template_id :: "string option"
  ad_template_name :: "string option"
  ad_template_icon :: "string option"
  ad_is_preview :: bool
  ad_parent :: "string option"
  ad_maintenance :: maintenance_dto
  ad_idle :: idle_dto

datatype ops_body =
    Ops_Fields "(string \<times> string) list"
  | Ops_Count int
  | Ops_Services "service_dto list"
  | Ops_Service service_dto
  | Ops_Maintenance maintenance_dto
  | Ops_Page string bool
  | Ops_Rate "int option"
  | Ops_Idle idle_dto
  | Ops_Windows "window list"
  | Ops_Enabled bool
  | Ops_Code string
  | Ops_Apps "app_dto list"
  | Ops_App app_dto
  | Ops_Error string string

datatype ops_reply = Ops_Reply int ops_body

type_synonym ('w, 'a) opsop = "('w ops, ops_reply, 'a) sem"

definition ops_error :: "int \<Rightarrow> string \<Rightarrow> ops_reply" where
  "ops_error status msg = Ops_Reply status (Ops_Error msg (default_code_for_status status))"

definition ops_status :: "ops_reply \<Rightarrow> int" where
  "ops_status r = (case r of Ops_Reply n _ \<Rightarrow> n)"

definition ops_serve :: "('w, ops_reply) opsop \<Rightarrow> 'w ops \<Rightarrow> ops_reply \<times> 'w ops" where
  "ops_serve h s = (case h s of (Inl r, s') \<Rightarrow> (r, s') | (Inr r, s') \<Rightarrow> (r, s'))"

definition ops_ok :: "string \<Rightarrow> ops_reply" where
  "ops_ok what = Ops_Reply 200 (Ops_Fields [(''status'', what)])"

section \<open>The collaborators\<close>

definition op_store :: "'a domop \<Rightarrow> ('w ops, store_err, 'a) sem" where
  "op_store q = (\<lambda>s. case q (px_dom (op_px s)) of (r, d) \<Rightarrow> (r, s\<lparr>op_px := (op_px s)\<lparr>px_dom := d\<rparr>\<rparr>))"

definition op_db :: "'a dbop \<Rightarrow> ('w ops, store_err, 'a) sem" where
  "op_db q = op_store (on_dm q)"

definition op_route :: "('w, 'a) pxop \<Rightarrow> ('w ops, string, 'a) sem" where
  "op_route q = (\<lambda>s. case q (op_px s) of (r, x) \<Rightarrow> (r, s\<lparr>op_px := x\<rparr>))"

definition run_compose :: "'w ops_env \<Rightarrow> compose_call \<Rightarrow> ('w ops, string, unit) sem" where
  "run_compose env c = (\<lambda>s. case oe_docker env c (ou_world (op_px s)) of
     (r, w) \<Rightarrow> ((case r of None \<Rightarrow> Inr () | Some e \<Rightarrow> Inl e),
                 s\<lparr>op_px := (op_px s)\<lparr>ou_world := w\<rparr>, op_compose := op_compose s @ [c]\<rparr>))"

definition compose_project :: "string \<Rightarrow> string" where
  "compose_project slug = ''vac-'' @ slug"

definition proxy_sync :: "'w ops_env \<Rightarrow> string \<Rightarrow> ('w, unit) opsop" where
  "proxy_sync env app = (if oe_proxy env then ignore (op_route (sync (oe_manager env) app)) else ret ())"

definition proxy_teardown :: "'w ops_env \<Rightarrow> string \<Rightarrow> ('w, unit) opsop" where
  "proxy_teardown env app = (if oe_proxy env then ignore (op_route (teardown (oe_manager env) app)) else ret ())"

definition crash_reset_service :: "'w ops_env \<Rightarrow> string \<Rightarrow> string \<Rightarrow> ('w, unit) opsop" where
  "crash_reset_service env project name =
     (if oe_crash env then act (\<lambda>s. s\<lparr>op_mon := reset_service project name (op_mon s)\<rparr>) else ret ())"

definition crash_reset_project :: "'w ops_env \<Rightarrow> string \<Rightarrow> ('w, unit) opsop" where
  "crash_reset_project env project =
     (if oe_crash env then act (\<lambda>s. s\<lparr>op_mon := reset_project project (op_mon s)\<rparr>) else ret ())"

definition log_audit :: "op_audit \<Rightarrow> ('w, unit) opsop" where
  "log_audit a = act (\<lambda>s. s\<lparr>op_audits := op_audits s @ [a]\<rparr>)"

definition load_app :: "string \<Rightarrow> ('w, app) opsop" where
  "load_app i = map_err (\<lambda>e. if e = ErrNotFound then ops_error 404 ''app not found''
                              else ops_error 500 ''could not load app'') (op_db (get_app i))"

definition apply_status_to_all :: "string \<Rightarrow> stack_status \<Rightarrow> ('w, unit) opsop" where
  "apply_status_to_all app status =
     and_then (attempt (op_db (list_services_for_app app))) (\<lambda>r.
     case r of Inl _ \<Rightarrow> ret ()
     | Inr vs \<Rightarrow> for_each vs (\<lambda>v. ignore (op_db (update_service_status app (s_name v) status None))))"

section \<open>Starting and stopping\<close>

definition start_app :: "'w ops_env \<Rightarrow> string \<Rightarrow> ('w, ops_reply) opsop" where
  "start_app env i =
     and_then (load_app i) (\<lambda>ap.
     let project = compose_project (a_slug ap) in
     and_then (map_err (\<lambda>_. ops_error 500 ''could not start stack'') (run_compose env (Compose_Start project []))) (\<lambda>_.
     and_then (crash_reset_project env project) (\<lambda>_.
     and_then (apply_status_to_all (a_id ap) St_Running) (\<lambda>_.
     and_then (ignore (op_db (set_app_status (a_id ap) St_Running))) (\<lambda>_.
     and_then (proxy_sync env (a_id ap)) (\<lambda>_. ret (ops_ok ''started'')))))))"

definition stop_app :: "'w ops_env \<Rightarrow> string \<Rightarrow> ('w, ops_reply) opsop" where
  "stop_app env i =
     and_then (load_app i) (\<lambda>ap.
     and_then (map_err (\<lambda>_. ops_error 500 ''could not stop stack'')
                 (run_compose env (Compose_Stop (compose_project (a_slug ap)) []))) (\<lambda>_.
     and_then (apply_status_to_all (a_id ap) St_Stopped) (\<lambda>_.
     and_then (ignore (op_db (set_app_status (a_id ap) St_Stopped))) (\<lambda>_.
     and_then (proxy_teardown env (a_id ap)) (\<lambda>_. ret (ops_ok ''stopped''))))))"

definition restart_app :: "'w ops_env \<Rightarrow> string \<Rightarrow> ('w, ops_reply) opsop" where
  "restart_app env i =
     and_then (load_app i) (\<lambda>ap.
     let project = compose_project (a_slug ap) in
     and_then (map_err (\<lambda>_. ops_error 500 ''could not restart stack'') (run_compose env (Compose_Restart project []))) (\<lambda>_.
     and_then (crash_reset_project env project) (\<lambda>_.
     and_then (proxy_sync env (a_id ap)) (\<lambda>_. ret (ops_ok ''restarted'')))))"

definition restart_service :: "'w ops_env \<Rightarrow> string \<Rightarrow> string \<Rightarrow> ('w, ops_reply) opsop" where
  "restart_service env i name =
     and_then (load_app i) (\<lambda>ap.
     let project = compose_project (a_slug ap) in
     and_then (map_err (\<lambda>_. ops_error 500 ''could not restart service'') (run_compose env (Compose_Restart project name))) (\<lambda>_.
     and_then (ignore (op_db (update_service_status (a_id ap) name St_Running None))) (\<lambda>_.
     and_then (crash_reset_service env project name) (\<lambda>_.
     and_then (proxy_sync env (a_id ap)) (\<lambda>_. ret (ops_ok ''restarted''))))))"

definition stop_service :: "'w ops_env \<Rightarrow> string \<Rightarrow> string \<Rightarrow> ('w, ops_reply) opsop" where
  "stop_service env i name =
     and_then (load_app i) (\<lambda>ap.
     and_then (map_err (\<lambda>_. ops_error 500 ''could not stop service'')
                 (run_compose env (Compose_Stop (compose_project (a_slug ap)) name))) (\<lambda>_.
     and_then (ignore (op_db (update_service_status (a_id ap) name St_Stopped None))) (\<lambda>_.
     and_then (proxy_sync env (a_id ap)) (\<lambda>_.
     and_then (log_audit (Audit_Key (a_id ap) ''service.stopped'' [(''service'', name)])) (\<lambda>_.
     ret (ops_ok ''stopped''))))))"

definition start_service :: "'w ops_env \<Rightarrow> string \<Rightarrow> string \<Rightarrow> ('w, ops_reply) opsop" where
  "start_service env i name =
     and_then (load_app i) (\<lambda>ap.
     let project = compose_project (a_slug ap) in
     and_then (map_err (\<lambda>_. ops_error 500 ''could not start service'') (run_compose env (Compose_Start project name))) (\<lambda>_.
     and_then (crash_reset_service env project name) (\<lambda>_.
     and_then (ignore (op_db (update_service_status (a_id ap) name St_Running None))) (\<lambda>_.
     and_then (proxy_sync env (a_id ap)) (\<lambda>_.
     and_then (log_audit (Audit_Key (a_id ap) ''service.started'' [(''service'', name)])) (\<lambda>_.
     ret (ops_ok ''started'')))))))"

section \<open>Services\<close>

definition to_service_dto :: "service \<Rightarrow> service_dto" where
  "to_service_dto v = \<lparr>vd_app = s_app v, vd_name = s_name v, vd_container = s_container v, vd_exposed = s_exposed_port v,
     vd_internal = s_internal_port v, vd_health = s_health_path v, vd_status = s_status v, vd_restarts = s_restarts v,
     vd_exit_code = s_exit_code v, vd_volumes = s_has_volumes v, vd_private = s_private v,
     vd_auth = s_requires_auth v, vd_guest = (s_guest_code v \<noteq> None)\<rparr>"

definition list_app_services :: "string \<Rightarrow> ('w, ops_reply) opsop" where
  "list_app_services i =
     and_then (map_err (\<lambda>_. ops_error 500 ''could not list services'') (op_db (list_services_for_app i))) (\<lambda>vs.
     ret (Ops_Reply 200 (Ops_Services (map to_service_dto vs))))"

record service_patch =
  sp_exposed :: "int option"
  sp_internal :: "int option"
  sp_health :: "string option"
  sp_private :: "bool option"
  sp_auth :: "bool option"

definition port_ok :: "int option \<Rightarrow> bool" where
  "port_ok p = (case p of None \<Rightarrow> True | Some n \<Rightarrow> 1 \<le> n \<and> n \<le> 65535)"

text \<open>describeServicePatch: the first field set, in this order.\<close>

definition describe_service_patch :: "string \<Rightarrow> service_patch \<Rightarrow> string" where
  "describe_service_patch name p =
     (case sp_internal p of Some n \<Rightarrow> ''set '' @ name @ '' internal port to '' @ show_int n | None \<Rightarrow>
      (case sp_health p of Some h \<Rightarrow> ''set '' @ name @ '' health path to '' @ h | None \<Rightarrow>
      (case sp_exposed p of Some n \<Rightarrow> ''set '' @ name @ '' exposed port to '' @ show_int n | None \<Rightarrow>
      (case sp_private p of Some b \<Rightarrow> (if b then ''made '' @ name @ '' private (no public route)'' else ''made '' @ name @ '' public'') | None \<Rightarrow>
      (case sp_auth p of Some b \<Rightarrow> (if b then ''put '' @ name @ '' behind VAC login'' else ''removed VAC login gate from '' @ name)
       | None \<Rightarrow> ''updated service '' @ name)))))"

definition patch_app_service :: "'w ops_env \<Rightarrow> string \<Rightarrow> string \<Rightarrow> service_patch option \<Rightarrow> ('w, ops_reply) opsop" where
  "patch_app_service env app name req =
     (case req of
        None \<Rightarrow> throw (ops_error 400 ''invalid json'')
      | Some p \<Rightarrow>
          if \<not> port_ok (sp_exposed p) then throw (ops_error 400 ''exposed_port must be 1..65535'')
          else if \<not> port_ok (sp_internal p) then throw (ops_error 400 ''internal_port must be 1..65535'')
          else and_then (map_err (\<lambda>e. if e = ErrNotFound then ops_error 404 ''service not found''
                            else ops_error 500 ''could not update service'')
                 (op_db (set_service_config app name (sp_exposed p) (sp_internal p) (sp_health p) (sp_private p) (sp_auth p)))) (\<lambda>v.
               and_then (if sp_internal p \<noteq> None \<or> sp_health p \<noteq> None \<or> sp_private p \<noteq> None \<or> sp_auth p \<noteq> None
                         then proxy_sync env app else ret ()) (\<lambda>_.
               and_then (log_audit (Audit_Summary app (describe_service_patch name p))) (\<lambda>_.
               ret (Ops_Reply 200 (Ops_Service (to_service_dto v)))))))"

end
