(* ===== verification/App_Settings.thy ===== *)
theory App_Settings
  imports Stack_Ops
begin

text \<open>
  The settings of an app: api/internal/server/handler/maintenance.go, ratelimit.go, scaletozero.go,
  deploy_window.go and guest_access.go, and Validate of api/internal/maintenance/maintenance.go. Each
  writes its columns, re-syncs the routes where they depend on them, and leaves an audit entry.
\<close>

section \<open>Maintenance\<close>

definition to_maintenance_dto :: "app \<Rightarrow> maintenance_dto" where
  "to_maintenance_dto a = \<lparr>md_enabled = a_maintenance_mode a, md_auto = a_maintenance_auto a,
     md_active = a_maintenance_active a, md_custom = (a_maintenance_html a \<noteq> None)\<rparr>"

definition get_maintenance :: "string \<Rightarrow> ('w, ops_reply) opsop" where
  "get_maintenance i = and_then (load_app i) (\<lambda>ap. ret (Ops_Reply 200 (Ops_Maintenance (to_maintenance_dto ap))))"

definition reload_app :: "string \<Rightarrow> ('w, app) opsop" where
  "reload_app i = map_err (\<lambda>_. ops_error 500 ''could not load app'') (op_db (get_app i))"

definition set_maintenance :: "'w ops_env \<Rightarrow> string \<Rightarrow> (bool \<times> bool) option \<Rightarrow> ('w, ops_reply) opsop" where
  "set_maintenance env i req =
     and_then (load_app i) (\<lambda>ap.
     case req of
       None \<Rightarrow> throw (ops_error 400 ''invalid json'')
     | Some (enabled, auto) \<Rightarrow>
         and_then (map_err (\<lambda>_. ops_error 500 ''could not update maintenance'')
                     (op_db (set_app_maintenance (a_id ap) enabled auto))) (\<lambda>_.
         and_then (proxy_sync env (a_id ap)) (\<lambda>_.
         and_then (log_audit (Audit_Key (a_id ap) (if enabled then ''maintenance.enabled'' else ''maintenance.disabled'') [])) (\<lambda>_.
         and_then (reload_app (a_id ap)) (\<lambda>new. ret (Ops_Reply 200 (Ops_Maintenance (to_maintenance_dto new))))))))"

definition get_maintenance_page :: "'w ops_env \<Rightarrow> string \<Rightarrow> ('w, ops_reply) opsop" where
  "get_maintenance_page env i = and_then (load_app i) (\<lambda>ap.
     ret (Ops_Reply 200 (Ops_Page (render_maintenance (pm_default_html (oe_manager env)) (a_maintenance_html ap))
       (a_maintenance_html ap = None))))"

text \<open>utf8.ValidString: no overlong form, no surrogate, nothing beyond U+10FFFF.\<close>

definition cont_byte :: "nat \<Rightarrow> bool" where
  "cont_byte n = (128 \<le> n \<and> n \<le> 191)"

fun utf8_ok :: "nat list \<Rightarrow> bool" where
  "utf8_ok [] = True"
| "utf8_ok (a # s) =
     (if a < 128 then utf8_ok s
      else if 194 \<le> a \<and> a \<le> 223 then (case s of b # t \<Rightarrow> cont_byte b \<and> utf8_ok t | _ \<Rightarrow> False)
      else if 224 \<le> a \<and> a \<le> 239
        then (case s of b # c # t \<Rightarrow> cont_byte b \<and> (a = 224 \<longrightarrow> 160 \<le> b) \<and> (a = 237 \<longrightarrow> b \<le> 159) \<and> cont_byte c \<and> utf8_ok t
              | _ \<Rightarrow> False)
      else if 240 \<le> a \<and> a \<le> 244
        then (case s of b # c # d # t \<Rightarrow> cont_byte b \<and> (a = 240 \<longrightarrow> 144 \<le> b) \<and> (a = 244 \<longrightarrow> b \<le> 143) \<and> cont_byte c \<and> cont_byte d \<and> utf8_ok t
              | _ \<Rightarrow> False)
      else False)"

definition valid_utf8 :: "string \<Rightarrow> bool" where
  "valid_utf8 s = utf8_ok (map of_char s)"

definition max_html_bytes :: nat where
  "max_html_bytes = 64 * 1024"

datatype page_err = Page_Too_Large | Page_Empty | Page_Not_Utf8

definition page_err_text :: "page_err \<Rightarrow> string" where
  "page_err_text e = (case e of Page_Too_Large \<Rightarrow> ''maintenance page exceeds 64 KB''
     | Page_Empty \<Rightarrow> ''maintenance page is empty'' | Page_Not_Utf8 \<Rightarrow> ''maintenance page is not valid UTF-8'')"

definition validate_page :: "string \<Rightarrow> page_err option" where
  "validate_page html =
     (if trim_space html = [] then Some Page_Empty
      else if length html > max_html_bytes then Some Page_Too_Large
      else if \<not> valid_utf8 html then Some Page_Not_Utf8 else None)"

text \<open>The re-sync of a live page, and the entry.\<close>

definition page_written :: "'w ops_env \<Rightarrow> app \<Rightarrow> string \<Rightarrow> ('w, unit) opsop" where
  "page_written env ap key =
     and_then (if a_maintenance_active ap then proxy_sync env (a_id ap) else ret ()) (\<lambda>_.
     log_audit (Audit_Key (a_id ap) key []))"

definition put_maintenance_page :: "'w ops_env \<Rightarrow> string \<Rightarrow> string option \<Rightarrow> ('w, ops_reply) opsop" where
  "put_maintenance_page env i req =
     and_then (load_app i) (\<lambda>ap.
     case req of
       None \<Rightarrow> throw (ops_error 400 ''invalid json'')
     | Some html \<Rightarrow>
         (case validate_page html of
            Some e \<Rightarrow> throw (ops_error (if e = Page_Too_Large then 413 else 400) (page_err_text e))
          | None \<Rightarrow>
              and_then (map_err (\<lambda>_. ops_error 500 ''could not save maintenance page'')
                          (op_db (set_app_maintenance_html (a_id ap) (Some html)))) (\<lambda>_.
              and_then (page_written env ap ''maintenance.page_updated'') (\<lambda>_.
              ret (Ops_Reply 200 (Ops_Page html False))))))"

definition delete_maintenance_page :: "'w ops_env \<Rightarrow> string \<Rightarrow> ('w, ops_reply) opsop" where
  "delete_maintenance_page env i =
     and_then (load_app i) (\<lambda>ap.
     and_then (map_err (\<lambda>_. ops_error 500 ''could not reset maintenance page'')
                 (op_db (set_app_maintenance_html (a_id ap) None))) (\<lambda>_.
     and_then (page_written env ap ''maintenance.page_reset'') (\<lambda>_.
     ret (Ops_Reply 200 (Ops_Page (pm_default_html (oe_manager env)) True)))))"

section \<open>Rate limit and idle suspension\<close>

definition max_rate_limit_rpm :: int where
  "max_rate_limit_rpm = 1000000"

text \<open>Both settings: nothing unless positive, and at most the cap.\<close>

definition clamp_setting :: "int \<Rightarrow> int option \<Rightarrow> int option" where
  "clamp_setting cap req = (case req of None \<Rightarrow> None | Some n \<Rightarrow> if n > 0 then Some (min n cap) else None)"

definition get_rate_limit :: "string \<Rightarrow> ('w, ops_reply) opsop" where
  "get_rate_limit i = and_then (load_app i) (\<lambda>ap. ret (Ops_Reply 200 (Ops_Rate (a_rate_limit ap))))"

definition set_rate_limit :: "'w ops_env \<Rightarrow> string \<Rightarrow> int option option \<Rightarrow> ('w, ops_reply) opsop" where
  "set_rate_limit env i req =
     and_then (load_app i) (\<lambda>ap.
     case req of
       None \<Rightarrow> throw (ops_error 400 ''invalid json'')
     | Some v \<Rightarrow>
         let rpm = clamp_setting max_rate_limit_rpm v in
         and_then (map_err (\<lambda>_. ops_error 500 ''could not update rate limit'') (op_db (set_app_rate_limit (a_id ap) rpm))) (\<lambda>_.
         and_then (proxy_sync env (a_id ap)) (\<lambda>_.
         and_then (log_audit (case rpm of Some n \<Rightarrow> Audit_Key (a_id ap) ''ratelimit.set'' [(''rpm'', show_int n)]
                              | None \<Rightarrow> Audit_Key (a_id ap) ''ratelimit.cleared'' [])) (\<lambda>_.
         ret (Ops_Reply 200 (Ops_Rate rpm))))))"

definition max_idle_timeout_minutes :: int where
  "max_idle_timeout_minutes = 30 * 24 * 60"

definition to_idle_dto :: "app \<Rightarrow> idle_dto" where
  "to_idle_dto a = \<lparr>id_enabled = a_idle_suspend a, id_timeout = a_idle_timeout a, id_suspended = a_suspended a,
     id_last_traffic = a_last_traffic a\<rparr>"

definition get_idle_suspend :: "string \<Rightarrow> ('w, ops_reply) opsop" where
  "get_idle_suspend i = and_then (load_app i) (\<lambda>ap. ret (Ops_Reply 200 (Ops_Idle (to_idle_dto ap))))"

definition set_idle_suspend :: "string \<Rightarrow> (bool \<times> int option) option \<Rightarrow> ('w, ops_reply) opsop" where
  "set_idle_suspend i req =
     and_then (load_app i) (\<lambda>ap.
     case req of
       None \<Rightarrow> throw (ops_error 400 ''invalid json'')
     | Some (enabled, minutes) \<Rightarrow>
         and_then (map_err (\<lambda>_. ops_error 500 ''could not update idle-suspend'')
                     (op_db (set_idle_suspend_config (a_id ap) enabled (clamp_setting max_idle_timeout_minutes minutes)))) (\<lambda>_.
         and_then (log_audit (Audit_Key (a_id ap) (if enabled then ''idle_suspend.enabled'' else ''idle_suspend.disabled'') [])) (\<lambda>_.
         and_then (reload_app (a_id ap)) (\<lambda>new. ret (Ops_Reply 200 (Ops_Idle (to_idle_dto new)))))))"

section \<open>Deploy windows\<close>

definition get_deploy_window :: "'w ops_env \<Rightarrow> string \<Rightarrow> ('w, ops_reply) opsop" where
  "get_deploy_window env i = and_then (load_app i) (\<lambda>ap.
     ret (Ops_Reply 200 (Ops_Windows (case parse_windows (oe_unmarshal env) (a_deploy_window ap) of
       Inl _ \<Rightarrow> [] | Inr ws \<Rightarrow> ws))))"

definition put_deploy_window :: "'w ops_env \<Rightarrow> string \<Rightarrow> window list option \<Rightarrow> ('w, ops_reply) opsop" where
  "put_deploy_window env i req =
     and_then (load_app i) (\<lambda>ap.
     case req of
       None \<Rightarrow> throw (ops_error 400 ''invalid json'')
     | Some ws \<Rightarrow>
         (case validate_windows (oe_zone env) ws of
            Some e \<Rightarrow> throw (ops_error 400 e)
          | None \<Rightarrow>
              (case (if ws = [] then Some [] else oe_marshal env ws) of
                 None \<Rightarrow> throw (ops_error 500 ''could not encode windows'')
               | Some raw \<Rightarrow>
                   and_then (map_err (\<lambda>_. ops_error 500 ''could not save deploy window'')
                               (op_db (set_app_deploy_window (a_id ap) raw))) (\<lambda>_.
                   and_then (log_audit (Audit_Key (a_id ap) (if ws = [] then ''deploy_window.cleared'' else ''deploy_window.updated'') [])) (\<lambda>_.
                   ret (Ops_Reply 200 (Ops_Windows ws)))))))"

section \<open>Shared access codes\<close>

definition guest_access_min_len :: nat where
  "guest_access_min_len = 6"

definition service_lookup_error :: "string \<Rightarrow> store_err \<Rightarrow> ops_reply" where
  "service_lookup_error msg e = (if e = ErrNotFound then ops_error 404 ''service not found'' else ops_error 500 msg)"

definition has_code :: "string option \<Rightarrow> bool" where
  "has_code c = (case c of None \<Rightarrow> False | Some s \<Rightarrow> s \<noteq> [])"

definition get_guest_access :: "string \<Rightarrow> string \<Rightarrow> ('w, ops_reply) opsop" where
  "get_guest_access app name =
     and_then (map_err (service_lookup_error ''could not load guest access'') (op_db (get_service_guest_code app name))) (\<lambda>c.
     ret (Ops_Reply 200 (Ops_Enabled (has_code c))))"

definition set_guest_access :: "'w ops_env \<Rightarrow> string \<Rightarrow> string \<Rightarrow> string option \<Rightarrow> ('w, ops_reply) opsop" where
  "set_guest_access env app name req =
     (case oe_box env of
        None \<Rightarrow> throw (ops_error 503 ''VAC_MASTER_KEY not configured; the access code cannot be encrypted'')
      | Some (seal, unseal) \<Rightarrow>
          (case req of
             None \<Rightarrow> throw (ops_error 400 ''invalid json'')
           | Some raw \<Rightarrow>
               let code = trim_space raw in
               if length code < guest_access_min_len then throw (ops_error 400 ''access code must be at least 6 characters'')
               else case seal code of
                 None \<Rightarrow> throw (ops_error 500 ''could not encrypt access code'')
               | Some enc \<Rightarrow>
                   and_then (map_err (service_lookup_error ''could not save access code'')
                               (op_db (set_service_guest_code app name (Some enc)))) (\<lambda>_.
                   and_then (log_audit (Audit_Summary app (''set shared access code for '' @ name))) (\<lambda>_.
                   ret (Ops_Reply 200 (Ops_Enabled True))))))"

definition delete_guest_access :: "string \<Rightarrow> string \<Rightarrow> ('w, ops_reply) opsop" where
  "delete_guest_access app name =
     and_then (map_err (service_lookup_error ''could not clear access code'') (op_db (set_service_guest_code app name None))) (\<lambda>_.
     and_then (log_audit (Audit_Summary app (''removed shared access code for '' @ name))) (\<lambda>_.
     ret (Ops_Reply 200 (Ops_Count 1))))"

definition reveal_guest_access :: "'w ops_env \<Rightarrow> string \<Rightarrow> string \<Rightarrow> ('w, ops_reply) opsop" where
  "reveal_guest_access env app name =
     (case oe_box env of
        None \<Rightarrow> throw (ops_error 503 ''VAC_MASTER_KEY not configured'')
      | Some (seal, unseal) \<Rightarrow>
          and_then (map_err (service_lookup_error ''could not load access code'') (op_db (get_service_guest_code app name))) (\<lambda>c.
          if \<not> has_code c then throw (ops_error 404 ''no access code set'')
          else case unseal (the c) of
            None \<Rightarrow> throw (ops_error 500 ''could not decrypt access code'')
          | Some code \<Rightarrow> ret (Ops_Reply 200 (Ops_Code code))))"

end
