(* ===== verification/Proxy_Frame.thy ===== *)
theory Proxy_Frame
  imports Proxy_Converge
begin

text \<open>
  What the route manager leaves alone, whatever fails: its projections of an app, its waits and its host
  lookups change no row of a table. Used by the lifecycle operations that call the manager.
\<close>

definition frame :: "tables \<Rightarrow> (nat \<Rightarrow> bool) \<Rightarrow> 'w pxst \<Rightarrow> bool" where
  "frame T F s = (tbl (px_dom s) = T \<and> db_fault (dm_db (px_dom s)) = F)"

lemma frame_do: "keeps (frame T F) (client_do api q)"
  by (auto simp: keeps_def client_do_def frame_def split: prod.split)

lemma frame_client:
  "keeps (frame T F) (get_routes api)" "keeps (frame T F) (upstreams api)" "keeps (frame T F) (client_load api cfg)"
  "keeps (frame T F) (delete_route api i)" "keeps (frame T F) (put_route api i r)" "keeps (frame T F) (put_cert_set api cs)"
  unfolding client_defs by (intro vac_wp frame_do)+

lemma frame_px: "keeps (frame T F) (px_status m h d)" "keeps (frame T F) (px_docker m c)"
  unfolding px_status_def by (intro keeps_act) (auto simp: keeps_def px_docker_def frame_def split: prod.split option.split)

lemma frame_store: "is_read q g \<Longrightarrow> keeps (frame T F) (px_store m q)"
  unfolding keeps_def px_store_result by (simp add: is_read_def frame_def)

lemmas frame_reads = frame_store [OF read_get_app] frame_store [OF read_list_apps] frame_store [OF read_services]
  frame_store [OF read_domains] frame_store [OF read_all_domains]

lemma frame_certs: "keeps (frame T F) (push_certs m)"
proof -
  obtain g where "is_read list_uploaded_certs (\<lambda>T. Inr (g T) :: store_err + uploaded_cert list)"
    using read_certs by blast
  then show ?thesis
    unfolding push_certs_def desired_certs_def by (intro vac_wp frame_client frame_store)
qed

lemma frame_base: "keeps (frame T F) (ensure_base_config m)" "keeps (frame T F) (ensure_network m)"
    "keeps (frame T F) (detach_all m svcs)"
  unfolding ensure_base_config_def ensure_network_def detach_all_def
  by (intro vac_wp frame_client frame_px keeps_collect_each keeps_collect)+

lemma frame_push: "keeps (frame T F) (push_route m lab sp r)"
  unfolding push_route_def by (intro vac_wp frame_client frame_px)

lemma frame_apply_spec: "keeps (frame T F) (apply_spec m ap svcs att sp)"
  unfolding apply_spec_def by (intro vac_wp frame_push frame_client frame_px keeps_collect)

lemma frame_apply_specs: "keeps (frame T F) (apply_specs m ap svcs att sps)"
  by (induction sps arbitrary: att) (auto intro!: vac_wp frame_apply_spec)

lemma frame_apply_app: "keeps (frame T F) (apply_app m i)"
  unfolding apply_app_def Let_def
  by (intro vac_wp frame_reads keeps_collect_each frame_push frame_apply_specs keeps_join_errs)

lemma frame_auto_hosts: "keeps (frame T F) (auto_hosts m)"
proof -
  have "keeps (frame T F) (auto_hosts_of m aps)" for aps
    by (induction aps) (auto intro!: vac_wp frame_reads)
  then show ?thesis unfolding auto_hosts_def by (intro vac_wp frame_reads)
qed

lemma frame_prune: "keeps (frame T F) (prune_orphans m)"
  unfolding prune_orphans_def
  by (intro vac_wp frame_reads frame_auto_hosts frame_client keeps_collect_each keeps_collect keeps_join_errs)

lemma frame_control: "keeps (frame T F) (apply_control_route m)"
  unfolding apply_control_route_def by (intro vac_wp frame_client)

lemma frame_sync: "keeps (frame T F) (sync m i)"
  unfolding sync_def
  by (intro vac_wp frame_base frame_apply_app frame_control frame_prune frame_certs keeps_collect keeps_join_errs)

lemma frame_teardown: "keeps (frame T F) (teardown m i)"
  unfolding teardown_def
  by (intro vac_wp frame_reads frame_base frame_client keeps_collect_each keeps_join_errs)

lemma frame_wake_routes: "keeps (frame T F) (install_wake_routes m i)"
  unfolding install_wake_routes_def
  by (intro vac_wp frame_reads frame_base frame_client keeps_collect_each keeps_collect keeps_join_errs)

lemma frame_host: "keeps (frame T F) (app_id_for_host m h)"
  unfolding app_id_for_host_def Let_def by (intro vac_wp frame_reads frame_auto_hosts)

lemma frame_wait: "keeps (frame T F) (wait_healthy m wt i)"
proof -
  have "keeps (frame T F) (wait_loop m wt want interval deadline left n now)" for want interval deadline left n now
    by (induction left arbitrary: n now)
       (auto intro!: vac_wp frame_client simp: all_healthy_def Let_def)
  then show ?thesis unfolding wait_healthy_def Let_def by (intro vac_wp frame_reads)
qed

lemma frameD: "keeps (frame T F) q \<Longrightarrow> frame T F s \<Longrightarrow> q s = (r, s') \<Longrightarrow> frame T F s'"
  using keepsD [of "frame T F" q s] by simp

end
