(* ===== verification/Scale_To_Zero.thy ===== *)
theory Scale_To_Zero
  imports App_Settings Proxy_Frame
begin

text \<open>
  Scale to zero: api/internal/scaletozero/waker.go and sweeper.go, api/internal/store/scaletozero.go,
  LastTrafficSince of request_metrics.go, and the wake endpoint of api/internal/server/handler/wake.go.
  Suspend and Wake are one function each; for what concurrent callers see, each is also cut into the phases
  between which other goroutines run, and the waker is a step relation over them. The column updated_at,
  which only the sweeper reads, is an argument.
\<close>

section \<open>The in-flight guard\<close>

definition acquire :: "string \<Rightarrow> string set \<Rightarrow> bool \<times> string set" where
  "acquire i fl = (if i \<in> fl then (False, fl) else (True, insert i fl))"

definition release :: "string \<Rightarrow> string set \<Rightarrow> string set" where
  "release i fl = fl - {i}"

interpretation waker_flights: flight_guard acquire release "\<lambda>fl. fl"
  by unfold_locales (simp_all add: acquire_def release_def)

section \<open>Suspending\<close>

text \<open>What the package's store errors say is the manager's \<open>pm_err_text\<close>.\<close>

definition sz_db :: "'w ops_env \<Rightarrow> 'a dbop \<Rightarrow> ('w ops, string, 'a) sem" where
  "sz_db env q = map_err (pm_err_text (oe_manager env)) (op_db q)"

definition prefixed :: "string \<Rightarrow> ('w ops, string, 'a) sem \<Rightarrow> ('w ops, string, 'a) sem" where
  "prefixed pre = map_err (\<lambda>e. pre @ e)"

definition mark_services :: "string \<Rightarrow> stack_status \<Rightarrow> ('w ops, string, unit) sem" where
  "mark_services app status =
     and_then (attempt (op_db (list_services_for_app app))) (\<lambda>r.
     case r of Inl _ \<Rightarrow> ret ()
     | Inr vs \<Rightarrow> for_each vs (\<lambda>v. ignore (op_db (update_service_status app (s_name v) status None))))"

text \<open>The re-validation: is the app still up, and idle since the decision?\<close>

definition still_idle :: "instant \<Rightarrow> app \<Rightarrow> bool" where
  "still_idle decided fresh = (\<not> a_suspended fresh
     \<and> \<not> (case a_last_traffic fresh of Some t \<Rightarrow> t > decided | None \<Rightarrow> False))"

definition suspend_body :: "'w ops_env \<Rightarrow> app \<Rightarrow> instant \<Rightarrow> ('w ops, string, unit) sem" where
  "suspend_body env ap decided =
     and_then (sz_db env (get_app (a_id ap))) (\<lambda>fresh.
     if \<not> still_idle decided fresh then ret ()
     else
       and_then (prefixed (''suspend '' @ a_slug ap @ '': stop stack: '')
                   (run_compose env (Compose_Stop (compose_project (a_slug ap)) []))) (\<lambda>_.
       and_then (prefixed (''suspend '' @ a_slug ap @ '': mark suspended: '')
                   (sz_db env (set_app_suspended (a_id ap) True))) (\<lambda>_.
       and_then (mark_services (a_id ap) St_Stopped) (\<lambda>_.
       prefixed (''suspend '' @ a_slug ap @ '': install wake routes: '')
         (op_route (install_wake_routes (oe_manager env) (a_id ap)))))))"

text \<open>Acquire, the body, and the deferred release.\<close>

definition in_flight :: "string \<Rightarrow> ('w ops, 'e, 'a) sem \<Rightarrow> ('w ops, 'e, 'a) sem \<Rightarrow> ('w ops, 'e, 'a) sem" where
  "in_flight i refused body = (\<lambda>s. case acquire i (op_flight s) of
     (False, fl) \<Rightarrow> refused (s\<lparr>op_flight := fl\<rparr>)
   | (True, fl) \<Rightarrow> (case body (s\<lparr>op_flight := fl\<rparr>) of
       (r, s') \<Rightarrow> (r, s'\<lparr>op_flight := release i (op_flight s')\<rparr>)))"

definition suspend :: "'w ops_env \<Rightarrow> app \<Rightarrow> instant \<Rightarrow> ('w ops, string, unit) sem" where
  "suspend env ap decided = in_flight (a_id ap) (ret ()) (suspend_body env ap decided)"

section \<open>Waking\<close>

definition err_waking :: string where
  "err_waking = ''scaletozero: wake already in progress''"

definition wake_body :: "'w ops_env \<Rightarrow> wait_env \<Rightarrow> instant \<Rightarrow> string \<Rightarrow> ('w ops, string, unit) sem" where
  "wake_body env wt now i =
     and_then (sz_db env (get_app i)) (\<lambda>ap.
     if \<not> a_suspended ap then ret ()
     else
       and_then (prefixed (''wake '' @ a_slug ap @ '': start stack: '')
                   (run_compose env (Compose_Start (compose_project (a_slug ap)) []))) (\<lambda>_.
       and_then (prefixed (''wake '' @ a_slug ap @ '': clear suspended: '')
                   (sz_db env (set_app_suspended i False))) (\<lambda>_.
       and_then (mark_services i St_Running) (\<lambda>_.
       and_then (prefixed (''wake '' @ a_slug ap @ '': sync routes: '') (op_route (sync (oe_manager env) i))) (\<lambda>_.
       and_then (prefixed (''wake '' @ a_slug ap @ '': '') (op_route (wait_healthy (oe_manager env) wt i))) (\<lambda>_.
       ignore (op_db (set_last_traffic i now))))))))"

text \<open>A refused caller gets ErrWaking, which no error of the body equals; it is the constructor Inl None.\<close>

definition wake :: "'w ops_env \<Rightarrow> wait_env \<Rightarrow> instant \<Rightarrow> string \<Rightarrow> ('w ops, string option, unit) sem" where
  "wake env wt now i = in_flight i (throw None) (map_err Some (wake_body env wt now i))"

section \<open>The sweeper\<close>

record sweeper =
  sw_interval :: duration
  sw_timeout :: duration
  sw_grace :: duration

definition new_sweeper :: "duration \<Rightarrow> duration \<Rightarrow> sweeper" where
  "new_sweeper interval timeout =
     \<lparr>sw_interval = (if interval \<le> 0 then minute else interval),
      sw_timeout = (if timeout \<le> 0 then 15 * minute else timeout), sw_grace = 30 * second\<rparr>"

text \<open>The other tables it reads: the buckets of request_metrics and, for an app, whether a scheduled job
  and a backup configuration are enabled.\<close>

record 'w sweep_state =
  ss_ops :: "'w ops"
  ss_buckets :: "(string \<times> instant) list"
  ss_jobs :: "(string \<times> bool) list"
  ss_backups :: "(string \<times> bool) list"

definition ss_db :: "'a dbop \<Rightarrow> ('w sweep_state, store_err, 'a) sem" where
  "ss_db q = (\<lambda>s. case op_db q (ss_ops s) of (r, x) \<Rightarrow> (r, s\<lparr>ss_ops := x\<rparr>))"

definition idle_suspend_eligible :: "(string \<times> bool) list \<Rightarrow> (string \<times> bool) list \<Rightarrow> app \<Rightarrow> bool" where
  "idle_suspend_eligible jobs backups a = (a_idle_suspend a \<and> \<not> a_suspended a \<and> a_status a = St_Running
     \<and> \<not> a_is_preview a \<and> a_source a \<noteq> ''template''
     \<and> (a_id a, True) \<notin> set jobs \<and> (a_id a, True) \<notin> set backups)"

definition list_idle_suspend_apps :: "('w sweep_state, store_err, app list) sem" where
  "list_idle_suspend_apps = (\<lambda>s. ss_db (db_call (\<lambda>d.
     (Inr (filter (idle_suspend_eligible (ss_jobs s) (ss_backups s)) (apps d)), d))) s)"

definition last_traffic_since :: "string \<Rightarrow> ('w sweep_state, store_err, instant option) sem" where
  "last_traffic_since i = (\<lambda>s. let ts = map snd (filter (\<lambda>b. fst b = i) (ss_buckets s)) in
     ss_db (db_call (\<lambda>d. (Inr (if ts = [] then None else Some (Max (set ts))), d))) s)"

definition idle_window :: "sweeper \<Rightarrow> app \<Rightarrow> duration" where
  "idle_window sw ap = (case a_idle_timeout ap of
     Some n \<Rightarrow> if n > 0 then dur_mul n minute else sw_timeout sw
   | None \<Rightarrow> sw_timeout sw)"

text \<open>One turn of the loop; the result says whether the app is to be suspended.\<close>

definition tick_app :: "sweeper \<Rightarrow> instant \<Rightarrow> (string \<Rightarrow> instant) \<Rightarrow> app \<Rightarrow> ('w sweep_state, store_err, app list) sem" where
  "tick_app sw now updated ap =
     and_then (attempt (last_traffic_since (a_id ap))) (\<lambda>r.
     case r of
       Inl _ \<Rightarrow> ret []
     | Inr idle \<Rightarrow>
         let since = (case idle of Some t \<Rightarrow> t | None \<Rightarrow> updated (a_id ap)) in
         if time_sub now since < wrap64 (idle_window sw ap + sw_grace sw) then ret []
         else and_then (case idle of Some t \<Rightarrow> ignore (ss_db (set_last_traffic (a_id ap) t)) | None \<Rightarrow> ret ()) (\<lambda>_.
              ret [ap]))"

fun tick_apps ::
  "sweeper \<Rightarrow> instant \<Rightarrow> (string \<Rightarrow> instant) \<Rightarrow> app list \<Rightarrow> ('w sweep_state, store_err, app list) sem" where
  "tick_apps sw now updated [] = ret []"
| "tick_apps sw now updated (ap # aps) =
     and_then (tick_app sw now updated ap) (\<lambda>xs. and_then (tick_apps sw now updated aps) (\<lambda>ys. ret (xs @ ys)))"

text \<open>A tick; the result lists the goroutines it starts, each a call of Suspend with the tick's time.\<close>

definition sweep_tick ::
  "sweeper \<Rightarrow> instant \<Rightarrow> (string \<Rightarrow> instant) \<Rightarrow> ('w sweep_state, store_err, (app \<times> instant) list) sem" where
  "sweep_tick sw now updated =
     and_then (attempt list_idle_suspend_apps) (\<lambda>r.
     case r of Inl _ \<Rightarrow> ret []
     | Inr aps \<Rightarrow> and_then (tick_apps sw now updated aps) (\<lambda>xs. ret (map (\<lambda>a. (a, now)) xs)))"

section \<open>The wake endpoint\<close>

text \<open>wakeTarget, and guardSafePath of guard.go, which mirrors it.\<close>

definition safe_path :: "string \<Rightarrow> string" where
  "safe_path uri =
     (let u = takeWhile (\<lambda>c. c \<noteq> CHR '' '' \<and> c \<noteq> CHR 0x09 \<and> c \<noteq> CHR 0x0D \<and> c \<noteq> CHR 0x0A) uri
      in if u = [] \<or> hd u \<noteq> CHR ''/'' \<or> has_prefix u ''//'' then ''/'' else u)"

definition wake_target :: "string \<Rightarrow> string \<Rightarrow> string" where
  "wake_target host uri = ''https://'' @ host @ safe_path uri"

definition host_only :: "string \<Rightarrow> string" where
  "host_only host = to_lower (before_byte CHR '':'' (trim_space host))"

record wake_request =
  wq_method :: string
  wq_token :: string
  wq_wake_host :: string
  wq_wake_uri :: string
  wq_host :: string

datatype wake_reply = Wake_Plain int string | Wake_Bare int | Wake_Page int string | Wake_Redirect string

definition wake_host :: "wake_request \<Rightarrow> string" where
  "wake_host q = (let h = to_lower (trim_space (wq_wake_host q)) in if h = [] then host_only (wq_host q) else h)"

definition ellipsis :: string where
  "ellipsis = [CHR 0xE2, CHR 0x80, CHR 0xA6]"

definition wake_app ::
  "'w ops_env \<Rightarrow> wait_env \<Rightarrow> instant \<Rightarrow> bool \<Rightarrow> string \<Rightarrow> wake_request \<Rightarrow> ('w ops, wake_reply, wake_reply) sem" where
  "wake_app env wt now enabled token q =
     (if \<not> enabled then throw (Wake_Plain 404 ''scale-to-zero not enabled'')
      else if token \<noteq> [] \<and> wq_token q \<noteq> token then throw (Wake_Bare 403)
      else
        and_then (attempt (op_route (app_id_for_host (oe_manager env) (wake_host q)))) (\<lambda>r.
        case r of
          Inr (Some i) \<Rightarrow>
            and_then (attempt (wake env wt now i)) (\<lambda>w.
            ret (case w of
                Inr _ \<Rightarrow> if wq_method q = ''GET'' \<or> wq_method q = ''HEAD''
                         then Wake_Redirect (wake_target (wake_host q) (wq_wake_uri q))
                         else Wake_Page 503 (''The app is awake '' @ em_dash @ '' retrying your request'' @ ellipsis)
              | Inl None \<Rightarrow> Wake_Page 503 (''Waking the app'' @ ellipsis)
              | Inl (Some _) \<Rightarrow> Wake_Page 502 (''The app didn'' @ [CHR 0x27] @ ''t come up. Retrying'' @ ellipsis)))
        | _ \<Rightarrow> ret (Wake_Page 502 (''We couldn'' @ [CHR 0x27] @ ''t find that app.''))))"

definition wake_serve :: "('w ops, wake_reply, wake_reply) sem \<Rightarrow> 'w ops \<Rightarrow> wake_reply \<times> 'w ops" where
  "wake_serve h s = (case h s of (Inl r, s') \<Rightarrow> (r, s') | (Inr r, s') \<Rightarrow> (r, s'))"

end
