(* ===== verification/Scale_Safety.thy ===== *)
theory Scale_Safety
  imports Scale_To_Zero
begin

text \<open>
  Facts about suspension and wake: concurrent transitions of an app refine a sequential automaton; the
  sweeper picks idle, eligible apps only; a wake whose route sync fails is never retried.
\<close>

section \<open>Phases\<close>

datatype phase =
    Sus_Check app instant | Sus_Stop app | Sus_Mark app | Sus_Services app | Sus_Routes app
  | Wak_Check string | Wak_Start app string | Wak_Clear app string | Wak_Services app string
  | Wak_Sync app string | Wak_Health app string | Wak_Stamp app string

text \<open>What a goroutine does before others may run: nothing to follow, or the next phase.\<close>

definition phase_step :: "'w ops_env \<Rightarrow> wait_env \<Rightarrow> instant \<Rightarrow> phase \<Rightarrow> ('w ops, string, phase option) sem" where
  "phase_step env wt now p = (case p of
     Sus_Check ap t \<Rightarrow> and_then (sz_db env (get_app (a_id ap))) (\<lambda>fresh.
        ret (if still_idle t fresh then Some (Sus_Stop ap) else None))
   | Sus_Stop ap \<Rightarrow> and_then (prefixed (''suspend '' @ a_slug ap @ '': stop stack: '')
        (run_compose env (Compose_Stop (compose_project (a_slug ap)) []))) (\<lambda>_. ret (Some (Sus_Mark ap)))
   | Sus_Mark ap \<Rightarrow> and_then (prefixed (''suspend '' @ a_slug ap @ '': mark suspended: '')
        (sz_db env (set_app_suspended (a_id ap) True))) (\<lambda>_. ret (Some (Sus_Services ap)))
   | Sus_Services ap \<Rightarrow> and_then (mark_services (a_id ap) St_Stopped) (\<lambda>_. ret (Some (Sus_Routes ap)))
   | Sus_Routes ap \<Rightarrow> and_then (prefixed (''suspend '' @ a_slug ap @ '': install wake routes: '')
        (op_route (install_wake_routes (oe_manager env) (a_id ap)))) (\<lambda>_. ret None)
   | Wak_Check i \<Rightarrow> and_then (sz_db env (get_app i)) (\<lambda>ap. ret (if a_suspended ap then Some (Wak_Start ap i) else None))
   | Wak_Start ap i \<Rightarrow> and_then (prefixed (''wake '' @ a_slug ap @ '': start stack: '')
        (run_compose env (Compose_Start (compose_project (a_slug ap)) []))) (\<lambda>_. ret (Some (Wak_Clear ap i)))
   | Wak_Clear ap i \<Rightarrow> and_then (prefixed (''wake '' @ a_slug ap @ '': clear suspended: '')
        (sz_db env (set_app_suspended i False))) (\<lambda>_. ret (Some (Wak_Services ap i)))
   | Wak_Services ap i \<Rightarrow> and_then (mark_services i St_Running) (\<lambda>_. ret (Some (Wak_Sync ap i)))
   | Wak_Sync ap i \<Rightarrow> and_then (prefixed (''wake '' @ a_slug ap @ '': sync routes: '') (op_route (sync (oe_manager env) i)))
        (\<lambda>_. ret (Some (Wak_Health ap i)))
   | Wak_Health ap i \<Rightarrow> and_then (prefixed (''wake '' @ a_slug ap @ '': '') (op_route (wait_healthy (oe_manager env) wt i)))
        (\<lambda>_. ret (Some (Wak_Stamp ap i)))
   | Wak_Stamp ap i \<Rightarrow> and_then (ignore (op_db (set_last_traffic i now))) (\<lambda>_. ret None))"

text \<open>The code that remains at a phase.\<close>

definition follow :: "(phase \<Rightarrow> ('w ops, string, unit) sem) \<Rightarrow> phase option \<Rightarrow> ('w ops, string, unit) sem" where
  "follow f q = (case q of None \<Rightarrow> ret () | Some p \<Rightarrow> f p)"

fun run_for :: "nat \<Rightarrow> 'w ops_env \<Rightarrow> wait_env \<Rightarrow> instant \<Rightarrow> phase \<Rightarrow> ('w ops, string, unit) sem" where
  "run_for 0 env wt now p = ret ()"
| "run_for (Suc n) env wt now p = and_then (phase_step env wt now p) (follow (run_for n env wt now))"

lemma if_negated: "(if \<not> b then x else y) = (if b then y else x)"
  by simp

lemma follow_simps [simp]:
  "follow f None = ret ()" "follow f (Some p) = f p"
  "follow f (if b then x else y) = (if b then follow f x else follow f y)"
  by (simp_all add: follow_def)

text \<open>Run without interruption, the phases are the functions of the code: five and seven of them.\<close>

lemma suspend_phases: "suspend_body env ap t = run_for 5 env wt now (Sus_Check ap t)"
  by (simp add: suspend_body_def numeral_eq_Suc phase_step_def and_then_assoc if_negated cong: if_cong)

lemma wake_phases: "wake_body env wt now i = run_for 7 env wt now (Wak_Check i)"
  by (simp add: wake_body_def numeral_eq_Suc phase_step_def and_then_assoc if_negated cong: if_cong)

section \<open>Concurrent transitions\<close>

datatype kind = Suspending | Waking

definition kind_of :: "phase \<Rightarrow> kind" where
  "kind_of p = (case p of Sus_Check _ _ \<Rightarrow> Suspending | Sus_Stop _ \<Rightarrow> Suspending | Sus_Mark _ \<Rightarrow> Suspending
     | Sus_Services _ \<Rightarrow> Suspending | Sus_Routes _ \<Rightarrow> Suspending | _ \<Rightarrow> Waking)"

datatype happening = Began kind | Refused kind | Did phase | Ended

text \<open>The goroutines inside Suspend or Wake with the phase each is at, and what happened to each app.\<close>

record 'w herd =
  hd_ops :: "'w ops"
  hd_runs :: "(string \<times> phase) list"
  hd_log :: "(string \<times> happening) list"

inductive first_phase :: "string \<Rightarrow> phase \<Rightarrow> bool" where
  fp_suspend: "first_phase (a_id ap) (Sus_Check ap t)"
| fp_wake: "first_phase i (Wak_Check i)"

definition with_flight :: "string set \<Rightarrow> 'w ops \<Rightarrow> 'w ops" where
  "with_flight fl o' = o'\<lparr>op_flight := fl\<rparr>"

text \<open>A call is refused or begins; a goroutine does a phase, or its last one; and the rest of the service
  changes anything but the in-flight set.\<close>

inductive herd_step :: "'w ops_env \<Rightarrow> 'w herd \<Rightarrow> 'w herd \<Rightarrow> bool" for env where
  hs_begin: "first_phase i p \<Longrightarrow> acquire i (op_flight (hd_ops s)) = (True, fl) \<Longrightarrow>
     herd_step env s (s\<lparr>hd_ops := with_flight fl (hd_ops s), hd_runs := hd_runs s @ [(i, p)],
       hd_log := hd_log s @ [(i, Began (kind_of p))]\<rparr>)"
| hs_refused: "first_phase i p \<Longrightarrow> acquire i (op_flight (hd_ops s)) = (False, fl) \<Longrightarrow>
     herd_step env s (s\<lparr>hd_ops := with_flight fl (hd_ops s), hd_log := hd_log s @ [(i, Refused (kind_of p))]\<rparr>)"
| hs_phase: "hd_runs s = xs @ (i, p) # ys \<Longrightarrow> phase_step env wt now p (hd_ops s) = (Inr (Some q), o') \<Longrightarrow>
     herd_step env s (s\<lparr>hd_ops := o', hd_runs := xs @ (i, q) # ys, hd_log := hd_log s @ [(i, Did p)]\<rparr>)"
| hs_last: "hd_runs s = xs @ (i, p) # ys \<Longrightarrow> phase_step env wt now p (hd_ops s) = (r, o') \<Longrightarrow>
     r = Inr None \<or> (\<exists>e. r = Inl e) \<Longrightarrow>
     herd_step env s (s\<lparr>hd_ops := with_flight (release i (op_flight o')) o', hd_runs := xs @ ys,
       hd_log := hd_log s @ [(i, Did p), (i, Ended)]\<rparr>)"
| hs_outside: "op_flight o' = op_flight (hd_ops s) \<Longrightarrow> herd_step env s (s\<lparr>hd_ops := o'\<rparr>)"

text \<open>The abstract waker of one app: free, or in a transition of one kind whose phases follow each other.\<close>

datatype control = Free | Busy kind | At kind phase

fun successor :: "phase \<Rightarrow> phase \<Rightarrow> bool" where
  "successor (Sus_Check a t) p = (p = Sus_Stop a)"
| "successor (Sus_Stop a) p = (p = Sus_Mark a)"
| "successor (Sus_Mark a) p = (p = Sus_Services a)"
| "successor (Sus_Services a) p = (p = Sus_Routes a)"
| "successor (Sus_Routes a) p = False"
| "successor (Wak_Check i) p = (\<exists>a. p = Wak_Start a i)"
| "successor (Wak_Start a i) p = (p = Wak_Clear a i)"
| "successor (Wak_Clear a i) p = (p = Wak_Services a i)"
| "successor (Wak_Services a i) p = (p = Wak_Sync a i)"
| "successor (Wak_Sync a i) p = (p = Wak_Health a i)"
| "successor (Wak_Health a i) p = (p = Wak_Stamp a i)"
| "successor (Wak_Stamp a i) p = False"

inductive control_step :: "string \<Rightarrow> control \<Rightarrow> happening \<Rightarrow> control \<Rightarrow> bool" for i where
  cs_begin: "control_step i Free (Began k) (Busy k)"
| cs_refused: "c \<noteq> Free \<Longrightarrow> control_step i c (Refused k) c"
| cs_first: "first_phase i p \<Longrightarrow> kind_of p = k \<Longrightarrow> control_step i (Busy k) (Did p) (At k p)"
| cs_next: "successor p q \<Longrightarrow> control_step i (At k p) (Did q) (At k q)"
| cs_end: "control_step i (At k p) Ended Free"

inductive control_run :: "string \<Rightarrow> happening list \<Rightarrow> control \<Rightarrow> bool" for i where
  cr_nil: "control_run i [] Free"
| cr_snoc: "control_run i es c \<Longrightarrow> control_step i c e d \<Longrightarrow> control_run i (es @ [e]) d"

definition events_of :: "string \<Rightarrow> (string \<times> happening) list \<Rightarrow> happening list" where
  "events_of i evs = map snd (filter (\<lambda>x. fst x = i) evs)"

lemma events_of_snoc [simp]:
  "events_of i (evs @ [(j, e)]) = (if i = j then events_of i evs @ [e] else events_of i evs)"
  "events_of i (evs @ [(j, e), (j, f)]) = (if i = j then events_of i evs @ [e, f] else events_of i evs)"
  by (auto simp: events_of_def)

text \<open>The phases leave the in-flight set alone.\<close>

definition flight_is :: "string set \<Rightarrow> 'w ops \<Rightarrow> bool" where
  "flight_is fl s = (op_flight s = fl)"

lemma keeps_flight_store [vac_wp]:
  "keeps (flight_is fl) (op_store q)" "keeps (flight_is fl) (op_db q')" "keeps (flight_is fl) (op_route q'')"
  by (simp_all add: keeps_def flight_is_def op_db_def op_store_def op_route_def split: prod.split)

lemma keeps_flight_compose [vac_wp]: "keeps (flight_is fl) (run_compose env c)"
  by (simp add: keeps_def flight_is_def run_compose_def split: prod.split)

lemma keeps_flight_services [vac_wp]: "keeps (flight_is fl) (mark_services i st)"
  unfolding mark_services_def by (intro vac_wp)

lemma keeps_flight_phase: "keeps (flight_is fl) (phase_step env wt now p)"
  unfolding phase_step_def sz_db_def prefixed_def by (cases p) (simp_all, (intro vac_wp)+)

lemma phase_flight: "phase_step env wt now p s = (r, s') \<Longrightarrow> op_flight s' = op_flight s"
  using keepsD [OF keeps_flight_phase, of "op_flight s" s env wt now p] by (simp add: flight_is_def)

lemma phase_successor: "phase_step env wt now p s = (Inr (Some q), s') \<Longrightarrow> successor p q \<and> kind_of q = kind_of p"
  by (cases p)
     (auto simp: phase_step_def kind_of_def sem_defs split: prod.splits sum.splits if_splits)

definition expects :: "string \<Rightarrow> control \<Rightarrow> phase option \<Rightarrow> bool" where
  "expects i c r = (case r of None \<Rightarrow> c = Free
     | Some p \<Rightarrow> (c = Busy (kind_of p) \<and> first_phase i p) \<or> (\<exists>p0. c = At (kind_of p) p0 \<and> successor p0 p))"

text \<open>What an app's history has to agree with, and when a step that moves one app keeps the invariant.\<close>

definition tracked :: "'w herd \<Rightarrow> string \<Rightarrow> bool" where
  "tracked s i = (\<exists>c. control_run i (events_of i (hd_log s)) c \<and> expects i c (map_of (hd_runs s) i))"

definition herd_inv :: "'w herd \<Rightarrow> bool" where
  "herd_inv s = (waker_flights.guarded (op_flight (hd_ops s)) (map fst (hd_runs s)) \<and> (\<forall>i. tracked s i))"

lemma tracked_elim:
  assumes "herd_inv s"
  obtains c where "control_run i (events_of i (hd_log s)) c" "expects i c (map_of (hd_runs s) i)"
  using assms by (auto simp: herd_inv_def tracked_def)

lemma trackedI: "control_run i (events_of i (hd_log t)) c \<Longrightarrow> expects i c (map_of (hd_runs t) i) \<Longrightarrow> tracked t i"
  by (auto simp: tracked_def)

lemma herd_inv_at:
  assumes "herd_inv s" and "waker_flights.guarded (op_flight (hd_ops t)) (map fst (hd_runs t))" and "tracked t i"
    and "\<And>j. j \<noteq> i \<Longrightarrow> map_of (hd_runs t) j = map_of (hd_runs s) j"
    and "\<And>j. j \<noteq> i \<Longrightarrow> events_of j (hd_log t) = events_of j (hd_log s)"
  shows "herd_inv t"
  using assms unfolding herd_inv_def tracked_def by metis

lemma map_of_mid:
  assumes "distinct (map fst (xs @ (i, p) # ys))"
  shows "map_of (xs @ (i, p) # ys) i = Some p"
    and "map_of (xs @ (i, q) # ys) j = (if j = i then Some q else map_of (xs @ (i, p) # ys) j)"
    and "map_of (xs @ ys) j = (if j = i then None else map_of (xs @ (i, p) # ys) j)"
proof -
  have x: "map_of xs i = None" "map_of ys i = None"
    using assms by (simp_all add: map_of_eq_None_iff image_iff)
  then show "map_of (xs @ (i, p) # ys) i = Some p"
    "map_of (xs @ (i, q) # ys) j = (if j = i then Some q else map_of (xs @ (i, p) # ys) j)"
    "map_of (xs @ ys) j = (if j = i then None else map_of (xs @ (i, p) # ys) j)"
    by (auto simp: map_add_def split: option.split)
qed

lemma expects_next: "expects i c (Some p) \<Longrightarrow> \<exists>d. control_step i c (Did p) d \<and> d = At (kind_of p) p"
  unfolding expects_def by (auto intro: control_step.intros)

lemma expects_busy: "expects i c (Some p) \<Longrightarrow> c \<noteq> Free"
  unfolding expects_def by auto

lemma herd_begin:
  assumes inv: "herd_inv s" and p: "first_phase i p" and fl: "acquire i (op_flight (hd_ops s)) = (True, fl)"
  shows "herd_inv (s\<lparr>hd_ops := with_flight fl (hd_ops s), hd_runs := hd_runs s @ [(i, p)],
       hd_log := hd_log s @ [(i, Began (kind_of p))]\<rparr>)"
proof (rule herd_inv_at [OF inv, of _ i])
  have "i \<notin> op_flight (hd_ops s)" using fl by (auto simp: acquire_def split: if_splits)
  then have none: "map_of (hd_runs s) i = None"
    using inv by (simp add: herd_inv_def waker_flights.guarded_def map_of_eq_None_iff)
  obtain c where c: "control_run i (events_of i (hd_log s)) c" "expects i c (map_of (hd_runs s) i)"
    by (rule tracked_elim [OF inv])
  with none have "control_run i (events_of i (hd_log s)) Free" by (simp add: expects_def)
  then have "control_run i (events_of i (hd_log s) @ [Began (kind_of p)]) (Busy (kind_of p))"
    by (rule cr_snoc) (rule cs_begin)
  then show "tracked (s\<lparr>hd_ops := with_flight fl (hd_ops s), hd_runs := hd_runs s @ [(i, p)],
       hd_log := hd_log s @ [(i, Began (kind_of p))]\<rparr>) i"
    using none p by (intro trackedI [where c = "Busy (kind_of p)"]) (simp_all add: expects_def map_add_def)
  show "waker_flights.guarded (op_flight (hd_ops (s\<lparr>hd_ops := with_flight fl (hd_ops s), hd_runs := hd_runs s @ [(i, p)],
       hd_log := hd_log s @ [(i, Began (kind_of p))]\<rparr>))) (map fst (hd_runs (s\<lparr>hd_ops := with_flight fl (hd_ops s),
       hd_runs := hd_runs s @ [(i, p)], hd_log := hd_log s @ [(i, Began (kind_of p))]\<rparr>)))"
    using waker_flights.guarded_start [of "op_flight (hd_ops s)" "map fst (hd_runs s)" i] inv fl
    by (simp add: herd_inv_def with_flight_def)
qed (simp_all add: map_add_def split: option.split)

lemma herd_refused:
  assumes inv: "herd_inv s" and p: "first_phase i p" and fl: "acquire i (op_flight (hd_ops s)) = (False, fl)"
  shows "herd_inv (s\<lparr>hd_ops := with_flight fl (hd_ops s), hd_log := hd_log s @ [(i, Refused k)]\<rparr>)" (is "herd_inv ?t")
proof (rule herd_inv_at [OF inv, of _ i])
  have f: "fl = op_flight (hd_ops s)" "i \<in> op_flight (hd_ops s)"
    using fl by (auto simp: acquire_def split: if_splits)
  then have "map_of (hd_runs s) i \<noteq> None"
    using inv by (simp add: herd_inv_def waker_flights.guarded_def map_of_eq_None_iff)
  then obtain q where q: "map_of (hd_runs s) i = Some q" by blast
  obtain c where c: "control_run i (events_of i (hd_log s)) c" "expects i c (map_of (hd_runs s) i)"
    by (rule tracked_elim [OF inv])
  have "control_run i (events_of i (hd_log s) @ [Refused k]) c"
    using c q expects_busy [of i c q] by (intro cr_snoc [OF c(1)] cs_refused) simp
  then show "tracked ?t i" using c(2) by (intro trackedI [where c = c]) simp_all
  show "waker_flights.guarded (op_flight (hd_ops ?t)) (map fst (hd_runs ?t))"
    using inv f by (simp add: herd_inv_def with_flight_def)
qed simp_all

text \<open>A goroutine that does its phase leaves its app between two phases.\<close>

lemma herd_did:
  assumes inv: "herd_inv s" and runs: "hd_runs s = xs @ (i, p) # ys"
  shows "control_run i (events_of i (hd_log s) @ [Did p]) (At (kind_of p) p)" "distinct (map fst (xs @ (i, p) # ys))"
proof -
  show d: "distinct (map fst (xs @ (i, p) # ys))"
    using inv runs by (simp add: herd_inv_def waker_flights.guarded_def)
  obtain c where c: "control_run i (events_of i (hd_log s)) c" "expects i c (map_of (hd_runs s) i)"
    by (rule tracked_elim [OF inv])
  then have "control_step i c (Did p) (At (kind_of p) p)"
    using expects_next [of i c p] map_of_mid(1) [OF d] runs by auto
  with c(1) show "control_run i (events_of i (hd_log s) @ [Did p]) (At (kind_of p) p)" by (rule cr_snoc)
qed

lemma herd_phase:
  assumes inv: "herd_inv s" and runs: "hd_runs s = xs @ (i, p) # ys"
    and st: "phase_step env wt now p (hd_ops s) = (Inr (Some q), o')"
  shows "herd_inv (s\<lparr>hd_ops := o', hd_runs := xs @ (i, q) # ys, hd_log := hd_log s @ [(i, Did p)]\<rparr>)" (is "herd_inv ?t")
proof (rule herd_inv_at [OF inv, of _ i])
  note d = herd_did [OF inv runs]
  have "expects i (At (kind_of p) p) (Some q)" using phase_successor [OF st] by (auto simp: expects_def)
  then show "tracked ?t i"
    using d map_of_mid(2) [OF d(2), of q i] by (intro trackedI [where c = "At (kind_of p) p"]) simp_all
  show "waker_flights.guarded (op_flight (hd_ops ?t)) (map fst (hd_runs ?t))"
    using inv runs phase_flight [OF st] by (simp add: herd_inv_def)
  show "map_of (hd_runs ?t) j = map_of (hd_runs s) j" if "j \<noteq> i" for j
    using that map_of_mid(2) [OF d(2), of q j] runs by simp
qed simp

lemma herd_last:
  assumes inv: "herd_inv s" and runs: "hd_runs s = xs @ (i, p) # ys" and st: "phase_step env wt now p (hd_ops s) = (r, o')"
  shows "herd_inv (s\<lparr>hd_ops := with_flight (release i (op_flight o')) o', hd_runs := xs @ ys,
       hd_log := hd_log s @ [(i, Did p), (i, Ended)]\<rparr>)" (is "herd_inv ?t")
proof (rule herd_inv_at [OF inv, of _ i])
  note d = herd_did [OF inv runs]
  have "control_run i ((events_of i (hd_log s) @ [Did p]) @ [Ended]) Free"
    by (rule cr_snoc [OF d(1)]) (rule cs_end)
  then show "tracked ?t i"
    using map_of_mid(3) [OF d(2), of i] by (intro trackedI [where c = Free]) (simp_all add: expects_def map_add_def)
  have "remove1 i (map fst (xs @ (i, p) # ys)) = map fst (xs @ ys)"
    using d(2) by (simp add: remove1_append)
  then show "waker_flights.guarded (op_flight (hd_ops ?t)) (map fst (hd_runs ?t))"
    using waker_flights.guarded_end [of "op_flight (hd_ops s)" "map fst (hd_runs s)" i] inv runs phase_flight [OF st]
    by (simp add: herd_inv_def with_flight_def)
  show "map_of (hd_runs ?t) j = map_of (hd_runs s) j" if "j \<noteq> i" for j
    using that map_of_mid(3) [OF d(2), of j] runs by simp
qed simp

lemma herd_outside: "herd_inv s \<Longrightarrow> op_flight o' = op_flight (hd_ops s) \<Longrightarrow> herd_inv (s\<lparr>hd_ops := o'\<rparr>)"
  by (simp add: herd_inv_def tracked_def)

lemma herd_step_inv: "herd_step env s t \<Longrightarrow> herd_inv s \<Longrightarrow> herd_inv t"
  by (erule herd_step.cases) (auto intro: herd_begin herd_refused herd_phase herd_last herd_outside)

definition fresh_herd :: "'w ops \<Rightarrow> 'w herd" where
  "fresh_herd o' = \<lparr>hd_ops = o'\<lparr>op_flight := {}\<rparr>, hd_runs = [], hd_log = []\<rparr>"

lemma herd_reachable_inv: "(herd_step env)\<^sup>*\<^sup>* (fresh_herd o') s \<Longrightarrow> herd_inv s"
proof (induction rule: rtranclp_induct)
  case base
  have "control_run i (events_of i []) Free" for i by (simp add: events_of_def cr_nil)
  then show ?case
    by (auto simp: herd_inv_def tracked_def fresh_herd_def waker_flights.guarded_def expects_def)
qed (rule herd_step_inv)

text \<open>
  C16: Transitions of an app never overlap. However wakes, suspensions and everything else the service does
  interleave, the log of an app is a run of the sequential automaton: a transition begins only when none is under
  way, goes through the phases of its kind in order and ends, and every other call made meanwhile is
  refused; the in-flight set is the set of the apps with a transition under way.
\<close>

theorem transitions_never_overlap:
  assumes "(herd_step env)\<^sup>*\<^sup>* (fresh_herd o') s"
  shows "distinct (map fst (hd_runs s)) \<and> set (map fst (hd_runs s)) = op_flight (hd_ops s)
    \<and> (\<forall>i. \<exists>c. control_run i (events_of i (hd_log s)) c \<and> (c = Free \<longleftrightarrow> i \<notin> op_flight (hd_ops s)))"
proof -
  have inv: "herd_inv s" by (rule herd_reachable_inv [OF assms])
  then have g: "distinct (map fst (hd_runs s)) \<and> set (map fst (hd_runs s)) = op_flight (hd_ops s)"
    by (simp add: herd_inv_def waker_flights.guarded_def)
  have "\<exists>c. control_run i (events_of i (hd_log s)) c \<and> (c = Free \<longleftrightarrow> i \<notin> op_flight (hd_ops s))" for i
  proof -
    obtain c where c: "control_run i (events_of i (hd_log s)) c" "expects i c (map_of (hd_runs s) i)"
      by (rule tracked_elim [OF inv])
    have "map_of (hd_runs s) i = None \<longleftrightarrow> i \<notin> op_flight (hd_ops s)"
      using g by (metis map_of_eq_None_iff image_set)
    then have "c = Free \<longleftrightarrow> i \<notin> op_flight (hd_ops s)"
      using c(2) by (cases "map_of (hd_runs s) i") (auto simp: expects_def)
    with c(1) show ?thesis by blast
  qed
  with g show ?thesis by blast
qed

section \<open>A wake that fails half-way\<close>

text \<open>The database answers, the app is not marked as suspended, and the rows of the domains table.\<close>

definition up :: "string \<Rightarrow> domain list \<Rightarrow> 'w ops \<Rightarrow> bool" where
  "up i R s = (quiet (px_dom (op_px s)) \<and> dm_rows (px_dom (op_px s)) = R
     \<and> (case find (\<lambda>a. a_id a = i) (apps (dm_db (px_dom (op_px s)))) of Some ap \<Rightarrow> \<not> a_suspended ap | None \<Rightarrow> False))"

lemma find_map_same_id:
  assumes "\<And>a. a_id (f a) = a_id a"
  shows "find (\<lambda>a. a_id a = i) (map f as) = map_option f (find (\<lambda>a. a_id a = i) as)"
  by (induction as) (auto simp: assms)

lemma up_route: "(\<And>T F. keeps (frame T F) q) \<Longrightarrow> keeps (up i R) (op_route q)"
proof -
  assume a: "\<And>T F. keeps (frame T F) q"
  have "frame (tbl (px_dom x)) (db_fault (dm_db (px_dom x))) (snd (q x))" for x
    by (rule keepsD [OF a]) (simp add: frame_def)
  then show ?thesis
    unfolding keeps_def
    by (auto simp: op_route_def up_def frame_def tbl_def quiet_def split: prod.splits option.splits)
       (metis prod.sel(2) option.distinct(1) option.inject)+
qed

lemma up_db: "(\<And>d. apps (snd (q d)) = apps d \<and> db_fault (snd (q d)) = db_fault d) \<Longrightarrow> keeps (up i R) (op_db q)"
  by (auto simp: keeps_def op_db_def op_store_def on_dm_def up_def quiet_def split: prod.splits option.splits)
     (metis prod.sel(2) option.distinct(1) option.inject)+

lemma up_status: "keeps (up i R) (op_db (update_service_status a n st e))" "keeps (up i R) (op_db (list_services_for_app a))"
  by (rule up_db, simp add: update_service_status_def or_not_found_def update_services_def db_call_def sem_defs Let_def
        list_services_for_app_def)+

lemma up_services: "keeps (up i R) (mark_services a st)"
  unfolding mark_services_def by (intro vac_wp up_status)

lemma up_stamp: "keeps (up i R) (op_db (set_last_traffic j t))"
  unfolding keeps_def
  by (auto simp: op_db_def op_store_def on_dm_def up_def quiet_def set_last_traffic_def update_apps_def db_call_def sem_defs
      find_map_same_id Let_def split: option.splits)

lemma quiet_db_call: "quiet (px_dom (op_px s)) \<Longrightarrow> op_db (db_call q) s = op_db (\<lambda>d. q (d\<lparr>db_calls := Suc (db_calls d)\<rparr>)) s"
  by (simp add: op_db_def op_store_def on_dm_def db_call_def quiet_def Let_def)

lemma wake_body_up:
  assumes q: "quiet (px_dom (op_px s))" and ap: "find (\<lambda>a. a_id a = i) (apps (dm_db (px_dom (op_px s)))) = Some ap"
    and sus: "a_suspended ap"
    and ok: "\<And>w. fst (oe_docker env (Compose_Start (compose_project (a_slug ap)) []) w) = None"
  shows "up i (dm_rows (px_dom (op_px s))) (snd (wake_body env wt now i s))"
proof -
  let ?R = "dm_rows (px_dom (op_px s))"
  define tail where "tail = and_then (mark_services i St_Running) (\<lambda>_.
       and_then (prefixed (''wake '' @ a_slug ap @ '': sync routes: '') (op_route (sync (oe_manager env) i))) (\<lambda>_.
       and_then (prefixed (''wake '' @ a_slug ap @ '': '') (op_route (wait_healthy (oe_manager env) wt i))) (\<lambda>_.
       ignore (op_db (set_last_traffic i now)))))"
  have tl: "keeps (up i ?R) tail"
    unfolding tail_def prefixed_def
    by (intro vac_wp up_services up_route frame_sync frame_wait up_stamp)
  define s1 where "s1 = s\<lparr>op_px := (op_px s)\<lparr>px_dom := (px_dom (op_px s))\<lparr>dm_db := (dm_db (px_dom (op_px s)))
      \<lparr>db_calls := Suc (db_calls (dm_db (px_dom (op_px s))))\<rparr>\<rparr>\<rparr>\<rparr>"
  have g: "sz_db env (get_app i) s = (Inr ap, s1)"
    using q ap by (simp add: sz_db_def op_db_def op_store_def on_dm_def get_app_def db_call_def quiet_def sem_defs Let_def s1_def)
  obtain w where w: "oe_docker env (Compose_Start (compose_project (a_slug ap)) []) (ou_world (op_px s1)) = (None, w)"
    using ok [of "ou_world (op_px s1)"] by (metis prod.collapse)
  define s2 where "s2 = s1\<lparr>op_px := (op_px s1)\<lparr>ou_world := w\<rparr>, op_compose := op_compose s1 @ [Compose_Start (compose_project (a_slug ap)) []]\<rparr>"
  have c: "run_compose env (Compose_Start (compose_project (a_slug ap)) []) s1 = (Inr (), s2)"
    using w by (simp add: run_compose_def s2_def)
  have q2: "quiet (px_dom (op_px s2))" "find (\<lambda>a. a_id a = i) (apps (dm_db (px_dom (op_px s2)))) = Some ap"
      "dm_rows (px_dom (op_px s2)) = ?R"
    using q ap by (simp_all add: s1_def s2_def quiet_def)
  have mem: "ap \<in> set (apps (dm_db (px_dom (op_px s2))))" "a_id ap = i"
    using q2(2) by (metis (mono_tags, lifting) find_Some_iff nth_mem)+
  have len: "length (filter (\<lambda>a. a_id a = i) (apps (dm_db (px_dom (op_px s2))))) \<noteq> 0"
    using mem by (auto simp: filter_empty_conv)
  obtain s3 where f: "sz_db env (set_app_suspended i False) s2 = (Inr (), s3)" "up i ?R s3"
  proof -
    have "\<exists>s3. sz_db env (set_app_suspended i False) s2 = (Inr (), s3) \<and> up i ?R s3"
      using q2 len mem(2)
      by (simp add: sz_db_def op_db_def op_store_def on_dm_def set_app_suspended_def or_not_found_def update_apps_def db_call_def
          quiet_def sem_defs Let_def up_def find_map_same_id)
    with that show thesis by blast
  qed
  have "wake_body env wt now i s = tail s3"
    using g c f(1) sus by (simp add: wake_body_def tail_def prefixed_def and_then_def map_err_def)
  then show ?thesis using keepsD [OF tl f(2)] by simp
qed

text \<open>The rows bind the host to the app.\<close>

definition bound :: "string \<Rightarrow> string \<Rightarrow> domain list \<Rightarrow> bool" where
  "bound host i R = (host \<noteq> [] \<and> list_ex (\<lambda>d. assigned d \<and> to_lower (dn_hostname d) = host) R
     \<and> list_all (\<lambda>d. assigned d \<and> to_lower (dn_hostname d) = host \<longrightarrow> dn_app d = i) R)"

definition same_calls :: "'w ops \<Rightarrow> 'w ops \<Rightarrow> bool" where
  "same_calls s t = (ou_world (op_px t) = ou_world (op_px s) \<and> ou_admin (op_px t) = ou_admin (op_px s)
     \<and> px_net (op_px t) = px_net (op_px s) \<and> op_compose t = op_compose s)"

lemma host_bound:
  assumes q: "quiet (px_dom (op_px s))" and b: "bound (to_lower (trim_space h)) i (dm_rows (px_dom (op_px s)))"
  shows "\<exists>n. op_route (app_id_for_host m h) s = (Inr (Some i),
      s\<lparr>op_px := (op_px s)\<lparr>px_dom := (px_dom (op_px s))\<lparr>dm_db := (dm_db (px_dom (op_px s)))\<lparr>db_calls := n\<rparr>\<rparr>\<rparr>\<rparr>)"
proof -
  let ?R = "dm_rows (px_dom (op_px s))" and ?host = "to_lower (trim_space h)"
  obtain d where d: "find (\<lambda>d. assigned d \<and> to_lower (dn_hostname d) = ?host) (sort_key dn_hostname ?R) = Some d"
    using b by (cases "find (\<lambda>d. assigned d \<and> to_lower (dn_hostname d) = ?host) (sort_key dn_hostname ?R)")
      (auto simp: find_None_iff bound_def list_ex_iff)
  then have "d \<in> set ?R" "assigned d" "to_lower (dn_hostname d) = ?host"
    by (metis (mono_tags, lifting) find_Some_iff nth_mem set_sort)+
  then have "dn_app d = i" using b by (auto simp: bound_def list_all_iff)
  then show ?thesis
    using q d b
    by (intro exI [of _ "Suc (db_calls (dm_db (px_dom (op_px s))))"])
       (simp add: op_route_def app_id_for_host_def Let_def px_store_def list_all_domains_def query_domains_def dom_call_def
          on_dm_def db_call_def quiet_def sem_defs bound_def)
qed

lemma wake_up:
  assumes "up i R s" and "i \<notin> op_flight s"
  shows "\<exists>n. wake env wt now i s = (Inr (),
      s\<lparr>op_px := (op_px s)\<lparr>px_dom := (px_dom (op_px s))\<lparr>dm_db := (dm_db (px_dom (op_px s)))\<lparr>db_calls := n\<rparr>\<rparr>\<rparr>\<rparr>)"
  using assms
  by (intro exI [of _ "Suc (db_calls (dm_db (px_dom (op_px s))))"])
     (auto simp: wake_def in_flight_def acquire_def release_def wake_body_def sz_db_def op_db_def op_store_def on_dm_def
        get_app_def db_call_def quiet_def up_def sem_defs Let_def split: option.splits)

text \<open>A request that was answered, and the state after a list of them.\<close>

definition get_request :: "string \<Rightarrow> string \<Rightarrow> wake_request \<Rightarrow> bool" where
  "get_request host token q = (wq_method q \<in> {''GET'', ''HEAD''} \<and> (token = [] \<or> wq_token q = token)
     \<and> to_lower (trim_space (wake_host q)) = host)"

definition answered :: "'w ops_env \<Rightarrow> string \<Rightarrow> wait_env \<times> instant \<times> wake_request \<Rightarrow> 'w ops \<Rightarrow> 'w ops" where
  "answered env token x s = (case x of (wt, now, q) \<Rightarrow> snd (wake_serve (wake_app env wt now True token q) s))"

definition stuck :: "string \<Rightarrow> string \<Rightarrow> 'w ops \<Rightarrow> 'w ops \<Rightarrow> bool" where
  "stuck host i s0 s = (up i (dm_rows (px_dom (op_px s))) s \<and> bound host i (dm_rows (px_dom (op_px s)))
     \<and> i \<notin> op_flight s \<and> same_calls s0 s)"

lemma stuck_request:
  assumes st: "stuck host i s0 s" and q: "get_request host token q"
  shows "fst (wake_serve (wake_app env wt now True token q) s) = Wake_Redirect (wake_target (wake_host q) (wq_wake_uri q))"
    and "stuck host i s0 (snd (wake_serve (wake_app env wt now True token q) s))"
proof -
  let ?bump = "\<lambda>n. s\<lparr>op_px := (op_px s)\<lparr>px_dom := (px_dom (op_px s))\<lparr>dm_db := (dm_db (px_dom (op_px s)))\<lparr>db_calls := n\<rparr>\<rparr>\<rparr>\<rparr>"
  have s: "up i (dm_rows (px_dom (op_px s))) s" "bound host i (dm_rows (px_dom (op_px s)))" "i \<notin> op_flight s" "same_calls s0 s"
    using st by (simp_all add: stuck_def)
  have "quiet (px_dom (op_px s))" using s(1) by (simp add: up_def)
  moreover have "bound (to_lower (trim_space (wake_host q))) i (dm_rows (px_dom (op_px s)))"
    using s(2) q by (simp add: get_request_def)
  ultimately obtain n where n: "op_route (app_id_for_host (oe_manager env) (wake_host q)) s = (Inr (Some i), ?bump n)"
    using host_bound by blast
  have "up i (dm_rows (px_dom (op_px s))) (?bump n)" "i \<notin> op_flight (?bump n)"
    using s by (simp_all add: up_def quiet_def)
  then obtain k where k: "wake env wt now i (?bump n) = (Inr (), ?bump k)"
    using wake_up [of i "dm_rows (px_dom (op_px s))" "?bump n" env wt now] by auto
  have "wake_app env wt now True token q s = (Inr (Wake_Redirect (wake_target (wake_host q) (wq_wake_uri q))), ?bump k)"
    using n k q by (auto simp: wake_app_def get_request_def sem_defs)
  then show "fst (wake_serve (wake_app env wt now True token q) s) = Wake_Redirect (wake_target (wake_host q) (wq_wake_uri q))"
    "stuck host i s0 (snd (wake_serve (wake_app env wt now True token q) s))"
    using s by (auto simp: wake_serve_def stuck_def same_calls_def up_def quiet_def)
qed

lemma stuck_requests:
  "stuck host i s0 s \<Longrightarrow> \<forall>x \<in> set xs. get_request host token (snd (snd x)) \<Longrightarrow> stuck host i s0 (fold (answered env token) xs s)"
  by (induction xs arbitrary: s) (auto simp: answered_def stuck_request(2) split: prod.splits)

text \<open>
  C18: A wake that fails after the stack was started is never retried. On a database that answers, when a wake
  starts the stack of a suspended app and then fails, say because Caddy refused the real routes, the app is no
  longer marked as suspended, so every later request for its host through the wake route, however many came before,
  is answered with a redirect to its own URL, and neither docker nor Caddy is called again: the wake route, if it is
  still there, sends the client round in circles.
\<close>

theorem failed_wake_redirects_forever:
  assumes "quiet (px_dom (op_px s))" and "find (\<lambda>a. a_id a = i) (apps (dm_db (px_dom (op_px s)))) = Some ap"
    and "a_suspended ap" and "\<And>w. fst (oe_docker env (Compose_Start (compose_project (a_slug ap)) []) w) = None"
    and "wake env wt now i s = (Inl (Some e), s1)" and "bound host i (dm_rows (px_dom (op_px s)))"
    and "\<forall>x \<in> set xs. get_request host token (snd (snd x))" and "get_request host token q"
  shows "fst (wake_serve (wake_app env wt' now' True token q) (fold (answered env token) xs s1))
      = Wake_Redirect (wake_target (wake_host q) (wq_wake_uri q))
    \<and> same_calls s1 (snd (wake_serve (wake_app env wt' now' True token q) (fold (answered env token) xs s1)))"
proof -
  let ?s = "s\<lparr>op_flight := insert i (op_flight s)\<rparr>" and ?R = "dm_rows (px_dom (op_px s))"
  have fl: "i \<notin> op_flight s"
    using assms(5) by (auto simp: wake_def in_flight_def acquire_def throw_def)
  have "up i ?R (snd (wake_body env wt now i ?s))"
    using wake_body_up [of ?s i ap env wt now] assms(1-4) by simp
  then have "up i ?R s1 \<and> i \<notin> op_flight s1"
    using assms(5) fl
    by (auto simp: wake_def in_flight_def acquire_def release_def map_err_def up_def split: prod.splits sum.splits)
  then have "stuck host i s1 s1"
    using assms(6) by (auto simp: stuck_def same_calls_def up_def)
  then have st: "stuck host i s1 (fold (answered env token) xs s1)"
    by (rule stuck_requests [OF _ assms(7)])
  show ?thesis
    using stuck_request [OF st assms(8), of env wt' now'] by (simp add: stuck_def)
qed

text \<open>A small instance: one suspended app with one domain, a docker that answers and a Caddy that is down.\<close>

definition down_manager :: "unit manager" where
  "down_manager = \<lparr>pm_cfg = \<lparr>pc_edge = ''vac-edge'', pc_base_domain = [], pc_control_domain = [],
       pc_control_port = 0, pc_health_interval = 1, pc_health_timeout = 1, pc_health_retries = 1,
       pc_wake_token = [], pc_guard_enabled = False\<rparr>,
     pm_override = None, pm_base_config = None, pm_engine = False, pm_certs = False, pm_api = (\<lambda>_ w. (Inl ''down'', w)),
     pm_net = (\<lambda>_ w. (None, w)), pm_open_key = (\<lambda>_. None), pm_default_html = [], pm_err_text = (\<lambda>_. ''db'')\<rparr>"

definition down_env :: "unit ops_env" where
  "down_env = \<lparr>oe_manager = down_manager, oe_proxy = True, oe_crash = False, oe_stack = True, oe_work = False,
     oe_docker = (\<lambda>_ w. (None, w)), oe_work_dir = [], oe_deprovision = (\<lambda>_ w. w), oe_box = None,
     oe_unmarshal = (\<lambda>_. Inl []), oe_marshal = (\<lambda>_. None), oe_zone = (\<lambda>_. None)\<rparr>"

definition sleeping_app :: app where
  "sleeping_app = (maint_app ''a'' False)\<lparr>a_suspended := True\<rparr>"

definition down_domain :: domain where
  "down_domain = \<lparr>dn_id = ''d'', dn_app = ''a'', dn_service = ''web'', dn_hostname = ''x.io'', dn_type = ''custom'',
     dn_redirect = [], dn_cert_source = [], dn_cert_uploaded_at = None, dn_created_at = 0, dn_cert_pem = None,
     dn_key_enc = None, dn_cert_not_after = None, dn_cert_notified_at = None\<rparr>"

definition down_ops :: "unit ops" where
  "down_ops = \<lparr>op_px = \<lparr>ou_world = (), ou_admin = [], px_dom = \<lparr>dm_db = empty_db\<lparr>apps := [sleeping_app]\<rparr>, dm_rows = [down_domain]\<rparr>,
       px_net = [], px_engine = []\<rparr>, op_mon = new_monitor, op_worker = new_worker 0 0, op_flight = {}, op_compose = [],
     op_audits = [], op_removed = []\<rparr>"

definition patient :: wait_env where
  "patient = \<lparr>we_done = (\<lambda>_. False), we_took = (\<lambda>_. 0), we_ctx_err = [], we_now = 0\<rparr>"

definition page_request :: wake_request where
  "page_request = \<lparr>wq_method = ''GET'', wq_token = [], wq_wake_host = ''x.io'', wq_wake_uri = ''/p'', wq_host = []\<rparr>"

lemmas down_defs = down_env_def down_manager_def down_ops_def sleeping_app_def down_domain_def maint_app_def empty_db_def
  patient_def page_request_def

theorem transitions_never_overlap_witness:
  "\<exists>c. control_run ''a'' [Began Waking, Refused Suspending] c \<and> c \<noteq> Free"
proof -
  let ?s = "fresh_herd down_ops"
  let ?p = "Wak_Check ''a''" and ?q = "Sus_Check sleeping_app 0"
  define s1 where "s1 = ?s\<lparr>hd_ops := with_flight {''a''} (hd_ops ?s), hd_runs := hd_runs ?s @ [(''a'', ?p)],
       hd_log := hd_log ?s @ [(''a'', Began (kind_of ?p))]\<rparr>"
  define s2 where "s2 = s1\<lparr>hd_ops := with_flight {''a''} (hd_ops s1), hd_log := hd_log s1 @ [(''a'', Refused (kind_of ?q))]\<rparr>"
  have "herd_step down_env ?s s1"
    unfolding s1_def by (rule hs_begin) (auto intro: fp_wake simp: acquire_def fresh_herd_def)
  moreover have "first_phase ''a'' ?q"
    using fp_suspend [of sleeping_app 0] by (simp add: sleeping_app_def maint_app_def)
  then have "herd_step down_env s1 s2"
    unfolding s2_def by (rule hs_refused) (auto simp: acquire_def s1_def with_flight_def)
  ultimately have "(herd_step down_env)\<^sup>*\<^sup>* ?s s2" by auto
  from transitions_never_overlap [OF this] obtain c where
    "control_run ''a'' (events_of ''a'' (hd_log s2)) c" "c = Free \<longleftrightarrow> ''a'' \<notin> op_flight (hd_ops s2)" by blast
  then show ?thesis
    by (intro exI [of _ c]) (simp add: s2_def s1_def fresh_herd_def events_of_def with_flight_def kind_of_def)
qed

lemma sync_down:
  assumes "pm_api m = (\<lambda>_ w. (Inl d, w))" and "pm_base_config m = None"
  shows "\<exists>e t. sync m i s = (Inl e, t)"
proof -
  have "\<exists>e t. prune_orphans m x = (Inl e, t)" for x
    using assms(1)
    by (auto simp: prune_orphans_def get_routes_def client_do_def and_then_def split: prod.splits sum.splits)
  then obtain e t where p: "\<And>x. prune_orphans m x = (Inl (e x), t x)" by metis
  show ?thesis
    using assms(2)
    by (simp add: sync_def ensure_base_config_def collect_def attempt_def and_then_def ignore_def p ret_def join_errs_def throw_def
          split: prod.split sum.split)
qed

theorem failed_wake_redirects_forever_witness:
  "\<exists>e s1. wake down_env patient 0 ''a'' down_ops = (Inl (Some e), s1)
    \<and> fst (wake_serve (wake_app down_env patient 9 True [] page_request) (fold (answered down_env []) [(patient, 5, page_request)] s1))
      = Wake_Redirect ''https://x.io/p''"
proof -
  have hyps: "quiet (px_dom (op_px down_ops))" "find (\<lambda>a. a_id a = ''a'') (apps (dm_db (px_dom (op_px down_ops)))) = Some sleeping_app"
    "a_suspended sleeping_app" "\<And>w. fst (oe_docker down_env (Compose_Start (compose_project (a_slug sleeping_app)) []) w) = None"
    "bound ''x.io'' ''a'' (dm_rows (px_dom (op_px down_ops)))"
    by (simp_all add: down_defs quiet_def bound_def assigned_def to_lower_def lower_char_def)
  have gr: "get_request ''x.io'' [] page_request"
    by (simp add: get_request_def page_request_def wake_host_def go_eval)
  obtain e s1 where e: "wake down_env patient 0 ''a'' down_ops = (Inl (Some e), s1)"
  proof -
    have mgr: "pm_api (oe_manager down_env) = (\<lambda>_ w. (Inl ''down'', w))" "pm_base_config (oe_manager down_env) = None"
      by (simp_all add: down_env_def down_manager_def)
    obtain f t where f: "\<And>x. sync (oe_manager down_env) ''a'' x = (Inl (f x), t x)"
      using sync_down [OF mgr, of "''a''"] by metis
    have docker: "oe_docker down_env c w = (None, w)" for c w by (simp add: down_env_def)
    show thesis
      using that
      by (simp add: wake_def in_flight_def acquire_def wake_body_def sz_db_def op_db_def op_store_def on_dm_def get_app_def
          db_call_def sem_defs Let_def down_ops_def sleeping_app_def maint_app_def empty_db_def prefixed_def
          run_compose_def set_app_suspended_def or_not_found_def update_apps_def mark_services_def list_services_for_app_def
          op_route_def f docker)
  qed
  show ?thesis
    using e failed_wake_redirects_forever [where q = page_request and xs = "[(patient, 5, page_request)]" and wt' = patient
        and now' = 9 and token = "[]", OF hyps(1-4) e hyps(5) _ gr] gr
    by (auto simp: wake_target_def safe_path_def has_prefix_def wake_host_def page_request_def go_eval)
qed

section \<open>What the sweeper stops\<close>

text \<open>The judgement of a tick on one app, on the tables the tick reads.\<close>

definition idle_past :: "sweeper \<Rightarrow> instant \<Rightarrow> (string \<Rightarrow> instant) \<Rightarrow> (string \<times> instant) list \<Rightarrow> app \<Rightarrow> bool" where
  "idle_past sw now updated buckets ap =
     (let ts = map snd (filter (\<lambda>b. fst b = a_id ap) buckets);
          since = (if ts = [] then updated (a_id ap) else Max (set ts))
      in \<not> time_sub now since < wrap64 (idle_window sw ap + sw_grace sw))"

definition ss_quiet :: "'w sweep_state \<Rightarrow> bool" where
  "ss_quiet s = quiet (px_dom (op_px (ss_ops s)))"

definition ss_same :: "'w sweep_state \<Rightarrow> 'w sweep_state \<Rightarrow> bool" where
  "ss_same s t = (ss_buckets t = ss_buckets s \<and> (ss_quiet s \<longrightarrow> ss_quiet t))"

lemma stamp_same: "ss_same s (snd (ignore (ss_db (set_last_traffic i t)) s))"
  by (auto simp: ss_same_def ss_quiet_def quiet_def ss_db_def op_db_def op_store_def on_dm_def set_last_traffic_def
      update_apps_def db_call_def sem_defs Let_def split: prod.splits sum.splits)

lemma stamp_result: "\<exists>u. ignore (ss_db (set_last_traffic i t)) s = (Inr (), u) \<and> ss_same s u"
  using stamp_same [of s i t] by (simp add: ignore_def split: prod.splits)

lemma tick_app_result:
  "\<exists>xs t. tick_app sw now updated ap s = (Inr xs, t) \<and> ss_same s t \<and> (xs = [] \<or> xs = [ap] \<and> idle_past sw now updated (ss_buckets s) ap)
     \<and> (ss_quiet s \<longrightarrow> xs = (if idle_past sw now updated (ss_buckets s) ap then [ap] else []))"
proof -
  have "\<exists>t. ss_same s t \<and> (last_traffic_since (a_id ap) s = (Inl ErrDB, t) \<and> \<not> ss_quiet s
      \<or> last_traffic_since (a_id ap) s = (Inr (let ts = map snd (filter (\<lambda>b. fst b = a_id ap) (ss_buckets s)) in
           if ts = [] then None else Some (Max (set ts))), t))"
    by (auto simp: last_traffic_since_def ss_same_def ss_quiet_def quiet_def ss_db_def op_db_def op_store_def on_dm_def
        db_call_def Let_def)
  then obtain t where t: "ss_same s t" "last_traffic_since (a_id ap) s = (Inl ErrDB, t) \<and> \<not> ss_quiet s
      \<or> last_traffic_since (a_id ap) s = (Inr (let ts = map snd (filter (\<lambda>b. fst b = a_id ap) (ss_buckets s)) in
           if ts = [] then None else Some (Max (set ts))), t)" by blast
  have tr: "ss_same s t \<Longrightarrow> ss_same t u \<Longrightarrow> ss_same s u" for u by (simp add: ss_same_def)
  from t(2) show ?thesis
  proof
    assume "last_traffic_since (a_id ap) s = (Inl ErrDB, t) \<and> \<not> ss_quiet s"
    then show ?thesis using t(1) by (simp add: tick_app_def and_then_def attempt_def ret_def)
  next
    assume l: "last_traffic_since (a_id ap) s = (Inr (let ts = map snd (filter (\<lambda>b. fst b = a_id ap) (ss_buckets s)) in
           if ts = [] then None else Some (Max (set ts))), t)"
    show ?thesis
    proof (cases "filter (\<lambda>b. fst b = a_id ap) (ss_buckets s) = []")
      case True
      then show ?thesis
        using t(1) l by (simp add: tick_app_def idle_past_def and_then_def attempt_def ret_def)
    next
      case False
      let ?x = "Max (set (map snd (filter (\<lambda>b. fst b = a_id ap) (ss_buckets s))))"
      obtain u where "ignore (ss_db (set_last_traffic (a_id ap) ?x)) t = (Inr () :: store_err + unit, u)" "ss_same s u"
        using tr [OF t(1)] stamp_result [of "a_id ap" ?x t] by blast
      then show ?thesis
        using t(1) l False by (simp add: tick_app_def idle_past_def and_then_def attempt_def ret_def)
    qed
  qed
qed

lemma tick_apps_result:
  "\<exists>xs t. tick_apps sw now updated aps s = (Inr xs, t) \<and> ss_same s t
     \<and> subseq xs (filter (idle_past sw now updated (ss_buckets s)) aps)
     \<and> (ss_quiet s \<longrightarrow> xs = filter (idle_past sw now updated (ss_buckets s)) aps)"
proof (induction aps arbitrary: s)
  case Nil
  then show ?case by (simp add: ret_def ss_same_def)
next
  case (Cons ap aps)
  let ?p = "idle_past sw now updated (ss_buckets s)"
  obtain xs t where 1: "tick_app sw now updated ap s = (Inr xs, t)" "ss_same s t" "xs = [] \<or> xs = [ap] \<and> ?p ap"
    "ss_quiet s \<longrightarrow> xs = (if ?p ap then [ap] else [])"
    using tick_app_result [of sw now updated ap s] by blast
  obtain ys u where 2: "tick_apps sw now updated aps t = (Inr ys, u)" "ss_same t u"
    "subseq ys (filter (idle_past sw now updated (ss_buckets t)) aps)"
    "ss_quiet t \<longrightarrow> ys = filter (idle_past sw now updated (ss_buckets t)) aps"
    using Cons.IH [of t] by blast
  have "ss_buckets t = ss_buckets s" "ss_quiet s \<longrightarrow> ss_quiet t" using 1(2) by (simp_all add: ss_same_def)
  with 1 2 show ?case by (auto simp: and_then_def ret_def ss_same_def)
qed

lemma sweep_tick_result:
  "\<exists>aps t. sweep_tick sw now updated s = (Inr (map (\<lambda>a. (a, now)) aps), t)
     \<and> subseq aps (filter (\<lambda>a. idle_suspend_eligible (ss_jobs s) (ss_backups s) a \<and> idle_past sw now updated (ss_buckets s) a)
         (apps (dm_db (px_dom (op_px (ss_ops s))))))
     \<and> (ss_quiet s \<longrightarrow> aps = filter (\<lambda>a. idle_suspend_eligible (ss_jobs s) (ss_backups s) a \<and> idle_past sw now updated (ss_buckets s) a)
         (apps (dm_db (px_dom (op_px (ss_ops s))))))"
proof -
  let ?el = "filter (idle_suspend_eligible (ss_jobs s) (ss_backups s)) (apps (dm_db (px_dom (op_px (ss_ops s)))))"
  have "\<exists>t. ss_same s t \<and> (list_idle_suspend_apps s = (Inl ErrDB, t) \<and> \<not> ss_quiet s \<or> list_idle_suspend_apps s = (Inr ?el, t))"
    by (auto simp: list_idle_suspend_apps_def ss_same_def ss_quiet_def quiet_def ss_db_def op_db_def op_store_def on_dm_def
        db_call_def Let_def)
  then obtain t where t: "ss_same s t" "list_idle_suspend_apps s = (Inl ErrDB, t) \<and> \<not> ss_quiet s \<or> list_idle_suspend_apps s = (Inr ?el, t)"
    by blast
  obtain xs u where x: "tick_apps sw now updated ?el t = (Inr xs, u)"
    "subseq xs (filter (idle_past sw now updated (ss_buckets t)) ?el)"
    "ss_quiet t \<longrightarrow> xs = filter (idle_past sw now updated (ss_buckets t)) ?el"
    using tick_apps_result [of sw now updated ?el t] by blast
  have f: "filter (idle_past sw now updated (ss_buckets s)) ?el
      = filter (\<lambda>a. idle_suspend_eligible (ss_jobs s) (ss_backups s) a \<and> idle_past sw now updated (ss_buckets s) a)
         (apps (dm_db (px_dom (op_px (ss_ops s)))))"
    by (simp add: conj_commute)
  show ?thesis
    using t x unfolding f [symmetric]
    by (auto simp: sweep_tick_def and_then_def attempt_def ret_def ss_same_def)
qed

text \<open>The docker calls of a suspension: one stop, when the row still says that the app is up and idle.\<close>

definition composed :: "compose_call list \<Rightarrow> 'w ops \<Rightarrow> bool" where
  "composed cs s = (op_compose s = cs)"

lemma keeps_composed [vac_wp]:
  "keeps (composed cs) (op_store q)" "keeps (composed cs) (op_db q')" "keeps (composed cs) (op_route q'')"
  by (simp_all add: keeps_def composed_def op_db_def op_store_def op_route_def split: prod.split)

lemma suspend_idle:
  assumes "sz_db env (get_app (a_id ap)) s = (Inr fresh, t)" and "still_idle decided fresh"
  shows "op_compose (snd (suspend_body env ap decided s)) = op_compose t @ [Compose_Stop (compose_project (a_slug ap)) []]"
proof -
  let ?stop = "Compose_Stop (compose_project (a_slug ap)) []"
  define rest where "rest = and_then (prefixed (''suspend '' @ a_slug ap @ '': mark suspended: '')
        (sz_db env (set_app_suspended (a_id ap) True))) (\<lambda>_.
      and_then (mark_services (a_id ap) St_Stopped) (\<lambda>_.
      prefixed (''suspend '' @ a_slug ap @ '': install wake routes: '')
         (op_route (install_wake_routes (oe_manager env) (a_id ap)))))"
  have k: "keeps (composed cs) rest" for cs
    unfolding rest_def prefixed_def sz_db_def mark_services_def by (intro vac_wp)
  obtain b u where b: "run_compose env ?stop t = (b, u)" by fastforce
  then have u: "op_compose u = op_compose t @ [?stop]" by (auto simp: run_compose_def split: prod.splits)
  have "suspend_body env ap decided s = (case b of Inl e \<Rightarrow> (Inl (''suspend '' @ a_slug ap @ '': stop stack: '' @ e), u) | Inr _ \<Rightarrow> rest u)"
    using assms b by (simp add: suspend_body_def rest_def and_then_def prefixed_def map_err_def split: sum.split)
  then show ?thesis
    using u keepsD [OF k, of "op_compose t @ [?stop]" u] by (simp add: composed_def split: sum.split)
qed

lemma suspend_free: "a_id ap \<notin> op_flight s \<Longrightarrow> op_compose (snd (suspend env ap decided s))
    = op_compose (snd (suspend_body env ap decided (s\<lparr>op_flight := insert (a_id ap) (op_flight s)\<rparr>)))"
  by (simp add: suspend_def in_flight_def acquire_def split: prod.split)

lemma suspend_calls:
  "op_compose (snd (suspend env ap decided s)) = op_compose s
   \<or> (\<exists>fresh \<in> set (apps (dm_db (px_dom (op_px s)))). a_id fresh = a_id ap \<and> still_idle decided fresh
      \<and> op_compose (snd (suspend env ap decided s)) = op_compose s @ [Compose_Stop (compose_project (a_slug ap)) []])"
proof (cases "a_id ap \<in> op_flight s")
  case True
  then show ?thesis by (simp add: suspend_def in_flight_def acquire_def ret_def)
next
  case False
  let ?s = "s\<lparr>op_flight := insert (a_id ap) (op_flight s)\<rparr>"
  note s = suspend_free [OF False, of env decided]
  obtain r t where g: "sz_db env (get_app (a_id ap)) ?s = (r, t)" by fastforce
  have c: "op_compose t = op_compose s"
    using keepsD [OF keeps_composed(2), of "op_compose s" ?s "get_app (a_id ap)"] g
    by (auto simp: composed_def sz_db_def map_err_def split: prod.splits sum.splits)
  show ?thesis
  proof (cases r)
    case (Inl e)
    then show ?thesis using s g c by (simp add: suspend_body_def and_then_def)
  next
    case (Inr fresh)
    then have m: "fresh \<in> set (apps (dm_db (px_dom (op_px s))))" "a_id fresh = a_id ap"
      using g by (auto simp: sz_db_def op_db_def op_store_def on_dm_def get_app_def db_call_def sem_defs Let_def
          find_Some_iff split: prod.splits sum.splits if_splits option.splits)
    show ?thesis
    proof (cases "still_idle decided fresh")
      case False
      then show ?thesis using s g c Inr by (simp add: suspend_body_def and_then_def ret_def)
    next
      case True
      then show ?thesis using s m c suspend_idle [of env ap ?s fresh t decided] g Inr by auto
    qed
  qed
qed

text \<open>
  C17: The sweeper stops idle apps only. A goroutine that a tick starts calls docker at most once, and when it does,
  to stop the stack of the app, then at the tick the app had opted in, was running, not a preview, not from a template
  and without an enabled job or backup, no request had reached it for its window and the grace period (counted
  from its last update if none is on record), and when the goroutine looked again the app was not suspended and
  had no later traffic on record.
\<close>

theorem sweeper_stops_idle_only:
  assumes "fst (sweep_tick sw now updated s) = Inr xs" and "(a, decided) \<in> set xs"
    and "op_compose (snd (suspend env a decided o')) \<noteq> op_compose o'"
  shows "op_compose (snd (suspend env a decided o')) = op_compose o' @ [Compose_Stop (compose_project (a_slug a)) []]
    \<and> a \<in> set (apps (dm_db (px_dom (op_px (ss_ops s)))))
    \<and> idle_suspend_eligible (ss_jobs s) (ss_backups s) a \<and> idle_past sw now updated (ss_buckets s) a
    \<and> (\<exists>fresh \<in> set (apps (dm_db (px_dom (op_px o')))). a_id fresh = a_id a \<and> still_idle now fresh)"
proof -
  obtain aps t where r: "sweep_tick sw now updated s = (Inr (map (\<lambda>a. (a, now)) aps), t)"
    "subseq aps (filter (\<lambda>a. idle_suspend_eligible (ss_jobs s) (ss_backups s) a \<and> idle_past sw now updated (ss_buckets s) a)
         (apps (dm_db (px_dom (op_px (ss_ops s))))))"
    using sweep_tick_result [of sw now updated s] by blast
  have "decided = now" "a \<in> set aps" using r(1) assms(1,2) by auto
  moreover have "set aps \<subseteq> set (filter (\<lambda>a. idle_suspend_eligible (ss_jobs s) (ss_backups s) a \<and> idle_past sw now updated (ss_buckets s) a)
         (apps (dm_db (px_dom (op_px (ss_ops s))))))"
    using r(2) by (meson subseq_order.trans subseq_singleton_left subsetI)
  ultimately show ?thesis using suspend_calls [of env a decided o'] assms(3) by auto
qed

text \<open>A tick of two apps of which one had a request a minute ago.\<close>

definition drowsy_app :: "string \<Rightarrow> app" where
  "drowsy_app i = (maint_app i False)\<lparr>a_idle_suspend := True\<rparr>"

definition drowsy_ops :: "unit ops" where
  "drowsy_ops = down_ops\<lparr>op_px := (op_px down_ops)\<lparr>px_dom := \<lparr>dm_db = empty_db\<lparr>apps := [drowsy_app ''a'', drowsy_app ''b'']\<rparr>, dm_rows = []\<rparr>\<rparr>\<rparr>"

definition drowsy_state :: "unit sweep_state" where
  "drowsy_state = \<lparr>ss_ops = drowsy_ops, ss_buckets = [(''b'', 59 * minute)], ss_jobs = [], ss_backups = []\<rparr>"

lemma drowsy_tick: "fst (sweep_tick (new_sweeper 0 0) (60 * minute) (\<lambda>_. 0) drowsy_state) = Inr [(drowsy_app ''a'', 60 * minute)]"
proof -
  let ?sw = "new_sweeper 0 0"
  have "ss_quiet drowsy_state" by (simp add: ss_quiet_def quiet_def drowsy_state_def drowsy_ops_def down_ops_def empty_db_def)
  moreover have "apps (dm_db (px_dom (op_px (ss_ops drowsy_state)))) = [drowsy_app ''a'', drowsy_app ''b'']"
    by (simp add: drowsy_state_def drowsy_ops_def down_ops_def empty_db_def)
  moreover have "idle_suspend_eligible (ss_jobs drowsy_state) (ss_backups drowsy_state) (drowsy_app i)" for i
    by (simp add: idle_suspend_eligible_def drowsy_state_def drowsy_app_def maint_app_def)
  moreover have "idle_past ?sw (60 * minute) (\<lambda>_. 0) (ss_buckets drowsy_state) (drowsy_app ''a'')"
    "\<not> idle_past ?sw (60 * minute) (\<lambda>_. 0) (ss_buckets drowsy_state) (drowsy_app ''b'')"
    by (simp_all add: idle_past_def drowsy_state_def drowsy_app_def maint_app_def new_sweeper_def idle_window_def
        time_sub_def wrap64_def min_int64_def max_int64_def)
  ultimately show ?thesis
    using sweep_tick_result [of ?sw "60 * minute" "\<lambda>_. 0" drowsy_state] by auto
qed

theorem sweeper_stops_idle_only_witness:
  "\<exists>fresh \<in> set (apps (dm_db (px_dom (op_px drowsy_ops)))). a_id fresh = ''a'' \<and> still_idle (60 * minute) fresh"
proof -
  let ?a = "drowsy_app ''a''"
  have calls: "op_compose (snd (suspend down_env ?a (60 * minute) drowsy_ops)) \<noteq> op_compose drowsy_ops"
  proof -
    let ?s = "drowsy_ops\<lparr>op_flight := {''a''}\<rparr>"
    have id: "a_id ?a = ''a''" "a_slug ?a = ''a''" by (simp_all add: drowsy_app_def maint_app_def)
    have si: "still_idle (60 * minute) ?a" by (simp add: still_idle_def drowsy_app_def maint_app_def)
    obtain u where "sz_db down_env (get_app ''a'') ?s = (Inr ?a, u)" "op_compose u = []"
      using that by (simp add: sz_db_def op_db_def op_store_def on_dm_def get_app_def db_call_def sem_defs Let_def
          drowsy_ops_def down_ops_def empty_db_def id)
    then have "op_compose (snd (suspend_body down_env ?a (60 * minute) ?s)) = [Compose_Stop (compose_project ''a'') []]"
      using suspend_idle [of down_env ?a ?s ?a u "60 * minute"] si id by simp
    then show ?thesis
      using suspend_free [of ?a drowsy_ops down_env "60 * minute"] by (simp add: id drowsy_ops_def down_ops_def)
  qed
  have "fst (sweep_tick (new_sweeper 0 0) (60 * minute) (\<lambda>_. 0) drowsy_state) = Inr [(?a, 60 * minute)]" by (rule drowsy_tick)
  from sweeper_stops_idle_only [OF this _ calls] show ?thesis by (simp add: drowsy_app_def maint_app_def)
qed

end
