(* ===== verification/Ops_Safety.thy ===== *)
theory Ops_Safety
  imports Stack_Ops
begin

text \<open>
  What the operator's controls do to the routes. On collaborators that answer, stopping an app takes every
  route of the app away, and stopping one service takes none: the route manager looks at the container and
  the ports of a service, not at its status.
\<close>

section \<open>A sync, seen in the route table\<close>

lemma control_id_unmanaged: "\<not> is_managed_route_id control_route_id"
  by (simp add: is_managed_route_id_def control_route_id_def route_id_prefix_def auto_route_id_prefix_def go_eval)

lemma spec_live:
  assumes "ap \<in> set (apps_of T)" and "sp \<in> set (app_specs m T ap)"
  shows "rs_id sp \<in> set (live_ids m T)" "rs_id sp \<noteq> control_route_id"
proof -
  have "(ap, sp) \<in> set (all_specs m T)" using assms by (auto simp: all_specs_def)
  from spec_ids_live [OF this] show "rs_id sp \<in> set (live_ids m T)" "rs_id sp \<noteq> control_route_id"
    using control_id_unmanaged by auto
qed

lemma find_distinct: "distinct (map k xs) \<Longrightarrow> x \<in> set xs \<Longrightarrow> find (\<lambda>y. k y = k x) xs = Some x"
  by (induction xs) (auto simp: rev_image_eqI)

lemma put_app_at:
  assumes "schema_ok T" and "sp \<in> set (app_specs m T ap)"
  shows "put_app m T ap M (rs_id sp) = target m ap (services_of (a_id ap) T) sp"
proof -
  have d: "distinct (map rs_id (app_specs m T ap))" by (rule distinct_app_spec_ids [OF assms(1)])
  have "find (\<lambda>x. rs_id x = rs_id sp) (app_specs m T ap) = Some sp" by (rule find_distinct [OF d assms(2)])
  then show ?thesis
    unfolding put_app_def put_target_def [abs_def] by (simp add: fold_update_find [OF d])
qed

lemma sync_route:
  assumes ans: "answering m view" and at: "at_table view T M s" and sch: "schema_ok T"
    and ap: "app_of i T = Inr ap" and sp: "sp \<in> set (app_specs m T ap)"
  shows "route_now view (snd (sync m i s)) (rs_id sp) = target m ap (services_of i T) sp"
proof -
  have id: "a_id ap = i" and mem: "ap \<in> set (apps_of T)" using app_of_Inr [OF ap] by simp_all
  have "at_table view T (pruned m T (put_control m (put_app m T ap M))) (snd (sync m i s))"
    using sync_moves [OF ans ap] at by (simp add: moves_def)
  then show ?thesis
    using put_app_at [OF sch sp, of M] spec_live [OF mem sp] id
    by (simp add: at_table_def route_now_def pruned_def put_control_def)
qed

text \<open>Reconcile leaves every wanted route at its target.\<close>

lemma reconcile_spec:
  assumes "answering m view" "quiet (px_dom s)" "schema_ok (tbl (px_dom s))" "ids_ok (view (ou_world s))"
    and ap: "ap \<in> set (apps_of (tbl (px_dom s)))" and sp: "sp \<in> set (app_specs m (tbl (px_dom s)) ap)"
  shows "route_now view (snd (reconcile m s)) (rs_id sp) = target m ap (services_of (a_id ap) (tbl (px_dom s))) sp"
proof -
  let ?T = "tbl (px_dom s)"
  have mem: "(ap, sp) \<in> set (all_specs m ?T)" using assms by (auto simp: all_specs_def)
  have "distinct (map (\<lambda>x. rs_id (snd x)) (all_specs m ?T))" by (rule distinct_spec_ids [OF assms(3)])
  from find_distinct [OF this mem] have "wanted m ?T (rs_id sp) = Some (target m ap (services_of (a_id ap) ?T) sp)"
    by (simp add: wanted_def)
  then show ?thesis
    using reconcile_table(2) [OF assms(1-4), of "rs_id sp"] spec_live [OF ap sp] spec_ids_live [OF mem] by simp
qed

section \<open>The status of a service does not matter\<close>

definition restatus :: "(service \<Rightarrow> bool) \<Rightarrow> stack_status \<Rightarrow> int option \<Rightarrow> service \<Rightarrow> service" where
  "restatus p st e v = (if p v then v\<lparr>s_status := st, s_exit_code := coalesce e (s_exit_code v)\<rparr> else v)"

lemma restatus_simps [simp]:
  "s_name (restatus p st e v) = s_name v" "s_app (restatus p st e v) = s_app v"
  "http_service (restatus p st e v) = http_service v" "routable m (restatus p st e v) = routable m v"
  "app_route m i h (restatus p st e v) slug rpm = app_route m i h v slug rpm"
  "has_container (restatus p st e v) = has_container v" "s_container (restatus p st e v) = s_container v"
  by (simp_all add: restatus_def http_service_def routable_def has_container_def app_route_def dial_def)

lemma sort_key_map:
  assumes "\<And>x. k (g x) = k x"
  shows "sort_key k (map g xs) = map g (sort_key k xs)"
proof -
  have ins: "insort_key k (g x) (map g ys) = map g (insort_key k x ys)" for x ys
    by (induction ys) (simp_all add: assms)
  show ?thesis by (induction xs) (simp_all add: sort_key_def ins)
qed

definition at_services :: "(service \<Rightarrow> service) \<Rightarrow> tables \<Rightarrow> tables" where
  "at_services g T = (fst T, map g (fst (snd T)), snd (snd T))"

lemma services_restatus: "services_of i (at_services (restatus p st e) T) = map (restatus p st e) (services_of i T)"
  by (simp add: services_of_def at_services_def filter_map comp_def sort_key_map)

lemma by_name_restatus: "by_name (map (restatus p st e) vs) n = map_option (restatus p st e) (by_name vs n)"
proof -
  have "find (\<lambda>v. s_name v = n) (map (restatus p st e) us) = map_option (restatus p st e) (find (\<lambda>v. s_name v = n) us)" for us
    by (induction us) simp_all
  then show ?thesis by (simp add: by_name_def rev_map)
qed

lemma target_restatus: "target m ap (map (restatus p st e) vs) sp = target m ap vs sp"
  by (simp add: target_def by_name_restatus split: option.split)

lemma desired_restatus: "desired_routes m ap ds (map (restatus p st e) vs) = desired_routes m ap ds vs"
proof -
  have "auto_hosts_for_app m ap (map (restatus p st e) vs)
      = map (\<lambda>h. h\<lparr>ah_service := restatus p st e (ah_service h)\<rparr>) (auto_hosts_for_app m ap vs)"
    by (simp add: auto_hosts_for_app_def Let_def filter_map comp_def List.map_filter_def)
  then show ?thesis by (simp add: desired_routes_def comp_def)
qed

lemma specs_restatus: "app_specs m (at_services (restatus p st e) T) ap = app_specs m T ap"
  unfolding app_specs_def services_restatus by (simp add: desired_restatus domains_of_def at_services_def)

lemma app_restatus: "app_of i (at_services g T) = app_of i T"
  by (simp add: app_of_def at_services_def)

lemma schema_restatus: "schema_ok T \<Longrightarrow> schema_ok (at_services (restatus p st e) T)"
  by (simp add: schema_ok_def at_services_def comp_def)

section \<open>Steps of the handlers\<close>

text \<open>A docker that does what it is told and leaves Caddy alone.\<close>

definition docker_answers :: "'w ops_env \<Rightarrow> ('w \<Rightarrow> route list) \<Rightarrow> bool" where
  "docker_answers env view = (\<forall>c w. \<exists>w'. oe_docker env c w = (None, w') \<and> view w' = view w)"

definition ops_at :: "('w \<Rightarrow> route list) \<Rightarrow> tables \<Rightarrow> rtable \<Rightarrow> 'w ops \<Rightarrow> bool" where
  "ops_at view T M s = at_table view T M (op_px s)"

definition ops_moves ::
  "('w \<Rightarrow> route list) \<Rightarrow> tables \<Rightarrow> rtable \<Rightarrow> ('w ops, 'e, 'a) sem \<Rightarrow> 'a \<Rightarrow> tables \<Rightarrow> rtable \<Rightarrow> bool" where
  "ops_moves view T M q x T' M' = (\<forall>s. ops_at view T M s \<longrightarrow> fst (q s) = Inr x \<and> ops_at view T' M' (snd (q s)))"

lemma ops_moves_then:
  "ops_moves view T M q x T' M' \<Longrightarrow> ops_moves view T' M' (f x) y T'' M'' \<Longrightarrow> ops_moves view T M (and_then q f) y T'' M''"
  unfolding ops_moves_def and_then_def by (fastforce split: prod.split sum.split)

lemma ops_moves_err: "ops_moves view T M q x T' M' \<Longrightarrow> ops_moves view T M (map_err g q) x T' M'"
  unfolding ops_moves_def map_err_def by (fastforce split: prod.split sum.split)

lemma ops_moves_ignore: "ops_moves view T M q x T' M' \<Longrightarrow> ops_moves view T M (ignore q) () T' M'"
  unfolding ops_moves_def ignore_def by (auto split: prod.split)

lemma ops_moves_attempt: "ops_moves view T M q x T' M' \<Longrightarrow> ops_moves view T M (attempt q) (Inr x) T' M'"
  unfolding ops_moves_def attempt_def by (fastforce split: prod.split)

lemma ops_moves_ret: "ops_moves view T M (ret x) x T M"
  by (simp add: ops_moves_def ret_def)

lemma ops_moves_audit: "ops_moves view T M (log_audit a) () T M"
  by (simp add: ops_moves_def log_audit_def act_def ops_at_def)

lemma ops_moves_route: "moves view T M q x M' \<Longrightarrow> ops_moves view T M (op_route q) x T M'"
  by (auto simp: ops_moves_def moves_def op_route_def ops_at_def split: prod.split)

lemma ops_moves_read:
  assumes q: "is_read (on_dm q) g" and g: "g T = Inr x"
  shows "ops_moves view T M (op_db q) x T M"
proof -
  have "fst (op_db q s) = Inr x \<and> ops_at view T M (snd (op_db q s))" if "ops_at view T M s" for s
  proof -
    obtain r d where d: "on_dm q (px_dom (op_px s)) = (r, d)" by fastforce
    have "quiet (px_dom (op_px s))" "tbl (px_dom (op_px s)) = T" using that by (simp_all add: ops_at_def at_table_def)
    then have "r = Inr x" "tbl d = T" "quiet d"
      using q g d unfolding is_read_def quiet_def by (metis fst_conv snd_conv)+
    then show ?thesis using that d by (simp add: op_db_def op_store_def ops_at_def at_table_def)
  qed
  then show ?thesis by (simp add: ops_moves_def)
qed

lemma ops_moves_compose: "docker_answers env view \<Longrightarrow> ops_moves view T M (run_compose env c) () T M"
  unfolding ops_moves_def docker_answers_def ops_at_def at_table_def run_compose_def
  by (auto split: prod.split option.split) (metis fst_conv snd_conv option.distinct(1) option.inject)+

lemma ops_moves_status:
  assumes "svc_key app name v" "v \<in> set (fst (snd T))"
  shows "ops_moves view T M (op_db (update_service_status app name st e)) () (at_services (restatus (svc_key app name) st e) T) M"
  using assms
  by (auto simp: ops_moves_def ops_at_def at_table_def op_db_def op_store_def on_dm_def update_service_status_def
      or_not_found_def update_services_def db_call_def sem_defs Let_def quiet_def tbl_def at_services_def restatus_def
      filter_empty_conv)

section \<open>Stopping\<close>

lemma ops_moves_load: "app_of i T = Inr ap \<Longrightarrow> ops_moves view T M (load_app i) ap T M"
  unfolding load_app_def by (rule ops_moves_err, rule ops_moves_read [OF read_get_app])

lemma ops_moves_sync:
  "answering (oe_manager env) view \<Longrightarrow> oe_proxy env \<Longrightarrow> app_of i T = Inr ap \<Longrightarrow>
   ops_moves view T M (proxy_sync env i) () T
     (pruned (oe_manager env) T (put_control (oe_manager env) (put_app (oe_manager env) T ap M)))"
  unfolding proxy_sync_def by simp (rule ops_moves_ignore, rule ops_moves_route, rule sync_moves)

lemma stop_service_moves:
  assumes ans: "answering (oe_manager env) view" "docker_answers env view" "oe_proxy env"
    and ap: "app_of i T = Inr ap" and v: "v \<in> set (services_of i T)" "s_name v = name"
  defines "U \<equiv> at_services (restatus (svc_key i name) St_Stopped None) T" and "m \<equiv> oe_manager env"
  shows "ops_moves view T M (stop_service env i name) (ops_ok ''stopped'') U (pruned m U (put_control m (put_app m U ap M)))"
proof -
  have id: "a_id ap = i" using app_of_Inr [OF ap] by simp
  have svc: "svc_key i name v" "v \<in> set (fst (snd T))"
    using v by (simp_all add: svc_key_def services_of_mem)
  have apU: "app_of i U = Inr ap" using ap by (simp add: U_def app_restatus)
  show ?thesis
    unfolding stop_service_def
    apply (rule ops_moves_then [OF ops_moves_load [OF ap]], unfold id)
    apply (rule ops_moves_then [OF ops_moves_err [OF ops_moves_compose [OF ans(2)]]])
    apply (rule ops_moves_then [OF ops_moves_ignore [OF ops_moves_status [OF svc]]], fold U_def)
    apply (rule ops_moves_then [OF ops_moves_sync [OF ans(1,3) apU], folded U_def m_def])
    by (rule ops_moves_then [OF ops_moves_audit ops_moves_ret])
qed

lemma stop_service_route:
  assumes ans: "answering (oe_manager env) view" "docker_answers env view" "oe_proxy env"
    and st: "quiet (px_dom (op_px s))" "schema_ok (tbl (px_dom (op_px s)))" "ids_ok (view (ou_world (op_px s)))"
    and ap: "app_of i (tbl (px_dom (op_px s))) = Inr ap"
    and v: "v \<in> set (services_of i (tbl (px_dom (op_px s))))" "s_name v = name"
    and sp: "sp \<in> set (app_specs (oe_manager env) (tbl (px_dom (op_px s))) ap)"
  shows "fst (ops_serve (stop_service env i name) s) = ops_ok ''stopped''
    \<and> route_now view (op_px (snd (ops_serve (stop_service env i name) s))) (rs_id sp)
      = target (oe_manager env) ap (services_of i (tbl (px_dom (op_px s)))) sp
    \<and> tbl (px_dom (op_px (snd (ops_serve (stop_service env i name) s))))
      = at_services (restatus (svc_key i name) St_Stopped None) (tbl (px_dom (op_px s)))"
proof -
  let ?T = "tbl (px_dom (op_px s))" and ?m = "oe_manager env"
  let ?U = "at_services (restatus (svc_key i name) St_Stopped None) ?T"
  have id: "a_id ap = i" and mem: "ap \<in> set (apps_of ?U)"
    using app_of_Inr [OF ap] by (simp_all add: at_services_def)
  have at: "ops_at view ?T (route_map (view (ou_world (op_px s)))) s"
    using st by (simp add: ops_at_def at_table_def)
  have r: "fst (stop_service env i name s) = Inr (ops_ok ''stopped'')"
    "ops_at view ?U (pruned ?m ?U (put_control ?m (put_app ?m ?U ap (route_map (view (ou_world (op_px s))))))) (snd (stop_service env i name s))"
    using stop_service_moves [OF ans ap v] at by (simp_all add: ops_moves_def)
  have spU: "sp \<in> set (app_specs ?m ?U ap)" using sp by (simp add: specs_restatus)
  have "put_app ?m ?U ap M (rs_id sp) = target ?m ap (services_of i ?T) sp" for M
    using put_app_at [OF schema_restatus [OF st(2)] spU] by (simp add: services_restatus target_restatus id)
  then show ?thesis
    using r spec_live [OF mem spU]
    by (auto simp: ops_serve_def ops_at_def at_table_def route_now_def pruned_def put_control_def split: prod.split sum.split)
qed

lemma moves_collect_each:
  assumes "\<And>x M. x \<in> set xs \<Longrightarrow> moves view T M (f x) [] (g x M)"
  shows "moves view T M (collect_each f xs) [] (fold g xs M)"
  using assms
proof (induction xs arbitrary: M)
  case (Cons x xs)
  have one: "moves view T M (f x) [] (g x M)" by (rule Cons.prems) simp
  have rest: "moves view T (g x M) (collect_each f xs) [] (fold g xs (g x M))"
    by (rule Cons.IH) (simp add: Cons.prems)
  show ?case
    by (simp, rule moves_then [OF one], rule moves_then [OF rest]) (simp add: moves_ret)
qed (simp add: moves_ret)

lemma drop_all_moves:
  assumes "answering m view" and "\<forall>sp\<in>set sps. rs_id sp \<noteq> []"
  shows "moves view T M (collect_each (\<lambda>sp. and_then (ignore (delete_route (pm_api m) (rs_id sp))) (\<lambda>_. ret [])) sps) []
    (fold (\<lambda>sp M. M(rs_id sp := None)) sps M)"
  by (rule moves_collect_each) (use assms in \<open>auto intro!: moves_then [OF drop_moves] simp: moves_ret\<close>)

lemma detach_moves:
  assumes "answering m view"
  shows "moves view T M (detach_all m vs) [] M"
proof -
  have "moves view T M (detach_all m vs) [] (fold (\<lambda>_ M. M) vs M)"
    unfolding detach_all_def
    by (rule moves_collect_each) (use moves_collect [OF docker_moves [OF assms]] in \<open>simp add: moves_ret\<close>)
  moreover have "fold (\<lambda>_ M. M) vs M = M" by (induction vs) simp_all
  ultimately show ?thesis by simp
qed

lemma teardown_moves:
  assumes ans: "answering m view" and ap: "app_of i T = Inr ap"
  shows "moves view T M (teardown m i) () (fold (\<lambda>sp M. M(rs_id sp := None)) (app_specs m T ap) M)"
proof -
  have id: "a_id ap = i" using app_of_Inr [OF ap] by simp
  have ids: "\<forall>sp\<in>set (app_specs m T ap). rs_id sp \<noteq> []" using desired_ids unfolding app_specs_def by blast
  show ?thesis
    unfolding teardown_def
    by (rule moves_then [OF moves_store [OF read_get_app ap]],
        rule moves_then [OF moves_store [OF read_domains refl]],
        rule moves_then [OF moves_store [OF read_services refl]],
        rule moves_then [OF drop_all_moves [OF ans ids, unfolded app_specs_def id]],
        rule moves_then_join, unfold app_specs_def id, rule detach_moves [OF ans])
qed

lemma fold_drop: "fold (\<lambda>sp M. M(rs_id sp := None)) sps M i = (if i \<in> rs_id ` set sps then None else M i)"
  by (induction sps arbitrary: M) auto

text \<open>The whole stack: every row of the app, then the app itself.\<close>

lemma ops_moves_status':
  "ops_moves view T M (ignore (op_db (update_service_status app name st e))) () (at_services (restatus (svc_key app name) st e) T) M"
  by (auto simp: ops_moves_def ops_at_def at_table_def op_db_def op_store_def on_dm_def update_service_status_def
      or_not_found_def update_services_def db_call_def sem_defs Let_def quiet_def tbl_def at_services_def restatus_def
      split: prod.split)

lemma restatus_twice: "at_services (restatus (svc_key i n) st None) (at_services (restatus P st None) T)
    = at_services (restatus (\<lambda>v. P v \<or> svc_key i n v) st None) T"
  by (simp add: at_services_def restatus_def svc_key_def coalesce_def)

lemma mark_all_moves:
  "ops_moves view (at_services (restatus P st None) T) M
     (for_each vs (\<lambda>v. ignore (op_db (update_service_status i (s_name v) st None)))) ()
     (at_services (restatus (\<lambda>v. P v \<or> (\<exists>u\<in>set vs. svc_key i (s_name u) v)) st None) T) M"
proof (induction vs arbitrary: P)
  case Nil
  then show ?case by (simp add: ops_moves_ret)
next
  case (Cons u vs)
  show ?case
    using ops_moves_then [OF ops_moves_status' [where T = "at_services (restatus P st None) T" and app = i and name = "s_name u"
        and st = st and e = None, unfolded restatus_twice] Cons.IH [of "\<lambda>v. P v \<or> svc_key i (s_name u) v"]]
    by (simp add: disj_assoc)
qed

definition at_status :: "string \<Rightarrow> stack_status \<Rightarrow> tables \<Rightarrow> tables" where
  "at_status i st T = (map (\<lambda>a. if a_id a = i then a\<lparr>a_status := st\<rparr> else a) (fst T), snd T)"

lemma ops_moves_app_status: "ops_moves view T M (ignore (op_db (set_app_status i st))) () (at_status i st T) M"
  by (auto simp: ops_moves_def ops_at_def at_table_def op_db_def op_store_def on_dm_def set_app_status_def
      or_not_found_def update_apps_def db_call_def sem_defs Let_def quiet_def tbl_def at_status_def split: prod.split)

lemma app_at_status: "app_of i T = Inr ap \<Longrightarrow> app_of i (at_status i st T) = Inr (ap\<lparr>a_status := st\<rparr>)"
proof -
  have "find (\<lambda>a. a_id a = i) (map (\<lambda>a. if a_id a = i then a\<lparr>a_status := st\<rparr> else a) as)
      = map_option (\<lambda>a. a\<lparr>a_status := st\<rparr>) (find (\<lambda>a. a_id a = i) as)" for as :: "app list"
    by (induction as) auto
  then show "app_of i T = Inr ap \<Longrightarrow> app_of i (at_status i st T) = Inr (ap\<lparr>a_status := st\<rparr>)"
    by (auto simp: app_of_def at_status_def split: option.splits)
qed

lemma status_target: "target m (ap\<lparr>a_status := st\<rparr>) vs sp = target m ap vs sp"
  by (simp add: target_def split: option.split)

lemma status_hosts: "auto_hosts_for_app m (ap\<lparr>a_status := st\<rparr>) vs = auto_hosts_for_app m ap vs"
  by (simp add: auto_hosts_for_app_def Let_def cong: if_cong)

lemma status_tables: "services_of j (at_status i st T) = services_of j T" "domains_of j (at_status i st T) = domains_of j T"
  by (simp_all add: at_status_def services_of_def domains_of_def)

lemma status_specs: "app_specs m (at_status i st T) (ap\<lparr>a_status := st\<rparr>) = app_specs m T ap"
  by (simp add: app_specs_def desired_routes_def status_hosts status_tables)

lemma status_schema:
  assumes "schema_ok T"
  shows "schema_ok (at_status i st T)"
proof -
  have id: "a_id (if a_id a = i then a\<lparr>a_status := st\<rparr> else a) = a_id a" for a :: app by simp
  show ?thesis using assms by (auto simp: schema_ok_def at_status_def comp_def id)
qed

lemmas status_blind = status_target status_tables status_specs

definition stopped_tables :: "string \<Rightarrow> tables \<Rightarrow> tables" where
  "stopped_tables i T = at_status i St_Stopped
     (at_services (restatus (\<lambda>v. \<exists>u\<in>set (services_of i T). svc_key i (s_name u) v) St_Stopped None) T)"

lemma stop_app_moves:
  assumes ans: "answering (oe_manager env) view" "docker_answers env view" "oe_proxy env"
    and ap: "app_of i T = Inr ap"
  shows "ops_moves view T M (stop_app env i) (ops_ok ''stopped'') (stopped_tables i T)
    (\<lambda>j. if j \<in> rs_id ` set (app_specs (oe_manager env) T ap) then None else M j)"
proof -
  let ?P = "\<lambda>v. \<exists>u\<in>set (services_of i T). svc_key i (s_name u) v"
  have id: "a_id ap = i" using app_of_Inr [OF ap] by simp
  have none: "at_services (restatus (\<lambda>_. False) St_Stopped None) T = T"
    by (simp add: at_services_def restatus_def [abs_def])
  have all: "ops_moves view T M (apply_status_to_all i St_Stopped) () (at_services (restatus ?P St_Stopped None) T) M"
    unfolding apply_status_to_all_def
    using mark_all_moves [of view "\<lambda>_. False" St_Stopped T M "services_of i T" i, unfolded none]
    by (intro ops_moves_then [OF ops_moves_attempt [OF ops_moves_read [OF read_services refl]]]) simp
  have ap': "app_of i (stopped_tables i T) = Inr (ap\<lparr>a_status := St_Stopped\<rparr>)"
    unfolding stopped_tables_def by (rule app_at_status) (simp add: app_restatus ap)
  have td: "ops_moves view (stopped_tables i T) M (proxy_teardown env i) () (stopped_tables i T)
      (fold (\<lambda>sp M. M(rs_id sp := None)) (app_specs (oe_manager env) T ap) M)"
    unfolding proxy_teardown_def
    using teardown_moves [OF ans(1) ap', of M] ans(3)
    by (simp add: ops_moves_ignore ops_moves_route status_blind stopped_tables_def specs_restatus)
  have fun_eq: "fold (\<lambda>sp M. M(rs_id sp := None)) sps M = (\<lambda>j. if j \<in> rs_id ` set sps then None else M j)" for sps
    by (rule ext) (rule fold_drop)
  show ?thesis
    unfolding stop_app_def
    apply (rule ops_moves_then [OF ops_moves_load [OF ap]], unfold id)
    apply (rule ops_moves_then [OF ops_moves_err [OF ops_moves_compose [OF ans(2)]]])
    apply (rule ops_moves_then [OF all])
    apply (rule ops_moves_then [OF ops_moves_app_status], fold stopped_tables_def)
    by (rule ops_moves_then [OF td [unfolded fun_eq] ops_moves_ret])
qed

lemma target_at_stop: "ap' = ap\<lparr>a_status := St_Stopped\<rparr> \<Longrightarrow>
    target m ap' (services_of i (stopped_tables i T)) sp = target m ap (services_of i T) sp"
  by (simp add: stopped_tables_def status_blind services_restatus target_restatus)

lemma stop_then_reconcile:
  assumes ans: "answering (oe_manager env) view" "docker_answers env view" "oe_proxy env"
    and st: "quiet (px_dom (op_px s))" "schema_ok (tbl (px_dom (op_px s)))" "ids_ok (view (ou_world (op_px s)))"
    and ap: "app_of i (tbl (px_dom (op_px s))) = Inr ap"
  defines "t \<equiv> op_px (snd (ops_serve (stop_app env i) s))" and "T \<equiv> tbl (px_dom (op_px s))" and "m \<equiv> oe_manager env"
  shows "fst (ops_serve (stop_app env i) s) = ops_ok ''stopped''"
    and "route_now view t j = (if j \<in> rs_id ` set (app_specs m T ap) then None else route_now view (op_px s) j)"
    and "sp \<in> set (app_specs m T ap) \<Longrightarrow> route_now view (snd (reconcile m t)) (rs_id sp) = target m ap (services_of i T) sp"
proof -
  let ?ap = "ap\<lparr>a_status := St_Stopped\<rparr>" and ?U = "stopped_tables i T" and ?M = "route_map (view (ou_world (op_px s)))"
  have id: "a_id ap = i" using app_of_Inr [OF ap] by simp
  have apT: "app_of i T = Inr ap" using ap by (simp add: T_def)
  have at: "ops_at view T ?M s" using st by (simp add: ops_at_def at_table_def T_def)
  have r: "fst (stop_app env i s) = Inr (ops_ok ''stopped'')"
    "ops_at view ?U (\<lambda>j. if j \<in> rs_id ` set (app_specs m T ap) then None else ?M j) (snd (stop_app env i s))"
    using stop_app_moves [OF ans apT] at by (simp_all add: ops_moves_def m_def)
  show "fst (ops_serve (stop_app env i) s) = ops_ok ''stopped''"
    using r(1) by (auto simp: ops_serve_def split: prod.splits)
  have "op_px (snd (stop_app env i s)) = t"
    using r(1) by (auto simp: t_def ops_serve_def split: prod.splits)
  then have t: "at_table view ?U (\<lambda>j. if j \<in> rs_id ` set (app_specs m T ap) then None else ?M j) t"
    using r(2) by (simp add: ops_at_def)
  then show "route_now view t j = (if j \<in> rs_id ` set (app_specs m T ap) then None else route_now view (op_px s) j)"
    by (simp add: route_now_def at_table_def)
  assume sp: "sp \<in> set (app_specs m T ap)"
  have apU: "app_of i ?U = Inr ?ap" unfolding stopped_tables_def by (rule app_at_status) (simp add: app_restatus apT)
  have sch: "schema_ok ?U"
    unfolding stopped_tables_def by (rule status_schema, rule schema_restatus) (use st T_def in simp)
  have specU: "sp \<in> set (app_specs m ?U ?ap)" using sp by (simp add: stopped_tables_def status_blind specs_restatus)
  have memU: "?ap \<in> set (apps_of ?U)" using app_of_Inr [OF apU] by simp
  have T': "tbl (px_dom t) = ?U" "quiet (px_dom t)" "ids_ok (view (ou_world t))" using t by (simp_all add: at_table_def)
  have "route_now view (snd (reconcile m t)) (rs_id sp) = target m ?ap (services_of i ?U) sp"
    using reconcile_spec [OF ans(1) [folded m_def] T'(2) _ T'(3), unfolded T'(1), OF sch memU specU] id by simp
  then show "route_now view (snd (reconcile m t)) (rs_id sp) = target m ap (services_of i T) sp"
    by (simp add: target_at_stop)
qed

text \<open>
  C20: Stopping one service leaves its routes in place. On collaborators that answer, StopService stops the
  container, marks the row as stopped and syncs the app; every route of the app is afterwards what it would be
  with the service running, so a host of the stopped service is still proxied to it.
\<close>

theorem stop_service_keeps_route:
  assumes "answering (oe_manager env) view" and "docker_answers env view" and "oe_proxy env"
    and "quiet (px_dom (op_px s))" and "schema_ok (tbl (px_dom (op_px s)))" and "ids_ok (view (ou_world (op_px s)))"
    and "app_of i (tbl (px_dom (op_px s))) = Inr ap"
    and "v \<in> set (services_of i (tbl (px_dom (op_px s))))"
    and "sp \<in> set (app_specs (oe_manager env) (tbl (px_dom (op_px s))) ap)"
  defines "t \<equiv> op_px (snd (ops_serve (stop_service env i (s_name v)) s))"
  shows "fst (ops_serve (stop_service env i (s_name v)) s) = ops_ok ''stopped''
    \<and> (\<exists>u \<in> set (services_of i (tbl (px_dom t))). s_name u = s_name v \<and> s_status u = St_Stopped)
    \<and> route_now view t (rs_id sp) = target (oe_manager env) ap (services_of i (tbl (px_dom (op_px s)))) sp"
proof -
  note r = stop_service_route [OF assms(1-8) refl assms(9)]
  have "s_app v = i" using assms(8) by (simp add: services_of_mem)
  then have "s_status (restatus (svc_key i (s_name v)) St_Stopped None v) = St_Stopped"
    by (simp add: restatus_def svc_key_def)
  moreover have "services_of i (tbl (px_dom t)) = map (restatus (svc_key i (s_name v)) St_Stopped None) (services_of i (tbl (px_dom (op_px s))))"
    using r by (simp add: t_def services_restatus)
  ultimately show ?thesis using r assms(8) by (auto simp: t_def intro!: bexI [of _ v])
qed

text \<open>
  C19: Stopping an app takes its routes away until the next reconciliation. On collaborators that answer, StopApp
  removes the route of every host of the app and no other, and a later Reconcile, which the service runs at each
  start and when the base domain changes, puts every one of them back as if the app were running.
\<close>

theorem stop_app_pulls_routes:
  assumes "answering (oe_manager env) view" and "docker_answers env view" and "oe_proxy env"
    and "quiet (px_dom (op_px s))" and "schema_ok (tbl (px_dom (op_px s)))" and "ids_ok (view (ou_world (op_px s)))"
    and "app_of i (tbl (px_dom (op_px s))) = Inr ap"
  defines "t \<equiv> op_px (snd (ops_serve (stop_app env i) s))" and "T \<equiv> tbl (px_dom (op_px s))" and "m \<equiv> oe_manager env"
  shows "fst (ops_serve (stop_app env i) s) = ops_ok ''stopped''
    \<and> (\<forall>j. route_now view t j = (if j \<in> rs_id ` set (app_specs m T ap) then None else route_now view (op_px s) j))
    \<and> (\<forall>sp \<in> set (app_specs m T ap). route_now view (snd (reconcile m t)) (rs_id sp) = target m ap (services_of i T) sp)"
  using stop_then_reconcile [OF assms(1-7)] unfolding t_def T_def m_def by blast

text \<open>An instance: the app of the reconciliation example, with its service.\<close>

definition demo_env :: "route list ops_env" where
  "demo_env = \<lparr>oe_manager = demo_manager, oe_proxy = True, oe_crash = True, oe_stack = True, oe_work = True,
     oe_docker = (\<lambda>_ w. (None, w)), oe_work_dir = [], oe_deprovision = (\<lambda>_ w. w), oe_box = None,
     oe_unmarshal = (\<lambda>_. Inl []), oe_marshal = (\<lambda>_. None), oe_zone = (\<lambda>_. None)\<rparr>"

definition demo_ops :: "route list ops" where
  "demo_ops = \<lparr>op_px = demo_sys, op_mon = new_monitor, op_worker = new_worker 0 0, op_flight = {}, op_compose = [],
     op_audits = [], op_removed = []\<rparr>"

definition demo_spec :: route_spec where
  "demo_spec = \<lparr>rs_id = auto_route_id demo_uuid ''web'', rs_hostname = demo_uuid @ ''.example.com'', rs_service = ''web'', rs_redirect = []\<rparr>"

lemma demo_env_answers: "answering (oe_manager demo_env) (\<lambda>rs. rs)" "docker_answers demo_env (\<lambda>rs. rs)" "oe_proxy demo_env"
  using demo_answering by (simp_all add: demo_env_def docker_answers_def)

lemma demo_ops_tables:
  "quiet (px_dom (op_px demo_ops))" "schema_ok (tbl (px_dom (op_px demo_ops)))" "ids_ok (ou_world (op_px demo_ops))"
  "app_of demo_uuid (tbl (px_dom (op_px demo_ops))) = Inr (maint_app demo_uuid False)"
  "services_of demo_uuid (tbl (px_dom (op_px demo_ops))) = [demo_service\<lparr>s_app := demo_uuid\<rparr>]"
  by (simp_all add: demo_ops_def demo_sys_def quiet_def schema_ok_def tbl_def ids_ok_def empty_db_def maint_app_def demo_uuid_def
      demo_stale_def app_of_def services_of_def)

lemma demo_ops_spec: "demo_spec \<in> set (app_specs (oe_manager demo_env) (tbl (px_dom (op_px demo_ops))) (maint_app demo_uuid False))"
proof -
  have u: "a_id (maint_app demo_uuid False) = demo_uuid" "a_slug (maint_app demo_uuid False) = demo_uuid"
    by (simp_all add: maint_app_def)
  have b: "base_domain demo_manager = ''example.com''" by (simp add: base_domain_def demo_manager_def new_config_def)
  have "http_service (demo_service\<lparr>s_app := demo_uuid\<rparr>)" by (simp add: http_service_def demo_service_def)
  moreover have "auto_subdomain demo_uuid ''web'' ''example.com'' False = demo_uuid @ ''.example.com''"
    by (simp add: auto_subdomain_def demo_uuid_def)
  ultimately show ?thesis
    by (simp add: app_specs_def desired_routes_def demo_ops_tables u b auto_hosts_for_app_def List.map_filter_def
        demo_env_def demo_spec_def) (simp add: demo_service_def demo_uuid_def)
qed

lemma demo_target: "target demo_manager (maint_app demo_uuid False) [demo_service\<lparr>s_app := demo_uuid\<rparr>] demo_spec \<noteq> None"
  by (simp add: target_def demo_spec_def maint_app_def by_name_def demo_service_def routable_def has_container_def
      demo_manager_def new_config_def)

theorem stop_service_keeps_route_witness:
  "\<exists>r. route_now (\<lambda>rs. rs) (op_px (snd (ops_serve (stop_service demo_env demo_uuid ''web'') demo_ops))) (rs_id demo_spec) = Some r"
  using stop_service_keeps_route [where env = demo_env and view = "\<lambda>rs. rs" and s = demo_ops, OF demo_env_answers demo_ops_tables(1-4)
      _ demo_ops_spec, of "demo_service\<lparr>s_app := demo_uuid\<rparr>"] demo_target
  by (auto simp: demo_ops_tables(5) demo_env_def) (simp add: demo_service_def)

theorem stop_app_pulls_routes_witness:
  "route_now (\<lambda>rs. rs) (op_px (snd (ops_serve (stop_app demo_env demo_uuid) demo_ops))) (rs_id demo_spec) = None
   \<and> route_now (\<lambda>rs. rs) (snd (reconcile demo_manager (op_px (snd (ops_serve (stop_app demo_env demo_uuid) demo_ops))))) (rs_id demo_spec) \<noteq> None"
proof -
  have m: "oe_manager demo_env = demo_manager" by (simp add: demo_env_def)
  note r = stop_app_pulls_routes [where env = demo_env and view = "\<lambda>rs. rs" and s = demo_ops, OF demo_env_answers demo_ops_tables(1-4), unfolded m demo_ops_tables(5)]
  show ?thesis using r demo_ops_spec [unfolded m] demo_target by (metis imageI)
qed

end
