(* ===== verification/Guard.thy ===== *)
theory Guard
  imports Scale_To_Zero
begin

text \<open>
  The login gate in front of guarded services: the signed tokens of api/internal/guard/token.go and the
  verify, start and redeem endpoints of api/internal/server/handler/guard.go. HMAC, JSON and url.Parse of
  the standard library are fields of the environment, the base64 and query encodings are written out;
  a dashboard session is looked up by a function of the cookie and the time. Every call of Mint is
  recorded. Case folding is the one of ASCII.
\<close>

section \<open>Tokens\<close>

record payload =
  pl_kind :: string
  pl_host :: string
  pl_user :: string
  pl_expiry :: int

definition kind_session :: string where "kind_session = ''s''"
definition kind_exchange :: string where "kind_exchange = ''x''"

definition cookie_ttl :: duration where "cookie_ttl = 12 * hour"
definition exchange_ttl :: duration where "exchange_ttl = 60 * second"

text \<open>The parts of a parsed URL that are used.\<close>

record url =
  ur_scheme :: string
  ur_host :: string
  ur_path :: string
  ur_query :: string

text \<open>A signer is the function sign; None is the nil signer.\<close>

type_synonym signer = "(string \<Rightarrow> string) option"

record 'w guard_env =
  ge_ops :: "'w ops_env"
  ge_resolver :: bool
  ge_signer :: signer
  ge_marshal :: "payload \<Rightarrow> string"
  ge_unmarshal :: "string \<Rightarrow> payload option"
  ge_parse_url :: "string \<Rightarrow> url option"
  ge_session :: "string \<Rightarrow> instant \<Rightarrow> string option"
  ge_control :: string
  ge_token :: string

definition new_signer :: "(string \<Rightarrow> string \<Rightarrow> string) \<Rightarrow> string \<Rightarrow> signer" where
  "new_signer hmac master = (if master = [] then None else Some (hmac (hmac master ''vac-guard-token-v1'')))"

definition unix :: "instant \<Rightarrow> int" where
  "unix t = t div second"

definition mint_payload :: "string \<Rightarrow> string \<Rightarrow> string \<Rightarrow> duration \<Rightarrow> instant \<Rightarrow> payload" where
  "mint_payload kind host user ttl now =
     \<lparr>pl_kind = kind, pl_host = to_lower host, pl_user = user, pl_expiry = unix (now + ttl)\<rparr>"

definition token_body :: "'w guard_env \<Rightarrow> payload \<Rightarrow> string" where
  "token_body env p = b64_encode (ge_marshal env p)"

definition token_of :: "'w guard_env \<Rightarrow> payload \<Rightarrow> string" where
  "token_of env p = (case ge_signer env of None \<Rightarrow> []
     | Some sign \<Rightarrow> token_body env p @ ''.'' @ b64_encode (sign (token_body env p)))"

definition verify_token :: "'w guard_env \<Rightarrow> string \<Rightarrow> string \<Rightarrow> instant \<Rightarrow> string \<Rightarrow> string option" where
  "verify_token env kind host now token =
     (case ge_signer env of None \<Rightarrow> None
      | Some sign \<Rightarrow>
     (case cut_byte (CHR ''.'') token of None \<Rightarrow> None
      | Some (b, sig) \<Rightarrow>
          if b64_decode sig \<noteq> Some (sign b) then None
          else case b64_decode b of None \<Rightarrow> None
          | Some body \<Rightarrow> (case ge_unmarshal env body of None \<Rightarrow> None
            | Some p \<Rightarrow>
                if pl_kind p \<noteq> kind \<or> to_lower (pl_host p) \<noteq> to_lower host then None
                else if unix now \<ge> pl_expiry p then None
                else Some (pl_user p))))"

section \<open>The state and the requests\<close>

record 'w gate =
  gt_ops :: "'w ops"
  gt_minted :: "(payload \<times> instant) list"

record guard_request =
  gr_token :: string
  gr_guard_host :: string
  gr_host :: string
  gr_uri :: string
  gr_cookie :: "string option"
  gr_session :: "string option"
  gr_rd :: string
  gr_code :: string
  gr_form :: bool
  gr_allowed :: bool

datatype guard_reply =
    Guard_Error int string
  | Guard_Bare int
  | Guard_Pass string
  | Guard_Redirect string
  | Guard_Cookie string string          \<comment> \<open>the cookie set, the location\<close>
  | Guard_Page int string string        \<comment> \<open>the access page: status, target, message\<close>

type_synonym ('w, 'a) gateop = "('w gate, guard_reply, 'a) sem"

definition mint :: "'w guard_env \<Rightarrow> string \<Rightarrow> string \<Rightarrow> string \<Rightarrow> duration \<Rightarrow> instant \<Rightarrow> ('w, string) gateop" where
  "mint env kind host user ttl now =
     (let p = mint_payload kind host user ttl now
      in and_then (act (\<lambda>s. s\<lparr>gt_minted := gt_minted s @ [(p, now)]\<rparr>)) (\<lambda>_. ret (token_of env p)))"

definition on_ops :: "('e \<Rightarrow> guard_reply) \<Rightarrow> ('w ops, 'e, 'a) sem \<Rightarrow> ('w, 'a) gateop" where
  "on_ops f q = (\<lambda>s. case q (gt_ops s) of
     (Inl e, x) \<Rightarrow> (Inl (f e), s\<lparr>gt_ops := x\<rparr>) | (Inr v, x) \<Rightarrow> (Inr v, s\<lparr>gt_ops := x\<rparr>))"

section \<open>Addresses\<close>

definition guard_start_path :: string where "guard_start_path = ''/__vac_guard/start''"
definition guard_callback_path :: string where "guard_callback_path = ''/__vac_guard/callback''"
definition guard_guest :: string where "guard_guest = ''guest''"

text \<open>guardCallbackQuery.\<close>

definition callback_query :: "string \<Rightarrow> string option" where
  "callback_query uri =
     (let (path, query) = (case cut_byte (CHR ''?'') uri of Some pq \<Rightarrow> pq | None \<Rightarrow> (uri, []))
      in if path = guard_callback_path then Some query else None)"

definition redirect_host :: "'w guard_env \<Rightarrow> string \<Rightarrow> string option" where
  "redirect_host env rd = (case ge_parse_url env rd of None \<Rightarrow> None
     | Some u \<Rightarrow> if ur_scheme u \<noteq> ''https'' \<or> ur_host u = [] then None else Some (host_only (ur_host u)))"

definition clean_redirect :: "'w guard_env \<Rightarrow> string \<Rightarrow> string \<Rightarrow> string" where
  "clean_redirect env host rd =
     (case ge_parse_url env rd of
        None \<Rightarrow> ''https://'' @ host @ ''/''
      | Some u \<Rightarrow>
          if ur_scheme u \<noteq> ''https'' \<or> to_lower (host_only (ur_host u)) \<noteq> to_lower host then ''https://'' @ host @ ''/''
          else ''https://'' @ host @ safe_path (ur_path u) @ (if ur_query u \<noteq> [] then ''?'' @ ur_query u else []))"

definition start_url :: "string \<Rightarrow> string \<Rightarrow> string \<Rightarrow> string" where
  "start_url control host uri =
     ''https://'' @ control @ guard_start_path @ ''?rd='' @ query_escape (''https://'' @ host @ safe_path uri)"

text \<open>The path and query of guardCallbackURL, then the whole.\<close>

definition callback_uri :: "string \<Rightarrow> string \<Rightarrow> string" where
  "callback_uri token rd = guard_callback_path @ ''?token='' @ query_escape token @ ''&rd='' @ query_escape rd"

definition callback_url :: "'w guard_env \<Rightarrow> string \<Rightarrow> string \<Rightarrow> string \<Rightarrow> instant \<Rightarrow> ('w, string) gateop" where
  "callback_url env host user rd now =
     and_then (mint env kind_exchange host user exchange_ttl now) (\<lambda>tok.
     ret (''https://'' @ host @ callback_uri tok rd))"

section \<open>The endpoints\<close>

definition request_host :: "guard_request \<Rightarrow> string" where
  "request_host q = (let h = host_only (gr_guard_host q) in if h = [] then host_only (gr_host q) else h)"

definition guard_verify :: "'w guard_env \<Rightarrow> instant \<Rightarrow> guard_request \<Rightarrow> ('w, guard_reply) gateop" where
  "guard_verify env now q =
     (if ge_signer env = None \<or> ge_control env = [] then throw (Guard_Error 503 ''vac guard is not configured'')
      else if ge_token env \<noteq> [] \<and> gr_token q \<noteq> ge_token env then throw (Guard_Bare 403)
      else let host = request_host q
      in case callback_query (gr_uri q) of
        Some query \<Rightarrow>
          let kvs = parse_query query
          in (case verify_token env kind_exchange host now (query_get ''token'' kvs) of
                Some user \<Rightarrow>
                  and_then (mint env kind_session host user cookie_ttl now) (\<lambda>c.
                  ret (Guard_Cookie c (clean_redirect env host (query_get ''rd'' kvs))))
              | None \<Rightarrow> ret (Guard_Redirect (start_url (ge_control env) host ''/'')))
      | None \<Rightarrow>
          (case gr_cookie q of
             Some c \<Rightarrow>
               if c \<noteq> [] then
                 (case verify_token env kind_session host now c of
                    Some user \<Rightarrow> ret (Guard_Pass user)
                  | None \<Rightarrow> ret (Guard_Redirect (start_url (ge_control env) host (gr_uri q))))
               else ret (Guard_Redirect (start_url (ge_control env) host (gr_uri q)))
           | None \<Rightarrow> ret (Guard_Redirect (start_url (ge_control env) host (gr_uri q)))))"

definition session_user :: "'w guard_env \<Rightarrow> instant \<Rightarrow> guard_request \<Rightarrow> string" where
  "session_user env now q = (case gr_session q of None \<Rightarrow> []
     | Some c \<Rightarrow> if c = [] then [] else (case ge_session env c now of None \<Rightarrow> [] | Some u \<Rightarrow> u))"

text \<open>The host the target names and the service behind it; what the three endpoints refuse alike.\<close>

definition resolve_target :: "'w guard_env \<Rightarrow> string \<Rightarrow> ('w, guard_target) gateop" where
  "resolve_target env host =
     and_then (on_ops (\<lambda>_. Guard_Error 500 ''could not resolve host'')
                 (op_route (guarded_service_for_host (oe_manager (ge_ops env)) host))) (\<lambda>t.
     case t of None \<Rightarrow> throw (Guard_Error 403 ''not a guarded host'') | Some x \<Rightarrow> ret x)"

definition guard_start :: "'w guard_env \<Rightarrow> instant \<Rightarrow> guard_request \<Rightarrow> ('w, guard_reply) gateop" where
  "guard_start env now q =
     (if ge_signer env = None \<or> \<not> ge_resolver env then throw (Guard_Error 503 ''vac guard is not configured'')
      else case redirect_host env (gr_rd q) of
        None \<Rightarrow> throw (Guard_Error 400 ''invalid redirect target'')
      | Some host \<Rightarrow>
          and_then (resolve_target env host) (\<lambda>(app, name).
          let user = session_user env now q
          in if user \<noteq> [] then and_then (callback_url env host user (gr_rd q) now) (\<lambda>u. ret (Guard_Redirect u))
             else and_then (attempt (on_ops (\<lambda>_. Guard_Bare 0) (op_db (get_service_guest_code app name)))) (\<lambda>c.
               if (case c of Inr code \<Rightarrow> has_code code | Inl _ \<Rightarrow> False) then ret (Guard_Page 200 (gr_rd q) [])
               else ret (Guard_Redirect (''/login?next='' @
                      query_escape (guard_start_path @ ''?rd='' @ query_escape (gr_rd q)))))))"

definition guard_redeem :: "'w guard_env \<Rightarrow> instant \<Rightarrow> guard_request \<Rightarrow> ('w, guard_reply) gateop" where
  "guard_redeem env now q =
     (case oe_box (ge_ops env) of None \<Rightarrow> throw (Guard_Error 503 ''vac guard is not configured'')
      | Some (seal, unseal) \<Rightarrow>
      if ge_signer env = None \<or> \<not> ge_resolver env then throw (Guard_Error 503 ''vac guard is not configured'')
      else if \<not> gr_form q then throw (Guard_Error 400 ''invalid form'')
      else case redirect_host env (gr_rd q) of
        None \<Rightarrow> throw (Guard_Error 400 ''invalid redirect target'')
      | Some host \<Rightarrow>
          if \<not> gr_allowed q
          then throw (Guard_Page 429 (gr_rd q) (''Too many attempts '' @ em_dash @ '' wait a minute and try again.''))
          else
          and_then (resolve_target env host) (\<lambda>(app, name).
          and_then (attempt (on_ops (\<lambda>_. Guard_Bare 0) (op_db (get_service_guest_code app name)))) (\<lambda>c.
          case c of
            Inr (Some enc) \<Rightarrow>
              if enc = [] then throw (Guard_Error 403 ''shared access is not enabled'')
              else (case unseal enc of
                  None \<Rightarrow> throw (Guard_Error 500 ''could not read access code'')
                | Some want \<Rightarrow>
                    if trim_space (gr_code q) \<noteq> want then throw (Guard_Page 401 (gr_rd q) ''Incorrect access code.'')
                    else and_then (callback_url env host guard_guest (gr_rd q) now) (\<lambda>u. ret (Guard_Redirect u)))
          | _ \<Rightarrow> throw (Guard_Error 403 ''shared access is not enabled''))))"

datatype guard_endpoint = At_Verify | At_Start | At_Redeem

definition guard_handler :: "'w guard_env \<Rightarrow> guard_endpoint \<Rightarrow> instant \<Rightarrow> guard_request \<Rightarrow> ('w, guard_reply) gateop" where
  "guard_handler env e = (case e of At_Verify \<Rightarrow> guard_verify env | At_Start \<Rightarrow> guard_start env | At_Redeem \<Rightarrow> guard_redeem env)"

definition guard_serve :: "('w, guard_reply) gateop \<Rightarrow> 'w gate \<Rightarrow> guard_reply \<times> 'w gate" where
  "guard_serve h s = (case h s of (Inl r, s') \<Rightarrow> (r, s') | (Inr r, s') \<Rightarrow> (r, s'))"

end
