(* ===== verification/Guard_Safety.thy ===== *)
theory Guard_Safety
  imports Guard
begin

text \<open>
  What the login gate lets through: every admission goes back to a session or a code shown at the portal
  for that host, and a visitor sent back by the portal does get in.
\<close>

section \<open>Tokens\<close>

lemma cut_byte_mid: "c \<notin> set a \<Longrightarrow> cut_byte c (a @ c # b) = Some (a, b)"
proof -
  assume "c \<notin> set a"
  then have "takeWhile (\<lambda>x. x \<noteq> c) (a @ c # b) = a" by (subst takeWhile_append2) auto
  then show ?thesis by (simp add: cut_byte_def before_byte_def)
qed

lemma token_cut:
  assumes "ge_signer env = Some sign"
  shows "cut_byte (CHR ''.'') (token_of env p) = Some (token_body env p, b64_encode (sign (token_body env p)))"
proof -
  have "CHR ''.'' \<notin> set (token_body env p)" using b64_chars unfolding token_body_def by blast
  then show ?thesis using assms cut_byte_mid by (simp add: token_of_def)
qed

lemma token_verifies:
  assumes "ge_signer env = Some sign" and "ge_unmarshal env (ge_marshal env p) = Some p"
    and "pl_kind p = kind" and "to_lower (pl_host p) = to_lower host" and "unix now < pl_expiry p"
  shows "verify_token env kind host now (token_of env p) = Some (pl_user p)"
  using assms token_cut [OF assms(1), of p] by (simp add: verify_token_def b64_decode_encode token_body_def)

lemma unix_less: "unix t < unix u \<Longrightarrow> t < u"
  unfolding unix_def by (metis linorder_not_less zdiv_mono1 zero_less_numeral)

text \<open>What a token that verifies says of the body it carries.\<close>

lemma verified:
  assumes "verify_token env kind host now tok = Some user"
  obtains sign b sig body p where "ge_signer env = Some sign" "cut_byte (CHR ''.'') tok = Some (b, sig)"
    "b64_decode sig = Some (sign b)" "b64_decode b = Some body" "ge_unmarshal env body = Some p"
    "pl_kind p = kind" "to_lower (pl_host p) = to_lower host" "unix now < pl_expiry p" "pl_user p = user"
  using assms unfolding verify_token_def
  by (auto split: option.splits prod.splits if_splits)

section \<open>Runs\<close>

text \<open>A visit: the state it found, the endpoint, the time, the request and the reply.\<close>

type_synonym 'w visit = "'w gate \<times> guard_endpoint \<times> instant \<times> guard_request \<times> guard_reply"

text \<open>HMAC is not forged: a text whose signature checks is the body of a token that was minted.\<close>

definition unforged :: "'w guard_env \<Rightarrow> 'w gate \<Rightarrow> string \<Rightarrow> bool" where
  "unforged env s tok = (\<forall>sign b sig. ge_signer env = Some sign \<longrightarrow> cut_byte (CHR ''.'') tok = Some (b, sig) \<longrightarrow>
     b64_decode sig = Some (sign b) \<longrightarrow> (\<exists>m \<in> set (gt_minted s). b = token_body env (fst m)))"

definition presented :: "guard_request \<Rightarrow> string list" where
  "presented q = (case gr_cookie q of Some c \<Rightarrow> [c] | None \<Rightarrow> [])
     @ (case callback_query (gr_uri q) of Some query \<Rightarrow> [query_get ''token'' (parse_query query)] | None \<Rightarrow> [])"

text \<open>JSON keeps a payload whose strings are UTF-8.\<close>

definition utf8_payload :: "payload \<Rightarrow> bool" where
  "utf8_payload p = (valid_utf8 (pl_host p) \<and> valid_utf8 (pl_user p))"

definition codec :: "'w guard_env \<Rightarrow> bool" where
  "codec env = (\<forall>p. utf8_payload p \<longrightarrow> ge_unmarshal env (ge_marshal env p) = Some p)"

text \<open>Requests by anyone to any of the three endpoints, while the rest of the service does as it likes.\<close>

inductive gate_run :: "'w guard_env \<Rightarrow> 'w visit list \<Rightarrow> 'w gate \<Rightarrow> bool" for env where
  run_start: "gt_minted s = [] \<Longrightarrow> gate_run env [] s"
| run_outside: "gate_run env vs s \<Longrightarrow> gt_minted s' = gt_minted s \<Longrightarrow> gate_run env vs s'"
| run_visit: "gate_run env vs s \<Longrightarrow> \<forall>tok \<in> set (presented q). unforged env s tok \<Longrightarrow>
     guard_serve (guard_handler env e now q) s = (r, s') \<Longrightarrow> \<forall>m \<in> set (gt_minted s'). utf8_payload (fst m) \<Longrightarrow>
     gate_run env (vs @ [(s, e, now, q, r)]) s'"

text \<open>A visit of the portal that entitles a user to a host: a live dashboard session, or the access code
  of the service that the host is guarded for.\<close>

definition grants :: "'w guard_env \<Rightarrow> 'w gate \<Rightarrow> guard_endpoint \<Rightarrow> instant \<Rightarrow> guard_request \<Rightarrow> string \<Rightarrow> string \<Rightarrow> bool" where
  "grants env s e t q host user =
     (redirect_host env (gr_rd q) = Some host
      \<and> (\<exists>app name x. op_route (guarded_service_for_host (oe_manager (ge_ops env)) host) (gt_ops s) = (Inr (Some (app, name)), x)
         \<and> (e = At_Start \<and> user \<noteq> [] \<and> session_user env t q = user
            \<or> e = At_Redeem \<and> user = guard_guest
              \<and> (\<exists>seal unseal enc. oe_box (ge_ops env) = Some (seal, unseal)
                   \<and> fst (op_db (get_service_guest_code app name) x) = Inr (Some enc) \<and> enc \<noteq> []
                   \<and> unseal enc = Some (trim_space (gr_code q))))))"

section \<open>What each endpoint mints\<close>

definition exchange_for :: "'w guard_env \<Rightarrow> 'w gate \<Rightarrow> guard_endpoint \<Rightarrow> instant \<Rightarrow> guard_request \<Rightarrow> payload \<Rightarrow> bool" where
  "exchange_for env s e now q p = (\<exists>host user. p = mint_payload kind_exchange host user exchange_ttl now \<and> grants env s e now q host user)"

definition session_for :: "'w guard_env \<Rightarrow> instant \<Rightarrow> guard_request \<Rightarrow> payload \<Rightarrow> bool" where
  "session_for env now q p = (\<exists>user tok. p = mint_payload kind_session (request_host q) user cookie_ttl now
     \<and> tok \<in> set (presented q) \<and> verify_token env kind_exchange (request_host q) now tok = Some user)"

definition minted_rightly :: "'w guard_env \<Rightarrow> 'w gate \<Rightarrow> guard_endpoint \<Rightarrow> instant \<Rightarrow> guard_request \<Rightarrow> 'w gate \<Rightarrow> bool" where
  "minted_rightly env s e now q s' = (gt_minted s' = gt_minted s
     \<or> (\<exists>p. gt_minted s' = gt_minted s @ [(p, now)] \<and> (exchange_for env s e now q p \<or> session_for env now q p)))"

lemma on_ops_minted: "gt_minted (snd (on_ops f q s)) = gt_minted s"
  by (simp add: on_ops_def split: prod.split sum.split)

lemma session_forI:
  "callback_query (gr_uri q) = Some query \<Longrightarrow>
   verify_token env kind_exchange (request_host q) now (query_get ''token'' (parse_query query)) = Some user \<Longrightarrow>
   session_for env now q (mint_payload kind_session (request_host q) user cookie_ttl now)"
  unfolding session_for_def presented_def by (intro exI conjI) (auto split: option.split)

lemma verify_mints: "guard_serve (guard_verify env now q) s = (r, s') \<Longrightarrow> minted_rightly env s At_Verify now q s'"
  by (auto simp: guard_serve_def guard_verify_def mint_def sem_defs Let_def minted_rightly_def
      split: if_splits option.splits prod.splits intro: session_forI)

lemma resolve_Inr:
  "resolve_target env host s = (Inr t, s1) \<Longrightarrow>
   \<exists>x. op_route (guarded_service_for_host (oe_manager (ge_ops env)) host) (gt_ops s) = (Inr (Some t), x) \<and> s1 = s\<lparr>gt_ops := x\<rparr>"
  by (auto simp: resolve_target_def on_ops_def sem_defs split: prod.splits sum.splits option.splits)

lemma resolve_minted: "gt_minted (snd (resolve_target env host s)) = gt_minted s"
  by (auto simp: resolve_target_def on_ops_def sem_defs split: prod.splits sum.splits option.splits)

lemma callback_minted: "callback_url env host user rd now s =
    (Inr (''https://'' @ host @ callback_uri (token_of env (mint_payload kind_exchange host user exchange_ttl now)) rd),
     s\<lparr>gt_minted := gt_minted s @ [(mint_payload kind_exchange host user exchange_ttl now, now)]\<rparr>)"
  by (simp add: callback_url_def mint_def sem_defs Let_def)

lemma attempt_minted: "gt_minted (snd (attempt (on_ops f q) s)) = gt_minted s"
  by (auto simp: attempt_def on_ops_def split: prod.splits sum.splits)

lemma start_mints:
  assumes "guard_serve (guard_start env now q) s = (r, s')"
  shows "minted_rightly env s At_Start now q s'"
proof (cases "ge_signer env = None \<or> \<not> ge_resolver env \<or> redirect_host env (gr_rd q) = None")
  case True
  then show ?thesis using assms
    by (auto simp: guard_serve_def guard_start_def sem_defs minted_rightly_def split: if_splits option.splits)
next
  case False
  then obtain host where host: "redirect_host env (gr_rd q) = Some host" by auto
  obtain t s1 where rt: "resolve_target env host s = (t, s1)" by fastforce
  have m1: "gt_minted s1 = gt_minted s" using resolve_minted [of env host s] rt by simp
  show ?thesis
  proof (cases t)
    case (Inl e)
    then show ?thesis using assms False host rt m1
      by (auto simp: guard_serve_def guard_start_def and_then_def minted_rightly_def)
  next
    case (Inr z)
    obtain app name where z: "z = (app, name)" by fastforce
    show ?thesis
    proof (cases "session_user env now q = []")
      case True
      then have "gt_minted s' = gt_minted s1"
        using assms False host rt Inr z attempt_minted [of "\<lambda>_. Guard_Bare 0" "op_db (get_service_guest_code app name)" s1]
        by (auto simp: guard_serve_def guard_start_def and_then_def Let_def ret_def attempt_def split: prod.splits if_splits sum.splits)
      with m1 show ?thesis by (simp add: minted_rightly_def)
    next
      case user: False
      have "grants env s At_Start now q host (session_user env now q)"
        using host user resolve_Inr [OF rt [unfolded Inr z]] by (auto simp: grants_def)
      moreover have "gt_minted s' = gt_minted s1 @ [(mint_payload kind_exchange host (session_user env now q) exchange_ttl now, now)]"
        using assms False host rt Inr z user
        by (auto simp: guard_serve_def guard_start_def and_then_def Let_def callback_minted ret_def)
      ultimately show ?thesis using m1 by (auto simp: minted_rightly_def exchange_for_def)
    qed
  qed
qed

lemma redeem_mints:
  assumes "guard_serve (guard_redeem env now q) s = (r, s')"
  shows "minted_rightly env s At_Redeem now q s'"
proof (cases "oe_box (ge_ops env) = None \<or> ge_signer env = None \<or> \<not> ge_resolver env \<or> \<not> gr_form q \<or> \<not> gr_allowed q
    \<or> redirect_host env (gr_rd q) = None")
  case True
  then show ?thesis using assms
    by (auto simp: guard_serve_def guard_redeem_def sem_defs minted_rightly_def split: if_splits option.splits prod.splits)
next
  case False
  then obtain host where host: "redirect_host env (gr_rd q) = Some host" by auto
  obtain seal unseal where box: "oe_box (ge_ops env) = Some (seal, unseal)" using False by (cases "oe_box (ge_ops env)") auto
  obtain t s1 where rt: "resolve_target env host s = (t, s1)" by fastforce
  have m1: "gt_minted s1 = gt_minted s" using resolve_minted [of env host s] rt by simp
  show ?thesis
  proof (cases t)
    case (Inl e)
    then show ?thesis using assms False host box rt m1
      by (auto simp: guard_serve_def guard_redeem_def and_then_def minted_rightly_def)
  next
    case (Inr z)
    obtain app name where z: "z = (app, name)" by fastforce
    let ?get = "on_ops (\<lambda>_. Guard_Bare 0) (op_db (get_service_guest_code app name))"
    obtain c s2 where c: "?get s1 = (c, s2)" by fastforce
    have m2: "gt_minted s2 = gt_minted s" using on_ops_minted [of "\<lambda>_. Guard_Bare 0" "op_db (get_service_guest_code app name)" s1] c m1 by simp
    show ?thesis
    proof (cases "\<exists>enc. c = Inr (Some enc) \<and> enc \<noteq> [] \<and> unseal enc = Some (trim_space (gr_code q))")
      case no: False
      then have "s' = s2"
        using assms False host box rt Inr z c
        by (auto simp: guard_serve_def guard_redeem_def and_then_def attempt_def throw_def split: sum.splits option.splits if_splits)
      with m2 show ?thesis by (simp add: minted_rightly_def)
    next
      case True
      then obtain enc where enc: "c = Inr (Some enc)" "enc \<noteq> []" "unseal enc = Some (trim_space (gr_code q))" by blast
      obtain x where x: "op_route (guarded_service_for_host (oe_manager (ge_ops env)) host) (gt_ops s) = (Inr (Some (app, name)), x)"
        "s1 = s\<lparr>gt_ops := x\<rparr>"
        using resolve_Inr [OF rt [unfolded Inr z]] by blast
      have "fst (op_db (get_service_guest_code app name) x) = Inr (Some enc)"
        using c x(2) enc(1) by (auto simp: on_ops_def split: prod.splits sum.splits)
      then have "grants env s At_Redeem now q host guard_guest"
        using host x(1) box enc by (auto simp: grants_def)
      moreover have "gt_minted s' = gt_minted s2 @ [(mint_payload kind_exchange host guard_guest exchange_ttl now, now)]"
        using assms False host box rt Inr z c enc
        by (auto simp: guard_serve_def guard_redeem_def and_then_def attempt_def callback_minted ret_def)
      ultimately show ?thesis using m2 by (auto simp: minted_rightly_def exchange_for_def)
    qed
  qed
qed

lemma handler_mints: "guard_serve (guard_handler env e now q) s = (r, s') \<Longrightarrow> minted_rightly env s e now q s'"
  by (cases e) (simp_all add: guard_handler_def verify_mints start_mints redeem_mints)

section \<open>Every admission was granted\<close>

definition granted :: "'w guard_env \<Rightarrow> 'w visit list \<Rightarrow> string \<Rightarrow> string \<Rightarrow> instant \<Rightarrow> duration \<Rightarrow> bool" where
  "granted env vs host user now reach = (\<exists>(s, e, t, q, r) \<in> set vs. \<exists>h. grants env s e t q h user
     \<and> to_lower h = to_lower host \<and> now < t + reach)"

text \<open>The kinds of tokens out there: each exchange token was granted as it was minted, each session token
  within the life of an exchange token.\<close>

definition gate_inv :: "'w guard_env \<Rightarrow> 'w visit list \<Rightarrow> 'w gate \<Rightarrow> bool" where
  "gate_inv env vs s = (\<forall>(p, t) \<in> set (gt_minted s). utf8_payload p
     \<and> (pl_kind p = kind_exchange \<longrightarrow> pl_expiry p = unix (t + exchange_ttl) \<and> granted env vs (pl_host p) (pl_user p) t 1)
     \<and> (pl_kind p = kind_session \<longrightarrow> pl_expiry p = unix (t + cookie_ttl) \<and> granted env vs (pl_host p) (pl_user p) t exchange_ttl))"

lemma granted_more: "granted env vs host user now d \<Longrightarrow> granted env (vs @ ws) host user now d"
  by (simp add: granted_def bex_Un)

lemma granted_later: "granted env vs host user now d \<Longrightarrow> now' < now + d' - d + 1 \<Longrightarrow> granted env vs host user now' d'"
  unfolding granted_def by force

lemma granted_host: "granted env vs h user now d \<Longrightarrow> to_lower h = to_lower h' \<Longrightarrow> granted env vs h' user now d"
  unfolding granted_def by simp

text \<open>A token that verifies is one that was minted.\<close>

lemma verified_minted:
  assumes v: "verify_token env kind host now tok = Some user" and un: "unforged env s tok"
    and codec: "codec env" and inv: "gate_inv env vs s"
  obtains p t where "(p, t) \<in> set (gt_minted s)" "pl_kind p = kind" "to_lower (pl_host p) = to_lower host"
    "unix now < pl_expiry p" "pl_user p = user"
proof -
  obtain sign b sig body p where tk: "ge_signer env = Some sign" "cut_byte (CHR ''.'') tok = Some (b, sig)"
    "b64_decode sig = Some (sign b)" "b64_decode b = Some body" "ge_unmarshal env body = Some p"
    "pl_kind p = kind" "to_lower (pl_host p) = to_lower host" "unix now < pl_expiry p" "pl_user p = user"
    by (rule verified [OF v])
  obtain m where m: "m \<in> set (gt_minted s)" "b = token_body env (fst m)"
    using un tk(1-3) unfolding unforged_def by blast
  have "utf8_payload (fst m)" using inv m(1) by (auto simp: gate_inv_def)
  then have "ge_unmarshal env (ge_marshal env (fst m)) = Some (fst m)" using codec by (simp add: codec_def)
  then have "fst m = p" using tk(4,5) m(2) by (simp add: token_body_def b64_decode_encode)
  then have "(p, snd m) \<in> set (gt_minted s)" using m(1) by (cases m) simp
  then show thesis using that tk by blast
qed

lemma gate_run_inv:
  assumes "gate_run env vs s" and codec: "codec env"
  shows "gate_inv env vs s"
  using assms(1)
proof induction
  case (run_visit vs s q e now r s')
  have old: "\<forall>m \<in> set (gt_minted s). m \<in> set (gt_minted s')" and kinds: "kind_exchange \<noteq> kind_session"
    using handler_mints [OF run_visit(3)] by (auto simp: minted_rightly_def kind_exchange_def kind_session_def)
  let ?vs = "vs @ [(s, e, now, q, r)]"
  have keep: "gate_inv env ?vs s" using run_visit(5) granted_more unfolding gate_inv_def by fastforce
  have "gate_inv env ?vs (s'\<lparr>gt_minted := gt_minted s @ [(p, now)]\<rparr>)"
    if p: "gt_minted s' = gt_minted s @ [(p, now)]" "exchange_for env s e now q p \<or> session_for env now q p" for p
  proof -
    have utf: "utf8_payload p" using run_visit(4) p(1) by auto
    from p(2) have "(pl_kind p = kind_exchange \<longrightarrow> pl_expiry p = unix (now + exchange_ttl) \<and> granted env ?vs (pl_host p) (pl_user p) now 1)
       \<and> (pl_kind p = kind_session \<longrightarrow> pl_expiry p = unix (now + cookie_ttl) \<and> granted env ?vs (pl_host p) (pl_user p) now exchange_ttl)"
    proof
      assume "exchange_for env s e now q p"
      then obtain host user where x: "p = mint_payload kind_exchange host user exchange_ttl now" "grants env s e now q host user"
        by (auto simp: exchange_for_def)
      then have "granted env ?vs (to_lower host) user now 1" by (force simp: granted_def)
      with x(1) kinds show ?thesis by (simp add: mint_payload_def)
    next
      assume "session_for env now q p"
      then obtain user tok where x: "p = mint_payload kind_session (request_host q) user cookie_ttl now"
        "tok \<in> set (presented q)" "verify_token env kind_exchange (request_host q) now tok = Some user"
        by (auto simp: session_for_def)
      obtain p0 t0 where p0: "(p0, t0) \<in> set (gt_minted s)" "pl_kind p0 = kind_exchange" "to_lower (pl_host p0) = to_lower (request_host q)"
        "unix now < pl_expiry p0" "pl_user p0 = user"
        using verified_minted [OF x(3) _ codec run_visit(5)] run_visit(2) x(2) by blast
      have g0: "pl_expiry p0 = unix (t0 + exchange_ttl)" "granted env ?vs (pl_host p0) user t0 1"
        using keep p0 unfolding gate_inv_def by auto
      have "now < t0 + exchange_ttl" using p0(4) g0(1) unix_less by simp
      then have "granted env ?vs (to_lower (request_host q)) user now exchange_ttl"
        using granted_host [OF granted_later [OF g0(2)]] p0(3) by simp
      with x(1) kinds show ?thesis by (simp add: mint_payload_def)
    qed
    then show ?thesis using keep utf by (auto simp: gate_inv_def)
  qed
  then show ?case
    using handler_mints [OF run_visit(3)] keep unfolding minted_rightly_def gate_inv_def by auto
qed (auto simp: gate_inv_def)

text \<open>
  C9: The login gate admits only visitors who were let in at the portal. In every run of the three guard endpoints,
  with requests made by anyone at any time and the rest of the service changing the database as it likes, a request
  admitted at a host as some user is preceded by a visit of the portal for that same host, guarded then, by a
  holder of a live dashboard session of that user, or, for the user guest, by someone who knew the access code
  of the service behind the host; and less than twelve hours and a minute before. HMAC is assumed not to be forged.
\<close>

theorem gate_admits_granted_only:
  assumes "gate_run env vs s" and "codec env" and "\<forall>tok \<in> set (presented q). unforged env s tok"
    and "fst (guard_serve (guard_verify env now q) s) = Guard_Pass user"
  shows "\<exists>(s0, e, t, q0, r) \<in> set vs. \<exists>h. grants env s0 e t q0 h user \<and> to_lower h = to_lower (request_host q)
    \<and> now < t + exchange_ttl + cookie_ttl"
proof -
  obtain c where c: "gr_cookie q = Some c" "verify_token env kind_session (request_host q) now c = Some user"
    using assms(4) by (auto simp: guard_serve_def guard_verify_def mint_def sem_defs Let_def split: if_splits option.splits prod.splits)
  have "unforged env s c" using assms(3) c(1) by (simp add: presented_def)
  then obtain p t where p: "(p, t) \<in> set (gt_minted s)" "pl_kind p = kind_session" "to_lower (pl_host p) = to_lower (request_host q)"
    "unix now < pl_expiry p" "pl_user p = user"
    using verified_minted [OF c(2) _ assms(2) gate_run_inv [OF assms(1,2)]] by blast
  then have g: "pl_expiry p = unix (t + cookie_ttl)" "granted env vs (pl_host p) user t exchange_ttl"
    using gate_run_inv [OF assms(1,2)] by (auto simp: gate_inv_def)
  then have "now < t + cookie_ttl" using p(4) unix_less by simp
  then have "granted env vs (request_host q) user now (exchange_ttl + cookie_ttl)"
    using granted_host [OF granted_later [OF g(2)] p(3)] by simp
  then show ?thesis by (auto simp: granted_def add.assoc)
qed

section \<open>The dance completes\<close>

lemma split_byte_none: "c \<notin> set a \<Longrightarrow> split_byte c a = [a]"
  by (induction a) auto

lemma split_byte_mid: "c \<notin> set a \<Longrightarrow> split_byte c (a @ c # b) = a # split_byte c b"
  by (induction a) auto

lemma query_pair_escaped: "CHR ''='' \<notin> set k \<Longrightarrow> CHR '';'' \<notin> set k \<Longrightarrow> query_unescape k = Some k \<Longrightarrow>
    query_pair (k @ CHR ''='' # query_escape v) = Some (k, v)"
  using query_escape_free [of v] by (simp add: query_pair_def cut_byte_mid)

definition callback_text :: "string \<Rightarrow> string \<Rightarrow> string" where
  "callback_text tok rd = ''token='' @ query_escape tok @ ''&rd='' @ query_escape rd"

lemma callback_uri_query: "callback_query (callback_uri tok rd) = Some (callback_text tok rd)"
  by (simp add: callback_query_def callback_uri_def callback_text_def guard_callback_path_def cut_byte_def before_byte_def)

lemma callback_values: "parse_query (callback_text tok rd) = [(''token'', tok), (''rd'', rd)]"
proof -
  have "split_byte (CHR ''&'') ((''token='' @ query_escape tok) @ CHR ''&'' # (''rd='' @ query_escape rd))
      = [''token='' @ query_escape tok, ''rd='' @ query_escape rd]"
    by (subst split_byte_mid) (use query_escape_free [of tok] query_escape_free [of rd] in \<open>auto simp: split_byte_none\<close>)
  moreover have "query_pair (''token='' @ query_escape tok) = Some (''token'', tok)" "query_pair (''rd='' @ query_escape rd) = Some (''rd'', rd)"
    using query_pair_escaped [of "''token''" tok] query_pair_escaped [of "''rd''" rd] by simp_all
  ultimately show ?thesis by (simp add: parse_query_def callback_text_def List.map_filter_def)
qed

lemma start_redirect:
  assumes "fst (guard_serve (guard_start env t q) s) = Guard_Redirect loc" and "redirect_host env (gr_rd q) = Some host"
    and "session_user env t q \<noteq> []"
  shows "loc = ''https://'' @ host @ callback_uri (token_of env (mint_payload kind_exchange host (session_user env t q) exchange_ttl t)) (gr_rd q)"
proof -
  obtain r s1 where r: "resolve_target env host s = (r, s1)" by fastforce
  show ?thesis
  proof (cases r)
    case (Inl e)
    have "e \<noteq> Guard_Redirect loc"
      using r Inl by (auto simp: resolve_target_def on_ops_def sem_defs split: prod.splits sum.splits option.splits)
    then show ?thesis using assms r Inl
      by (auto simp: guard_serve_def guard_start_def and_then_def throw_def split: if_splits)
  next
    case (Inr z)
    then show ?thesis using assms r
      by (auto simp: guard_serve_def guard_start_def and_then_def throw_def Let_def callback_minted ret_def split: if_splits prod.splits)
  qed
qed

text \<open>
  C22: A visitor the portal sends back gets in. When the portal, for the holder of a live dashboard session, redirects
  to the guarded host, and the browser follows within a minute, the host answers with a cookie and a redirect to
  the cleaned target, and every request with that cookie at the same host in the next twelve hours is admitted
  as the same user.
\<close>

theorem portal_visitor_gets_in:
  assumes "ge_signer env = Some sign" and "ge_control env \<noteq> []" and "codec env"
    and "fst (guard_serve (guard_start env t0 q0) s0) = Guard_Redirect (''https://'' @ host @ gr_uri q1)"
    and "redirect_host env (gr_rd q0) = Some host" and "session_user env t0 q0 \<noteq> []"
    and "valid_utf8 (to_lower host)" and "valid_utf8 (session_user env t0 q0)"
    and "gr_token q1 = ge_token env" and "to_lower (request_host q1) = to_lower host" and "unix t1 < unix (t0 + exchange_ttl)"
  shows "\<exists>c. fst (guard_serve (guard_verify env t1 q1) s1) = Guard_Cookie c (clean_redirect env (request_host q1) (gr_rd q0))
    \<and> (\<forall>t2 q2 s2. gr_token q2 = ge_token env \<longrightarrow> request_host q2 = request_host q1 \<longrightarrow> callback_query (gr_uri q2) = None \<longrightarrow>
          gr_cookie q2 = Some c \<longrightarrow> unix t2 < unix (t1 + cookie_ttl) \<longrightarrow>
          fst (guard_serve (guard_verify env t2 q2) s2) = Guard_Pass (session_user env t0 q0))"
proof -
  let ?user = "session_user env t0 q0"
  let ?x = "mint_payload kind_exchange host ?user exchange_ttl t0"
  let ?c = "mint_payload kind_session (request_host q1) ?user cookie_ttl t1"
  have laws: "ge_unmarshal env (ge_marshal env ?x) = Some ?x" "ge_unmarshal env (ge_marshal env ?c) = Some ?c"
    using assms(3,7,8,10) by (simp_all add: codec_def utf8_payload_def mint_payload_def)
  have uri: "gr_uri q1 = callback_uri (token_of env ?x) (gr_rd q0)"
    using start_redirect [OF assms(4-6)] by simp
  have "verify_token env kind_exchange (request_host q1) t1 (token_of env ?x) = Some (pl_user ?x)"
    by (rule token_verifies [OF assms(1) laws(1)]) (use assms(10,11) in \<open>simp_all add: mint_payload_def\<close>)
  then have v: "verify_token env kind_exchange (request_host q1) t1 (token_of env ?x) = Some ?user"
    by (simp add: mint_payload_def)
  have one: "fst (guard_serve (guard_verify env t1 q1) s1) = Guard_Cookie (token_of env ?c) (clean_redirect env (request_host q1) (gr_rd q0))"
    using assms(1,2,9) v
    by (simp add: guard_serve_def guard_verify_def uri callback_uri_query callback_values query_get_def mint_def sem_defs Let_def)
  have "verify_token env kind_session (request_host q1) t2 (token_of env ?c) = Some (pl_user ?c)"
    if "unix t2 < unix (t1 + cookie_ttl)" for t2
    by (rule token_verifies [OF assms(1) laws(2)]) (use that in \<open>simp_all add: mint_payload_def\<close>)
  then have w: "unix t2 < unix (t1 + cookie_ttl) \<Longrightarrow> verify_token env kind_session (request_host q1) t2 (token_of env ?c) = Some ?user" for t2
    by (simp add: mint_payload_def)
  have ne: "token_of env ?c \<noteq> []" using assms(1) by (simp add: token_of_def)
  have "fst (guard_serve (guard_verify env t2 q2) s2) = Guard_Pass ?user"
    if "gr_token q2 = ge_token env" "request_host q2 = request_host q1" "callback_query (gr_uri q2) = None"
      "gr_cookie q2 = Some (token_of env ?c)" "unix t2 < unix (t1 + cookie_ttl)" for t2 q2 and s2 :: "'a gate"
    using assms(1,2) that w ne by (simp add: guard_serve_def guard_verify_def Let_def ret_def)
  with one show ?thesis by blast
qed

section \<open>An instance\<close>

text \<open>A codec in which the expiry is written in unary, a keyed function for HMAC, and the guarded app of the
  route manager's example.\<close>

definition toy_marshal :: "payload \<Rightarrow> string" where
  "toy_marshal p = b64_encode (pl_kind p) @ ''.'' @ b64_encode (pl_host p) @ ''.'' @ b64_encode (pl_user p) @ ''.''
     @ (if pl_expiry p < 0 then ''-'' else []) @ replicate (nat \<bar>pl_expiry p\<bar>) (CHR ''i'')"

definition toy_unmarshal :: "string \<Rightarrow> payload option" where
  "toy_unmarshal s = (case split_byte (CHR ''.'') s of
     [a, b, c, d] \<Rightarrow> (case (b64_decode a, b64_decode b, b64_decode c) of
        (Some k, Some h, Some u) \<Rightarrow> Some \<lparr>pl_kind = k, pl_host = h, pl_user = u,
           pl_expiry = (if d \<noteq> [] \<and> hd d = CHR ''-'' then - int (length d - 1) else int (length d))\<rparr>
      | _ \<Rightarrow> None)
   | _ \<Rightarrow> None)"

lemma toy_codec: "toy_unmarshal (toy_marshal p) = Some p"
proof -
  have dot: "CHR ''.'' \<notin> set (b64_encode s)" for s using b64_chars by blast
  let ?d = "(if pl_expiry p < 0 then ''-'' else []) @ replicate (nat \<bar>pl_expiry p\<bar>) (CHR ''i'')"
  have d: "split_byte (CHR ''.'') ?d = [?d]" by (rule split_byte_none) auto
  have s: "split_byte (CHR ''.'') (toy_marshal p) = [b64_encode (pl_kind p), b64_encode (pl_host p), b64_encode (pl_user p), ?d]"
    using split_byte_mid [OF dot] d by (simp add: toy_marshal_def)
  have e: "(if ?d \<noteq> [] \<and> hd ?d = CHR ''-'' then - int (length ?d - 1) else int (length ?d)) = pl_expiry p"
    by (cases "nat \<bar>pl_expiry p\<bar>") auto
  show ?thesis unfolding toy_unmarshal_def s using e by (simp add: b64_decode_encode)
qed

definition gate_ops_env :: "route list ops_env" where
  "gate_ops_env = \<lparr>oe_manager = demo_manager, oe_proxy = True, oe_crash = True, oe_stack = True, oe_work = True,
     oe_docker = (\<lambda>_ w. (None, w)), oe_work_dir = [], oe_deprovision = (\<lambda>_ w. w), oe_box = None,
     oe_unmarshal = (\<lambda>_. Inl []), oe_marshal = (\<lambda>_. None), oe_zone = (\<lambda>_. None)\<rparr>"

definition gate_env :: "route list guard_env" where
  "gate_env = \<lparr>ge_ops = gate_ops_env, ge_resolver = True, ge_signer = Some (\<lambda>b. ''k'' @ b), ge_marshal = toy_marshal,
     ge_unmarshal = toy_unmarshal,
     ge_parse_url = (\<lambda>s. Some \<lparr>ur_scheme = ''https'', ur_host = ''a.example.com'', ur_path = ''/x'', ur_query = []\<rparr>),
     ge_session = (\<lambda>c t. if c = ''sess'' then Some ''ann'' else None), ge_control = ''vac.example.com'', ge_token = []\<rparr>"

definition gate_start :: "route list gate" where
  "gate_start = \<lparr>gt_ops = \<lparr>op_px = demo_px, op_mon = new_monitor, op_worker = new_worker 0 0, op_flight = {}, op_compose = [],
     op_audits = [], op_removed = []\<rparr>, gt_minted = []\<rparr>"

definition ask :: guard_request where
  "ask = \<lparr>gr_token = [], gr_guard_host = ''a.example.com'', gr_host = [], gr_uri = ''/x'', gr_cookie = None, gr_session = None,
     gr_rd = ''https://a.example.com/x'', gr_code = [], gr_form = True, gr_allowed = True\<rparr>"

definition ann_exchange :: payload where
  "ann_exchange = mint_payload kind_exchange ''a.example.com'' ''ann'' exchange_ttl 0"

definition ann_session :: payload where
  "ann_session = mint_payload kind_session ''a.example.com'' ''ann'' cookie_ttl 0"

definition ask_start :: guard_request where
  "ask_start = ask\<lparr>gr_session := Some ''sess''\<rparr>"

definition ask_callback :: guard_request where
  "ask_callback = ask\<lparr>gr_uri := callback_uri (token_of gate_env ann_exchange) (gr_rd ask)\<rparr>"

definition ask_page :: guard_request where
  "ask_page = ask\<lparr>gr_cookie := Some (token_of gate_env ann_session)\<rparr>"

lemma gate_env_codec: "codec gate_env"
  by (simp add: codec_def gate_env_def toy_codec)

lemma gate_host: "host_only ''a.example.com'' = ''a.example.com''" "to_lower ''a.example.com'' = ''a.example.com''"
  by (simp_all add: host_only_def go_eval)

lemma ask_hosts: "request_host ask_callback = ''a.example.com''" "request_host ask_page = ''a.example.com''"
  by (simp_all add: request_host_def ask_callback_def ask_page_def ask_def gate_host)

lemma gate_guarded:
  "\<exists>x. op_route (guarded_service_for_host demo_manager ''a.example.com'') (gt_ops gate_start) = (Inr (Some (''a'', ''web'')), x)"
proof -
  have m: "base_domain demo_manager = ''example.com''" by (simp add: base_domain_def demo_manager_def new_config_def)
  have v: "http_service demo_service" "s_name demo_service = ''web''" "s_requires_auth demo_service"
    by (simp_all add: http_service_def demo_service_def)
  have a: "a_id (maint_app ''a'' False) = ''a''" "a_slug (maint_app ''a'' False) = ''a''" by (simp_all add: maint_app_def)
  have e: "guarded_of_app demo_manager (maint_app ''a'' False) [] [demo_service] = [(''a.example.com'', (''a'', ''web''))]"
    using v a gate_host by (simp add: guarded_of_app_def auto_hosts_for_app_def m List.map_filter_def auto_subdomain_def)
  have l: "px_store demo_manager (on_dm list_apps) (demo_at n) = (Inr [maint_app ''a'' False], demo_at (Suc n))" for n
    by (simp add: demo_defs px_store_def on_dm_def db_call_def sem_defs Let_def list_apps_def)
  have p: "px_store demo_manager (on_dm list_apps) demo_px = (Inr [maint_app ''a'' False], (demo_at 1)\<lparr>px_net := []\<rparr>)"
    by (simp add: demo_defs px_store_def on_dm_def db_call_def sem_defs Let_def list_apps_def)
  have r: "px_store demo_manager (list_domains_by_app ''a'') ((demo_at n)\<lparr>px_net := []\<rparr>) = (Inr [], (demo_at (Suc n))\<lparr>px_net := []\<rparr>)"
    "px_store demo_manager (on_dm (list_services_for_app ''a'')) ((demo_at n)\<lparr>px_net := []\<rparr>) = (Inr [demo_service], (demo_at (Suc n))\<lparr>px_net := []\<rparr>)" for n
    by (simp_all add: demo_defs px_store_def on_dm_def dom_call_def db_call_def sem_defs Let_def
      list_domains_by_app_def query_domains_def list_services_for_app_def)
  have t: "to_lower (trim_space ''a.example.com'') = ''a.example.com''" by (simp add: go_eval)
  show ?thesis
    by (simp add: op_route_def guarded_service_for_host_def guarded_hosts_def and_then_def p r a e ret_def t gate_start_def)
qed

lemma gate_first:
  "\<exists>s1. guard_serve (guard_start gate_env 0 ask_start) gate_start = (Guard_Redirect (''https://a.example.com'' @ gr_uri ask_callback), s1)
     \<and> gt_minted s1 = [(ann_exchange, 0)]"
proof -
  have f: "ge_signer gate_env = Some (\<lambda>b. ''k'' @ b)" "ge_resolver gate_env" "oe_manager (ge_ops gate_env) = demo_manager"
    "redirect_host gate_env (gr_rd ask_start) = Some ''a.example.com''" "session_user gate_env 0 ask_start = ''ann''"
    by (simp_all add: gate_env_def gate_ops_env_def redirect_host_def gate_host session_user_def ask_start_def)
  obtain x where "op_route (guarded_service_for_host demo_manager ''a.example.com'') (gt_ops gate_start) = (Inr (Some (''a'', ''web'')), x)"
    using gate_guarded by blast
  then have "resolve_target gate_env ''a.example.com'' gate_start = (Inr (''a'', ''web''), gate_start\<lparr>gt_ops := x\<rparr>)"
    by (simp add: resolve_target_def on_ops_def f and_then_def ret_def)
  moreover have "gr_rd ask_start = gr_rd ask" "gt_minted gate_start = []" "gr_uri ask_callback = callback_uri (token_of gate_env ann_exchange) (gr_rd ask)"
    by (simp_all add: ask_start_def gate_start_def ask_callback_def)
  ultimately show ?thesis
    using f by (simp add: guard_serve_def guard_start_def and_then_def callback_minted ret_def ann_exchange_def Let_def)
qed

theorem portal_visitor_gets_in_witness:
  "\<exists>c. fst (guard_serve (guard_verify gate_env (5 * second) ask_callback) gate_start)
      = Guard_Cookie c (clean_redirect gate_env ''a.example.com'' (gr_rd ask))
    \<and> fst (guard_serve (guard_verify gate_env hour (ask\<lparr>gr_cookie := Some c\<rparr>)) gate_start) = Guard_Pass ''ann''"
proof -
  have h: "ge_signer gate_env = Some (\<lambda>b. ''k'' @ b)" "ge_control gate_env \<noteq> []"
    "redirect_host gate_env (gr_rd ask_start) = Some ''a.example.com''" "session_user gate_env 0 ask_start = ''ann''"
    "gr_token ask_callback = ge_token gate_env" "gr_rd ask_start = gr_rd ask"
    by (simp_all add: gate_env_def redirect_host_def gate_host session_user_def ask_start_def ask_callback_def ask_def)
  have u: "valid_utf8 (to_lower ''a.example.com'')" "valid_utf8 ''ann''"
    by (simp_all add: gate_host valid_utf8_def)
  have st: "fst (guard_serve (guard_start gate_env 0 ask_start) gate_start) = Guard_Redirect (''https://'' @ ''a.example.com'' @ gr_uri ask_callback)"
    using gate_first by auto
  have q: "gr_token (ask\<lparr>gr_cookie := Some c\<rparr>) = ge_token gate_env" "request_host (ask\<lparr>gr_cookie := Some c\<rparr>) = ''a.example.com''"
    "callback_query (gr_uri (ask\<lparr>gr_cookie := Some c\<rparr>)) = None" for c
    by (simp_all add: ask_def gate_env_def request_host_def gate_host callback_query_def cut_byte_def guard_callback_path_def)
  show ?thesis
    using portal_visitor_gets_in [OF h(1,2) gate_env_codec st h(3) _ u(1) _ h(5), of "5 * second" gate_start] h(4,6) u(2) ask_hosts gate_host q
    by (auto simp: unix_def exchange_ttl_def cookie_ttl_def)
qed

lemma minted_unforged: "m \<in> set (gt_minted s) \<Longrightarrow> unforged env s (token_of env (fst m))"
  using token_cut unfolding unforged_def by fastforce

theorem gate_admits_granted_only_witness:
  "\<exists>s0 e t q0. \<exists>h. grants gate_env s0 e t q0 h ''ann'' \<and> to_lower h = ''a.example.com'' \<and> second < t + exchange_ttl + cookie_ttl"
proof -
  obtain s1 where s1: "guard_serve (guard_start gate_env 0 ask_start) gate_start = (Guard_Redirect (''https://a.example.com'' @ gr_uri ask_callback), s1)"
    "gt_minted s1 = [(ann_exchange, 0)]"
    using gate_first by blast
  have utf: "utf8_payload ann_exchange" "utf8_payload ann_session"
    by (simp_all add: utf8_payload_def ann_exchange_def ann_session_def mint_payload_def gate_host valid_utf8_def)
  have env: "ge_signer gate_env = Some (\<lambda>b. ''k'' @ b)" "ge_unmarshal gate_env (ge_marshal gate_env p) = Some p" "ge_control gate_env \<noteq> []"
    "ge_token gate_env = []" for p
    by (simp_all add: gate_env_def toy_codec)
  have fields: "gr_cookie ask_start = None" "callback_query (gr_uri ask_start) = None" "gr_cookie ask_callback = None"
    "gr_uri ask_callback = callback_uri (token_of gate_env ann_exchange) (gr_rd ask)" "gr_cookie ask_page = Some (token_of gate_env ann_session)"
    "callback_query (gr_uri ask_page) = None"
    by (simp_all add: ask_start_def ask_callback_def ask_page_def ask_def callback_query_def cut_byte_def guard_callback_path_def)
  have pr: "presented ask_start = []" "presented ask_callback = [token_of gate_env ann_exchange]" "presented ask_page = [token_of gate_env ann_session]"
    unfolding presented_def fields by (simp_all add: callback_uri_query callback_values query_get_def)
  have v: "verify_token gate_env kind_exchange ''a.example.com'' 0 (token_of gate_env ann_exchange) = Some ''ann''"
    "verify_token gate_env kind_session ''a.example.com'' second (token_of gate_env ann_session) = Some ''ann''"
    using token_verifies [OF env(1,2), of ann_exchange kind_exchange "''a.example.com''" 0]
      token_verifies [OF env(1,2), of ann_session kind_session "''a.example.com''" second]
    by (simp_all add: ann_exchange_def ann_session_def mint_payload_def unix_def exchange_ttl_def cookie_ttl_def)
  have run1: "gate_run gate_env [(gate_start, At_Start, 0, ask_start, Guard_Redirect (''https://a.example.com'' @ gr_uri ask_callback))] s1"
    using run_visit [OF run_start, of gate_start ask_start gate_env At_Start 0] s1 utf pr by (simp add: guard_handler_def gate_start_def)
  have uri: "gr_uri ask_callback = callback_uri (token_of gate_env ann_exchange) (gr_rd ask)" "gr_token ask_callback = []"
    by (simp_all add: ask_callback_def ask_def)
  obtain r s2 where s2: "guard_serve (guard_verify gate_env 0 ask_callback) s1 = (r, s2)" "gt_minted s2 = [(ann_exchange, 0), (ann_session, 0)]"
    using env v(1) uri ask_hosts s1(2)
    by (simp add: guard_serve_def guard_verify_def callback_uri_query callback_values query_get_def mint_def sem_defs Let_def ann_session_def)
  have run2: "gate_run gate_env [(gate_start, At_Start, 0, ask_start, Guard_Redirect (''https://a.example.com'' @ gr_uri ask_callback)),
      (s1, At_Verify, 0, ask_callback, r)] s2"
    using run_visit [OF run1, of ask_callback At_Verify 0 r s2] s2 utf pr minted_unforged [of "(ann_exchange, 0)" s1 gate_env] s1(2)
    by (simp add: guard_handler_def)
  have un: "\<forall>tok \<in> set (presented ask_page). unforged gate_env s2 tok"
    using minted_unforged [of "(ann_session, 0)" s2 gate_env] s2(2) pr(3) by simp
  have "callback_query (gr_uri ask_page) = None" "gr_cookie ask_page = Some (token_of gate_env ann_session)" "gr_token ask_page = []"
    "token_of gate_env ann_session \<noteq> []"
    by (simp_all add: ask_page_def ask_def callback_query_def cut_byte_def guard_callback_path_def token_of_def env)
  then have "fst (guard_serve (guard_verify gate_env second ask_page) s2) = Guard_Pass ''ann''"
    using env v(2) ask_hosts by (simp add: guard_serve_def guard_verify_def Let_def ret_def)
  from gate_admits_granted_only [OF run2 gate_env_codec un this] show ?thesis
    unfolding ask_hosts gate_host by blast
qed

end
