(* ===== verification/Auth_Store.thy ===== *)
theory Auth_Store
  imports Store_Base
begin

text \<open>
  The accounts: api/internal/store/users.go and api_tokens.go. The tables are lists of rows; a call may fail
  by the fault function, as in the deployment store. NOW() of the database and the clock of the service are
  one argument, and new identifiers are arguments.
\<close>

section \<open>Rows\<close>

record user =
  u_id :: string
  u_name :: string
  u_hash :: string
  u_totp :: bool
  u_secret :: string                       \<comment> \<open>sealed; empty for NULL\<close>
  u_recovery :: "string list"
  u_last_step :: "int option"
  u_failed :: int
  u_locked :: "instant option"

record session =
  se_id :: string
  se_user :: string
  se_hash :: string
  se_created :: instant
  se_expires :: instant
  se_seen :: instant
  se_pre :: bool
  se_stepup :: "instant option"

record api_token =
  tk_id :: string
  tk_user :: string
  tk_name :: string
  tk_hash :: string
  tk_used :: "instant option"
  tk_created :: instant
  tk_expires :: "instant option"

record auth_db =
  users :: "user list"
  sessions :: "session list"
  api_tokens :: "api_token list"
  au_fault :: "nat \<Rightarrow> bool"
  au_calls :: nat

type_synonym 'a authop = "(auth_db, store_err, 'a) sem"

definition au_call :: "'a authop \<Rightarrow> 'a authop" where
  "au_call q = (\<lambda>s. let s' = s\<lparr>au_calls := Suc (au_calls s)\<rparr>
     in if au_fault s (au_calls s) then (Inl ErrDB, s') else q s')"

section \<open>Users\<close>

definition count_users :: "int authop" where
  "count_users = au_call (\<lambda>s. (Inr (int (length (users s))), s))"

definition fresh_user :: "string \<Rightarrow> string \<Rightarrow> string \<Rightarrow> user" where
  "fresh_user new name hash = \<lparr>u_id = new, u_name = name, u_hash = hash, u_totp = False, u_secret = [], u_recovery = [],
     u_last_step = None, u_failed = 0, u_locked = None\<rparr>"

definition create_user :: "string \<Rightarrow> string \<Rightarrow> string \<Rightarrow> user authop" where
  "create_user new name hash = au_call (\<lambda>s.
     if new \<in> u_id ` set (users s) \<or> name \<in> u_name ` set (users s) then (Inl ErrUnique, s)
     else (Inr (fresh_user new name hash), s\<lparr>users := users s @ [fresh_user new name hash]\<rparr>))"

definition one_user :: "(user \<Rightarrow> bool) \<Rightarrow> user authop" where
  "one_user p = au_call (\<lambda>s. case find p (users s) of None \<Rightarrow> (Inl ErrNotFound, s) | Some u \<Rightarrow> (Inr u, s))"

definition get_user_by_username :: "string \<Rightarrow> user authop" where
  "get_user_by_username name = one_user (\<lambda>u. u_name u = name)"

definition get_user_by_id :: "string \<Rightarrow> user authop" where
  "get_user_by_id i = one_user (\<lambda>u. u_id u = i)"

text \<open>An update of the rows that satisfy the condition; the number of them.\<close>

definition update_users :: "(user \<Rightarrow> bool) \<Rightarrow> (user \<Rightarrow> user) \<Rightarrow> nat authop" where
  "update_users p f = au_call (\<lambda>s. (Inr (length (filter p (users s))),
     s\<lparr>users := map (\<lambda>u. if p u then f u else u) (users s)\<rparr>))"

definition exec_user :: "(user \<Rightarrow> bool) \<Rightarrow> (user \<Rightarrow> user) \<Rightarrow> unit authop" where
  "exec_user p f = and_then (update_users p f) (\<lambda>_. ret ())"

definition affected :: "nat authop \<Rightarrow> unit authop" where
  "affected q = and_then q (\<lambda>n. if n = 0 then throw ErrNotFound else ret ())"

definition update_user_password :: "string \<Rightarrow> string \<Rightarrow> unit authop" where
  "update_user_password i hash = affected (update_users (\<lambda>u. u_id u = i) (\<lambda>u. u\<lparr>u_hash := hash\<rparr>))"

section \<open>Sessions\<close>

definition create_session :: "string \<Rightarrow> instant \<Rightarrow> string \<Rightarrow> string \<Rightarrow> instant \<Rightarrow> bool \<Rightarrow> session authop" where
  "create_session new now user hash expires pre = au_call (\<lambda>s.
     let r = \<lparr>se_id = new, se_user = user, se_hash = hash, se_created = now, se_expires = expires, se_seen = now,
              se_pre = pre, se_stepup = None\<rparr>
     in if new \<in> se_id ` set (sessions s) \<or> hash \<in> se_hash ` set (sessions s) then (Inl ErrUnique, s)
        else if user \<notin> u_id ` set (users s) then (Inl ErrDB, s)
        else (Inr r, s\<lparr>sessions := sessions s @ [r]\<rparr>))"

definition get_session_by_token_hash :: "string \<Rightarrow> session authop" where
  "get_session_by_token_hash hash = au_call (\<lambda>s. case find (\<lambda>r. se_hash r = hash) (sessions s) of
     None \<Rightarrow> (Inl ErrNotFound, s) | Some r \<Rightarrow> (Inr r, s))"

definition update_sessions :: "(session \<Rightarrow> bool) \<Rightarrow> (session \<Rightarrow> session) \<Rightarrow> nat authop" where
  "update_sessions p f = au_call (\<lambda>s. (Inr (length (filter p (sessions s))),
     s\<lparr>sessions := map (\<lambda>r. if p r then f r else r) (sessions s)\<rparr>))"

definition update_session_last_seen :: "string \<Rightarrow> instant \<Rightarrow> unit authop" where
  "update_session_last_seen i now = and_then (update_sessions (\<lambda>r. se_id r = i) (\<lambda>r. r\<lparr>se_seen := now\<rparr>)) (\<lambda>_. ret ())"

definition touch_session_step_up :: "string \<Rightarrow> instant \<Rightarrow> unit authop" where
  "touch_session_step_up i now = affected (update_sessions (\<lambda>r. se_id r = i) (\<lambda>r. r\<lparr>se_stepup := Some now\<rparr>))"

definition delete_sessions :: "(session \<Rightarrow> bool) \<Rightarrow> int authop" where
  "delete_sessions p = au_call (\<lambda>s. (Inr (int (length (filter p (sessions s)))),
     s\<lparr>sessions := filter (\<lambda>r. \<not> p r) (sessions s)\<rparr>))"

definition revoke_session :: "string \<Rightarrow> unit authop" where
  "revoke_session i = and_then (delete_sessions (\<lambda>r. se_id r = i)) (\<lambda>_. ret ())"

definition list_sessions_for_user :: "instant \<Rightarrow> string \<Rightarrow> session list authop" where
  "list_sessions_for_user now user = au_call (\<lambda>s. (Inr (rev (sort_key se_seen
     (rev (filter (\<lambda>r. se_user r = user \<and> \<not> se_pre r \<and> se_expires r > now) (sessions s))))), s))"

definition revoke_all_sessions_for_user :: "string \<Rightarrow> int authop" where
  "revoke_all_sessions_for_user user = delete_sessions (\<lambda>r. se_user r = user)"

definition revoke_other_sessions_for_user :: "string \<Rightarrow> string \<Rightarrow> int authop" where
  "revoke_other_sessions_for_user user other = delete_sessions (\<lambda>r. se_user r = user \<and> se_id r \<noteq> other \<and> \<not> se_pre r)"

section \<open>Second factors\<close>

definition set_user_totp_secret :: "string \<Rightarrow> string \<Rightarrow> unit authop" where
  "set_user_totp_secret i sealed = exec_user (\<lambda>u. u_id u = i) (\<lambda>u. u\<lparr>u_secret := sealed, u_totp := False, u_recovery := []\<rparr>)"

definition get_user_totp_secret :: "string \<Rightarrow> string authop" where
  "get_user_totp_secret i = and_then (one_user (\<lambda>u. u_id u = i)) (\<lambda>u.
     if u_secret u = [] then throw ErrNotFound else ret (u_secret u))"

definition enable_user_totp :: "string \<Rightarrow> string list \<Rightarrow> unit authop" where
  "enable_user_totp i hashes = exec_user (\<lambda>u. u_id u = i) (\<lambda>u. u\<lparr>u_totp := True, u_recovery := hashes\<rparr>)"

definition disable_user_totp :: "string \<Rightarrow> unit authop" where
  "disable_user_totp i = exec_user (\<lambda>u. u_id u = i) (\<lambda>u. u\<lparr>u_secret := [], u_totp := False, u_recovery := []\<rparr>)"

definition consume_totp_step :: "string \<Rightarrow> int \<Rightarrow> bool authop" where
  "consume_totp_step i step = and_then
     (update_users (\<lambda>u. u_id u = i \<and> (case u_last_step u of None \<Rightarrow> True | Some k \<Rightarrow> k < step)) (\<lambda>u. u\<lparr>u_last_step := Some step\<rparr>))
     (\<lambda>n. ret (n = 1))"

text \<open>The minus of jsonb removes every occurrence.\<close>

definition consume_recovery_code :: "string \<Rightarrow> string \<Rightarrow> bool authop" where
  "consume_recovery_code i hash = and_then
     (update_users (\<lambda>u. u_id u = i \<and> hash \<in> set (u_recovery u)) (\<lambda>u. u\<lparr>u_recovery := removeAll hash (u_recovery u)\<rparr>))
     (\<lambda>n. ret (n = 1))"

section \<open>Lockout\<close>

definition auth_locked_until :: "instant \<Rightarrow> string \<Rightarrow> instant option authop" where
  "auth_locked_until now i = and_then (one_user (\<lambda>u. u_id u = i)) (\<lambda>u.
     ret (case u_locked u of Some t \<Rightarrow> if t > now then Some t else None | None \<Rightarrow> None))"

definition note_failure :: "int \<Rightarrow> instant \<Rightarrow> user \<Rightarrow> user" where
  "note_failure threshold until u =
     (if u_failed u + 1 \<ge> threshold then u\<lparr>u_failed := 0, u_locked := Some until\<rparr> else u\<lparr>u_failed := u_failed u + 1\<rparr>)"

definition register_auth_failure :: "instant \<Rightarrow> string \<Rightarrow> int \<Rightarrow> duration \<Rightarrow> instant option authop" where
  "register_auth_failure now i threshold lockFor =
     au_call (\<lambda>s. case find (\<lambda>u. u_id u = i) (users s) of
       None \<Rightarrow> (Inl ErrNotFound, s)
     | Some u \<Rightarrow>
         (Inr (case u_locked (note_failure threshold (now + lockFor) u) of Some t \<Rightarrow> if t > now then Some t else None | None \<Rightarrow> None),
          s\<lparr>users := map (\<lambda>u. if u_id u = i then note_failure threshold (now + lockFor) u else u) (users s)\<rparr>))"

definition clear_auth_failures :: "string \<Rightarrow> unit authop" where
  "clear_auth_failures i = exec_user (\<lambda>u. u_id u = i) (\<lambda>u. u\<lparr>u_failed := 0, u_locked := None\<rparr>)"

section \<open>API tokens\<close>

definition create_api_token :: "string \<Rightarrow> instant \<Rightarrow> string \<Rightarrow> string \<Rightarrow> string \<Rightarrow> instant option \<Rightarrow> api_token authop" where
  "create_api_token new now user name hash expires = au_call (\<lambda>s.
     let t = \<lparr>tk_id = new, tk_user = user, tk_name = name, tk_hash = hash, tk_used = None, tk_created = now, tk_expires = expires\<rparr>
     in if new \<in> tk_id ` set (api_tokens s) \<or> hash \<in> tk_hash ` set (api_tokens s) then (Inl ErrUnique, s)
        else if user \<notin> u_id ` set (users s) then (Inl ErrDB, s)
        else (Inr t, s\<lparr>api_tokens := api_tokens s @ [t]\<rparr>))"

definition get_api_token_by_hash :: "string \<Rightarrow> api_token authop" where
  "get_api_token_by_hash hash = au_call (\<lambda>s. case find (\<lambda>t. tk_hash t = hash) (api_tokens s) of
     None \<Rightarrow> (Inl ErrNotFound, s) | Some t \<Rightarrow> (Inr t, s))"

definition update_api_token_last_used :: "string \<Rightarrow> instant \<Rightarrow> unit authop" where
  "update_api_token_last_used i now = au_call (\<lambda>s. (Inr (),
     s\<lparr>api_tokens := map (\<lambda>t. if tk_id t = i then t\<lparr>tk_used := Some now\<rparr> else t) (api_tokens s)\<rparr>))"

definition list_api_tokens_for_user :: "string \<Rightarrow> api_token list authop" where
  "list_api_tokens_for_user user = au_call (\<lambda>s. (Inr (rev (sort_key tk_created (rev (filter (\<lambda>t. tk_user t = user) (api_tokens s))))), s))"

definition revoke_api_token :: "string \<Rightarrow> string \<Rightarrow> unit authop" where
  "revoke_api_token user i = affected (au_call (\<lambda>s.
     (Inr (length (filter (\<lambda>t. tk_id t = i \<and> tk_user t = user) (api_tokens s))),
      s\<lparr>api_tokens := filter (\<lambda>t. \<not> (tk_id t = i \<and> tk_user t = user)) (api_tokens s)\<rparr>)))"

end
