(* ===== verification/Auth.thy ===== *)
theory Auth
  imports Auth_Store Web_Encoding
begin

text \<open>
  Sessions, second factors and tokens: api/internal/auth (session.go, totp.go, token.go), and the middleware
  that resolves them (server/middleware/auth.go, stepup.go, csrf.go). SHA-256, bcrypt, the generation of a TOTP
  code for a step and the sealing box are fields of the environment; random bytes are arguments.
\<close>

section \<open>Environment\<close>

record auth_env =
  ae_sha :: "string \<Rightarrow> string"
  ae_hex :: "string \<Rightarrow> string"
  ae_bcrypt :: "string \<Rightarrow> string option"              \<comment> \<open>None: too long, or no randomness\<close>
  ae_bcrypt_ok :: "string \<Rightarrow> string \<Rightarrow> bool"
  ae_totp :: "string \<Rightarrow> int \<Rightarrow> string option"
  ae_totp_url :: "string \<Rightarrow> string \<Rightarrow> string"
  ae_box :: "((string \<Rightarrow> string) \<times> (string \<Rightarrow> string option)) option"
  ae_ttl :: duration
  ae_extended_ttl :: duration

datatype auth_err = Auth_Store store_err | Err_Expired | Err_Pre_Auth | Err_Not_Pre_Auth | Totp_Disabled | Totp_Invalid | Auth_Other

type_synonym 'a au = "(auth_db, auth_err, 'a) sem"

definition au_db :: "'a authop \<Rightarrow> 'a au" where
  "au_db q = map_err Auth_Store q"

definition pre_auth_ttl :: duration where "pre_auth_ttl = 10 * minute"
definition step_up_ttl :: duration where "step_up_ttl = 5 * minute"

section \<open>Sessions\<close>

definition session_ttl :: "auth_env \<Rightarrow> bool \<Rightarrow> duration" where
  "session_ttl env extended = (if extended then ae_extended_ttl env else ae_ttl env)"

text \<open>create: raw is what rand.Read returned, None for an error; new the identifier the database gives.\<close>

definition new_session ::
  "auth_env \<Rightarrow> string \<Rightarrow> instant \<Rightarrow> string option \<Rightarrow> string \<Rightarrow> duration \<Rightarrow> bool \<Rightarrow> (string \<times> session) au" where
  "new_session env new now raw user ttl pre =
     (case raw of None \<Rightarrow> throw Auth_Other
      | Some bytes \<Rightarrow>
          and_then (au_db (create_session new now user (ae_sha env bytes) (now + ttl) pre)) (\<lambda>r.
          ret (b64_encode bytes, r)))"

definition create_full_session ::
  "auth_env \<Rightarrow> string \<Rightarrow> instant \<Rightarrow> string option \<Rightarrow> string \<Rightarrow> bool \<Rightarrow> (string \<times> session) au" where
  "create_full_session env new now raw user extended = new_session env new now raw user (session_ttl env extended) False"

definition create_pre_auth ::
  "auth_env \<Rightarrow> string \<Rightarrow> instant \<Rightarrow> string option \<Rightarrow> string \<Rightarrow> (string \<times> session) au" where
  "create_pre_auth env new now raw user = new_session env new now raw user pre_auth_ttl True"

definition find_session :: "auth_env \<Rightarrow> instant \<Rightarrow> string \<Rightarrow> (session \<times> user) au" where
  "find_session env now token =
     (case b64_decode token of None \<Rightarrow> throw (Auth_Store ErrNotFound)
      | Some bytes \<Rightarrow>
          and_then (au_db (get_session_by_token_hash (ae_sha env bytes))) (\<lambda>r.
          if now > se_expires r then throw Err_Expired
          else and_then (au_db (get_user_by_id (se_user r))) (\<lambda>u. ret (r, u))))"

definition lookup_session :: "auth_env \<Rightarrow> instant \<Rightarrow> string \<Rightarrow> (session \<times> user) au" where
  "lookup_session env now token =
     and_then (find_session env now token) (\<lambda>(r, u).
     if se_pre r then throw Err_Pre_Auth
     else and_then (ignore (au_db (update_session_last_seen (se_id r) now))) (\<lambda>_. ret (r, u)))"

definition lookup_pre_auth :: "auth_env \<Rightarrow> instant \<Rightarrow> string \<Rightarrow> (session \<times> user) au" where
  "lookup_pre_auth env now token =
     and_then (find_session env now token) (\<lambda>(r, u). if \<not> se_pre r then throw Err_Not_Pre_Auth else ret (r, u))"

definition step_up_fresh :: "instant \<Rightarrow> session \<Rightarrow> bool" where
  "step_up_fresh now r = (case se_stepup r of None \<Rightarrow> False | Some t \<Rightarrow> time_sub now t < step_up_ttl)"

section \<open>Second factors\<close>

definition totp_period :: int where "totp_period = 30"
definition totp_skew :: int where "totp_skew = 1"

definition current_step :: "instant \<Rightarrow> int" where
  "current_step now = go_div (now div second) totp_period"

definition setup_totp :: "auth_env \<Rightarrow> string option \<Rightarrow> string \<Rightarrow> string \<Rightarrow> (string \<times> string) au" where
  "setup_totp env secret user name =
     (case ae_box env of None \<Rightarrow> throw Auth_Other
      | Some (seal, unseal) \<Rightarrow>
          (case secret of None \<Rightarrow> throw Auth_Other
           | Some sec \<Rightarrow> and_then (map_err (\<lambda>_. Auth_Other) (au_db (set_user_totp_secret user (seal sec)))) (\<lambda>_.
               ret (sec, ae_totp_url env sec name))))"

text \<open>The steps of the window, the earliest first.\<close>

definition match_step :: "auth_env \<Rightarrow> instant \<Rightarrow> string \<Rightarrow> string \<Rightarrow> int au" where
  "match_step env now user code =
     (case ae_box env of None \<Rightarrow> throw Auth_Other
      | Some (seal, unseal) \<Rightarrow>
          and_then (map_err (\<lambda>e. if e = ErrNotFound then Totp_Disabled else Auth_Store e) (get_user_totp_secret user)) (\<lambda>sealed.
          case unseal sealed of None \<Rightarrow> throw Auth_Other
          | Some secret \<Rightarrow>
              (case find (\<lambda>k. ae_totp env secret k = Some code)
                      (map (\<lambda>d. current_step now + d) [- totp_skew .. totp_skew]) of
                 Some k \<Rightarrow> ret k
               | None \<Rightarrow> throw Totp_Invalid)))"

definition verify_totp :: "auth_env \<Rightarrow> instant \<Rightarrow> string \<Rightarrow> string \<Rightarrow> unit au" where
  "verify_totp env now user code =
     and_then (match_step env now user code) (\<lambda>k.
     and_then (au_db (consume_totp_step user k)) (\<lambda>fresh.
     if \<not> fresh then throw Totp_Invalid else ret ()))"

definition verify_enrolment :: "auth_env \<Rightarrow> instant \<Rightarrow> string \<Rightarrow> string \<Rightarrow> unit au" where
  "verify_enrolment env now user code = and_then (match_step env now user code) (\<lambda>_. ret ())"

text \<open>randIndex on a stream of bytes: rejection, then the remainder; None if the bytes run out.\<close>

fun rand_index :: "nat \<Rightarrow> nat list \<Rightarrow> (nat \<times> nat list) option" where
  "rand_index n [] = None"
| "rand_index n (b # bs) = (if b < 256 - 256 mod n then Some (b mod n, bs) else rand_index n bs)"

definition recovery_alphabet :: string where
  "recovery_alphabet = ''abcdefghijklmnopqrstuvwxyz0123456789''"

fun recovery_chars :: "nat \<Rightarrow> nat list \<Rightarrow> (string \<times> nat list) option" where
  "recovery_chars 0 bs = Some ([], bs)"
| "recovery_chars (Suc k) bs = (case rand_index (length recovery_alphabet) bs of None \<Rightarrow> None
     | Some (i, bs') \<Rightarrow> map_option (\<lambda>(cs, r). (recovery_alphabet ! i # cs, r)) (recovery_chars k bs'))"

definition new_recovery_code :: "nat list \<Rightarrow> (string \<times> nat list) option" where
  "new_recovery_code bs = map_option (\<lambda>(cs, r). (take 5 cs @ ''-'' @ drop 5 cs, r)) (recovery_chars 10 bs)"

fun generate_recovery_codes :: "nat \<Rightarrow> nat list \<Rightarrow> string list option" where
  "generate_recovery_codes 0 bs = Some []"
| "generate_recovery_codes (Suc n) bs = (case new_recovery_code bs of None \<Rightarrow> None
     | Some (c, r) \<Rightarrow> map_option ((#) c) (generate_recovery_codes n r))"

definition recovery_hash :: "auth_env \<Rightarrow> string \<Rightarrow> string" where
  "recovery_hash env code = ae_hex env (ae_sha env code)"

definition enable_totp :: "auth_env \<Rightarrow> instant \<Rightarrow> nat list \<Rightarrow> string \<Rightarrow> string \<Rightarrow> string list au" where
  "enable_totp env now bytes user code =
     and_then (verify_enrolment env now user code) (\<lambda>_.
     case generate_recovery_codes 10 bytes of None \<Rightarrow> throw Auth_Other
     | Some codes \<Rightarrow>
         and_then (map_err (\<lambda>_. Auth_Other) (au_db (enable_user_totp user (map (recovery_hash env) codes)))) (\<lambda>_. ret codes))"

definition disable_totp :: "string \<Rightarrow> unit au" where
  "disable_totp user = map_err (\<lambda>_. Auth_Other) (disable_user_totp user)"

text \<open>normalizeRecoveryCode: any other character makes the result empty.\<close>

definition recovery_char :: "char \<Rightarrow> bool" where
  "recovery_char c = (let n = (of_char c :: nat) in (97 \<le> n \<and> n \<le> 122) \<or> is_digit c \<or> c = CHR ''-'')"

definition normalize_recovery_code :: "string \<Rightarrow> string" where
  "normalize_recovery_code code0 =
     (let code = to_lower (trim_space code0)
      in if list_all (\<lambda>c. recovery_char c \<or> c = CHR '' '' \<or> c = CHR 0x09) code then filter recovery_char code else [])"

definition spend_recovery_code :: "auth_env \<Rightarrow> string \<Rightarrow> string \<Rightarrow> unit au" where
  "spend_recovery_code env user code0 =
     (let code = normalize_recovery_code code0
      in if code = [] then throw Totp_Invalid
         else and_then (au_db (consume_recovery_code user (recovery_hash env code))) (\<lambda>ok.
              if \<not> ok then throw Totp_Invalid else ret ()))"

section \<open>API tokens\<close>

definition token_prefix :: string where "token_prefix = ''vac_''"

definition create_token ::
  "auth_env \<Rightarrow> string \<Rightarrow> instant \<Rightarrow> string option \<Rightarrow> string \<Rightarrow> string \<Rightarrow> instant option \<Rightarrow> (string \<times> api_token) au" where
  "create_token env new now raw user name expires =
     (case raw of None \<Rightarrow> throw Auth_Other
      | Some bytes \<Rightarrow>
          let tok = token_prefix @ b64_encode bytes
          in and_then (au_db (create_api_token new now user name (ae_sha env tok) expires)) (\<lambda>t. ret (tok, t)))"

definition lookup_token :: "auth_env \<Rightarrow> instant \<Rightarrow> string \<Rightarrow> (api_token \<times> user) au" where
  "lookup_token env now tok =
     (if \<not> has_prefix tok token_prefix then throw (Auth_Store ErrNotFound)
      else and_then (au_db (get_api_token_by_hash (ae_sha env tok))) (\<lambda>t.
        if (case tk_expires t of Some x \<Rightarrow> now > x | None \<Rightarrow> False) then throw Err_Expired
        else and_then (au_db (get_user_by_id (tk_user t))) (\<lambda>u.
             and_then (ignore (au_db (update_api_token_last_used (tk_id t) now))) (\<lambda>_. ret (t, u)))))"

section \<open>Middleware\<close>

record http_auth =
  ha_authorization :: string
  ha_session :: "string option"
  ha_csrf_cookie :: "string option"
  ha_csrf_header :: string
  ha_method :: string

record principal =
  pr_user :: "user option"
  pr_session :: "session option"
  pr_token :: "api_token option"

definition anonymous :: principal where
  "anonymous = \<lparr>pr_user = None, pr_session = None, pr_token = None\<rparr>"

definition bearer_prefix :: string where "bearer_prefix = ''Bearer ''"

definition bearer_token :: "http_auth \<Rightarrow> string option" where
  "bearer_token q = (let h = ha_authorization q in
     if \<not> has_prefix h bearer_prefix then None
     else let raw = trim_space (trim_prefix h bearer_prefix) in if raw = [] then None else Some raw)"

definition authenticate :: "auth_env \<Rightarrow> instant \<Rightarrow> http_auth \<Rightarrow> (auth_db, 'e, principal) sem" where
  "authenticate env now q =
     (case bearer_token q of
        Some raw \<Rightarrow> and_then (attempt (lookup_token env now raw)) (\<lambda>r.
          ret (case r of Inr (t, u) \<Rightarrow> \<lparr>pr_user = Some u, pr_session = None, pr_token = Some t\<rparr> | Inl _ \<Rightarrow> anonymous))
      | None \<Rightarrow> (case ha_session q of None \<Rightarrow> ret anonymous
          | Some c \<Rightarrow> if c = [] then ret anonymous
              else and_then (attempt (lookup_session env now c)) (\<lambda>r.
                ret (case r of Inr (x, u) \<Rightarrow> \<lparr>pr_user = Some u, pr_session = Some x, pr_token = None\<rparr> | Inl _ \<Rightarrow> anonymous))))"

text \<open>What a gate answers: nothing, or the refusal with its code.\<close>

datatype refusal = Refusal int string string

definition require_session :: "principal \<Rightarrow> refusal option" where
  "require_session p = (if pr_user p = None then Some (Refusal 401 ''unauthorized'' ''authentication required'') else None)"

definition require_step_up :: "instant \<Rightarrow> principal \<Rightarrow> refusal option" where
  "require_step_up now p =
     (if pr_user p = None then Some (Refusal 401 ''unauthorized'' ''authentication required'')
      else if pr_token p \<noteq> None then None
      else if (case pr_session p of None \<Rightarrow> True | Some r \<Rightarrow> \<not> step_up_fresh now r)
      then Some (Refusal 403 ''step_up_required'' ''re-verification required for this action'')
      else None)"

definition csrf_check :: "http_auth \<Rightarrow> refusal option" where
  "csrf_check q =
     (if ha_method q \<in> {''GET'', ''HEAD'', ''OPTIONS''} then None
      else if has_prefix (ha_authorization q) bearer_prefix then None
      else if ha_session q = None \<or> ha_session q = Some [] then None
      else if ha_csrf_cookie q = None \<or> ha_csrf_cookie q = Some [] \<or> ha_csrf_header q = []
      then Some (Refusal 403 ''csrf_mismatch'' ''missing csrf token'')
      else if ha_csrf_cookie q \<noteq> Some (ha_csrf_header q) then Some (Refusal 403 ''csrf_mismatch'' ''csrf token mismatch'')
      else None)"

end
