(* ===== verification/Auth_Handlers.thy ===== *)
theory Auth_Handlers
  imports Auth
begin

text \<open>
  The endpoints of the accounts: api/internal/server/handler/auth.go, totp.go, stepup.go, sessions.go,
  api_tokens.go and setup.go, with the token of the first boot (api/internal/auth/setup_token.go). What the
  random source returned, None for an error, and the identifiers of new rows are arguments. A body that is not
  JSON is None. The factor check of login and of the second step is a definition of its own, so that several
  requests can be interleaved between the check of the lock and the count of a failure.
\<close>

section \<open>Replies\<close>

datatype cookie = Set_Cookie string string int | Clear_Cookie string

record session_view =
  sv_id :: string
  sv_created :: instant
  sv_seen :: instant
  sv_expires :: instant
  sv_current :: bool

record token_view =
  tv_id :: string
  tv_name :: string
  tv_used :: "instant option"
  tv_created :: instant
  tv_expires :: "instant option"

datatype auth_body =
    Fail_Body string "string option"        \<comment> \<open>the message, a code other than the default of the status\<close>
  | Me_Body string string bool
  | Totp_Required_Body
  | Status_Body string
  | Enrol_Body string string
  | Codes_Body "string list"
  | Sessions_Body "session_view list"
  | Revoked_Body int
  | New_Token_Body string token_view
  | Tokens_Body "token_view list"
  | Setup_Body bool bool

record auth_reply =
  ar_status :: int
  ar_cookies :: "cookie list"
  ar_retry :: "int option"
  ar_body :: auth_body

type_synonym ('s, 'a) authstep = "('s, auth_reply, 'a) sem"

definition reply_of :: "int \<Rightarrow> auth_body \<Rightarrow> auth_reply" where
  "reply_of status body = \<lparr>ar_status = status, ar_cookies = [], ar_retry = None, ar_body = body\<rparr>"

definition failure :: "int \<Rightarrow> string \<Rightarrow> auth_reply" where
  "failure status msg = reply_of status (Fail_Body msg None)"

definition with_cookies :: "cookie list \<Rightarrow> auth_reply \<Rightarrow> auth_reply" where
  "with_cookies cs r = r\<lparr>ar_cookies := cs @ ar_cookies r\<rparr>"

definition seconds_of :: "duration \<Rightarrow> int" where
  "seconds_of d = go_div d second"

definition session_cookie :: string where "session_cookie = ''vac_session''"
definition pre_auth_cookie :: string where "pre_auth_cookie = ''vac_pre''"
definition csrf_cookie :: string where "csrf_cookie = ''vac_csrf''"
definition pre_remember_cookie :: string where "pre_remember_cookie = ''vac_pre_remember''"

definition auth_serve :: "('s, auth_reply) authstep \<Rightarrow> 's \<Rightarrow> auth_reply \<times> 's" where
  "auth_serve h s = (case h s of (Inl r, s') \<Rightarrow> (r, s') | (Inr r, s') \<Rightarrow> (r, s'))"

section \<open>Login\<close>

definition max_auth_failures :: int where "max_auth_failures = 10"
definition auth_lockout :: duration where "auth_lockout = 15 * minute"

text \<open>registerAuthFailure, and the reply of writeAuthLocked: whole seconds, rounded up, at least one.\<close>

definition count_failure :: "instant \<Rightarrow> string \<Rightarrow> (auth_db, 'e, unit) sem" where
  "count_failure now i = ignore (register_auth_failure now i max_auth_failures auth_lockout)"

definition locked_message :: string where
  "locked_message = ''account temporarily locked due to too many failed attempts; try again later''"

definition auth_locked :: "instant \<Rightarrow> instant \<Rightarrow> auth_reply" where
  "auth_locked now until = (failure 429 locked_message)\<lparr>ar_retry := Some (max 1 (- ((- time_sub until now) div second)))\<rparr>"

text \<open>The lock is only obeyed when it could be read.\<close>

definition refuse_locked :: "instant \<Rightarrow> string \<Rightarrow> (auth_db, unit) authstep" where
  "refuse_locked now i = and_then (attempt (auth_locked_until now i)) (\<lambda>r.
     case r of Inr (Some until) \<Rightarrow> throw (auth_locked now until) | _ \<Rightarrow> ret ())"

record login_request =
  lq_username :: string
  lq_password :: string
  lq_remember :: bool

definition invalid_credentials :: auth_reply where
  "invalid_credentials = reply_of 401 (Fail_Body ''invalid credentials'' (Some ''invalid_credentials''))"

definition login_account :: "instant \<Rightarrow> login_request option \<Rightarrow> (auth_db, user) authstep" where
  "login_account now req =
     (case req of None \<Rightarrow> throw (failure 400 ''invalid json'')
      | Some q \<Rightarrow>
          if lq_username q = [] \<or> lq_password q = [] then throw (failure 400 ''username and password are required'')
          else and_then (map_err (\<lambda>_. invalid_credentials) (get_user_by_username (lq_username q))) (\<lambda>u.
               and_then (refuse_locked now (u_id u)) (\<lambda>_. ret u)))"

definition login_password :: "auth_env \<Rightarrow> instant \<Rightarrow> string \<Rightarrow> user \<Rightarrow> (auth_db, unit) authstep" where
  "login_password env now password u =
     (if ae_bcrypt_ok env (u_hash u) password then ret ()
      else and_then (count_failure now (u_id u)) (\<lambda>_. throw invalid_credentials))"

definition me_body :: "user \<Rightarrow> auth_body" where
  "me_body u = Me_Body (u_id u) (u_name u) (u_totp u)"

definition issue_full_session ::
  "auth_env \<Rightarrow> string \<Rightarrow> instant \<Rightarrow> string option \<Rightarrow> string option \<Rightarrow> user \<Rightarrow> bool \<Rightarrow> (auth_db, auth_reply) authstep" where
  "issue_full_session env new now raw csrf u remember =
     and_then (map_err (\<lambda>_. failure 500 ''could not create session'')
                 (create_full_session env new now raw (u_id u) remember)) (\<lambda>(token, r).
     case csrf of None \<Rightarrow> throw (failure 500 ''could not generate csrf token'')
     | Some c \<Rightarrow>
         let age = seconds_of (session_ttl env remember)
         in ret (with_cookies [Set_Cookie session_cookie token age, Set_Cookie csrf_cookie (b64_encode c) age]
                   (reply_of 200 (me_body u))))"

definition show_bool :: "bool \<Rightarrow> string" where
  "show_bool b = (if b then ''true'' else ''false'')"

definition login_grant ::
  "auth_env \<Rightarrow> string \<Rightarrow> instant \<Rightarrow> string option \<Rightarrow> string option \<Rightarrow> bool \<Rightarrow> user \<Rightarrow> (auth_db, auth_reply) authstep" where
  "login_grant env new now raw csrf remember u =
     (if u_totp u then
        and_then (map_err (\<lambda>_. failure 500 ''could not create pre-auth session'')
                    (create_pre_auth env new now raw (u_id u))) (\<lambda>(token, r).
        ret (with_cookies [Set_Cookie pre_auth_cookie token (seconds_of pre_auth_ttl),
                           Set_Cookie pre_remember_cookie (show_bool remember) (seconds_of pre_auth_ttl)]
               (reply_of 200 Totp_Required_Body)))
      else and_then (ignore (clear_auth_failures (u_id u))) (\<lambda>_. issue_full_session env new now raw csrf u remember))"

definition login ::
  "auth_env \<Rightarrow> string \<Rightarrow> instant \<Rightarrow> string option \<Rightarrow> string option \<Rightarrow> login_request option \<Rightarrow> (auth_db, auth_reply) authstep" where
  "login env new now raw csrf req =
     and_then (login_account now req) (\<lambda>u.
     let q = the req
     in and_then (login_password env now (lq_password q) u) (\<lambda>_. login_grant env new now raw csrf (lq_remember q) u))"

definition logout :: "principal \<Rightarrow> (auth_db, auth_reply) authstep" where
  "logout p = (case pr_session p of None \<Rightarrow> throw (failure 401 ''no active session'')
     | Some r \<Rightarrow> and_then (map_err (\<lambda>_. failure 500 ''could not revoke session'') (revoke_session (se_id r))) (\<lambda>_.
         ret (with_cookies [Clear_Cookie session_cookie, Clear_Cookie csrf_cookie] (reply_of 200 (Status_Body ''logged out'')))))"

definition signed_in :: "principal \<Rightarrow> ('s, user) authstep" where
  "signed_in p = (case pr_user p of None \<Rightarrow> throw (failure 401 ''authentication required'') | Some u \<Rightarrow> ret u)"

definition me :: "principal \<Rightarrow> ('s, auth_reply) authstep" where
  "me p = and_then (signed_in p) (\<lambda>u. ret (reply_of 200 (me_body u)))"

section \<open>The second step\<close>

record factor_request =
  fq_code :: string
  fq_recovery :: string
  fq_password :: string

definition totp_account ::
  "auth_env \<Rightarrow> instant \<Rightarrow> string option \<Rightarrow> factor_request option \<Rightarrow> (auth_db, session \<times> user) authstep" where
  "totp_account env now cookie req =
     (if cookie = None \<or> cookie = Some [] then throw (failure 401 ''pre-auth session required'')
      else and_then (map_err (\<lambda>_. with_cookies [Clear_Cookie pre_auth_cookie] (failure 401 ''pre-auth session invalid or expired''))
                       (lookup_pre_auth env now (the cookie))) (\<lambda>(r, u).
           case req of None \<Rightarrow> throw (failure 400 ''invalid json'')
           | Some q \<Rightarrow>
               if fq_code q = [] \<and> fq_recovery q = [] then throw (failure 400 ''code or recovery_code is required'')
               else and_then (refuse_locked now (u_id u)) (\<lambda>_. ret (r, u))))"

text \<open>A code if there is one, else the recovery code.\<close>

definition second_factor :: "auth_env \<Rightarrow> instant \<Rightarrow> factor_request \<Rightarrow> user \<Rightarrow> (auth_db, unit) authstep" where
  "second_factor env now q u =
     (if fq_code q \<noteq> [] then map_err (\<lambda>_. failure 401 ''invalid code'') (verify_totp env now (u_id u) (fq_code q))
      else map_err (\<lambda>_. failure 401 ''invalid recovery code'') (spend_recovery_code env (u_id u) (fq_recovery q)))"

definition counted :: "instant \<Rightarrow> string \<Rightarrow> (auth_db, unit) authstep \<Rightarrow> (auth_db, unit) authstep" where
  "counted now i q = and_then (attempt q) (\<lambda>r.
     case r of Inr _ \<Rightarrow> ret () | Inl e \<Rightarrow> and_then (count_failure now i) (\<lambda>_. throw e))"

text \<open>strconv.ParseBool; false for an error.\<close>

definition parse_bool :: "string \<Rightarrow> bool" where
  "parse_bool s = (s \<in> {''1'', ''t'', ''T'', ''TRUE'', ''true'', ''True''})"

definition totp_grant ::
  "auth_env \<Rightarrow> string \<Rightarrow> instant \<Rightarrow> string option \<Rightarrow> string option \<Rightarrow> string option \<Rightarrow> session \<Rightarrow> user \<Rightarrow> (auth_db, auth_reply) authstep" where
  "totp_grant env new now raw csrf remember r u =
     and_then (ignore (clear_auth_failures (u_id u))) (\<lambda>_.
     and_then (ignore (revoke_session (se_id r))) (\<lambda>_.
     let keep = (case remember of None \<Rightarrow> False | Some v \<Rightarrow> parse_bool v);
         clear = with_cookies [Clear_Cookie pre_auth_cookie, Clear_Cookie pre_remember_cookie]
     in map_err clear (and_then (issue_full_session env new now raw csrf u keep) (\<lambda>x. ret (clear x)))))"

definition totp_login ::
  "auth_env \<Rightarrow> string \<Rightarrow> instant \<Rightarrow> string option \<Rightarrow> string option \<Rightarrow> string option \<Rightarrow> string option \<Rightarrow> factor_request option \<Rightarrow>
    (auth_db, auth_reply) authstep" where
  "totp_login env new now raw csrf cookie remember req =
     and_then (totp_account env now cookie req) (\<lambda>(r, u).
     and_then (counted now (u_id u) (second_factor env now (the req) u)) (\<lambda>_.
     totp_grant env new now raw csrf remember r u))"

definition totp_setup :: "auth_env \<Rightarrow> string option \<Rightarrow> principal \<Rightarrow> (auth_db, auth_reply) authstep" where
  "totp_setup env secret p =
     and_then (signed_in p) (\<lambda>u.
     if u_totp u then throw (failure 409 ''totp already enabled'')
     else and_then (map_err (\<lambda>_. failure 500 ''could not start totp setup'') (setup_totp env secret (u_id u) (u_name u))) (\<lambda>(sec, uri).
          ret (reply_of 200 (Enrol_Body uri sec))))"

definition totp_enable :: "auth_env \<Rightarrow> instant \<Rightarrow> nat list \<Rightarrow> principal \<Rightarrow> string option \<Rightarrow> (auth_db, auth_reply) authstep" where
  "totp_enable env now bytes p req =
     and_then (signed_in p) (\<lambda>u.
     case req of None \<Rightarrow> throw (failure 400 ''invalid json'')
     | Some code \<Rightarrow>
         if code = [] then throw (failure 400 ''code is required'')
         else and_then (map_err (\<lambda>e. if e = Totp_Invalid then failure 401 ''invalid code''
                          else if e = Totp_Disabled then failure 400 ''call /setup before /enable''
                          else failure 500 ''could not enable totp'') (enable_totp env now bytes (u_id u) code)) (\<lambda>codes.
              ret (reply_of 200 (Codes_Body codes))))"

definition totp_disable :: "auth_env \<Rightarrow> principal \<Rightarrow> string option \<Rightarrow> (auth_db, auth_reply) authstep" where
  "totp_disable env p req =
     and_then (signed_in p) (\<lambda>u.
     case req of None \<Rightarrow> throw (failure 400 ''invalid json'')
     | Some password \<Rightarrow>
         if password = [] then throw (failure 400 ''password is required'')
         else and_then (map_err (\<lambda>_. failure 500 ''could not load user'') (get_user_by_id (u_id u))) (\<lambda>full.
              if \<not> ae_bcrypt_ok env (u_hash full) password then throw (failure 401 ''invalid password'')
              else and_then (map_err (\<lambda>_. failure 500 ''could not disable totp'') (disable_totp (u_id u))) (\<lambda>_.
                   ret (reply_of 200 (Status_Body ''disabled'')))))"

section \<open>Step-up\<close>

text \<open>The account as the middleware read it decides the factor.\<close>

definition step_up_factor :: "auth_env \<Rightarrow> instant \<Rightarrow> factor_request \<Rightarrow> user \<Rightarrow> (auth_db, unit) authstep" where
  "step_up_factor env now q u =
     (if \<not> u_totp u then
        if fq_password q = [] then throw (failure 400 ''password is required'')
        else if \<not> ae_bcrypt_ok env (u_hash u) (fq_password q) then throw (failure 401 ''invalid password'')
        else ret ()
      else if fq_code q = [] \<and> fq_recovery q = [] then throw (failure 400 ''code or recovery_code is required'')
      else second_factor env now q u)"

definition step_up :: "auth_env \<Rightarrow> instant \<Rightarrow> principal \<Rightarrow> factor_request option \<Rightarrow> (auth_db, auth_reply) authstep" where
  "step_up env now p req =
     (case (pr_user p, pr_session p) of
        (Some u, Some r) \<Rightarrow>
          (case req of None \<Rightarrow> throw (failure 400 ''invalid json'')
           | Some q \<Rightarrow>
               and_then (step_up_factor env now q u) (\<lambda>_.
               and_then (map_err (\<lambda>_. failure 500 ''could not record step-up'') (touch_session_step_up (se_id r) now)) (\<lambda>_.
               ret (reply_of 200 (Status_Body ''verified'')))))
      | _ \<Rightarrow> throw (failure 400 ''step-up requires an interactive session''))"

section \<open>Sessions and API tokens\<close>

definition session_of :: "principal \<Rightarrow> ('s, user \<times> session) authstep" where
  "session_of p = (case (pr_user p, pr_session p) of
     (Some u, Some r) \<Rightarrow> ret (u, r) | _ \<Rightarrow> throw (failure 401 ''authentication required''))"

definition list_sessions :: "instant \<Rightarrow> principal \<Rightarrow> (auth_db, auth_reply) authstep" where
  "list_sessions now p =
     and_then (session_of p) (\<lambda>(u, c).
     and_then (map_err (\<lambda>_. failure 500 ''could not list sessions'') (list_sessions_for_user now (u_id u))) (\<lambda>rows.
     ret (reply_of 200 (Sessions_Body (map (\<lambda>r. \<lparr>sv_id = se_id r, sv_created = se_created r, sv_seen = se_seen r,
       sv_expires = se_expires r, sv_current = (se_id r = se_id c)\<rparr>) rows)))))"

definition revoke_one_session :: "instant \<Rightarrow> principal \<Rightarrow> string \<Rightarrow> (auth_db, auth_reply) authstep" where
  "revoke_one_session now p i =
     and_then (session_of p) (\<lambda>(u, c).
     if i = [] then throw (failure 400 ''session id required'')
     else if i = se_id c then throw (failure 409 ''use /api/auth/logout to revoke the current session'')
     else and_then (map_err (\<lambda>_. failure 500 ''could not load sessions'') (list_sessions_for_user now (u_id u))) (\<lambda>rows.
          if i \<notin> set (map se_id rows) then throw (failure 404 ''session not found'')
          else and_then (map_err (\<lambda>e. if e = ErrNotFound then failure 404 ''session not found''
                           else failure 500 ''could not revoke session'') (revoke_session i)) (\<lambda>_.
               ret (reply_of 200 (Revoked_Body 1)))))"

definition revoke_other_sessions :: "principal \<Rightarrow> (auth_db, auth_reply) authstep" where
  "revoke_other_sessions p =
     and_then (session_of p) (\<lambda>(u, c).
     and_then (map_err (\<lambda>_. failure 500 ''could not revoke sessions'') (revoke_other_sessions_for_user (u_id u) (se_id c))) (\<lambda>n.
     ret (reply_of 200 (Revoked_Body n))))"

definition max_token_name :: nat where "max_token_name = 100"

definition token_view_of :: "api_token \<Rightarrow> token_view" where
  "token_view_of t = \<lparr>tv_id = tk_id t, tv_name = tk_name t, tv_used = tk_used t, tv_created = tk_created t, tv_expires = tk_expires t\<rparr>"

text \<open>The product of the days wraps as an int64.\<close>

definition token_expiry :: "instant \<Rightarrow> int \<Rightarrow> instant option" where
  "token_expiry now days = (if days > 0 then Some (now + dur_mul (dur_mul days 24) hour) else None)"

definition create_api_token_handler ::
  "auth_env \<Rightarrow> string \<Rightarrow> instant \<Rightarrow> string option \<Rightarrow> principal \<Rightarrow> (string \<times> int) option \<Rightarrow> (auth_db, auth_reply) authstep" where
  "create_api_token_handler env new now raw p req =
     and_then (signed_in p) (\<lambda>u.
     case req of None \<Rightarrow> throw (failure 400 ''invalid json'')
     | Some (name0, days) \<Rightarrow>
         let name = trim_space name0
         in if name = [] then throw (failure 400 ''name is required'')
            else if length name > max_token_name then throw (failure 400 ''name too long'')
            else and_then (map_err (\<lambda>_. failure 500 ''could not create token'')
                             (create_token env new now raw (u_id u) name (token_expiry now days))) (\<lambda>(tok, t).
                 ret (reply_of 201 (New_Token_Body tok (token_view_of t)))))"

definition list_api_tokens :: "principal \<Rightarrow> (auth_db, auth_reply) authstep" where
  "list_api_tokens p =
     and_then (signed_in p) (\<lambda>u.
     and_then (map_err (\<lambda>_. failure 500 ''could not list tokens'') (list_api_tokens_for_user (u_id u))) (\<lambda>rows.
     ret (reply_of 200 (Tokens_Body (map token_view_of rows)))))"

definition revoke_api_token_handler :: "principal \<Rightarrow> string \<Rightarrow> (auth_db, auth_reply) authstep" where
  "revoke_api_token_handler p i =
     and_then (signed_in p) (\<lambda>u.
     if i = [] then throw (failure 400 ''token id required'')
     else and_then (map_err (\<lambda>e. if e = ErrNotFound then failure 404 ''token not found'' else failure 500 ''could not revoke token'')
                      (revoke_api_token (u_id u) i)) (\<lambda>_. ret (reply_of 200 (Revoked_Body 1))))"

section \<open>The first account\<close>

text \<open>The file of the setup token, whose calls may fail; one that fails changes nothing.\<close>

record boot =
  bo_db :: auth_db
  bo_file :: "string option"
  bo_fault :: "nat \<Rightarrow> bool"
  bo_ops :: nat

datatype boot_err = Token_Missing | Token_Mismatch | Token_Other

definition on_boot_db :: "(auth_db, 'e, 'a) sem \<Rightarrow> (boot, 'e, 'a) sem" where
  "on_boot_db q = (\<lambda>s. case q (bo_db s) of (r, d) \<Rightarrow> (r, s\<lparr>bo_db := d\<rparr>))"

definition disk :: "(boot, boot_err, 'a) sem \<Rightarrow> (boot, boot_err, 'a) sem" where
  "disk q = (\<lambda>s. let s' = s\<lparr>bo_ops := Suc (bo_ops s)\<rparr> in if bo_fault s (bo_ops s) then (Inl Token_Other, s') else q s')"

definition read_setup_token :: "(boot, boot_err, string) sem" where
  "read_setup_token = disk (reads (\<lambda>s. case bo_file s of None \<Rightarrow> [] | Some t \<Rightarrow> trim_space t))"

definition remove_setup_token :: "(boot, boot_err, unit) sem" where
  "remove_setup_token = disk (act (\<lambda>s. s\<lparr>bo_file := None\<rparr>))"

definition ensure_setup_token :: "string option \<Rightarrow> (boot, boot_err, string) sem" where
  "ensure_setup_token raw =
     and_then (attempt read_setup_token) (\<lambda>r.
     if (case r of Inr t \<Rightarrow> t \<noteq> [] | Inl _ \<Rightarrow> False) then ret (projr r)
     else case raw of None \<Rightarrow> throw Token_Other
     | Some bytes \<Rightarrow>
         and_then (disk (ret ())) (\<lambda>_.
         and_then (disk (act (\<lambda>s. s\<lparr>bo_file := Some (b64_encode bytes)\<rparr>))) (\<lambda>_. ret (b64_encode bytes))))"

text \<open>ConsumeSetupToken, the comparison before the removal; ClearSetupToken is the removal.\<close>

definition check_setup_token :: "string \<Rightarrow> (boot, boot_err, unit) sem" where
  "check_setup_token provided =
     and_then read_setup_token (\<lambda>want.
     if want = [] then throw Token_Missing else if want \<noteq> provided then throw Token_Mismatch else ret ())"

definition consume_setup_token :: "string \<Rightarrow> (boot, boot_err, unit) sem" where
  "consume_setup_token provided = and_then (check_setup_token provided) (\<lambda>_. remove_setup_token)"

definition setup_status :: "(boot, auth_reply) authstep" where
  "setup_status =
     and_then (map_err (\<lambda>_. failure 500 ''database error'') (on_boot_db count_users)) (\<lambda>n.
     if n \<noteq> 0 then ret (reply_of 200 (Setup_Body False False))
     else and_then (attempt read_setup_token) (\<lambda>r.
          ret (reply_of 200 (Setup_Body True (case r of Inr t \<Rightarrow> t \<noteq> [] | Inl _ \<Rightarrow> False)))))"

record setup_request =
  sq_username :: string
  sq_password :: string
  sq_token :: string

text \<open>The tags of setupAdminRequest, in the order of the fields: min and max count runes of the UTF-8 text.\<close>

definition rune_count :: "string \<Rightarrow> nat" where
  "rune_count s = length (filter (\<lambda>c. let n = (of_char c :: nat) in n < 128 \<or> 192 \<le> n) s)"

definition validate_setup :: "setup_request \<Rightarrow> string option" where
  "validate_setup q =
     (if sq_username q = [] then Some ''Username is required''
      else if rune_count (sq_username q) > 64 then Some ''Username must be at most 64 characters''
      else if sq_password q = [] then Some ''Password is required''
      else if rune_count (sq_password q) < 12 then Some ''Password must be at least 12 characters''
      else if rune_count (sq_password q) > 72 then Some ''Password must be at most 72 characters''
      else if sq_token q = [] then Some ''SetupToken is required''
      else None)"

definition max_password_bytes :: nat where "max_password_bytes = 72"

definition setup_open :: "setup_request option \<Rightarrow> (boot, setup_request) authstep" where
  "setup_open req =
     (case req of None \<Rightarrow> throw (failure 400 ''invalid json'')
      | Some q \<Rightarrow>
          (case validate_setup q of Some msg \<Rightarrow> throw (failure 400 msg)
           | None \<Rightarrow>
               if length (sq_password q) > max_password_bytes then throw (failure 400 ''password must be at most 72 bytes'')
               else and_then (map_err (\<lambda>_. failure 500 ''database error'') (on_boot_db count_users)) (\<lambda>n.
                    if n > 0 then throw (failure 409 ''setup already complete'') else ret q)))"

definition setup_token_error :: "boot_err \<Rightarrow> auth_reply" where
  "setup_token_error e =
     (case e of Token_Missing \<Rightarrow> failure 503 (''no setup token on disk '' @ em_dash @ '' restart vac-api to regenerate one'')
      | Token_Mismatch \<Rightarrow> failure 401 ''invalid setup token''
      | Token_Other \<Rightarrow> failure 500 ''could not validate setup token'')"

definition setup_create ::
  "auth_env \<Rightarrow> string \<Rightarrow> string \<Rightarrow> instant \<Rightarrow> string option \<Rightarrow> string option \<Rightarrow> string option \<Rightarrow> setup_request \<Rightarrow> (boot, auth_reply) authstep" where
  "setup_create env new_user new now raw csrf fresh q =
     (let again = (\<lambda>msg. and_then (ignore (ensure_setup_token fresh)) (\<lambda>_. throw (failure 500 msg)))
      in case ae_bcrypt env (sq_password q) of None \<Rightarrow> again ''could not hash password''
         | Some h \<Rightarrow>
             and_then (attempt (on_boot_db (create_user new_user (sq_username q) h))) (\<lambda>r.
             case r of Inl _ \<Rightarrow> again ''could not create user''
             | Inr u \<Rightarrow> on_boot_db (issue_full_session env new now raw csrf u True)))"

definition setup_admin ::
  "auth_env \<Rightarrow> string \<Rightarrow> string \<Rightarrow> instant \<Rightarrow> string option \<Rightarrow> string option \<Rightarrow> string option \<Rightarrow> setup_request option \<Rightarrow> (boot, auth_reply) authstep" where
  "setup_admin env new_user new now raw csrf fresh req =
     and_then (setup_open req) (\<lambda>q.
     and_then (map_err setup_token_error (consume_setup_token (sq_token q))) (\<lambda>_.
     setup_create env new_user new now raw csrf fresh q))"

section \<open>The routes\<close>

text \<open>
  The part of the router under /api that belongs to the accounts (server.go): Auth and CSRF in front of all, the
  rate limiter (its verdict is a field) and RequireSession, RequireStepUp where they are mounted.
\<close>

record moment =
  mo_http :: http_auth
  mo_now :: instant
  mo_retry :: "int option"                \<comment> \<open>over the budget: the seconds to wait\<close>
  mo_new :: string
  mo_raw :: "string option"
  mo_csrf :: "string option"

datatype auth_call =
    Setup_Status
  | Setup_Admin string "string option" "setup_request option"
  | Do_Login "login_request option"
  | Do_Totp "string option" "string option" "factor_request option"
  | Do_Logout
  | Do_Me
  | Totp_Setup "string option"
  | Totp_Enable "nat list" "string option"
  | Do_Step_Up "factor_request option"
  | Totp_Disable "string option"
  | List_Sessions
  | Revoke_Others
  | Revoke_Session string
  | List_Tokens
  | Create_Token "(string \<times> int) option"
  | Revoke_Token string

definition refuse :: "refusal option \<Rightarrow> ('s, unit) authstep" where
  "refuse r = (case r of None \<Rightarrow> ret () | Some (Refusal status code msg) \<Rightarrow> throw (reply_of status (Fail_Body msg (Some code))))"

definition limited :: "moment \<Rightarrow> ('s, unit) authstep" where
  "limited m = (case mo_retry m of None \<Rightarrow> ret ()
     | Some secs \<Rightarrow> throw ((failure 429 ''too many requests'')\<lparr>ar_retry := Some secs\<rparr>))"

definition public_call :: "auth_env \<Rightarrow> moment \<Rightarrow> auth_call \<Rightarrow> (boot, auth_reply) authstep option" where
  "public_call env m c =
     (case c of
        Setup_Status \<Rightarrow> Some setup_status
      | Setup_Admin new_user fresh req \<Rightarrow> Some (and_then (limited m) (\<lambda>_.
          setup_admin env new_user (mo_new m) (mo_now m) (mo_raw m) (mo_csrf m) fresh req))
      | Do_Login req \<Rightarrow> Some (and_then (limited m) (\<lambda>_.
          on_boot_db (login env (mo_new m) (mo_now m) (mo_raw m) (mo_csrf m) req)))
      | Do_Totp cookie remember req \<Rightarrow> Some (and_then (limited m) (\<lambda>_.
          on_boot_db (totp_login env (mo_new m) (mo_now m) (mo_raw m) (mo_csrf m) cookie remember req)))
      | _ \<Rightarrow> None)"

definition session_call :: "auth_env \<Rightarrow> moment \<Rightarrow> principal \<Rightarrow> auth_call \<Rightarrow> (auth_db, auth_reply) authstep" where
  "session_call env m p c =
     (case c of
        Do_Logout \<Rightarrow> logout p
      | Totp_Setup secret \<Rightarrow> totp_setup env secret p
      | Totp_Enable bytes req \<Rightarrow> totp_enable env (mo_now m) bytes p req
      | Do_Step_Up req \<Rightarrow> and_then (limited m) (\<lambda>_. step_up env (mo_now m) p req)
      | Totp_Disable req \<Rightarrow> and_then (refuse (require_step_up (mo_now m) p)) (\<lambda>_. totp_disable env p req)
      | List_Sessions \<Rightarrow> list_sessions (mo_now m) p
      | Revoke_Others \<Rightarrow> revoke_other_sessions p
      | Revoke_Session i \<Rightarrow> revoke_one_session (mo_now m) p i
      | List_Tokens \<Rightarrow> list_api_tokens p
      | Create_Token req \<Rightarrow> create_api_token_handler env (mo_new m) (mo_now m) (mo_raw m) p req
      | Revoke_Token i \<Rightarrow> revoke_api_token_handler p i
      | _ \<Rightarrow> me p)"

definition auth_route :: "auth_env \<Rightarrow> moment \<Rightarrow> auth_call \<Rightarrow> (boot, auth_reply) authstep" where
  "auth_route env m c =
     and_then (on_boot_db (authenticate env (mo_now m) (mo_http m))) (\<lambda>p.
     and_then (refuse (csrf_check (mo_http m))) (\<lambda>_.
     case public_call env m c of Some h \<Rightarrow> h
     | None \<Rightarrow> and_then (refuse (require_session p)) (\<lambda>_. on_boot_db (session_call env m p c))))"

end
