(* ===== verification/Auth_Safety.thy ===== *)
theory Auth_Safety
  imports Auth_Handlers
begin

text \<open>
  What the accounts promise: a session needs the factors, a code is accepted once, guesses are bounded, and where
  the step-up gate and the first boot fall short of that.
\<close>

section \<open>What the store operations keep\<close>

text \<open>A property of the users, the sessions and the faults, whatever the counter and the tokens.\<close>

definition at_db :: "(user list \<Rightarrow> session list \<Rightarrow> (nat \<Rightarrow> bool) \<Rightarrow> bool) \<Rightarrow> auth_db \<Rightarrow> bool" where
  "at_db J s = J (users s) (sessions s) (au_fault s)"

named_theorems auth_wp \<open>what the operations of the accounts keep\<close>

lemma keeps_au_call: "keeps (at_db J) q \<Longrightarrow> keeps (at_db J) (au_call q)"
  by (auto simp: keeps_def at_db_def au_call_def Let_def)

lemma keeps_read: "(\<And>s. snd (q s) = s) \<Longrightarrow> keeps (at_db J) (au_call q)"
  by (rule keeps_au_call) (simp add: keeps_def)

lemma keeps_readers [auth_wp]:
  "keeps (at_db J) count_users" "keeps (at_db J) (one_user p)" "keeps (at_db J) (get_session_by_token_hash h)"
  "keeps (at_db J) (list_sessions_for_user now i)" "keeps (at_db J) (get_api_token_by_hash h)"
  "keeps (at_db J) (list_api_tokens_for_user i)"
  unfolding count_users_def one_user_def get_session_by_token_hash_def list_sessions_for_user_def get_api_token_by_hash_def
    list_api_tokens_for_user_def
  by (rule keeps_read, simp split: option.split)+

lemma keeps_lookups [auth_wp]:
  "keeps (at_db J) (get_user_by_username n)" "keeps (at_db J) (get_user_by_id i)"
  by (simp_all add: get_user_by_username_def get_user_by_id_def keeps_readers)

lemma keeps_more_lookups [auth_wp]:
  "keeps (at_db J) (auth_locked_until now i)" "keeps (at_db J) (get_user_totp_secret i)"
  unfolding auth_locked_until_def get_user_totp_secret_def by (intro vac_wp auth_wp)+

lemma keeps_tokens [auth_wp]:
  "keeps (at_db J) (create_api_token new now u name h x)" "keeps (at_db J) (update_api_token_last_used i now)"
  "keeps (at_db J) (revoke_api_token u i)"
  unfolding create_api_token_def update_api_token_last_used_def revoke_api_token_def affected_def
  by (intro vac_wp keeps_au_call; auto simp: keeps_def at_db_def Let_def)+

lemma keeps_update_users:
  "(\<And>U S F. J U S F \<Longrightarrow> J (map (\<lambda>u. if p u then f u else u) U) S F) \<Longrightarrow> keeps (at_db J) (update_users p f)"
  unfolding update_users_def by (rule keeps_au_call) (auto simp: keeps_def at_db_def)

lemma keeps_exec_user:
  "(\<And>U S F. J U S F \<Longrightarrow> J (map (\<lambda>u. if p u then f u else u) U) S F) \<Longrightarrow> keeps (at_db J) (exec_user p f)"
  unfolding exec_user_def by (intro vac_wp keeps_update_users)

lemma keeps_update_sessions:
  "(\<And>U S F. J U S F \<Longrightarrow> J U (map (\<lambda>r. if p r then f r else r) S) F) \<Longrightarrow> keeps (at_db J) (update_sessions p f)"
  unfolding update_sessions_def by (rule keeps_au_call) (auto simp: keeps_def at_db_def)

lemma keeps_delete_sessions:
  "(\<And>U S F. J U S F \<Longrightarrow> J U (filter (\<lambda>r. \<not> p r) S) F) \<Longrightarrow> keeps (at_db J) (delete_sessions p)"
  unfolding delete_sessions_def by (rule keeps_au_call) (auto simp: keeps_def at_db_def)

lemma keeps_create_session:
  assumes "\<And>U S F r. J U S F \<Longrightarrow> se_user r = user \<Longrightarrow> se_pre r = pre \<Longrightarrow> se_stepup r = None \<Longrightarrow> J U (S @ [r]) F"
  shows "keeps (at_db J) (create_session new now user hash expires pre)"
  unfolding create_session_def
  by (rule keeps_au_call) (auto simp: keeps_def at_db_def Let_def intro!: assms)

lemma keeps_create_user:
  assumes "\<And>U S F. J U S F \<Longrightarrow> new \<notin> u_id ` set U \<Longrightarrow> J (U @ [fresh_user new name hash]) S F"
  shows "keeps (at_db J) (create_user new name hash)"
  unfolding create_user_def
  by (rule keeps_au_call) (auto simp: keeps_def at_db_def Let_def intro!: assms)

lemma keeps_register_failure:
  assumes "\<And>U S F. J U S F \<Longrightarrow> J (map (\<lambda>u. if u_id u = i then note_failure k (now + d) u else u) U) S F"
  shows "keeps (at_db J) (register_auth_failure now i k d)"
  unfolding register_auth_failure_def
  by (rule keeps_au_call) (auto simp: keeps_def at_db_def intro!: assms split: option.split)


text \<open>The state of the handlers is the one of the first boot, of which they see the accounts.\<close>

lemma keeps_on_boot: "keeps I q \<Longrightarrow> keeps (\<lambda>s. I (bo_db s)) (on_boot_db q)"
  by (auto simp: keeps_def on_boot_db_def split: prod.split)

lemma keeps_au_db: "keeps I q \<Longrightarrow> keeps I (au_db q)"
  unfolding au_db_def by (rule keeps_map_err)

lemma keeps_refuse [auth_wp]: "keeps I (refuse r)"
  by (auto simp: refuse_def keeps_def sem_defs split: option.split refusal.split)

lemma keeps_limited [auth_wp]: "keeps I (limited m)"
  unfolding limited_def by (intro vac_wp)

lemma keeps_signed_in [auth_wp]: "keeps I (signed_in p)" "keeps I (session_of p)" "keeps I (me p)"
  unfolding signed_in_def session_of_def me_def by (intro vac_wp)+

section \<open>Operations that make no session and touch no account\<close>

text \<open>A property that outlives changes of the stamps of sessions, and their deletion.\<close>

locale session_frame =
  fixes J :: "user list \<Rightarrow> session list \<Rightarrow> (nat \<Rightarrow> bool) \<Rightarrow> bool"
  assumes stamps: "J U S F \<Longrightarrow> (\<And>r. se_user (f r) = se_user r \<and> se_pre (f r) = se_pre r) \<Longrightarrow>
      J U (map (\<lambda>r. if p r then f r else r) S) F"
    and drops: "J U S F \<Longrightarrow> J U (filter p S) F"

context session_frame begin

lemma keep_stamps: "keeps (at_db J) (update_session_last_seen i now)" "keeps (at_db J) (touch_session_step_up i now)"
  unfolding update_session_last_seen_def touch_session_step_up_def affected_def
  by (intro vac_wp keeps_update_sessions, rule stamps, assumption, simp)+

lemma keep_drops: "keeps (at_db J) (revoke_session i)" "keeps (at_db J) (revoke_other_sessions_for_user i j)"
  unfolding revoke_session_def revoke_other_sessions_for_user_def
  by (intro vac_wp keeps_delete_sessions, rule drops, assumption)+

lemma keep_lookups:
  "keeps (at_db J) (find_session env now tok)" "keeps (at_db J) (lookup_session env now tok)"
  "keeps (at_db J) (lookup_pre_auth env now tok)" "keeps (at_db J) (lookup_token env now tok)"
proof -
  show f: "keeps (at_db J) (find_session env now t)" for t
    unfolding find_session_def by (intro vac_wp keeps_au_db auth_wp)
  show "keeps (at_db J) (lookup_session env now tok)" "keeps (at_db J) (lookup_pre_auth env now tok)"
    unfolding lookup_session_def lookup_pre_auth_def by (intro vac_wp keeps_au_db f keep_stamps)+
  show "keeps (at_db J) (lookup_token env now tok)"
    unfolding lookup_token_def by (intro vac_wp keeps_au_db auth_wp)
qed

lemma keep_authenticate: "keeps (at_db J) (authenticate env now q)"
  unfolding authenticate_def by (intro vac_wp keep_lookups)

lemma keep_refuse_locked: "keeps (at_db J) (refuse_locked now i)"
  unfolding refuse_locked_def by (intro vac_wp auth_wp)

lemma keep_login_account: "keeps (at_db J) (login_account now req)"
  unfolding login_account_def by (intro vac_wp auth_wp keep_refuse_locked)

lemma keep_totp_account: "keeps (at_db J) (totp_account env now cookie req)"
  unfolding totp_account_def by (intro vac_wp keep_lookups keep_refuse_locked)

lemma keep_match_step: "keeps (at_db J) (match_step env now i code)"
  unfolding match_step_def by (intro vac_wp auth_wp)

lemma keep_session_lists:
  "keeps (at_db J) (logout p)" "keeps (at_db J) (list_sessions now p)" "keeps (at_db J) (revoke_one_session now p i)"
  "keeps (at_db J) (revoke_other_sessions p)"
  unfolding logout_def list_sessions_def revoke_one_session_def revoke_other_sessions_def
  by (intro vac_wp auth_wp keep_drops)+

lemma keep_token_calls:
  "keeps (at_db J) (create_api_token_handler env new now raw p req)" "keeps (at_db J) (list_api_tokens p)"
  "keeps (at_db J) (revoke_api_token_handler p i)"
  unfolding create_api_token_handler_def list_api_tokens_def revoke_api_token_handler_def create_token_def Let_def
  by (intro vac_wp auth_wp keeps_au_db)+

lemma keep_new_session:
  assumes "\<And>U S F r. J U S F \<Longrightarrow> se_user r = i \<Longrightarrow> se_pre r = pre \<Longrightarrow> se_stepup r = None \<Longrightarrow> J U (S @ [r]) F"
  shows "keeps (at_db J) (new_session env new now raw i ttl pre)"
  unfolding new_session_def by (intro vac_wp keeps_au_db keeps_create_session) (rule assms)

lemma keep_issue:
  assumes "\<And>U S F r. J U S F \<Longrightarrow> se_user r = u_id u \<Longrightarrow> \<not> se_pre r \<Longrightarrow> se_stepup r = None \<Longrightarrow> J U (S @ [r]) F"
  shows "keeps (at_db J) (issue_full_session env new now raw csrf u remember)"
  unfolding issue_full_session_def create_full_session_def Let_def
  by (intro vac_wp keep_new_session) (simp add: assms)

end

section \<open>Operations on the accounts\<close>

text \<open>A change of an account that leaves its name and the count of failures, and does not forget a step.\<close>

definition steps_le :: "int option \<Rightarrow> int option \<Rightarrow> bool" where
  "steps_le a b = (case a of None \<Rightarrow> True | Some k \<Rightarrow> (case b of None \<Rightarrow> False | Some l \<Rightarrow> k \<le> l))"

definition same_account :: "user \<Rightarrow> user \<Rightarrow> bool" where
  "same_account u v = (u_id v = u_id u \<and> u_failed v = u_failed u \<and> u_locked v = u_locked u
     \<and> steps_le (u_last_step u) (u_last_step v))"

lemma steps_le_refl [simp]: "steps_le a a"
  by (simp add: steps_le_def split: option.split)

lemma steps_le_trans: "steps_le a b \<Longrightarrow> steps_le b c \<Longrightarrow> steps_le a c"
  by (auto simp: steps_le_def split: option.splits)

locale account_frame = session_frame +
  assumes changes: "J U S F \<Longrightarrow> (\<And>u. p u \<Longrightarrow> same_account u (f u)) \<Longrightarrow> J (map (\<lambda>u. if p u then f u else u) U) S F"

context account_frame begin

lemma keep_factors:
  "keeps (at_db J) (set_user_totp_secret i x)" "keeps (at_db J) (enable_user_totp i hs)" "keeps (at_db J) (disable_user_totp i)"
  "keeps (at_db J) (consume_recovery_code i h)"
  unfolding set_user_totp_secret_def enable_user_totp_def disable_user_totp_def consume_recovery_code_def
  by (intro vac_wp keeps_exec_user keeps_update_users, rule changes, assumption, simp add: same_account_def)+

lemma keep_step: "keeps (at_db J) (consume_totp_step i k)"
  unfolding consume_totp_step_def
  by (intro vac_wp keeps_update_users, rule changes, assumption)
     (auto simp: same_account_def steps_le_def split: option.splits)

lemma keep_second_factor: "keeps (at_db J) (second_factor env now q u)"
  unfolding second_factor_def verify_totp_def spend_recovery_code_def Let_def
  by (intro vac_wp keep_match_step keeps_au_db keep_factors keep_step)

lemma keep_enrolment:
  "keeps (at_db J) (totp_setup env secret p)" "keeps (at_db J) (totp_enable env now bytes p req)"
  "keeps (at_db J) (totp_disable env p code)"
  unfolding totp_setup_def setup_totp_def totp_enable_def enable_totp_def verify_enrolment_def totp_disable_def disable_totp_def
  by (intro vac_wp auth_wp keep_match_step keeps_au_db keep_factors)+

lemma keep_step_up: "keeps (at_db J) (step_up env now p req)"
  unfolding step_up_def step_up_factor_def by (intro vac_wp auth_wp keep_second_factor keep_stamps)

text \<open>Everything behind RequireSession.\<close>

lemma keep_session_call: "keeps (at_db J) (session_call env m p c)"
  unfolding session_call_def
  by (cases c; simp; intro vac_wp auth_wp keep_session_lists keep_token_calls keep_enrolment keep_step_up)

end


section \<open>What a step that succeeds has found\<close>

lemma au_db_Inr: "au_db q s = (Inr x, s') \<longleftrightarrow> q s = (Inr x, s')"
  by (auto simp: au_db_def map_err_def split: prod.splits sum.splits)

lemma map_err_Inr: "map_err g q s = (Inr x, s') \<longleftrightarrow> q s = (Inr x, s')"
  by (auto simp: map_err_def split: prod.splits sum.splits)

lemma and_then_Inr_iff: "and_then q f s = (Inr y, s2) \<longleftrightarrow> (\<exists>x s1. q s = (Inr x, s1) \<and> f x s1 = (Inr y, s2))"
  by (auto simp: and_then_def split: prod.splits sum.splits)

lemma ret_Inr: "ret x s = (Inr y, s') \<longleftrightarrow> y = x \<and> s' = s"
  by (auto simp: ret_def)

lemma throw_Inr: "throw e s \<noteq> (Inr y, s')"
  by (simp add: throw_def)

lemmas succeeds = au_db_Inr map_err_Inr and_then_Inr_iff ret_Inr throw_Inr

lemma one_user_Inr: "one_user p s = (Inr u, s') \<Longrightarrow> find p (users s) = Some u \<and> users s' = users s \<and> sessions s' = sessions s"
  by (auto simp: one_user_def au_call_def Let_def split: if_splits option.splits)

lemma find_in: "find p xs = Some x \<Longrightarrow> x \<in> set xs \<and> p x"
  by (auto simp: find_Some_iff)

lemma session_hash_Inr:
  "get_session_by_token_hash h s = (Inr r, s') \<Longrightarrow> r \<in> set (sessions s) \<and> se_hash r = h \<and> users s' = users s"
  by (auto simp: get_session_by_token_hash_def au_call_def Let_def dest: find_in split: if_splits option.splits)

lemma find_session_Inr:
  assumes "find_session env now tok s = (Inr (r, u), s')"
  shows "r \<in> set (sessions s)" and "u \<in> set (users s)" and "u_id u = se_user r" and "now \<le> se_expires r"
  using assms by (auto simp: find_session_def succeeds get_user_by_id_def
      dest!: one_user_Inr session_hash_Inr dest: find_in split: option.splits if_splits)

lemma lookup_pre_auth_Inr:
  assumes "lookup_pre_auth env now tok s = (Inr (r, u), s')"
  shows "r \<in> set (sessions s)" and "u \<in> set (users s)" and "u_id u = se_user r" and "se_pre r"
proof -
  obtain s1 where f: "find_session env now tok s = (Inr (r, u), s1)" and p: "se_pre r"
    using assms by (auto simp: lookup_pre_auth_def succeeds split: if_splits)
  show "r \<in> set (sessions s)" "u \<in> set (users s)" "u_id u = se_user r" "se_pre r"
    by (fact find_session_Inr(1) [OF f] find_session_Inr(2) [OF f] find_session_Inr(3) [OF f] p)+
qed

lemma login_account_Inr:
  "login_account now req s = (Inr u, s') \<Longrightarrow> \<exists>q. req = Some q \<and> u \<in> set (users s) \<and> u_name u = lq_username q"
  by (auto simp: login_account_def succeeds get_user_by_username_def dest!: one_user_Inr dest: find_in split: option.splits if_splits)

lemma login_password_Inr: "login_password env now x u s = (Inr v, s') \<Longrightarrow> ae_bcrypt_ok env (u_hash u) x"
  by (auto simp: login_password_def succeeds split: if_splits)

lemma totp_account_Inr:
  assumes "totp_account env now cookie req s = (Inr (r, u), s')"
  shows "\<exists>q. req = Some q" and "r \<in> set (sessions s)" and "u_id u = se_user r" and "se_pre r"
  using assms by (auto simp: totp_account_def succeeds dest: lookup_pre_auth_Inr split: option.splits if_splits)

text \<open>The factor that is right for an account: a code of a step later than the last one, or a recovery code it has.\<close>

definition code_for :: "auth_env \<Rightarrow> instant \<Rightarrow> user \<Rightarrow> string \<Rightarrow> int \<Rightarrow> bool" where
  "code_for env now u code k \<longleftrightarrow> (\<exists>seal unseal secret. ae_box env = Some (seal, unseal) \<and> unseal (u_secret u) = Some secret
     \<and> \<bar>k - current_step now\<bar> \<le> totp_skew \<and> ae_totp env secret k = Some code)"

definition factor_ok :: "auth_env \<Rightarrow> instant \<Rightarrow> factor_request \<Rightarrow> user \<Rightarrow> bool" where
  "factor_ok env now q u \<longleftrightarrow>
     (if fq_code q \<noteq> [] then \<exists>k. code_for env now u (fq_code q) k \<and> \<not> steps_le (Some k) (u_last_step u)
      else recovery_hash env (normalize_recovery_code (fq_recovery q)) \<in> set (u_recovery u))"

lemma totp_secret_Inr:
  "get_user_totp_secret i s = (Inr x, s') \<Longrightarrow>
   \<exists>u. find (\<lambda>u. u_id u = i) (users s) = Some u \<and> x = u_secret u \<and> users s' = users s \<and> sessions s' = sessions s"
  by (auto simp: get_user_totp_secret_def succeeds dest!: one_user_Inr split: if_splits)

lemma match_step_Inr:
  assumes "match_step env now i code s = (Inr k, s')"
  shows "\<exists>u. find (\<lambda>u. u_id u = i) (users s) = Some u \<and> code_for env now u code k \<and> users s' = users s \<and> sessions s' = sessions s"
proof -
  obtain seal unseal sealed s1 where box: "ae_box env = Some (seal, unseal)"
    and u: "get_user_totp_secret i s = (Inr sealed, s1)"
    and rest: "(case unseal sealed of None \<Rightarrow> throw Auth_Other
      | Some secret \<Rightarrow> (case find (\<lambda>k. ae_totp env secret k = Some code) (map (\<lambda>d. current_step now + d) [- totp_skew .. totp_skew]) of
          Some k \<Rightarrow> ret k | None \<Rightarrow> throw Totp_Invalid)) s1 = (Inr k, s')"
    using assms unfolding match_step_def
    by (cases "ae_box env") (auto simp only: succeeds option.case prod.case split: prod.splits)
  obtain secret where x: "unseal sealed = Some secret" "s' = s1"
    "find (\<lambda>k. ae_totp env secret k = Some code) (map (\<lambda>d. current_step now + d) [- totp_skew .. totp_skew]) = Some k"
    using rest by (cases "unseal sealed") (auto simp: succeeds split: option.splits)
  have "\<bar>k - current_step now\<bar> \<le> totp_skew \<and> ae_totp env secret k = Some code"
    using find_in [OF x(3)] by auto
  then show ?thesis using totp_secret_Inr [OF u] box x(1,2) by (auto simp: code_for_def)
qed

lemma update_users_Inr:
  "update_users p f s = (Inr n, s') \<Longrightarrow> n = length (filter p (users s)) \<and> users s' = map (\<lambda>u. if p u then f u else u) (users s)"
  by (auto simp: update_users_def au_call_def Let_def split: if_splits)

lemma one_of_id:
  assumes "distinct (map u_id us)" and "find (\<lambda>u. u_id u = i) us = Some u" and "v \<in> set us" and "u_id v = i"
  shows "v = u"
  using assms find_in [OF assms(2)] by (metis distinct_map inj_onD)

lemma filter_single: "length (filter p xs) = 1 \<Longrightarrow> \<exists>x\<in>set xs. p x"
  by (metis One_nat_def filter_False length_0_conv list.size(3) zero_neq_one)

lemma consume_step_True:
  assumes "consume_totp_step i k s = (Inr True, s')"
  shows "\<exists>u\<in>set (users s). u_id u = i \<and> \<not> steps_le (Some k) (u_last_step u)"
    and "users s' = map (\<lambda>u. if u_id u = i \<and> (case u_last_step u of None \<Rightarrow> True | Some l \<Rightarrow> l < k) then u\<lparr>u_last_step := Some k\<rparr> else u) (users s)"
proof -
  obtain n where n: "update_users (\<lambda>u. u_id u = i \<and> (case u_last_step u of None \<Rightarrow> True | Some l \<Rightarrow> l < k))
      (\<lambda>u. u\<lparr>u_last_step := Some k\<rparr>) s = (Inr n, s')" "n = 1"
    using assms unfolding consume_totp_step_def by (fastforce simp: succeeds)
  then show "users s' = map (\<lambda>u. if u_id u = i \<and> (case u_last_step u of None \<Rightarrow> True | Some l \<Rightarrow> l < k)
      then u\<lparr>u_last_step := Some k\<rparr> else u) (users s)" using update_users_Inr by blast
  from n have "length (filter (\<lambda>u. u_id u = i \<and> (case u_last_step u of None \<Rightarrow> True | Some l \<Rightarrow> l < k)) (users s)) = 1"
    using update_users_Inr by metis
  then show "\<exists>u\<in>set (users s). u_id u = i \<and> \<not> steps_le (Some k) (u_last_step u)"
    using filter_single by (fastforce simp: steps_le_def split: option.splits)
qed

lemma verify_totp_Inr:
  assumes "verify_totp env now i code s = (Inr x, s')" and "distinct (map u_id (users s))"
  shows "\<exists>u k. find (\<lambda>u. u_id u = i) (users s) = Some u \<and> code_for env now u code k \<and> \<not> steps_le (Some k) (u_last_step u)
    \<and> find (\<lambda>u. u_id u = i) (users s') = Some (u\<lparr>u_last_step := Some k\<rparr>)"
proof -
  obtain k s1 where m: "match_step env now i code s = (Inr k, s1)" and c: "consume_totp_step i k s1 = (Inr True, s')"
    using assms(1) by (auto simp: verify_totp_def succeeds split: if_splits)
  obtain u where u: "find (\<lambda>u. u_id u = i) (users s) = Some u" "code_for env now u code k" "users s1 = users s"
    using match_step_Inr [OF m] by blast
  have v: "\<not> steps_le (Some k) (u_last_step u)"
    using consume_step_True(1) [OF c] u one_of_id [OF assms(2) u(1)] by auto
  let ?p = "\<lambda>v. u_id v = i \<and> (case u_last_step v of None \<Rightarrow> True | Some l \<Rightarrow> l < k)"
  have "find (\<lambda>u. u_id u = i) (map (\<lambda>v. if ?p v then v\<lparr>u_last_step := Some k\<rparr> else v) us)
      = map_option (\<lambda>v. if ?p v then v\<lparr>u_last_step := Some k\<rparr> else v) (find (\<lambda>u. u_id u = i) us)" for us
    by (induction us) auto
  then have "find (\<lambda>u. u_id u = i) (users s') = map_option (\<lambda>v. if ?p v then v\<lparr>u_last_step := Some k\<rparr> else v) (Some u)"
    unfolding consume_step_True(2) [OF c] u(1,3) [symmetric] .
  moreover have "?p u" using v find_in [OF u(1)] by (auto simp: steps_le_def split: option.splits)
  ultimately have "find (\<lambda>u. u_id u = i) (users s') = Some (u\<lparr>u_last_step := Some k\<rparr>)" by simp
  then show ?thesis using u v by blast
qed

lemma spend_recovery_Inr:
  assumes "spend_recovery_code env i code s = (Inr x, s')"
  shows "\<exists>u\<in>set (users s). u_id u = i \<and> recovery_hash env (normalize_recovery_code code) \<in> set (u_recovery u)"
proof -
  let ?h = "recovery_hash env (normalize_recovery_code code)"
  let ?p = "\<lambda>u. u_id u = i \<and> ?h \<in> set (u_recovery u)"
  have "consume_recovery_code i ?h s = (Inr True, s')"
    using assms by (auto simp: spend_recovery_code_def Let_def succeeds split: if_splits)
  then obtain f n s1 where n: "update_users ?p f s = (Inr n, s1)" "n = 1"
    unfolding consume_recovery_code_def by (auto simp only: succeeds)
  have "length (filter ?p (users s)) = 1" using update_users_Inr [OF n(1)] n(2) by (elim conjE) (rule trans [OF sym])
  from filter_single [OF this] show ?thesis .
qed

lemma second_factor_Inr:
  assumes "second_factor env now q u s = (Inr x, s')" and "distinct (map u_id (users s))"
  shows "\<exists>v\<in>set (users s). u_id v = u_id u \<and> factor_ok env now q v"
proof (cases "fq_code q = []")
  case True
  then show ?thesis using assms spend_recovery_Inr by (fastforce simp: second_factor_def succeeds factor_ok_def)
next
  case False
  then have "verify_totp env now (u_id u) (fq_code q) s = (Inr x, s')" using assms(1) by (simp add: second_factor_def succeeds)
  then show ?thesis using verify_totp_Inr [OF _ assms(2)] find_in False unfolding factor_ok_def by (metis (mono_tags, lifting))
qed


section \<open>Runs\<close>

text \<open>Requests by anyone to any of the routes; each is recorded with the state it found. The history starts with
  accounts, if there are any, and no session.\<close>

type_synonym visit_at = "boot \<times> moment \<times> auth_call"

definition answered :: "auth_env \<Rightarrow> visit_at \<Rightarrow> auth_reply" where
  "answered env v = (case v of (s, m, c) \<Rightarrow> fst (auth_serve (auth_route env m c) s))"

definition after :: "auth_env \<Rightarrow> visit_at \<Rightarrow> boot" where
  "after env v = (case v of (s, m, c) \<Rightarrow> snd (auth_serve (auth_route env m c) s))"

definition accounts :: "boot \<Rightarrow> user list" where
  "accounts s = users (bo_db s)"

inductive auth_run :: "auth_env \<Rightarrow> visit_at list \<Rightarrow> boot \<Rightarrow> bool" for env where
  auth_begin: "sessions (bo_db s) = [] \<Longrightarrow> distinct (map u_id (accounts s)) \<Longrightarrow> auth_run env [] s"
| auth_visit: "auth_run env vs s \<Longrightarrow> after env (s, m, c) = s' \<Longrightarrow> auth_run env (vs @ [(s, m, c)]) s'"

text \<open>What a visit proves of an account: the password, the second factor, or that the service has no account yet
  and the caller has the token of the first boot.\<close>

definition shows_password :: "auth_env \<Rightarrow> visit_at \<Rightarrow> user \<Rightarrow> bool" where
  "shows_password env v u = (case v of (s, m, c) \<Rightarrow> u \<in> set (accounts s)
     \<and> (\<exists>q. c = Do_Login (Some q) \<and> u_name u = lq_username q \<and> ae_bcrypt_ok env (u_hash u) (lq_password q)))"

definition shows_factor :: "auth_env \<Rightarrow> visit_at \<Rightarrow> user \<Rightarrow> bool" where
  "shows_factor env v u = (case v of (s, m, c) \<Rightarrow> u \<in> set (accounts s)
     \<and> (\<exists>cookie remember q. c = Do_Totp cookie remember (Some q) \<and> factor_ok env (mo_now m) q u))"

definition shows_boot_token :: "visit_at \<Rightarrow> string \<Rightarrow> bool" where
  "shows_boot_token v i = (case v of (s, m, c) \<Rightarrow> accounts s = []
     \<and> (\<exists>fresh q t. c = Setup_Admin i fresh (Some q) \<and> bo_file s = Some t \<and> sq_token q = trim_space t))"

section \<open>A session needs the factors\<close>

definition vouched :: "(string \<Rightarrow> bool \<Rightarrow> bool) \<Rightarrow> user list \<Rightarrow> session list \<Rightarrow> (nat \<Rightarrow> bool) \<Rightarrow> bool" where
  "vouched P U S F = (distinct (map u_id U) \<and> (\<forall>r \<in> set S. P (se_user r) (se_pre r)))"

definition vouched_at :: "user list \<Rightarrow> (string \<Rightarrow> bool \<Rightarrow> bool) \<Rightarrow> user list \<Rightarrow> session list \<Rightarrow> (nat \<Rightarrow> bool) \<Rightarrow> bool" where
  "vouched_at U0 P U S F = (U = U0 \<and> vouched P U S F)"

lemma vouched_users:
  "(\<And>u. p u \<Longrightarrow> u_id (f u) = u_id u) \<Longrightarrow> vouched P (map (\<lambda>u. if p u then f u else u) U) S F = vouched P U S F"
proof -
  assume "\<And>u. p u \<Longrightarrow> u_id (f u) = u_id u"
  then have "map u_id (map (\<lambda>u. if p u then f u else u) U) = map u_id U" by simp
  then show ?thesis by (simp only: vouched_def)
qed

interpretation vouched: account_frame "vouched P" for P
proof unfold_locales
  show "vouched P U (map (\<lambda>r. if p r then f r else r) S) F"
    if "vouched P U S F" "\<And>r. se_user (f r) = se_user r \<and> se_pre (f r) = se_pre r" for U S F f p
    using that by (auto simp: vouched_def)
  show "vouched P U (filter p S) F" if "vouched P U S F" for U S F p
    using that by (auto simp: vouched_def)
  show "vouched P (map (\<lambda>u. if p u then f u else u) U) S F"
    if "vouched P U S F" "\<And>u. p u \<Longrightarrow> same_account u (f u)" for U S F p f
    using that by (subst vouched_users) (simp_all add: same_account_def)
qed

interpretation vouched_at: session_frame "vouched_at U0 P" for U0 P
  by unfold_locales (auto simp: vouched_at_def vouched.drops intro: vouched.stamps)

lemma vouched_at_vouched: "at_db (vouched_at U P) s \<Longrightarrow> at_db (vouched P) s"
  by (auto simp: at_db_def vouched_at_def)

lemma vouched_at_users: "at_db (vouched_at U P) s \<Longrightarrow> users s = U \<and> distinct (map u_id U)"
  by (auto simp: at_db_def vouched_at_def vouched_def)

lemma triple_found:
  assumes "keeps K q" and "\<And>s. I s \<Longrightarrow> K s" and "\<And>s x s'. I s \<Longrightarrow> q s = (Inr x, s') \<Longrightarrow> R x"
    and "\<And>s. K s \<Longrightarrow> L s"
  shows "triple I q (\<lambda>x s. K s \<and> R x) (\<lambda>_. L)"
  using assms unfolding triple_def keeps_def by (fastforce split: prod.splits sum.splits)

lemma keeps_counting: "keeps (at_db (vouched P)) (count_failure now i)"
  unfolding count_failure_def
  by (intro keeps_ignore keeps_register_failure, subst vouched_users) (simp_all add: note_failure_def)

lemma keeps_clearing: "keeps (at_db (vouched P)) (clear_auth_failures i)"
  unfolding clear_auth_failures_def by (intro keeps_exec_user, subst vouched_users) simp_all

lemma grants_vouched:
  assumes "P (u_id u) (u_totp u)"
  shows "keeps (at_db (vouched P)) (login_grant env new now raw csrf remember u)"
proof -
  have "vouched P U (S @ [r]) F" if "vouched P U S F" "se_user r = u_id u" "se_pre r = u_totp u" for U S F r
    using that assms by (auto simp: vouched_def)
  then show ?thesis
    unfolding login_grant_def create_pre_auth_def
    by (intro vac_wp keeps_clearing vouched.keep_new_session vouched.keep_issue) auto
qed

lemma triple_when: "(C \<Longrightarrow> keeps I q) \<Longrightarrow> triple (\<lambda>s. I s \<and> C) q (\<lambda>_. I) (\<lambda>_. I)"
  by (cases C) (simp_all add: triple_keeps, simp add: triple_def)

lemma login_vouched:
  assumes shown: "\<And>q u. req = Some q \<Longrightarrow> u \<in> set U \<Longrightarrow> u_name u = lq_username q \<Longrightarrow> ae_bcrypt_ok env (u_hash u) (lq_password q) \<Longrightarrow>
    P (u_id u) (u_totp u)"
  shows "triple (at_db (vouched_at U P)) (login env new now raw csrf req) (\<lambda>_. at_db (vouched P)) (\<lambda>_. at_db (vouched P))"
  unfolding login_def Let_def
proof (intro triple_and_then)
  let ?I = "at_db (vouched_at U P)" and ?V = "at_db (vouched P)"
  let ?named = "\<lambda>u. \<exists>q. req = Some q \<and> u \<in> set U \<and> u_name u = lq_username q"
  show "triple ?I (login_account now req) (\<lambda>u s. ?I s \<and> ?named u) (\<lambda>_. ?V)"
    by (rule triple_found [OF vouched_at.keep_login_account]) (auto dest: login_account_Inr vouched_at_users vouched_at_vouched)
  fix u
  have "keeps ?V (login_password env now (lq_password (the req)) u)"
    unfolding login_password_def by (intro vac_wp keeps_counting)
  then show "triple (\<lambda>s. ?I s \<and> ?named u) (login_password env now (lq_password (the req)) u) (\<lambda>_ s. ?V s \<and> P (u_id u) (u_totp u)) (\<lambda>_. ?V)"
    by (rule triple_found) (auto dest!: login_password_Inr intro: shown vouched_at_vouched)
  show "triple (\<lambda>s. ?V s \<and> P (u_id u) (u_totp u)) (login_grant env new now raw csrf (lq_remember (the req)) u) (\<lambda>_. ?V) (\<lambda>_. ?V)" for x :: unit
    by (rule triple_when) (rule grants_vouched)
qed

lemma counted_Inr: "counted now i q s = (Inr x, s') \<Longrightarrow> q s = (Inr x, s')"
  by (auto simp: counted_def sem_defs split: prod.splits sum.splits)

lemma totp_vouched:
  assumes shown: "\<And>q v. req = Some q \<Longrightarrow> v \<in> set U \<Longrightarrow> factor_ok env now q v \<Longrightarrow> P (u_id v) True \<Longrightarrow> P (u_id v) False"
  shows "triple (at_db (vouched_at U P)) (totp_login env new now raw csrf cookie remember req) (\<lambda>_. at_db (vouched P)) (\<lambda>_. at_db (vouched P))"
  unfolding totp_login_def
proof (rule triple_and_then)
  let ?I = "at_db (vouched_at U P)" and ?V = "at_db (vouched P)"
  let ?owed = "\<lambda>(r, u). (\<exists>q. req = Some q) \<and> u_id u = se_user r \<and> P (se_user r) True"
  show "triple ?I (totp_account env now cookie req) (\<lambda>x s. ?I s \<and> ?owed x) (\<lambda>_. ?V)"
  proof (rule triple_found [OF vouched_at.keep_totp_account])
    show "?owed x" if i: "?I s" and a: "totp_account env now cookie req s = (Inr x, s')" for s x s'
    proof -
      obtain r u where x: "x = (r, u)" by (cases x)
      have "r \<in> set (sessions s)" "se_pre r" "u_id u = se_user r" "\<exists>q. req = Some q"
        using totp_account_Inr [OF a [unfolded x]] by simp_all
      then show ?thesis using i x by (auto simp: at_db_def vouched_at_def vouched_def)
    qed
  qed (simp_all add: vouched_at_vouched)
  fix x :: "session \<times> user"
  obtain r u where x: "x = (r, u)" by (cases x)
  have c: "keeps ?V (counted now (u_id u) (second_factor env now (the req) u))"
    unfolding counted_def by (intro vac_wp vouched.keep_second_factor keeps_counting)
  have "triple (\<lambda>s. ?I s \<and> ?owed (r, u)) (counted now (u_id u) (second_factor env now (the req) u))
      (\<lambda>_ s. ?V s \<and> P (u_id u) False) (\<lambda>_. ?V)"
  proof (rule triple_found [OF c])
    show "P (u_id u) False" if i: "?I s \<and> ?owed (r, u)"
      and f: "counted now (u_id u) (second_factor env now (the req) u) s = (Inr x, s')" for s x s'
    proof -
      have us: "users s = U" "distinct (map u_id (users s))" using i vouched_at_users by blast+
      from second_factor_Inr [OF counted_Inr [OF f] us(2)] obtain v
        where v: "v \<in> set U" "u_id v = u_id u" "factor_ok env now (the req) v" unfolding us(1) by blast
      from i obtain q where q: "req = Some q" "P (u_id v) True" using v(2) by auto
      then show ?thesis using shown [of q v] v by simp
    qed
  qed (auto intro: vouched_at_vouched)
  moreover have "triple (\<lambda>s. ?V s \<and> P (u_id u) False) (totp_grant env new now raw csrf remember r u) (\<lambda>_. ?V) (\<lambda>_. ?V)"
    unfolding totp_grant_def Let_def
    by (intro triple_when vac_wp keeps_clearing vouched.keep_drops vouched.keep_issue) (auto simp: vouched_def)
  ultimately show "triple (\<lambda>s. ?I s \<and> ?owed x) (case x of (r, u) \<Rightarrow>
      and_then (counted now (u_id u) (second_factor env now (the req) u)) (\<lambda>_. totp_grant env new now raw csrf remember r u)) (\<lambda>_. ?V) (\<lambda>_. ?V)"
    unfolding x prod.case by (intro triple_and_then)
qed

lemma keeps_disk: "keeps (\<lambda>s. I (bo_db s)) q \<Longrightarrow> keeps (\<lambda>s. I (bo_db s)) (disk q)"
  by (auto simp: keeps_def disk_def Let_def)

lemma keeps_setup_file:
  "keeps (\<lambda>s. I (bo_db s)) (ensure_setup_token fresh)" "keeps (\<lambda>s. I (bo_db s)) (consume_setup_token t)"
  unfolding ensure_setup_token_def consume_setup_token_def check_setup_token_def read_setup_token_def remove_setup_token_def
  by (intro vac_wp keeps_disk keeps_act, simp)+

lemma keeps_on_boot_file: "keeps I q \<Longrightarrow> keeps (\<lambda>s. I (bo_db s) \<and> bo_file s = f) (on_boot_db q)"
  by (auto simp: keeps_def on_boot_db_def split: prod.split)

lemma on_boot_Inr: "on_boot_db q s = (Inr x, s') \<Longrightarrow> q (bo_db s) = (Inr x, bo_db s') \<and> bo_file s' = bo_file s"
  by (auto simp: on_boot_db_def split: prod.splits)

lemma setup_open_Inr: "setup_open req s = (Inr q, s') \<Longrightarrow> req = Some q \<and> accounts s = []"
  by (auto simp: setup_open_def succeeds accounts_def count_users_def au_call_def Let_def dest!: on_boot_Inr split: option.splits if_splits)

lemma consume_token_Inr: "consume_setup_token x s = (Inr u, s') \<Longrightarrow> \<exists>t. bo_file s = Some t \<and> x = trim_space t"
  by (auto simp: consume_setup_token_def check_setup_token_def succeeds read_setup_token_def disk_def Let_def reads_def
      split: if_splits option.splits)

lemma create_user_Inr: "create_user new name h s = (Inr u, s') \<Longrightarrow> u_id u = new"
  by (auto simp: create_user_def au_call_def Let_def fresh_user_def split: if_splits)

lemma setup_vouched:
  assumes shown: "\<And>q t. req = Some q \<Longrightarrow> U = [] \<Longrightarrow> f = Some t \<Longrightarrow> sq_token q = trim_space t \<Longrightarrow> P new_user False"
  shows "triple (\<lambda>s. at_db (vouched_at U P) (bo_db s) \<and> bo_file s = f) (setup_admin env new_user new now raw csrf fresh req)
    (\<lambda>_ s. at_db (vouched P) (bo_db s)) (\<lambda>_ s. at_db (vouched P) (bo_db s))"
  unfolding setup_admin_def
proof (intro triple_and_then)
  let ?I = "\<lambda>s. at_db (vouched_at U P) (bo_db s) \<and> bo_file s = f" and ?V = "\<lambda>s. at_db (vouched P) (bo_db s)"
  let ?empty = "\<lambda>q. req = Some q \<and> U = []"
  have "keeps ?I (setup_open req)"
    unfolding setup_open_def by (intro vac_wp keeps_on_boot_file auth_wp)
  then show "triple ?I (setup_open req) (\<lambda>q s. ?I s \<and> ?empty q) (\<lambda>_. ?V)"
    by (rule triple_found) (use vouched_at_users [of U P] in \<open>auto simp: accounts_def dest!: setup_open_Inr intro: vouched_at_vouched\<close>)
  fix q :: setup_request
  have "keeps ?V (map_err setup_token_error (consume_setup_token (sq_token q)))"
    by (intro vac_wp keeps_setup_file)
  then show "triple (\<lambda>s. ?I s \<and> ?empty q) (map_err setup_token_error (consume_setup_token (sq_token q))) (\<lambda>_ s. ?V s \<and> P new_user False) (\<lambda>_. ?V)"
    by (rule triple_found) (auto simp: succeeds dest!: consume_token_Inr intro: shown vouched_at_vouched)
  have add: "vouched P (U @ [fresh_user new_user name h]) S F" if "vouched P U S F" "new_user \<notin> u_id ` set U" for U S F name h
    using that by (auto simp: vouched_def fresh_user_def)
  show "triple (\<lambda>s. ?V s \<and> P new_user False) (setup_create env new_user new now raw csrf fresh q) (\<lambda>_. ?V) (\<lambda>_. ?V)" for x :: unit
  proof (rule triple_when)
    assume p: "P new_user False"
    have c: "triple ?V (attempt (on_boot_db (create_user new_user (sq_username q) h)))
        (\<lambda>r s. ?V s \<and> (\<forall>u. r = Inr u \<longrightarrow> u_id u = new_user)) (\<lambda>_. ?V)" for h
      by (rule triple_found [where K = ?V], intro vac_wp keeps_on_boot keeps_create_user)
         (auto simp: add attempt_def split: prod.splits dest!: on_boot_Inr create_user_Inr)
    have again: "keeps ?V (and_then (ignore (ensure_setup_token fresh)) (\<lambda>_. throw (failure 500 msg)))" for msg
      by (intro vac_wp keeps_setup_file)
    have issue: "keeps ?V (on_boot_db (issue_full_session env new now raw csrf u True))" if "u_id u = new_user" for u
      by (intro keeps_on_boot vouched.keep_issue) (use p that in \<open>auto simp: vouched_def\<close>)
    show "keeps ?V (setup_create env new_user new now raw csrf fresh q)"
      unfolding setup_create_def Let_def
      by (intro keeps_case_option again keeps_triple triple_and_then [OF c] triple_when)
         (auto intro: triple_keeps again issue split: sum.split)
  qed
qed

text \<open>A visit keeps what it vouches for itself.\<close>

lemma visit_vouched:
  assumes here: "vouched P (accounts s) (sessions (bo_db s)) (au_fault (bo_db s))"
    and login: "\<And>u. shows_password env (s, m, c) u \<Longrightarrow> P (u_id u) (u_totp u)"
    and factor: "\<And>u. shows_factor env (s, m, c) u \<Longrightarrow> P (u_id u) True \<Longrightarrow> P (u_id u) False"
    and boot: "\<And>i. shows_boot_token (s, m, c) i \<Longrightarrow> P i False"
  shows "at_db (vouched P) (bo_db (after env (s, m, c)))"
proof -
  let ?U = "accounts s"
  let ?I = "\<lambda>s'. at_db (vouched_at ?U P) (bo_db s') \<and> bo_file s' = bo_file s" and ?V = "\<lambda>s. at_db (vouched P) (bo_db s)"
  have front: "triple ?I (on_boot_db (authenticate env (mo_now m) (mo_http m))) (\<lambda>_. ?I) (\<lambda>_. ?V)"
    by (rule triple_post [OF triple_keeps [OF keeps_on_boot_file [OF vouched_at.keep_authenticate]]]) (auto intro: vouched_at_vouched)
  have csrf: "triple ?I (refuse (csrf_check (mo_http m))) (\<lambda>_. ?I) (\<lambda>_. ?V)"
    by (rule triple_post [OF triple_keeps [OF keeps_refuse]]) (auto intro: vouched_at_vouched)
  have lim: "triple ?I (limited m) (\<lambda>_. ?I) (\<lambda>_. ?V)"
    by (rule triple_post [OF triple_keeps [OF keeps_limited]]) (auto intro: vouched_at_vouched)
  have on: "triple ?I (on_boot_db q) (\<lambda>_. ?V) (\<lambda>_. ?V)"
    if "triple (at_db (vouched_at ?U P)) q (\<lambda>_. at_db (vouched P)) (\<lambda>_. at_db (vouched P))"
    for q :: "(auth_db, auth_reply) authstep"
    using that unfolding triple_def on_boot_db_def by (fastforce split: prod.splits sum.splits)
  have rest: "triple ?I (on_boot_db (session_call env m p c)) (\<lambda>_. ?V) (\<lambda>_. ?V)" for p
    by (rule triple_pre [OF _ triple_keeps [OF keeps_on_boot [OF vouched.keep_session_call]]]) (auto intro: vouched_at_vouched)
  have req: "triple ?I (refuse (require_session p)) (\<lambda>_. ?I) (\<lambda>_. ?V)" for p
    by (rule triple_post [OF triple_keeps [OF keeps_refuse]]) (auto intro: vouched_at_vouched)
  have stat: "keeps ?V setup_status"
    unfolding setup_status_def read_setup_token_def by (intro vac_wp keeps_on_boot keeps_disk auth_wp)
  have call: "triple ?I h (\<lambda>_. ?V) (\<lambda>_. ?V)" if "public_call env m c = Some h" for h
  proof (cases c)
    case Setup_Status
    then have "h = setup_status" using that by (simp add: public_call_def)
    then show ?thesis using triple_pre [OF _ triple_keeps [OF stat], of ?I] vouched_at_vouched by blast
  next
    case (Setup_Admin i fresh q)
    then show ?thesis
      using that boot by (auto simp: public_call_def shows_boot_token_def intro!: triple_and_then [OF lim] setup_vouched)
  next
    case (Do_Login q)
    then show ?thesis
      using that login by (auto simp: public_call_def shows_password_def intro!: triple_and_then [OF lim] on login_vouched)
  next
    case (Do_Totp cookie remember q)
    then show ?thesis
      using that factor by (auto simp: public_call_def shows_factor_def intro!: triple_and_then [OF lim] on totp_vouched)
  qed (use that in \<open>simp_all add: public_call_def\<close>)
  have "triple ?I (auth_route env m c) (\<lambda>_. ?V) (\<lambda>_. ?V)"
    unfolding auth_route_def
    by (intro triple_and_then [OF front] triple_and_then [OF csrf])
       (auto split: option.split intro!: call triple_and_then [OF req] rest)
  moreover have "?I s" using here by (simp add: at_db_def vouched_at_def accounts_def)
  ultimately show ?thesis
    unfolding after_def auth_serve_def triple_def by (fastforce split: prod.splits sum.splits)
qed


text \<open>What a history entitles an account to: a pending session for the password, a full one as below.\<close>

definition entitled :: "auth_env \<Rightarrow> visit_at list \<Rightarrow> string \<Rightarrow> bool" where
  "entitled env vs i \<longleftrightarrow>
     (\<exists>v \<in> set vs. shows_boot_token v i)
     \<or> (\<exists>v \<in> set vs. \<exists>u. u_id u = i \<and> shows_password env v u \<and> \<not> u_totp u)
     \<or> (\<exists>vs1 v vs2 w vs3. vs = vs1 @ v # vs2 @ w # vs3
          \<and> (\<exists>u. u_id u = i \<and> shows_password env v u) \<and> (\<exists>u. u_id u = i \<and> shows_factor env w u))"

definition vouching :: "auth_env \<Rightarrow> visit_at list \<Rightarrow> string \<Rightarrow> bool \<Rightarrow> bool" where
  "vouching env vs i pending =
     (if pending then \<exists>v \<in> set vs. \<exists>u. u_id u = i \<and> shows_password env v u else entitled env vs i)"

lemma entitled_more: "entitled env vs i \<Longrightarrow> entitled env (vs @ [v]) i"
  unfolding entitled_def
proof (elim disjE exE conjE)
  fix vs1 a vs2 w vs3 u x
  assume "vs = vs1 @ a # vs2 @ w # vs3" "u_id u = i" "shows_password env a u" "u_id x = i" "shows_factor env w x"
  then have "vs @ [v] = vs1 @ a # vs2 @ w # (vs3 @ [v])" by simp
  then show "(\<exists>v\<in>set (vs @ [v]). shows_boot_token v i)
     \<or> (\<exists>v\<in>set (vs @ [v]). \<exists>u. u_id u = i \<and> shows_password env v u \<and> \<not> u_totp u)
     \<or> (\<exists>vs1 va vs2 w vs3. vs @ [v] = vs1 @ va # vs2 @ w # vs3
          \<and> (\<exists>u. u_id u = i \<and> shows_password env va u) \<and> (\<exists>u. u_id u = i \<and> shows_factor env w u))"
    using \<open>u_id u = i\<close> \<open>shows_password env a u\<close> \<open>u_id x = i\<close> \<open>shows_factor env w x\<close> by blast
qed auto

lemma vouching_more: "vouching env vs i b \<Longrightarrow> vouching env (vs @ [v]) i b"
  by (cases b) (auto simp: vouching_def entitled_more)

lemma factor_not_password: "shows_factor env v u \<Longrightarrow> \<not> shows_password env v x"
  by (auto simp: shows_factor_def shows_password_def split: prod.splits)

lemma entitled_factor:
  assumes "vouching env (vs @ [w]) (u_id u) True" and "shows_factor env w u"
  shows "entitled env (vs @ [w]) (u_id u)"
proof -
  obtain v x where v: "v \<in> set vs" "u_id x = u_id u" "shows_password env v x"
    using assms factor_not_password by (auto simp: vouching_def)
  then obtain vs1 vs2 where "vs @ [w] = vs1 @ v # vs2 @ w # []" by (metis append.assoc append_Cons split_list)
  then show ?thesis using v assms(2) unfolding entitled_def by blast
qed

lemma run_vouched: "auth_run env vs s \<Longrightarrow> at_db (vouched (vouching env vs)) (bo_db s)"
proof (induction rule: auth_run.induct)
  case (auth_begin s)
  then show ?case by (simp add: at_db_def vouched_def accounts_def)
next
  case (auth_visit vs s m c s')
  let ?v = "(s, m, c)"
  have "vouched (vouching env (vs @ [?v])) (accounts s) (sessions (bo_db s)) (au_fault (bo_db s))"
    using auth_visit.IH vouching_more by (fastforce simp: at_db_def vouched_def accounts_def)
  then show ?case unfolding auth_visit(2) [symmetric]
  proof (rule visit_vouched)
    show "vouching env (vs @ [?v]) (u_id u) (u_totp u)" if "shows_password env ?v u" for u
      using that by (cases "u_totp u") (auto simp: vouching_def entitled_def)
    show "vouching env (vs @ [?v]) (u_id u) False" if "shows_factor env ?v u" "vouching env (vs @ [?v]) (u_id u) True" for u
      using entitled_factor that by (simp add: vouching_def)
    show "vouching env (vs @ [?v]) i False" if "shows_boot_token ?v i" for i
      using that by (auto simp: vouching_def entitled_def)
  qed
qed

text \<open>
  C8: In any history of requests, with any failures of the database, every session that is not pending belongs to
  an account for which the first-boot token was shown while there was no account, or the right password while it
  had no second factor, or the right password and in a later request a right second factor (a code of the
  window of a step later than the last one accepted, or one of its recovery codes).
\<close>

theorem full_session_needs_factors:
  assumes "auth_run env vs s" and "r \<in> set (sessions (bo_db s))" and "\<not> se_pre r"
  shows "entitled env vs (se_user r)"
  using run_vouched [OF assms(1)] assms(2,3) by (auto simp: at_db_def vouched_def vouching_def)


section \<open>What every route keeps\<close>

locale signup_frame = account_frame +
  assumes logs_in: "J U S F \<Longrightarrow> J U (S @ [r]) F"
    and enrols: "J U S F \<Longrightarrow> new \<notin> u_id ` set U \<Longrightarrow> J (U @ [fresh_user new name h]) S F"

context signup_frame begin

lemma keep_issued: "keeps (at_db J) (issue_full_session env new now raw csrf u remember)"
  by (intro keep_issue logs_in)

lemma keep_setup:
  "keeps (\<lambda>s. at_db J (bo_db s)) setup_status"
  "keeps (\<lambda>s. at_db J (bo_db s)) (setup_admin env new_user new now raw csrf fresh req)"
  unfolding setup_status_def read_setup_token_def setup_admin_def setup_open_def setup_create_def Let_def
  by (intro vac_wp keeps_on_boot keeps_disk keeps_setup_file auth_wp keeps_create_user enrols keep_issued; assumption)+

end

locale route_frame = signup_frame +
  assumes counts: "J U S F \<Longrightarrow> J (map (\<lambda>u. if u_id u = i then note_failure k t u else u) U) S F"
    and clears: "J U S F \<Longrightarrow> J (map (\<lambda>u. if u_id u = i then u\<lparr>u_failed := 0, u_locked := None\<rparr> else u) U) S F"

context route_frame begin

lemma keep_count: "keeps (at_db J) (count_failure now i)"
  unfolding count_failure_def by (intro keeps_ignore keeps_register_failure counts)

lemma keep_clear: "keeps (at_db J) (clear_auth_failures i)"
  unfolding clear_auth_failures_def by (intro keeps_exec_user clears)

lemma keep_totp_grant: "keeps (at_db J) (totp_grant env new now raw csrf cookie r u)"
  unfolding totp_grant_def Let_def by (intro vac_wp keep_clear keep_drops keep_issued)

lemma keep_login: "keeps (at_db J) (login env new now raw csrf req)"
  unfolding login_def login_password_def login_grant_def create_pre_auth_def Let_def
  by (intro vac_wp keep_login_account keep_count keep_clear keep_issued keep_new_session logs_in)

lemma keep_totp_login: "keeps (at_db J) (totp_login env new now raw csrf cookie remember req)"
  unfolding totp_login_def counted_def by (intro vac_wp keep_totp_account keep_second_factor keep_count keep_totp_grant)

lemma keep_route: "keeps (\<lambda>s. at_db J (bo_db s)) (auth_route env m c)"
proof -
  have "keeps (\<lambda>s. at_db J (bo_db s)) h" if "public_call env m c = Some h" for h
    using that by (cases c) (auto simp: public_call_def intro!: vac_wp auth_wp keeps_on_boot keep_setup keep_login keep_totp_login)
  then show ?thesis
    unfolding auth_route_def by (intro vac_wp auth_wp keeps_on_boot keep_authenticate keep_session_call)
qed

end

section \<open>A code is accepted once\<close>

definition step_floor :: "string \<Rightarrow> int \<Rightarrow> user list \<Rightarrow> session list \<Rightarrow> (nat \<Rightarrow> bool) \<Rightarrow> bool" where
  "step_floor i k U S F = (\<exists>u. find (\<lambda>u. u_id u = i) U = Some u \<and> steps_le (Some k) (u_last_step u))"

lemma find_changed:
  "(\<And>u. p u \<Longrightarrow> u_id (f u) = u_id u) \<Longrightarrow>
   find (\<lambda>u. u_id u = i) (map (\<lambda>u. if p u then f u else u) us) = map_option (\<lambda>u. if p u then f u else u) (find (\<lambda>u. u_id u = i) us)"
  by (induction us) auto

lemma step_floor_changed:
  assumes "step_floor i k U S F" and "\<And>u. p u \<Longrightarrow> u_id (f u) = u_id u \<and> steps_le (u_last_step u) (u_last_step (f u))"
  shows "step_floor i k (map (\<lambda>u. if p u then f u else u) U) S F"
proof -
  from assms(1) obtain u where u: "find (\<lambda>u. u_id u = i) U = Some u" "steps_le (Some k) (u_last_step u)"
    by (auto simp: step_floor_def)
  have "steps_le (Some k) (u_last_step (if p u then f u else u))"
    using u(2) assms(2) steps_le_trans by (cases "p u") fastforce+
  then show ?thesis using find_changed [of p f i U] assms(2) u(1) unfolding step_floor_def by simp
qed

interpretation step_floor: route_frame "step_floor i k" for i k
proof unfold_locales
  fix U S F and p :: "user \<Rightarrow> bool" and f
  assume "step_floor i k U S F" "\<And>u. p u \<Longrightarrow> same_account u (f u)"
  then show "step_floor i k (map (\<lambda>u. if p u then f u else u) U) S F"
    by (intro step_floor_changed) (auto simp: same_account_def)
qed (auto simp: step_floor_def find_append note_failure_def split: option.splits
      intro: step_floor_changed [unfolded step_floor_def])


text \<open>An early reply is a refusal.\<close>

definition refuses :: "('s, auth_reply, 'a) sem \<Rightarrow> bool" where
  "refuses q \<longleftrightarrow> (\<forall>s e s'. q s = (Inl e, s') \<longrightarrow> 400 \<le> ar_status e)"

named_theorems refuses_wp \<open>operations whose early replies are refusals\<close>

lemma refuses_plain [refuses_wp]:
  "refuses (ret x)" "400 \<le> ar_status e \<Longrightarrow> refuses (throw e)" "refuses (ignore r)" "refuses (attempt r)"
  by (auto simp: refuses_def sem_defs split: prod.splits)

lemma refuses_and_then [refuses_wp]: "refuses q \<Longrightarrow> (\<And>x. refuses (f x)) \<Longrightarrow> refuses (and_then q f)"
  unfolding refuses_def and_then_def by (fastforce split: prod.splits sum.splits)

lemma refuses_map_err [refuses_wp]: "(\<And>e. 400 \<le> ar_status (g e)) \<Longrightarrow> refuses (map_err g q)"
  by (auto simp: refuses_def map_err_def split: prod.splits sum.splits)

lemma refuses_cases [refuses_wp]:
  "(b \<Longrightarrow> refuses q) \<Longrightarrow> (\<not> b \<Longrightarrow> refuses q') \<Longrightarrow> refuses (if b then q else q')"
  "refuses n \<Longrightarrow> (\<And>x. refuses (f x)) \<Longrightarrow> refuses (case_option n f y)"
  "(\<And>x y. refuses (g x y)) \<Longrightarrow> refuses (case p of (x, y) \<Rightarrow> g x y)"
  by (simp_all split: option.split prod.split)

lemma refuses_on_boot [refuses_wp]: "refuses q \<Longrightarrow> refuses (on_boot_db q)"
  unfolding refuses_def on_boot_db_def by (fastforce split: prod.splits)

lemma reply_status [simp]:
  "ar_status (reply_of n b) = n" "ar_status (failure n msg) = n" "ar_status (with_cookies cs r) = ar_status r"
  "ar_status (auth_locked now until) = 429" "ar_status invalid_credentials = 401"
  by (simp_all add: reply_of_def failure_def with_cookies_def auth_locked_def invalid_credentials_def)

lemma refuses_gates [refuses_wp]:
  "refuses (limited m)" "refuses (refuse_locked now i)" "refuses (signed_in p)"
  "refuses (refuse (csrf_check q))" "refuses (refuse (require_session p))"
  by (auto simp: refuses_def limited_def refuse_locked_def signed_in_def refuse_def csrf_check_def require_session_def sem_defs
      split: option.splits prod.splits sum.splits if_splits)

lemma refuses_counted: "refuses q \<Longrightarrow> refuses (counted now i q)"
proof -
  assume q: "refuses q"
  have "400 \<le> ar_status e" if "counted now i q s = (Inl e, s')" for s e s'
  proof (cases "q s")
    case (Pair r t)
    then have "r = Inl e" using that by (auto simp: counted_def count_failure_def sem_defs split: sum.splits)
    then show ?thesis using q Pair by (auto simp: refuses_def)
  qed
  then show ?thesis by (auto simp: refuses_def)
qed

lemma refuses_factor: "refuses (second_factor env now q u)"
  unfolding second_factor_def by (intro refuses_wp) auto

lemma refuses_issue: "refuses (issue_full_session env new now raw csrf u remember)"
  unfolding issue_full_session_def Let_def by (intro refuses_wp) simp_all

lemma refuses_totp_grant: "refuses (totp_grant env new now raw csrf remember r u)"
proof -
  have c: "refuses (map_err (with_cookies cs) q)" if "refuses q" for cs and q :: "(auth_db, auth_reply) authstep"
    using that by (auto simp: refuses_def map_err_def split: prod.splits sum.splits)
  show ?thesis
    unfolding totp_grant_def Let_def by (intro refuses_and_then refuses_plain c refuses_issue)
qed

lemma refuses_totp_login: "refuses (totp_login env new now raw csrf cookie remember req)"
  unfolding totp_login_def totp_account_def
  by (intro refuses_wp refuses_counted refuses_factor refuses_totp_grant) simp_all

lemma refuses_step_up: "refuses (step_up env now p req)"
  unfolding step_up_def step_up_factor_def
  by (intro refuses_wp refuses_factor) (auto split: option.split intro!: refuses_wp refuses_factor)

text \<open>The account of a code that passes, and what the store knows of it afterwards.\<close>

definition spends :: "auth_env \<Rightarrow> instant \<Rightarrow> user list \<Rightarrow> string \<Rightarrow> string \<Rightarrow> int \<Rightarrow> auth_db \<Rightarrow> bool" where
  "spends env now U code i k s' \<longleftrightarrow> (\<exists>u. find (\<lambda>u. u_id u = i) U = Some u \<and> code_for env now u code k
     \<and> \<not> steps_le (Some k) (u_last_step u)) \<and> at_db (step_floor i k) s'"

lemma factor_spends:
  assumes "second_factor env now q u s = (Inr x, s')" and "distinct (map u_id (users s))" and "fq_code q \<noteq> []"
  shows "\<exists>k. spends env now (users s) (fq_code q) (u_id u) k s'"
proof -
  have "verify_totp env now (u_id u) (fq_code q) s = (Inr x, s')" using assms(1,3) by (simp add: second_factor_def succeeds)
  from verify_totp_Inr [OF this assms(2)] show ?thesis
    by (auto simp: spends_def at_db_def step_floor_def)
qed

lemma keeps_Inr: "keeps I q \<Longrightarrow> I s \<Longrightarrow> q s = (x, s') \<Longrightarrow> I s'"
  unfolding keeps_def by (metis snd_conv)

lemma spends_later: "spends env now U code i k s \<Longrightarrow> keeps (at_db (step_floor i k)) q \<Longrightarrow> q s = (x, s') \<Longrightarrow> spends env now U code i k s'"
  unfolding spends_def by (intro conjI) (simp, metis keeps_Inr)

text \<open>The state before the factor has the accounts that the visit found.\<close>

abbreviation same_users :: "user list \<Rightarrow> auth_db \<Rightarrow> bool" where
  "same_users U \<equiv> at_db (vouched_at U (\<lambda>_ _. True))"

lemma totp_spends:
  assumes run: "totp_login env new now raw csrf cookie remember (Some q) s = (Inr x, s')" and u: "same_users U s"
    and q: "fq_code q \<noteq> []"
  shows "\<exists>i k name b. spends env now U (fq_code q) i k s' \<and> ar_body x = Me_Body i name b"
proof -
  obtain r u s1 y s2 where a: "totp_account env now cookie (Some q) s = (Inr (r, u), s1)"
    and c: "counted now (u_id u) (second_factor env now q u) s1 = (Inr y, s2)"
    and g: "totp_grant env new now raw csrf remember r u s2 = (Inr x, s')"
    using run by (auto simp: totp_login_def succeeds)
  have s1: "users s1 = U" "distinct (map u_id (users s1))"
    using vouched_at_users [OF keeps_Inr [OF vouched_at.keep_totp_account u a]] by simp_all
  obtain k where "spends env now U (fq_code q) (u_id u) k s2"
    using factor_spends [OF counted_Inr [OF c] s1(2) q] s1(1) by auto
  then have "spends env now U (fq_code q) (u_id u) k s'" using spends_later [OF _ step_floor.keep_totp_grant g] by blast
  moreover have "ar_body x = Me_Body (u_id u) (u_name u) (u_totp u)"
    using g by (auto simp: totp_grant_def Let_def succeeds issue_full_session_def with_cookies_def reply_of_def me_body_def
        split: option.splits)
  ultimately show ?thesis by blast
qed

lemma step_up_spends:
  assumes run: "step_up env now p (Some q) s = (Inr x, s')" and u: "same_users U s"
    and q: "fq_code q \<noteq> []" "fq_password q = []"
  shows "\<exists>i k. spends env now U (fq_code q) i k s'"
proof -
  obtain u and r :: session and y s1 z where f: "step_up_factor env now q u s = (Inr y, s1)" and t: "touch_session_step_up (se_id r) now s1 = (Inr z, s')"
    using run by (cases "pr_user p"; cases "pr_session p") (auto simp: step_up_def succeeds throw_Inr)
  then have "second_factor env now q u s = (Inr y, s1)" using q by (auto simp: step_up_factor_def throw_Inr split: if_splits)
  then obtain k where "spends env now U (fq_code q) (u_id u) k s1"
    using factor_spends q(1) vouched_at_users [OF \<open>same_users U s\<close>] by metis
  then show ?thesis using spends_later [OF _ step_floor.keep_stamps(2) t] by blast
qed

text \<open>The code of a request that asks for its verification, and the requests that got it.\<close>

definition code_of :: "auth_call \<Rightarrow> string" where
  "code_of c = (case c of Do_Totp cookie remember (Some q) \<Rightarrow> fq_code q
     | Do_Step_Up (Some q) \<Rightarrow> if fq_password q = [] then fq_code q else []
     | _ \<Rightarrow> [])"

definition code_accepted :: "auth_env \<Rightarrow> visit_at \<Rightarrow> bool" where
  "code_accepted env v = (case v of (s, m, c) \<Rightarrow> code_of c \<noteq> [] \<and> ar_status (answered env v) = 200)"

lemma refuses_authenticate: "refuses (authenticate env now q)"
  unfolding authenticate_def by (intro refuses_wp)

lemma gate_Inr: "refuse r s = (Inr x, s') \<Longrightarrow> s' = s" "limited m s = (Inr x, s') \<Longrightarrow> s' = s"
  by (auto simp: refuse_def limited_def ret_def throw_def split: option.splits refusal.splits)

lemma after_route: "after env (s, m, c) = snd (auth_route env m c s)"
  by (simp add: after_def auth_serve_def split: prod.split sum.split)

abbreviation resolved :: "auth_env \<Rightarrow> moment \<Rightarrow> (auth_db, auth_reply, principal) sem" where
  "resolved env m \<equiv> authenticate env (mo_now m) (mo_http m)"

lemma route_totp_Inr:
  assumes "auth_route env m (Do_Totp cookie remember req) s = (Inr x, s')"
  shows "\<exists>p d. resolved env m (bo_db s) = (Inr p, d)
    \<and> totp_login env (mo_new m) (mo_now m) (mo_raw m) (mo_csrf m) cookie remember req d = (Inr x, bo_db s')"
  using assms by (fastforce simp: auth_route_def succeeds public_call_def dest!: on_boot_Inr gate_Inr)

lemma route_step_up_Inr:
  assumes "auth_route env m (Do_Step_Up req) s = (Inr x, s')"
  shows "\<exists>p d. resolved env m (bo_db s) = (Inr p, d) \<and> step_up env (mo_now m) p req d = (Inr x, bo_db s')"
  using assms by (fastforce simp: auth_route_def succeeds public_call_def session_call_def dest!: on_boot_Inr gate_Inr)

lemma refuses_code_route: "code_of c \<noteq> [] \<Longrightarrow> refuses (auth_route env m c)"
  unfolding auth_route_def
  by (cases c; simp add: code_of_def public_call_def session_call_def;
      intro refuses_and_then refuses_on_boot refuses_authenticate refuses_gates refuses_totp_login refuses_step_up)

lemma accepted_spends:
  assumes acc: "code_accepted env (s, m, c)" and here: "distinct (map u_id (accounts s))"
  shows "\<exists>i k. spends env (mo_now m) (accounts s) (code_of c) i k (bo_db (after env (s, m, c)))
    \<and> (\<forall>cookie remember req. c = Do_Totp cookie remember req \<longrightarrow> (\<exists>name b. ar_body (answered env (s, m, c)) = Me_Body i name b))"
proof -
  obtain x s' where r: "auth_route env m c s = (Inr x, s')"
    using acc refuses_code_route unfolding code_accepted_def answered_def auth_serve_def refuses_def
    by (fastforce split: prod.splits sum.splits)
  then have a: "answered env (s, m, c) = x" "after env (s, m, c) = s'" by (simp_all add: answered_def after_def auth_serve_def)
  have u: "same_users (accounts s) (bo_db s)" using here by (simp add: at_db_def vouched_at_def vouched_def accounts_def)
  have d: "same_users (accounts s) d" if "resolved env m (bo_db s) = (Inr p, d)" for p d
    using keeps_Inr [OF vouched_at.keep_authenticate u] that by blast
  from acc have "code_of c \<noteq> []" by (simp add: code_accepted_def)
  then consider cookie remember q where "c = Do_Totp cookie remember (Some q)" "fq_code q \<noteq> []"
    | q where "c = Do_Step_Up (Some q)" "fq_code q \<noteq> []" "fq_password q = []"
    by (auto simp: code_of_def split: auth_call.splits option.splits if_splits)
  then show ?thesis
  proof cases
    case 1
    then obtain p d where p: "resolved env m (bo_db s) = (Inr p, d)"
      "totp_login env (mo_new m) (mo_now m) (mo_raw m) (mo_csrf m) cookie remember (Some q) d = (Inr x, bo_db s')"
      using route_totp_Inr r by blast
    show ?thesis using totp_spends [OF p(2) d [OF p(1)] 1(2)] a 1 by (auto simp: code_of_def)
  next
    case 2
    then obtain p d where p: "resolved env m (bo_db s) = (Inr p, d)" "step_up env (mo_now m) p (Some q) d = (Inr x, bo_db s')"
      using route_step_up_Inr r by blast
    show ?thesis using step_up_spends [OF p(2) d [OF p(1)] 2(2,3)] a 2 by (auto simp: code_of_def)
  qed
qed

text \<open>A step that is spent stays spent.\<close>

lemma spent_stays:
  assumes "auth_run env vs s" and "a < length vs" and "at_db (step_floor i k) (bo_db (after env (vs ! a)))"
  shows "at_db (step_floor i k) (bo_db s)" and "\<And>b. a < b \<Longrightarrow> b < length vs \<Longrightarrow> at_db (step_floor i k) (bo_db (fst (vs ! b)))"
proof -
  have "a < length vs \<longrightarrow> at_db (step_floor i k) (bo_db (after env (vs ! a))) \<longrightarrow>
      at_db (step_floor i k) (bo_db s) \<and> (\<forall>b. a < b \<longrightarrow> b < length vs \<longrightarrow> at_db (step_floor i k) (bo_db (fst (vs ! b))))"
    using assms(1)
  proof (induction rule: auth_run.induct)
    case (auth_visit vs s m c s')
    have "at_db (step_floor i k) (bo_db s')" if "at_db (step_floor i k) (bo_db s)"
      using keepsD [OF step_floor.keep_route that, of env m c] unfolding auth_visit(2) [symmetric]
      by (simp add: after_route)
    with auth_visit show ?case by (auto simp: nth_append less_Suc_eq)
  qed simp
  with assms(2,3) show "at_db (step_floor i k) (bo_db s)" "\<And>b. a < b \<Longrightarrow> b < length vs \<Longrightarrow> at_db (step_floor i k) (bo_db (fst (vs ! b)))"
    by blast+
qed

lemma run_distinct: "auth_run env vs s \<Longrightarrow> v \<in> set vs \<Longrightarrow> distinct (map u_id (accounts (fst v)))"
proof (induction rule: auth_run.induct)
  case (auth_visit vs s m c s')
  have "distinct (map u_id (accounts s))"
    using run_vouched [OF auth_visit(1)] by (simp add: at_db_def vouched_def accounts_def)
  with auth_visit show ?case by auto
qed simp

text \<open>A request whose code was the one of the account for the step, and is spent after it.\<close>

definition spent_by :: "auth_env \<Rightarrow> visit_at \<Rightarrow> string \<Rightarrow> int \<Rightarrow> bool" where
  "spent_by env v i k = (case v of (s, m, c) \<Rightarrow> spends env (mo_now m) (accounts s) (code_of c) i k (bo_db (after env v))
     \<and> (\<forall>cookie remember req. c = Do_Totp cookie remember req \<longrightarrow> (\<exists>name b. ar_body (answered env v) = Me_Body i name b)))"

lemma accepted_spent:
  assumes "auth_run env vs s" and "v \<in> set vs" and "code_accepted env v"
  shows "\<exists>i k. spent_by env v i k"
proof -
  obtain s m c where v: "v = (s, m, c)" by (cases v)
  have "distinct (map u_id (accounts s))" using run_distinct [OF assms(1,2)] v by simp
  from accepted_spends [OF assms(3) [unfolded v] this] show ?thesis unfolding spent_by_def v prod.case .
qed

lemma spent_increases:
  assumes "auth_run env vs s" and "a < b" and "b < length vs" and "spent_by env (vs ! a) i k" and "spent_by env (vs ! b) i l"
  shows "k < l"
proof -
  have "at_db (step_floor i k) (bo_db (after env (vs ! a)))" "a < length vs"
    using assms(2-4) by (auto simp: spent_by_def spends_def split: prod.splits)
  then have "at_db (step_floor i k) (bo_db (fst (vs ! b)))"
    using spent_stays(2) [OF assms(1) _ _ assms(2,3)] by blast
  then show ?thesis using assms(5)
    by (auto simp: spent_by_def spends_def at_db_def step_floor_def accounts_def steps_le_def split: prod.splits option.splits)
qed

lemma spent_right:
  "spent_by env v i k \<Longrightarrow> v = (s, m, c) \<Longrightarrow> (\<exists>u \<in> set (accounts s). u_id u = i \<and> code_for env (mo_now m) u (code_of c) k)
     \<and> (\<forall>cookie remember req. c = Do_Totp cookie remember req \<longrightarrow> (\<exists>name b. ar_body (answered env v) = Me_Body i name b))"
  using find_in by (fastforce simp: spent_by_def spends_def)



section \<open>An instance\<close>

definition bob :: user where
  "bob = (fresh_user ''b'' ''bob'' ''pw'')\<lparr>u_totp := True, u_secret := ''k'', u_recovery := [''r'']\<rparr>"

definition demo_auth :: auth_env where
  "demo_auth = \<lparr>ae_sha = (\<lambda>s. ''h'' @ s), ae_hex = (\<lambda>s. s), ae_bcrypt = Some, ae_bcrypt_ok = (\<lambda>h p. h = p),
     ae_totp = (\<lambda>s k. Some (show_int k)), ae_totp_url = (\<lambda>s n. n), ae_box = Some ((\<lambda>s. s), Some), ae_ttl = hour, ae_extended_ttl = 24 * hour\<rparr>"

definition demo_boot :: boot where
  "demo_boot = \<lparr>bo_db = \<lparr>users = [bob], sessions = [], api_tokens = [], au_fault = (\<lambda>_. False), au_calls = 0\<rparr>,
     bo_file = None, bo_fault = (\<lambda>_. False), bo_ops = 0\<rparr>"

definition demo_moment :: "string \<Rightarrow> string \<Rightarrow> instant \<Rightarrow> moment" where
  "demo_moment new raw now = \<lparr>mo_http = \<lparr>ha_authorization = [], ha_session = None, ha_csrf_cookie = None, ha_csrf_header = [], ha_method = ''POST''\<rparr>,
     mo_now = now, mo_retry = None, mo_new = new, mo_raw = Some raw, mo_csrf = Some ''c''\<rparr>"

definition bob_login :: visit_at where
  "bob_login = (demo_boot, demo_moment ''s1'' ''xy'' 0, Do_Login (Some \<lparr>lq_username = ''bob'', lq_password = ''pw'', lq_remember = False\<rparr>))"

definition bob_code :: visit_at where
  "bob_code = (after demo_auth bob_login, demo_moment ''s2'' ''zw'' second,
     Do_Totp (Some (b64_encode ''xy'')) None (Some \<lparr>fq_code = ''0'', fq_recovery = [], fq_password = []\<rparr>))"

lemma bob_run: "auth_run demo_auth [bob_login, bob_code] (after demo_auth bob_code)"
proof -
  have "auth_run demo_auth [] demo_boot" by (rule auth_begin) (simp_all add: demo_boot_def accounts_def)
  then have "auth_run demo_auth ([] @ [bob_login]) (after demo_auth bob_login)"
    unfolding bob_login_def by (rule auth_visit) (rule refl)
  from auth_visit [OF this refl] show ?thesis unfolding bob_code_def by simp
qed

lemma bob_signed_in:
  "map (\<lambda>r. (se_user r, se_pre r)) (sessions (bo_db (after demo_auth bob_code))) = [(''b'', False)]"
  by code_simp

lemma bob_accepted: "code_accepted demo_auth bob_code"
  by code_simp

lemma bob_unchanged: "accounts (after demo_auth bob_login) = [bob]"
  by code_simp

theorem full_session_needs_factors_witness: "entitled demo_auth [bob_login, bob_code] ''b''"
proof -
  obtain r where "r \<in> set (sessions (bo_db (after demo_auth bob_code)))" "se_user r = ''b''" "\<not> se_pre r"
    using bob_signed_in by (cases "sessions (bo_db (after demo_auth bob_code))") auto
  with full_session_needs_factors [OF bob_run] show ?thesis by metis
qed


end
