(* ===== verification/Auth_Limits.thy ===== *)
theory Auth_Limits
  imports Auth_Safety
begin

text \<open>
  The lock of an account, the recovery codes, and where the gates of the accounts leak: the token that a session
  mints, the enrolment that takes a used code, and the first boot that two requests share.
\<close>

section \<open>Bounded guessing\<close>

definition quiet :: "user list \<Rightarrow> session list \<Rightarrow> (nat \<Rightarrow> bool) \<Rightarrow> bool" where
  "quiet U S F = (distinct (map u_id U) \<and> F = (\<lambda>_. False))"

definition ledger :: "string \<Rightarrow> user list \<Rightarrow> int \<times> instant option" where
  "ledger i U = (case find (\<lambda>u. u_id u = i) U of None \<Rightarrow> (0, None) | Some u \<Rightarrow> (u_failed u, u_locked u))"

lemma quiet_changed:
  "(\<And>u. p u \<Longrightarrow> u_id (f u) = u_id u) \<Longrightarrow> quiet (map (\<lambda>u. if p u then f u else u) U) S F = quiet U S F"
  using vouched_users [of p f "\<lambda>_ _. True" U S F] by (auto simp: vouched_def quiet_def)

interpretation quiet: route_frame quiet
proof unfold_locales
  show "quiet (map (\<lambda>u. if p u then f u else u) U) S F"
    if "quiet U S F" "\<And>u. p u \<Longrightarrow> same_account u (f u)" for U S F p f
    using that by (subst quiet_changed) (simp_all add: same_account_def)
  show "quiet (map (\<lambda>u. if u_id u = i then note_failure k t u else u) U) S F" if "quiet U S F" for U S F i k t
    using that by (subst quiet_changed) (simp_all add: note_failure_def)
  show "quiet (map (\<lambda>u. if u_id u = i then u\<lparr>u_failed := 0, u_locked := None\<rparr> else u) U) S F" if "quiet U S F" for U S F i
    using that by (subst quiet_changed) simp_all
qed (auto simp: quiet_def fresh_user_def)

lemma ledger_changed:
  assumes "\<And>u. p u \<Longrightarrow> u_id (f u) = u_id u"
    and "\<And>u. p u \<Longrightarrow> u_id u = i \<Longrightarrow> u_failed (f u) = u_failed u \<and> u_locked (f u) = u_locked u"
  shows "ledger i (map (\<lambda>u. if p u then f u else u) U) = ledger i U"
  using assms find_changed [of p f i U] by (auto simp: ledger_def dest: find_in split: option.split)

definition ledger_is :: "string \<Rightarrow> int \<times> instant option \<Rightarrow> user list \<Rightarrow> session list \<Rightarrow> (nat \<Rightarrow> bool) \<Rightarrow> bool" where
  "ledger_is i x U S F = (ledger i U = x)"

interpretation ledger_is: signup_frame "ledger_is i x" for i x
proof unfold_locales
  show "ledger_is i x (map (\<lambda>u. if p u then f u else u) U) S F"
    if "ledger_is i x U S F" "\<And>u. p u \<Longrightarrow> same_account u (f u)" for U S F p f
    using that unfolding ledger_is_def by (subst ledger_changed) (auto simp: same_account_def)
qed (auto simp: ledger_is_def ledger_def find_append fresh_user_def dest: find_in split: option.splits)

lemma au_call_quiet: "au_fault d = (\<lambda>_. False) \<Longrightarrow> au_call q d = q (d\<lparr>au_calls := Suc (au_calls d)\<rparr>)"
  by (simp add: au_call_def Let_def)

lemma one_user_quiet:
  "au_fault d = (\<lambda>_. False) \<Longrightarrow> one_user p d = (case find p (users d) of None \<Rightarrow> Inl ErrNotFound | Some u \<Rightarrow> Inr u,
     d\<lparr>au_calls := Suc (au_calls d)\<rparr>)"
  by (simp add: one_user_def au_call_quiet split: option.split)

lemma refuse_locked_quiet:
  assumes "au_fault d = (\<lambda>_. False)" and "find (\<lambda>u. u_id u = i) (users d) = Some u"
  shows "refuse_locked now i d = (case u_locked u of
     Some t \<Rightarrow> if t > now then (Inl (auth_locked now t), d\<lparr>au_calls := Suc (au_calls d)\<rparr>) else (Inr (), d\<lparr>au_calls := Suc (au_calls d)\<rparr>)
   | None \<Rightarrow> (Inr (), d\<lparr>au_calls := Suc (au_calls d)\<rparr>))"
  using assms by (simp add: refuse_locked_def auth_locked_until_def sem_defs one_user_quiet split: option.split)

lemma count_failure_quiet:
  assumes "au_fault d = (\<lambda>_. False)" and "find (\<lambda>u. u_id u = i) (users d) = Some u"
  shows "fst (count_failure now i d) = Inr ()"
    and "users (snd (count_failure now i d))
      = map (\<lambda>u. if u_id u = i then note_failure max_auth_failures (now + auth_lockout) u else u) (users d)"
  using assms by (simp_all add: count_failure_def ignore_def register_auth_failure_def au_call_quiet)

lemma find_by_id: "distinct (map u_id U) \<Longrightarrow> u \<in> set U \<Longrightarrow> find (\<lambda>v. u_id v = u_id u) U = Some u"
  by (induction U) auto

lemma ledger_of: "distinct (map u_id U) \<Longrightarrow> u \<in> set U \<Longrightarrow> ledger (u_id u) U = (u_failed u, u_locked u)"
  by (simp add: ledger_def find_by_id)

definition unlocked :: "instant \<Rightarrow> int \<times> instant option \<Rightarrow> bool" where
  "unlocked now x = (case snd x of None \<Rightarrow> True | Some t \<Rightarrow> t \<le> now)"

definition noted :: "instant \<Rightarrow> int \<times> instant option \<Rightarrow> int \<times> instant option" where
  "noted now x = (if fst x + 1 \<ge> max_auth_failures then (0, Some (now + auth_lockout)) else (fst x + 1, snd x))"

lemma ledger_noted:
  assumes "au_fault d = (\<lambda>_. False)" and "distinct (map u_id (users d))" and "u \<in> set (users d)"
  shows "ledger (u_id u) (users (snd (count_failure now (u_id u) d))) = noted now (ledger (u_id u) (users d))"
    and "i \<noteq> u_id u \<Longrightarrow> ledger i (users (snd (count_failure now (u_id u) d))) = ledger i (users d)"
proof -
  have f: "find (\<lambda>v. u_id v = u_id u) (users d) = Some u" using assms(2,3) by (rule find_by_id)
  note us = count_failure_quiet(2) [OF assms(1) f, of now]
  show "ledger (u_id u) (users (snd (count_failure now (u_id u) d))) = noted now (ledger (u_id u) (users d))"
    unfolding us using find_changed [of "\<lambda>v. u_id v = u_id u" "note_failure max_auth_failures (now + auth_lockout)" "u_id u" "users d"] f
    by (simp add: ledger_def noted_def note_failure_def)
  show "ledger i (users (snd (count_failure now (u_id u) d))) = ledger i (users d)" if "i \<noteq> u_id u"
    unfolding us using that by (intro ledger_changed) (auto simp: note_failure_def)
qed

text \<open>What a request to log in, or its second step, does to the count of an account: nothing, one failure while it is
  not locked, or the end of the count, with a session or an error of the service as the reply.\<close>

definition reply_in :: "auth_reply + auth_reply \<Rightarrow> auth_reply" where
  "reply_in r = (case r of Inl e \<Rightarrow> e | Inr x \<Rightarrow> x)"

definition wrong_reply :: "auth_reply \<Rightarrow> bool" where
  "wrong_reply r = (r \<in> {invalid_credentials, failure 401 ''invalid code'', failure 401 ''invalid recovery code''})"

definition finish_reply :: "string \<Rightarrow> auth_reply \<Rightarrow> bool" where
  "finish_reply i r = (ar_status r = 500 \<or> (case ar_body r of Me_Body j name b \<Rightarrow> j = i | _ \<Rightarrow> False))"

definition outcome :: "string \<Rightarrow> instant \<Rightarrow> bool \<Rightarrow> auth_reply + auth_reply \<Rightarrow> auth_db \<Rightarrow> auth_db \<Rightarrow> bool" where
  "outcome i now mine res d d' \<longleftrightarrow>
     ledger i (users d') = ledger i (users d) \<and> \<not> (mine \<and> wrong_reply (reply_in res))
     \<or> mine \<and> unlocked now (ledger i (users d)) \<and> ledger i (users d') = noted now (ledger i (users d))
     \<or> mine \<and> finish_reply i (reply_in res)"

lemma ledger_keep: "keeps (at_db (ledger_is i (ledger i (users d)))) q \<Longrightarrow> q d = (x, d') \<Longrightarrow> ledger i (users d') = ledger i (users d)"
  using keeps_Inr [of "at_db (ledger_is i (ledger i (users d)))" q d x d'] by (simp add: at_db_def ledger_is_def)

lemma quiet_keep: "keeps (at_db quiet) q \<Longrightarrow> at_db quiet d \<Longrightarrow> q d = (x, d') \<Longrightarrow> at_db quiet d'"
  by (rule keeps_Inr)

lemma quiet_parts: "at_db quiet d \<Longrightarrow> distinct (map u_id (users d)) \<and> au_fault d = (\<lambda>_. False)"
  by (simp add: at_db_def quiet_def)

lemma users_keep:
  assumes "keeps (at_db (vouched_at (users d) (\<lambda>_ _. True))) q" and "at_db quiet d" and "q d = (x, d')"
  shows "users d' = users d"
  using keeps_Inr [OF assms(1) _ assms(3)] assms(2) by (simp add: at_db_def vouched_at_def vouched_def quiet_def)

lemma refuse_locked_Inr:
  assumes "refuse_locked now (u_id u) d = (Inr x, d')" and "at_db quiet d" and "u \<in> set (users d)"
  shows "unlocked now (ledger (u_id u) (users d))"
proof -
  have q: "distinct (map u_id (users d))" "au_fault d = (\<lambda>_. False)" using quiet_parts [OF assms(2)] by simp_all
  show ?thesis
    using assms(1) refuse_locked_quiet [OF q(2) find_by_id [OF q(1) assms(3)], of now] ledger_of [OF q(1) assms(3)]
    by (auto simp: unlocked_def split: option.splits if_splits)
qed

lemma plain_not_wrong [simp]:
  "\<not> wrong_reply (failure 400 msg)" "\<not> wrong_reply (auth_locked now t)" "\<not> wrong_reply (failure 429 msg)" "\<not> wrong_reply (failure 500 msg)"
  by (auto simp: wrong_reply_def failure_def reply_of_def auth_locked_def invalid_credentials_def)

lemma login_account_quiet:
  assumes d: "at_db quiet d" and run: "login_account now (Some q) d = (a, d1)"
  shows "case a of Inl e \<Rightarrow> wrong_reply e \<longrightarrow> find (\<lambda>u. u_name u = lq_username q) (users d) = None
    | Inr u \<Rightarrow> find (\<lambda>u. u_name u = lq_username q) (users d) = Some u \<and> unlocked now (ledger (u_id u) (users d))"
proof -
  let ?d = "d\<lparr>au_calls := Suc (au_calls d)\<rparr>"
  have q: "distinct (map u_id (users d))" "au_fault d = (\<lambda>_. False)" using quiet_parts [OF d] by simp_all
  have d2: "at_db quiet ?d" using d by (simp add: at_db_def)
  show ?thesis
  proof (cases "lq_username q = [] \<or> lq_password q = []")
    case True
    then show ?thesis using run by (auto simp: login_account_def throw_def)
  next
    case False
    show ?thesis
    proof (cases "find (\<lambda>u. u_name u = lq_username q) (users d)")
      case None
      then show ?thesis using run False q(2)
        by (auto simp: login_account_def get_user_by_username_def and_then_def map_err_def one_user_quiet)
    next
      case (Some u)
      then have u: "u \<in> set (users ?d)" "find (\<lambda>v. u_id v = u_id u) (users ?d) = Some u" using find_in find_by_id [OF q(1)] by fastforce+
      have "login_account now (Some q) d = and_then (refuse_locked now (u_id u)) (\<lambda>_. ret u) ?d"
        using Some False q(2) by (simp add: login_account_def get_user_by_username_def and_then_def map_err_def one_user_quiet)
      then show ?thesis
        using run Some refuse_locked_quiet [of ?d, OF _ u(2), of now] q(2) ledger_of [OF q(1), of u] u(1)
        by (auto simp: and_then_def ret_def unlocked_def split: option.splits if_splits)
    qed
  qed
qed

lemma issue_reply:
  assumes "issue_full_session env new now raw csrf u b d = (res, d')"
  shows "ar_status (reply_in res) = 500 \<or> ar_body (reply_in res) = me_body u"
  using assms by (auto simp: issue_full_session_def and_then_def map_err_def throw_def ret_def Let_def reply_in_def with_cookies_def reply_of_def
      split: prod.splits sum.splits option.splits)

lemma login_outcome:
  assumes d: "at_db quiet d" and run: "login env new now raw csrf (Some q) d = (res, d')"
  shows "outcome i now (\<exists>u. find (\<lambda>u. u_name u = lq_username q) (users d) = Some u \<and> u_id u = i) res d d'"
proof -
  obtain a d1 where a: "login_account now (Some q) d = (a, d1)" by fastforce
  have us: "users d1 = users d" by (rule users_keep [OF vouched_at.keep_login_account d a])
  have q1: "at_db quiet d1" by (rule quiet_keep [OF quiet.keep_login_account d a])
  note la = login_account_quiet [OF d a]
  show ?thesis
  proof (cases a)
    case (Inl e)
    then have "res = Inl e" "d' = d1" using run a by (auto simp: login_def and_then_def)
    then show ?thesis using la Inl us by (auto simp: outcome_def reply_in_def)
  next
    case (Inr u)
    have u: "find (\<lambda>u. u_name u = lq_username q) (users d) = Some u" "unlocked now (ledger (u_id u) (users d))" "u \<in> set (users d1)"
      using la Inr find_in us by fastforce+
    have q2: "distinct (map u_id (users d1))" "au_fault d1 = (\<lambda>_. False)" using quiet_parts [OF q1] by simp_all
    have rest: "and_then (login_password env now (lq_password q) u) (\<lambda>_. login_grant env new now raw csrf (lq_remember q) u) d1 = (res, d')"
      using run a Inr by (simp add: login_def and_then_def)
    show ?thesis
    proof (cases "ae_bcrypt_ok env (u_hash u) (lq_password q)")
      case False
      obtain x :: "auth_reply + unit" and d2 where c: "count_failure now (u_id u) d1 = (x, d2)" by fastforce
      have d2: "d2 = snd (count_failure now (u_id u) d1 :: (auth_reply + unit) \<times> auth_db)"
        and x: "x = fst (count_failure now (u_id u) d1)" by (simp_all add: c)
      have "x = Inr ()" unfolding x by (rule count_failure_quiet(1) [OF q2(2) find_by_id [OF q2(1) u(3)]])
      then have r: "d' = d2" "res = Inl invalid_credentials"
        using rest False c by (auto simp: login_password_def and_then_def throw_def)
      have "ledger (u_id u) (users d2) = noted now (ledger (u_id u) (users d1))"
        unfolding d2 by (rule ledger_noted(1) [OF q2(2,1) u(3)])
      moreover have "ledger i (users d2) = ledger i (users d1)" if "i \<noteq> u_id u"
        unfolding d2 by (rule ledger_noted(2) [OF q2(2,1) u(3) that])
      ultimately show ?thesis using r u us by (cases "i = u_id u") (auto simp: outcome_def)
    next
      case True
      then have g: "login_grant env new now raw csrf (lq_remember q) u d1 = (res, d')"
        using rest by (simp add: login_password_def)
      show ?thesis
      proof (cases "u_totp u")
        case True
        have "ledger i (users d') = ledger i (users d1)"
          by (rule ledger_keep [where q = "login_grant env new now raw csrf (lq_remember q) u", OF _ g]) (use True in \<open>unfold login_grant_def create_pre_auth_def,
            simp, intro vac_wp ledger_is.keep_new_session ledger_is.logs_in\<close>)
        moreover have "\<not> wrong_reply (reply_in res)"
          using g True by (auto simp: login_grant_def and_then_def map_err_def ret_def reply_in_def wrong_reply_def with_cookies_def reply_of_def
              failure_def invalid_credentials_def split: prod.splits sum.splits)
        ultimately show ?thesis using us by (simp add: outcome_def)
      next
        case False
        obtain d2 where c: "clear_auth_failures (u_id u) d1 = (Inr (), d2)"
          by (auto simp: clear_auth_failures_def exec_user_def update_users_def and_then_def ret_def au_call_quiet [OF q2(2)])
        have i: "issue_full_session env new now raw csrf u (lq_remember q) d2 = (res, d')"
          using g False c by (simp add: login_grant_def and_then_def ignore_def)
        have "ledger i (users d2) = ledger i (users d1)" if "i \<noteq> u_id u"
          using c that by (auto simp: clear_auth_failures_def exec_user_def update_users_def and_then_def ret_def au_call_quiet [OF q2(2)]
              intro!: ledger_changed)
        moreover have "ledger i (users d') = ledger i (users d2)" by (rule ledger_keep [OF ledger_is.keep_issued i])
        ultimately show ?thesis
          using issue_reply [OF i] u us by (cases "i = u_id u") (auto simp: outcome_def finish_reply_def me_body_def)
      qed
    qed
  qed
qed

definition known :: "string \<Rightarrow> user list \<Rightarrow> session list \<Rightarrow> (nat \<Rightarrow> bool) \<Rightarrow> bool" where
  "known i U S F = (i \<in> u_id ` set U)"

interpretation known: account_frame "known i" for i
proof unfold_locales
  fix U S F and p :: "user \<Rightarrow> bool" and f
  assume k: "known i U S F" and "\<And>u. p u \<Longrightarrow> same_account u (f u)"
  then have "u_id (if p u then f u else u) = u_id u" for u by (simp add: same_account_def)
  then show "known i (map (\<lambda>u. if p u then f u else u) U) S F"
    using k unfolding known_def set_map image_image by simp
qed (simp_all add: known_def)

lemma totp_account_quiet:
  assumes d: "at_db quiet d" and run: "totp_account env now cookie req d = (a, d1)"
  shows "case a of Inl e \<Rightarrow> \<not> wrong_reply e
    | Inr (r, u) \<Rightarrow> u \<in> set (users d) \<and> unlocked now (ledger (u_id u) (users d)) \<and> (\<exists>d2. lookup_pre_auth env now (the cookie) d = (Inr (r, u), d2))"
proof (cases a)
  case (Inl e)
  then show ?thesis
    using run by (auto simp: totp_account_def and_then_def map_err_def throw_def ret_def refuse_locked_def attempt_def wrong_reply_def
        failure_def reply_of_def with_cookies_def invalid_credentials_def auth_locked_def
        split: if_splits prod.splits sum.splits option.splits)
next
  case (Inr x)
  obtain r u where x: "x = (r, u)" by (cases x)
  obtain d2 where l: "lookup_pre_auth env now (the cookie) d = (Inr (r, u), d2)" and f: "refuse_locked now (u_id u) d2 = (Inr (), d1)"
    using run Inr x by (auto simp: totp_account_def succeeds split: if_splits option.splits)
  have us: "users d2 = users d" by (rule users_keep [OF vouched_at.keep_lookups(3) d l])
  have "at_db quiet d2" by (rule quiet_keep [OF quiet.keep_lookups(3) d l])
  then show ?thesis using refuse_locked_Inr [OF f] lookup_pre_auth_Inr(2) [OF l] us Inr x l by auto
qed

lemma totp_outcome:
  assumes d: "at_db quiet d" and run: "totp_login env new now raw csrf cookie remember (Some q) d = (res, d')"
  shows "outcome i now (\<exists>r u d2. lookup_pre_auth env now (the cookie) d = (Inr (r, u), d2) \<and> u_id u = i) res d d'"
proof -
  obtain a d1 where a: "totp_account env now cookie (Some q) d = (a, d1)" by fastforce
  have us: "users d1 = users d" by (rule users_keep [OF vouched_at.keep_totp_account d a])
  have q1: "at_db quiet d1" by (rule quiet_keep [OF quiet.keep_totp_account d a])
  note ta = totp_account_quiet [OF d a]
  show ?thesis
  proof (cases a)
    case (Inl e)
    then have "res = Inl e" "d' = d1" using run a by (auto simp: totp_login_def and_then_def)
    then show ?thesis using ta Inl us by (auto simp: outcome_def reply_in_def)
  next
    case (Inr x)
    obtain r u where x: "x = (r, u)" by (cases x)
    have u: "u \<in> set (users d)" "unlocked now (ledger (u_id u) (users d))"
      "\<exists>d2. lookup_pre_auth env now (the cookie) d = (Inr (r, u), d2)"
      using ta Inr x by auto
    then have mine: "(\<exists>r u d2. lookup_pre_auth env now (the cookie) d = (Inr (r, u), d2) \<and> u_id u = i) = (i = u_id u)" by auto
    obtain f d2 where f: "second_factor env now q u d1 = (f, d2)" by fastforce
    have l2: "ledger j (users d2) = ledger j (users d)" for j
      using ledger_keep [OF ledger_is.keep_second_factor f] us by simp
    have q2: "distinct (map u_id (users d2))" "au_fault d2 = (\<lambda>_. False)"
      using quiet_parts [OF quiet_keep [OF quiet.keep_second_factor q1 f]] by simp_all
    have "at_db (known (u_id u)) d2"
      by (rule keeps_Inr [OF known.keep_second_factor _ f]) (use u(1) us in \<open>auto simp: at_db_def known_def\<close>)
    then obtain v where v: "v \<in> set (users d2)" "u_id v = u_id u" by (auto simp: at_db_def known_def)
    show ?thesis
    proof (cases f)
      case (Inl e)
      obtain y :: "auth_reply + unit" and d3 where c: "count_failure now (u_id u) d2 = (y, d3)" by fastforce
      have d3: "d3 = snd (count_failure now (u_id v) d2 :: (auth_reply + unit) \<times> auth_db)"
        and y: "y = fst (count_failure now (u_id v) d2)" by (simp_all add: c v(2))
      have "y = Inr ()" unfolding y by (rule count_failure_quiet(1) [OF q2(2) find_by_id [OF q2(1) v(1)]])
      then have r: "d' = d3"
        using run a Inl \<open>a = Inr x\<close> x f c by (auto simp: totp_login_def counted_def attempt_def and_then_def throw_def)
      have "ledger (u_id u) (users d3) = noted now (ledger (u_id u) (users d2))"
        unfolding d3 v(2) [symmetric] by (rule ledger_noted(1) [OF q2(2,1) v(1)])
      moreover have "ledger i (users d3) = ledger i (users d2)" if "i \<noteq> u_id u"
        unfolding d3 using ledger_noted(2) [OF q2(2,1) v(1)] that v(2) by simp
      ultimately show ?thesis using r u l2 unfolding mine by (cases "i = u_id u") (auto simp: outcome_def)
    next
      case (Inr z)
      then have g: "totp_grant env new now raw csrf remember r u d2 = (res, d')"
        using run a \<open>a = Inr x\<close> x f by (simp add: totp_login_def counted_def attempt_def and_then_def ret_def)
      obtain d3 where c: "clear_auth_failures (u_id u) d2 = (Inr (), d3)"
        by (auto simp: clear_auth_failures_def exec_user_def update_users_def and_then_def ret_def au_call_quiet [OF q2(2)])
      have l3: "ledger i (users d3) = ledger i (users d2)" if "i \<noteq> u_id u"
        using c that by (auto simp: clear_auth_failures_def exec_user_def update_users_def and_then_def ret_def au_call_quiet [OF q2(2)]
            intro!: ledger_changed)
      obtain y d4 where k: "revoke_session (se_id r) d3 = (y, d4)" by fastforce
      let ?cs = "[Clear_Cookie pre_auth_cookie, Clear_Cookie pre_remember_cookie]"
      let ?keep = "case remember of None \<Rightarrow> False | Some v \<Rightarrow> parse_bool v"
      obtain w where i: "issue_full_session env new now raw csrf u ?keep d4 = (w, d')" and w: "reply_in res = with_cookies ?cs (reply_in w)"
        using g c k by (auto simp: totp_grant_def Let_def and_then_def ignore_def map_err_def ret_def reply_in_def
            split: prod.splits sum.splits)
      have "ledger i (users d') = ledger i (users d4)" by (rule ledger_keep [OF ledger_is.keep_issued i])
      moreover have "ledger i (users d4) = ledger i (users d3)" by (rule ledger_keep [OF ledger_is.keep_drops(1) k])
      moreover have "i = u_id u \<Longrightarrow> finish_reply i (reply_in res)"
        using issue_reply [OF i] w by (auto simp: finish_reply_def me_body_def with_cookies_def)
      ultimately show ?thesis using l2 l3 unfolding mine by (cases "i = u_id u") (auto simp: outcome_def)
    qed
  qed
qed

text \<open>The account that a request is about: the one of the name, or the one of the pending session.\<close>

definition guesses_at :: "auth_env \<Rightarrow> string \<Rightarrow> visit_at \<Rightarrow> bool" where
  "guesses_at env i v = (case v of (s, m, c) \<Rightarrow> (case c of
     Do_Login (Some q) \<Rightarrow> \<exists>u. find (\<lambda>u. u_name u = lq_username q) (accounts s) = Some u \<and> u_id u = i
   | Do_Totp cookie remember (Some q) \<Rightarrow> \<exists>p d r u d2. resolved env m (bo_db s) = (Inr p, d)
       \<and> lookup_pre_auth env (mo_now m) (the cookie) d = (Inr (r, u), d2) \<and> u_id u = i
   | _ \<Rightarrow> False))"

definition wrong_guess :: "auth_env \<Rightarrow> string \<Rightarrow> visit_at \<Rightarrow> bool" where
  "wrong_guess env i v = (guesses_at env i v \<and> wrong_reply (answered env v))"

text \<open>The requests that may end the count: those that sign the account in, and internal errors.\<close>

definition finishes :: "auth_env \<Rightarrow> string \<Rightarrow> visit_at \<Rightarrow> bool" where
  "finishes env i v = (guesses_at env i v \<and> finish_reply i (answered env v))"

lemma resolved_Inr: "\<exists>p d. resolved env m s = (Inr p, d)"
  by (auto simp: authenticate_def attempt_def and_then_def ret_def split: option.split prod.split)

lemma gate_not_wrong [simp]: "\<not> wrong_reply (reply_of n (Fail_Body msg (Some c))) \<or> c = ''invalid_credentials''"
  "\<not> wrong_reply ((failure 429 msg)\<lparr>ar_retry := x\<rparr>)"
  by (auto simp: wrong_reply_def reply_of_def failure_def invalid_credentials_def)

lemma csrf_gate: "refuse (csrf_check q) s = (Inl e, s') \<Longrightarrow> s' = s \<and> \<not> wrong_reply e"
  by (auto simp: csrf_check_def refuse_def ret_def throw_def wrong_reply_def reply_of_def failure_def invalid_credentials_def split: if_splits)

lemma limit_gate: "limited m s = (Inl e, s') \<Longrightarrow> s' = s \<and> \<not> wrong_reply e"
  by (auto simp: limited_def ret_def throw_def wrong_reply_def reply_of_def failure_def invalid_credentials_def split: option.splits)

text \<open>Both logins run behind the two gates, on the accounts that the visit found.\<close>

lemma login_route:
  assumes r: "auth_route env m c s = (res, s')" and p: "resolved env m (bo_db s) = (Inr p, d)"
    and c: "public_call env m c = Some (and_then (limited m) (\<lambda>_. on_boot_db h))"
  shows "bo_db s' = d \<and> \<not> wrong_reply (reply_in res) \<or> h d = (res, bo_db s')"
proof -
  let ?s = "s\<lparr>bo_db := d\<rparr>"
  have e: "auth_route env m c s = and_then (refuse (csrf_check (mo_http m))) (\<lambda>_. and_then (limited m) (\<lambda>_. on_boot_db h)) ?s"
    by (simp add: auth_route_def c and_then_def on_boot_db_def p)
  obtain x s1 where x: "refuse (csrf_check (mo_http m)) ?s = (x :: auth_reply + unit, s1)" by fastforce
  show ?thesis
  proof (cases x)
    case (Inl f)
    note g = csrf_gate [OF x [unfolded Inl]]
    have "auth_route env m c s = (Inl f, s1)" unfolding e by (simp add: and_then_def x Inl)
    then have "res = Inl f" "s' = s1" using r by simp_all
    then show ?thesis using g by (simp add: reply_in_def)
  next
    case (Inr u)
    have s1: "s1 = ?s" by (rule gate_Inr(1) [OF x [unfolded Inr]])
    obtain y s2 where y: "limited m ?s = (y :: auth_reply + unit, s2)" by fastforce
    show ?thesis
    proof (cases y)
      case (Inl f)
      note g = limit_gate [OF y [unfolded Inl]]
      have "auth_route env m c s = (Inl f, s2)" unfolding e by (simp add: and_then_def x s1 \<open>x = Inr u\<close> y Inl)
      then have "res = Inl f" "s' = s2" using r by simp_all
      then show ?thesis using g by (simp add: reply_in_def)
    next
      case (Inr w)
      have "s2 = ?s" by (rule gate_Inr(2) [OF y [unfolded Inr]])
      then have "auth_route env m c s = on_boot_db h ?s"
        unfolding e by (simp add: and_then_def x s1 \<open>x = Inr u\<close> y Inr split: prod.split sum.split)
      then have "on_boot_db h ?s = (res, s')" using r by simp
      then show ?thesis by (auto simp: on_boot_db_def split: prod.splits)
    qed
  qed
qed

lemma answer_after: "auth_route env m c s = (res, s') \<Longrightarrow> answered env (s, m, c) = reply_in res \<and> after env (s, m, c) = s'"
  by (auto simp: answered_def after_def auth_serve_def reply_in_def split: sum.split)

lemma visit_outcome:
  assumes q: "at_db quiet (bo_db s)" and r: "auth_route env m c s = (res, s')"
  shows "outcome i (mo_now m) (guesses_at env i (s, m, c)) res (bo_db s) (bo_db s')"
proof -
  obtain p d where p: "resolved env m (bo_db s) = (Inr p, d)" using resolved_Inr by blast
  have us: "users d = users (bo_db s)" by (rule users_keep [OF vouched_at.keep_authenticate q p])
  have d: "at_db quiet d" by (rule quiet_keep [OF quiet.keep_authenticate q p])
  have lift: "outcome i (mo_now m) g res (bo_db s) (bo_db s')"
    if "bo_db s' = d \<and> \<not> wrong_reply (reply_in res) \<or> outcome i (mo_now m) g res d (bo_db s')" for g
    using that us by (auto simp: outcome_def)
  show ?thesis
  proof (cases "(\<exists>q. c = Do_Login (Some q)) \<or> (\<exists>cookie remember q. c = Do_Totp cookie remember (Some q))")
    case True
    then show ?thesis
    proof (elim disjE exE)
      fix q assume c: "c = Do_Login (Some q)"
      then have "public_call env m c = Some (and_then (limited m) (\<lambda>_. on_boot_db (login env (mo_new m) (mo_now m) (mo_raw m) (mo_csrf m) (Some q))))"
        by (simp add: public_call_def)
      from login_route [OF r p this] show ?thesis
        using login_outcome [OF d, of env "mo_new m" "mo_now m" "mo_raw m" "mo_csrf m" q res "bo_db s'" i] us c
        by (intro lift) (auto simp: guesses_at_def accounts_def)
    next
      fix cookie remember q assume c: "c = Do_Totp cookie remember (Some q)"
      then have "public_call env m c = Some (and_then (limited m) (\<lambda>_. on_boot_db
          (totp_login env (mo_new m) (mo_now m) (mo_raw m) (mo_csrf m) cookie remember (Some q))))"
        by (simp add: public_call_def)
      from login_route [OF r p this] show ?thesis
        using totp_outcome [OF d, of env "mo_new m" "mo_now m" "mo_raw m" "mo_csrf m" cookie remember q res "bo_db s'" i] p c
        by (intro lift) (auto simp: guesses_at_def)
    qed
  next
    case False
    then have n: "\<not> guesses_at env i (s, m, c)" by (auto simp: guesses_at_def split: auth_call.splits option.splits)
    let ?J = "\<lambda>s'. at_db (ledger_is i (ledger i (users (bo_db s)))) (bo_db s')"
    have t: "keeps (at_db (ledger_is i x)) (totp_login env new now raw csrf cookie remember None)" for x new now raw csrf cookie remember
      unfolding totp_login_def
      by (rule keeps_and_then_Inr [OF ledger_is.keep_totp_account]) (auto dest: totp_account_Inr(1))
    have "keeps ?J h" if "public_call env m c = Some h" for h
      using that False
      by (cases c) (auto simp: public_call_def login_def login_account_def
          intro!: vac_wp auth_wp keeps_on_boot ledger_is.keep_setup t split: option.splits)
    then have "keeps ?J (auth_route env m c)"
      unfolding auth_route_def by (intro vac_wp auth_wp keeps_on_boot ledger_is.keep_authenticate ledger_is.keep_session_call)
    from keeps_Inr [OF this _ r] show ?thesis using n by (simp add: outcome_def at_db_def ledger_is_def)
  qed
qed

text \<open>How many failures an account has left before a time, at most a lockout away.\<close>

definition allowance :: "instant \<Rightarrow> int \<times> instant option \<Rightarrow> nat" where
  "allowance b x = (if (case snd x of None \<Rightarrow> False | Some t \<Rightarrow> b \<le> t) then 0 else min 10 (max 1 (nat (10 - fst x))))"

lemma allowance_noted:
  assumes "unlocked now x" and "now < b" and "b \<le> now + auth_lockout" and "0 \<le> fst x"
  shows "allowance b (noted now x) + 1 \<le> allowance b x" and "0 \<le> fst (noted now x)"
  using assms by (auto simp: allowance_def noted_def unlocked_def max_auth_failures_def split: option.splits)

lemma guess_costs:
  assumes "at_db quiet (bo_db s)" and "\<not> finishes env i (s, m, c)" and "mo_now m < b" and "b \<le> mo_now m + auth_lockout"
    and "0 \<le> fst (ledger i (accounts s))"
  shows "allowance b (ledger i (accounts (after env (s, m, c)))) + (if wrong_guess env i (s, m, c) then 1 else 0)
      \<le> allowance b (ledger i (accounts s))"
    and "0 \<le> fst (ledger i (accounts (after env (s, m, c))))"
proof -
  obtain res s' where r: "auth_route env m c s = (res, s')" by fastforce
  note a = answer_after [OF r]
  from visit_outcome [OF assms(1) r, of i] assms(2) have
    "ledger i (accounts s') = ledger i (accounts s) \<and> \<not> wrong_guess env i (s, m, c)
     \<or> unlocked (mo_now m) (ledger i (accounts s)) \<and> ledger i (accounts s') = noted (mo_now m) (ledger i (accounts s))"
    unfolding outcome_def wrong_guess_def finishes_def accounts_def using a by auto
  then show "allowance b (ledger i (accounts (after env (s, m, c)))) + (if wrong_guess env i (s, m, c) then 1 else 0)
      \<le> allowance b (ledger i (accounts s))"
    "0 \<le> fst (ledger i (accounts (after env (s, m, c))))"
    using allowance_noted [OF _ assms(3,4,5)] a assms(5) by auto
qed

lemma append_snoc_split: "us @ vs = ws @ [w] \<Longrightarrow> vs = [] \<or> (\<exists>vs'. vs = vs' @ [w] \<and> ws = us @ vs')"
  by (cases vs rule: rev_cases) auto

text \<open>The guesses of a stretch of a history are paid from the allowance of the account.\<close>

lemma guesses_cost:
  assumes "auth_run env ws s" and "ws = us @ vs" and "\<forall>v \<in> set vs. au_fault (bo_db (fst v)) = (\<lambda>_. False) \<and> \<not> finishes env i v"
    and "\<forall>(s, m, c) \<in> set vs. a \<le> mo_now m \<and> mo_now m < a + auth_lockout" and "vs \<noteq> [] \<longrightarrow> 0 \<le> fst (ledger i (accounts (fst (hd vs))))"
  shows "vs \<noteq> [] \<longrightarrow> length (filter (wrong_guess env i) vs) + allowance (a + auth_lockout) (ledger i (accounts s))
      \<le> allowance (a + auth_lockout) (ledger i (accounts (fst (hd vs)))) \<and> 0 \<le> fst (ledger i (accounts s))"
  using assms
proof (induction arbitrary: vs rule: auth_run.induct)
  case (auth_visit ws s m c s')
  show ?case
  proof (cases "vs = []")
    case False
    then obtain vs' where v: "vs = vs' @ [(s, m, c)]" "ws = us @ vs'"
      using append_snoc_split [of us vs ws "(s, m, c)"] auth_visit(4) by auto
    have q: "at_db quiet (bo_db s)"
      using run_vouched [OF auth_visit(1)] auth_visit(5) v(1) by (auto simp: at_db_def vouched_def quiet_def)
    have t: "mo_now m < (a + auth_lockout)" "(a + auth_lockout) \<le> mo_now m + auth_lockout" "\<not> finishes env i (s, m, c)"
      using auth_visit(5,6) v(1) by auto
    have ih: "vs' \<noteq> [] \<longrightarrow> length (filter (wrong_guess env i) vs') + allowance (a + auth_lockout) (ledger i (accounts s))
        \<le> allowance (a + auth_lockout) (ledger i (accounts (fst (hd vs')))) \<and> 0 \<le> fst (ledger i (accounts s))"
      using auth_visit(3) [OF v(2)] auth_visit(5,6,7) v(1) by (auto simp: hd_append)
    then have f: "0 \<le> fst (ledger i (accounts s))" using auth_visit(7) v(1) by (cases "vs' = []") auto
    note g = guess_costs [OF q t(3,1,2) f, unfolded auth_visit(2)]
    show ?thesis
    proof (cases "vs' = []")
      case True
      then show ?thesis using g v(1) by auto
    next
      case False
      then show ?thesis using g ih v(1) by auto
    qed
  qed simp
qed simp



section \<open>Recovery codes\<close>

text \<open>The bytes that randIndex does not reject for the alphabet.\<close>

definition usable :: "nat \<Rightarrow> bool" where
  "usable b = (b < 252)"

lemma alphabet_size: "length recovery_alphabet = 36"
  by (simp add: recovery_alphabet_def)

lemma rand_index_usable:
  "case filter usable bs of [] \<Rightarrow> rand_index 36 bs = None
   | b # r \<Rightarrow> \<exists>r'. rand_index 36 bs = Some (b mod 36, r') \<and> filter usable r' = r"
proof (induction bs)
  case (Cons b bs)
  have "rand_index 36 (b # bs) = (if usable b then Some (b mod 36, bs) else rand_index 36 bs)"
    by (simp add: usable_def)
  then show ?case using Cons by (cases "usable b") (auto split: list.splits)
qed simp

lemma recovery_chars_usable:
  "if k \<le> length (filter usable bs)
   then \<exists>cs r. recovery_chars k bs = Some (cs, r) \<and> length cs = k \<and> set cs \<subseteq> set recovery_alphabet \<and> filter usable r = drop k (filter usable bs)
   else recovery_chars k bs = None"
proof (induction k arbitrary: bs)
  case (Suc k)
  show ?case
  proof (cases "filter usable bs")
    case Nil
    then show ?thesis using rand_index_usable [of bs] by (simp add: alphabet_size)
  next
    case (Cons b r)
    then obtain r' where r': "rand_index 36 bs = Some (b mod 36, r')" "filter usable r' = r"
      using rand_index_usable [of bs] by auto
    have "recovery_alphabet ! (b mod 36) \<in> set recovery_alphabet" by (rule nth_mem) (simp add: alphabet_size)
    then show ?thesis using Suc [of r'] r' Cons by (auto simp: alphabet_size split: if_splits)
  qed
qed simp

definition recovery_shaped :: "string \<Rightarrow> bool" where
  "recovery_shaped c \<longleftrightarrow> (\<exists>x y. c = x @ ''-'' @ y \<and> length x = 5 \<and> length y = 5 \<and> set (x @ y) \<subseteq> set recovery_alphabet)"

lemma recovery_generation_done:
  "if 10 * n \<le> length (filter usable bs)
   then \<exists>codes. generate_recovery_codes n bs = Some codes \<and> length codes = n \<and> list_all recovery_shaped codes
   else generate_recovery_codes n bs = None"
proof (induction n arbitrary: bs)
  case (Suc n)
  show ?case
  proof (cases "10 \<le> length (filter usable bs)")
    case False
    then have "recovery_chars 10 bs = None" using recovery_chars_usable [of 10 bs] by simp
    then show ?thesis using False by (simp add: new_recovery_code_def)
  next
    case True
    then obtain cs r where r: "recovery_chars 10 bs = Some (cs, r)" "length cs = 10" "set cs \<subseteq> set recovery_alphabet"
      "filter usable r = drop 10 (filter usable bs)"
      using recovery_chars_usable [of 10 bs] by auto
    have "recovery_shaped (take 5 cs @ ''-'' @ drop 5 cs)"
      unfolding recovery_shaped_def using r(2,3) by (intro exI [of _ "take 5 cs"] exI [of _ "drop 5 cs"]) simp
    moreover have "generate_recovery_codes (Suc n) bs = map_option ((#) (take 5 cs @ ''-'' @ drop 5 cs)) (generate_recovery_codes n r)"
      using r(1) by (simp add: new_recovery_code_def)
    moreover have "10 * Suc n \<le> length (filter usable bs) \<longleftrightarrow> 10 * n \<le> length (filter usable r)" using r(4) True by auto
    ultimately show ?thesis using Suc [of r] by (simp split: if_splits) fastforce
  qed
qed simp

text \<open>
  C24: The generation of recovery codes, a loop that rejects bytes until it has enough, ends exactly when the random
  source has given ten bytes below 252 per code; it then returns the number asked for, each of the form xxxxx-xxxxx.
\<close>

theorem recovery_generation_ends:
  "if 10 * n \<le> length (filter usable bs)
   then \<exists>codes. generate_recovery_codes n bs = Some codes \<and> length codes = n \<and> list_all recovery_shaped codes
   else generate_recovery_codes n bs = None"
  by (rule recovery_generation_done)

text \<open>
  randIndex is free of bias: of the 256 values of a byte exactly 256 div n give each index below n at once, and
  nothing else is ever returned.
\<close>

theorem rand_index_unbiased:
  assumes "0 < n" and "n \<le> 256"
  shows "(\<forall>i < n. card {b. b < 256 \<and> rand_index n [b] = Some (i, [])} = 256 div n)
    \<and> (\<forall>bs i r. rand_index n bs = Some (i, r) \<longrightarrow> i < n)"
proof (intro conjI allI impI)
  fix i assume i: "i < n"
  have "{b. b < 256 \<and> rand_index n [b] = Some (i, [])} = (\<lambda>k. k * n + i) ` {..< 256 div n}" (is "?L = ?R")
  proof (intro subset_antisym subsetI)
    fix b assume "b \<in> ?L"
    then have b: "b < 256 - 256 mod n" "b mod n = i" by (auto split: if_splits)
    have "256 - 256 mod n = (256 div n) * n" by (metis minus_mod_eq_div_mult)
    then have "b div n < 256 div n" using b(1) by (simp add: less_mult_imp_div_less)
    moreover have "b = (b div n) * n + i" using b(2) by (metis div_mult_mod_eq)
    ultimately show "b \<in> ?R" by blast
  next
    fix b assume "b \<in> ?R"
    then obtain k where k: "k < 256 div n" "b = k * n + i" by auto
    have "256 - 256 mod n = (256 div n) * n" by (metis minus_mod_eq_div_mult)
    moreover have "(k + 1) * n \<le> (256 div n) * n" using k(1) by (intro mult_right_mono) simp_all
    ultimately have "b < 256 - 256 mod n" using k(2) i by simp
    moreover have "b mod n = i" using k(2) i by simp
    ultimately show "b \<in> ?L" by simp
  qed
  moreover have "inj_on (\<lambda>k. k * n + i) {..< 256 div n}" using assms(1) by (auto simp: inj_on_def)
  ultimately show "card {b. b < 256 \<and> rand_index n [b] = Some (i, [])} = 256 div n" by (simp add: card_image)
next
  fix bs i r assume "rand_index n bs = Some (i, r)"
  then show "i < n" using assms(1) by (induction bs) (auto split: if_splits)
qed

theorem rand_index_unbiased_witness: "card {b. b < 256 \<and> rand_index 36 [b] = Some (35, [])} = 7"
  using rand_index_unbiased [of 36] by simp


section \<open>A used code enrols again\<close>

lemma filter_by_id:
  "distinct (map u_id U) \<Longrightarrow> u \<in> set U \<Longrightarrow> filter (\<lambda>v. u_id v = u_id u \<and> P v) U = (if P u then [u] else [])"
proof (induction U)
  case (Cons v U)
  show ?case
  proof (cases "u = v")
    case True
    then have "filter (\<lambda>w. u_id w = u_id u \<and> P w) U = []" using Cons.prems by (auto simp: filter_empty_conv image_iff)
    then show ?thesis using True by simp
  next
    case False
    then have "u_id v \<noteq> u_id u" using Cons.prems by (auto simp: image_iff)
    then show ?thesis using Cons False by simp
  qed
qed simp

lemma match_step_quiet:
  assumes "at_db quiet d" and "u \<in> set (users d)" and "u_secret u \<noteq> []" and "code_for env now u code k"
  shows "\<exists>k'. match_step env now (u_id u) code d = (Inr k', d\<lparr>au_calls := Suc (au_calls d)\<rparr>) \<and> code_for env now u code k'"
proof -
  have q: "distinct (map u_id (users d))" "au_fault d = (\<lambda>_. False)" using quiet_parts [OF assms(1)] by simp_all
  obtain seal unseal secret where c: "ae_box env = Some (seal, unseal)" "unseal (u_secret u) = Some secret"
      "\<bar>k - current_step now\<bar> \<le> totp_skew" "ae_totp env secret k = Some code"
    using assms(4) by (auto simp: code_for_def)
  let ?w = "map (\<lambda>d. current_step now + d) [- totp_skew .. totp_skew]"
  have "k \<in> set ?w" using c(3) by (auto intro!: image_eqI [where x = "k - current_step now"])
  then obtain k' where k': "find (\<lambda>k. ae_totp env secret k = Some code) ?w = Some k'"
    using c(4) by (cases "find (\<lambda>k. ae_totp env secret k = Some code) ?w") (auto simp: find_None_iff)
  have "get_user_totp_secret (u_id u) d = (Inr (u_secret u), d\<lparr>au_calls := Suc (au_calls d)\<rparr>)"
    using assms(3) find_by_id [OF q(1) assms(2)] q(2) by (simp add: get_user_totp_secret_def and_then_def one_user_quiet ret_def)
  then have "match_step env now (u_id u) code d = (Inr k', d\<lparr>au_calls := Suc (au_calls d)\<rparr>)"
    using c(1,2) k' by (simp add: match_step_def and_then_def map_err_def ret_def)
  moreover have "code_for env now u code k'" using find_in [OF k'] c(1,2) by (auto simp: code_for_def)
  ultimately show ?thesis by blast
qed

lemma update_users_quiet:
  "au_fault d = (\<lambda>_. False) \<Longrightarrow> update_users p f d = (Inr (length (filter p (users d))),
     d\<lparr>au_calls := Suc (au_calls d), users := map (\<lambda>u. if p u then f u else u) (users d)\<rparr>)"
  by (simp add: update_users_def au_call_quiet)

lemma consume_stale:
  assumes "at_db quiet d" and "u \<in> set (users d)" and "steps_le (Some k) (u_last_step u)"
  shows "\<exists>d'. consume_totp_step (u_id u) k d = (Inr False, d') \<and> users d' = users d"
proof -
  have q: "distinct (map u_id (users d))" "au_fault d = (\<lambda>_. False)" using quiet_parts [OF assms(1)] by simp_all
  let ?p = "\<lambda>v. case u_last_step v of None \<Rightarrow> True | Some l \<Rightarrow> l < k"
  have f: "filter (\<lambda>v. u_id v = u_id u \<and> ?p v) (users d) = []"
    using filter_by_id [OF q(1) assms(2), of ?p] assms(3) by (auto simp: steps_le_def split: option.splits)
  then have "map (\<lambda>v. if u_id v = u_id u \<and> ?p v then v\<lparr>u_last_step := Some k\<rparr> else v) (users d) = users d"
    by (intro map_idI) (auto simp: filter_empty_conv)
  then show ?thesis using f by (simp add: consume_totp_step_def and_then_def update_users_quiet [OF q(2)] ret_def)
qed

lemma recovery_shaped_normal: "recovery_shaped c \<Longrightarrow> normalize_recovery_code c = c \<and> c \<noteq> []"
proof -
  assume "recovery_shaped c"
  then obtain x y where c: "c = x @ ''-'' @ y" "length x = 5" "set (x @ y) \<subseteq> set recovery_alphabet" by (auto simp: recovery_shaped_def)
  have alphabet: "list_all (\<lambda>ch. recovery_char ch \<and> lower_char ch = ch \<and> \<not> is_space ch) recovery_alphabet"
    by (simp add: recovery_alphabet_def recovery_char_def go_eval)
  have dash: "recovery_char (CHR ''-'') \<and> lower_char (CHR ''-'') = CHR ''-'' \<and> \<not> is_space (CHR ''-'')"
    by (simp add: recovery_char_def go_eval)
  have all: "recovery_char ch \<and> lower_char ch = ch \<and> \<not> is_space ch" if "ch \<in> set c" for ch
    using that c(1,3) alphabet dash by (auto simp: list_all_iff)
  then have "trim_space c = c" by (intro trim_space_id) (auto simp: list_all_iff)
  moreover have "to_lower c = c" using all by (simp add: to_lower_def map_idI)
  ultimately show ?thesis using all c(2) by (auto simp: normalize_recovery_code_def list_all_iff filter_True c(1))
qed

text \<open>The second factor with no code, but a recovery code.\<close>

definition recovery_request :: "string \<Rightarrow> factor_request" where
  "recovery_request c = \<lparr>fq_code = [], fq_recovery = c, fq_password = []\<rparr>"

lemma recovery_steps_up:
  assumes "at_db quiet d" and "u \<in> set (users d)" and "recovery_hash env c \<in> set (u_recovery u)" and "recovery_shaped c"
    and "pr_user p = Some v" and "u_id v = u_id u" and "u_totp v" and "pr_session p = Some r" and "r \<in> set (sessions d)"
  shows "fst (step_up env now p (Some (recovery_request c)) d) = Inr (reply_of 200 (Status_Body ''verified''))"
proof -
  have q: "distinct (map u_id (users d))" "au_fault d = (\<lambda>_. False)" using quiet_parts [OF assms(1)] by simp_all
  note n = recovery_shaped_normal [OF assms(4)]
  have "length (filter (\<lambda>w. u_id w = u_id u \<and> recovery_hash env c \<in> set (u_recovery w)) (users d)) = 1"
    using filter_by_id [OF q(1) assms(2), of "\<lambda>w. recovery_hash env c \<in> set (u_recovery w)"] assms(3) by simp
  then obtain d' where d': "spend_recovery_code env (u_id u) c d = (Inr (), d')" "au_fault d' = (\<lambda>_. False)" "sessions d' = sessions d"
    using n q(2) by (simp add: spend_recovery_code_def consume_recovery_code_def and_then_def update_users_quiet [OF q(2)]
        ret_def au_db_def map_err_def)
  have "filter (\<lambda>s. se_id s = se_id r) (sessions d) \<noteq> []" using assms(9) by (auto simp: filter_empty_conv)
  then have t: "fst (touch_session_step_up (se_id r) now d') = Inr ()"
    by (simp add: touch_session_step_up_def affected_def and_then_def update_sessions_def au_call_quiet [OF d'(2)] d'(3) ret_def)
  obtain e d2 where "touch_session_step_up (se_id r) now d' = (e, d2)" by fastforce
  with t d'(1) show ?thesis
    using assms(5-8) n by (simp add: step_up_def step_up_factor_def second_factor_def recovery_request_def and_then_def map_err_def ret_def)
qed

text \<open>
  C13: A code that the second factor refuses because its step was used is accepted by POST /auth/totp/enable of an
  account whose second factor is already on: it replaces the recovery codes and returns ten new ones, and
  with any of them the same session passes step-up.
\<close>

theorem spent_code_reenrols:
  assumes "at_db quiet d" and "u \<in> set (users d)" and "pr_user p = Some u" and "pr_session p = Some r" and "r \<in> set (sessions d)"
    and "u_totp u" and "u_secret u \<noteq> []" and "code \<noteq> []" and "code_for env now u code k"
    and spent: "\<And>k. code_for env now u code k \<Longrightarrow> steps_le (Some k) (u_last_step u)"
    and "100 \<le> length (filter usable bytes)"
  shows "(\<exists>d'. verify_totp env now (u_id u) code d = (Inl Totp_Invalid, d') \<and> users d' = users d)
    \<and> (\<exists>codes d'. totp_enable env now bytes p (Some code) d = (Inr (reply_of 200 (Codes_Body codes)), d') \<and> length codes = 10
        \<and> (\<forall>c \<in> set codes. fst (step_up env now p (Some (recovery_request c)) d') = Inr (reply_of 200 (Status_Body ''verified''))))"
proof -
  have q: "distinct (map u_id (users d))" "au_fault d = (\<lambda>_. False)" using quiet_parts [OF assms(1)] by simp_all
  let ?d = "d\<lparr>au_calls := Suc (au_calls d)\<rparr>"
  have d1: "at_db quiet ?d" "u \<in> set (users ?d)" using assms(1,2) by (simp_all add: at_db_def)
  obtain k' where m: "match_step env now (u_id u) code d = (Inr k', ?d)" "code_for env now u code k'"
    using match_step_quiet [OF assms(1,2,7,9)] by blast
  have "\<exists>d'. verify_totp env now (u_id u) code d = (Inl Totp_Invalid, d') \<and> users d' = users d"
    using consume_stale [OF d1 spent [OF m(2)]] m(1) by (auto simp: verify_totp_def and_then_def au_db_def map_err_def throw_def)
  moreover
  obtain codes where codes: "generate_recovery_codes 10 bytes = Some codes" "length codes = 10" "list_all recovery_shaped codes"
    using recovery_generation_done [of 10 bytes] assms(11) by auto
  let ?h = "map (recovery_hash env) codes"
  let ?e = "\<lambda>v. v\<lparr>u_totp := True, u_recovery := ?h\<rparr>"
  let ?d2 = "?d\<lparr>au_calls := Suc (au_calls ?d), users := map (\<lambda>v. if u_id v = u_id u then ?e v else v) (users ?d)\<rparr>"
  have "totp_enable env now bytes p (Some code) d = (Inr (reply_of 200 (Codes_Body codes)), ?d2)"
    using assms(3,8) m(1) codes(1) q(2)
    by (simp add: totp_enable_def signed_in_def enable_totp_def verify_enrolment_def and_then_def ret_def map_err_def au_db_def
        enable_user_totp_def exec_user_def update_users_quiet)
  moreover have "fst (step_up env now p (Some (recovery_request c)) ?d2) = Inr (reply_of 200 (Status_Body ''verified''))"
    if c: "c \<in> set codes" for c
  proof (rule recovery_steps_up)
    show "at_db quiet ?d2" using d1(1) quiet_changed [of "\<lambda>v. u_id v = u_id u" ?e] by (simp add: at_db_def)
    show "?e u \<in> set (users ?d2)" using assms(2) by (auto intro!: image_eqI [where x = u])
    show "recovery_hash env c \<in> set (u_recovery (?e u))" "recovery_shaped c" using c codes(3) by (simp_all add: list_all_iff)
  qed (use assms(3-6) in simp_all)
  ultimately show ?thesis using codes(2) by blast
qed

definition bob_used :: user where
  "bob_used = bob\<lparr>u_last_step := Some 0\<rparr>"

definition bob_session :: session where
  "bob_session = \<lparr>se_id = ''s'', se_user = ''b'', se_hash = ''h'', se_created = 0, se_expires = hour, se_seen = 0, se_pre = False, se_stepup = None\<rparr>"

definition bob_db :: auth_db where
  "bob_db = \<lparr>users = [bob_used], sessions = [bob_session], api_tokens = [], au_fault = (\<lambda>_. False), au_calls = 0\<rparr>"

definition bob_principal :: principal where
  "bob_principal = \<lparr>pr_user = Some bob_used, pr_session = Some bob_session, pr_token = None\<rparr>"

lemma bob_code_step: "code_for demo_auth 0 bob_used ''0'' k \<longleftrightarrow> k = 0"
proof -
  have s: "show_int (- 1) \<noteq> ''0''" "show_int 0 = ''0''" "show_int 1 \<noteq> ''0''" by code_simp+
  have k: "\<bar>k - current_step 0\<bar> \<le> totp_skew \<longleftrightarrow> k = - 1 \<or> k = 0 \<or> k = 1"
    by (simp add: current_step_def totp_skew_def go_div_def) presburger
  show ?thesis unfolding code_for_def k using s by (auto simp: demo_auth_def)
qed

theorem spent_code_reenrols_witness:
  "\<exists>codes d'. totp_enable demo_auth 0 (replicate 100 0) bob_principal (Some ''0'') bob_db = (Inr (reply_of 200 (Codes_Body codes)), d')
     \<and> length codes = 10 \<and> fst (step_up demo_auth 0 bob_principal (Some (recovery_request (hd codes))) d') = Inr (reply_of 200 (Status_Body ''verified''))"
proof -
  have "at_db quiet bob_db" "bob_used \<in> set (users bob_db)" "bob_session \<in> set (sessions bob_db)"
    by (simp_all add: bob_db_def at_db_def quiet_def)
  moreover have "pr_user bob_principal = Some bob_used" "pr_session bob_principal = Some bob_session"
    by (simp_all add: bob_principal_def)
  moreover have "u_totp bob_used" "u_secret bob_used \<noteq> []" "''0'' \<noteq> []"
    by (simp_all add: bob_used_def bob_def)
  moreover have "100 \<le> length (filter usable (replicate 100 0))" by (simp add: usable_def)
  moreover have "code_for demo_auth 0 bob_used ''0'' 0" "\<And>k. code_for demo_auth 0 bob_used ''0'' k \<Longrightarrow> steps_le (Some k) (u_last_step bob_used)"
    by (simp_all add: bob_code_step) (simp add: bob_used_def steps_le_def)
  ultimately obtain codes d' where
    "totp_enable demo_auth 0 (replicate 100 0) bob_principal (Some ''0'') bob_db = (Inr (reply_of 200 (Codes_Body codes)), d')" "length codes = 10"
    "\<forall>c \<in> set codes. fst (step_up demo_auth 0 bob_principal (Some (recovery_request c)) d') = Inr (reply_of 200 (Status_Body ''verified''))"
    using spent_code_reenrols [of bob_db bob_used bob_principal bob_session "''0''" demo_auth 0 0 "replicate 100 0"] by blast
  moreover have "hd codes \<in> set codes" using calculation(2) by (intro hd_in_set) auto
  ultimately show ?thesis by blast
qed

section \<open>The token that a session mints\<close>

lemma b64_no_space: "list_all (\<lambda>c. \<not> is_space c) (b64_encode s)"
proof -
  have "\<not> is_space c" if c: "c \<in> set (b64_encode s)" for c
  proof -
    have "\<forall>k \<in> set (b64_sextets (map of_char s)). k < 64" by (rule b64_sextets_range) (simp add: of_char_less)
    moreover obtain n where "n \<in> set (b64_sextets (map of_char s))" "c = b64_char n" using c by (auto simp: b64_encode_def)
    ultimately have "n < 64" "c = b64_char n" by blast+
    moreover have "is_space ch \<Longrightarrow> b64_value ch = None" for ch by (auto simp: is_space_def b64_value_def Let_def)
    ultimately show ?thesis using b64_value_char [of n] by fastforce
  qed
  then show ?thesis by (simp add: list_all_iff)
qed

lemma minted_bearer:
  assumes "ha_authorization q = bearer_prefix @ token_prefix @ b64_encode bytes"
  shows "bearer_token q = Some (token_prefix @ b64_encode bytes)"
proof -
  have "trim_space (token_prefix @ b64_encode bytes) = token_prefix @ b64_encode bytes"
    using b64_no_space by (intro trim_space_id) (simp add: token_prefix_def go_eval)
  then show ?thesis
    using assms by (simp add: bearer_token_def Let_def has_prefix_def trim_prefix_def token_prefix_def)
qed

lemma lookup_token_quiet:
  assumes "au_fault d = (\<lambda>_. False)" and "has_prefix tok token_prefix"
    and "find (\<lambda>t. tk_hash t = ae_sha env tok) (api_tokens d) = Some t" and "tk_expires t = None"
    and "find (\<lambda>u. u_id u = tk_user t) (users d) = Some u"
  shows "\<exists>d'. lookup_token env now tok d = (Inr (t, u), d')"
  using assms by (simp add: lookup_token_def get_api_token_by_hash_def get_user_by_id_def one_user_def and_then_def au_db_def map_err_def
      ignore_def ret_def au_call_quiet)

lemma authenticate_bearer:
  assumes "bearer_token q = Some tok" and "\<exists>d'. lookup_token env now tok d = (Inr (t, u), d')"
  shows "\<exists>d'. (authenticate env now q d :: (auth_reply + principal) \<times> auth_db)
    = (Inr \<lparr>pr_user = Some u, pr_session = None, pr_token = Some t\<rparr>, d')"
  using assms by (auto simp: authenticate_def and_then_def attempt_def ret_def)

lemma find_fresh: "x \<notin> f ` set ts \<Longrightarrow> f t = x \<Longrightarrow> find (\<lambda>y. f y = x) (ts @ [t]) = Some t"
  by (induction ts) auto

lemma create_token_route:
  assumes d: "at_db quiet d" and p: "pr_user p = Some u" "u \<in> set (users d)" and raw: "raw = Some bytes" "trim_space name = name" "name \<noteq> []" "length name \<le> 100"
    and fresh: "new \<notin> tk_id ` set (api_tokens d)" "ae_sha env (token_prefix @ b64_encode bytes) \<notin> tk_hash ` set (api_tokens d)"
  shows "\<exists>t d'. create_api_token_handler env new now raw p (Some (name, 0)) d
      = (Inr (reply_of 201 (New_Token_Body (token_prefix @ b64_encode bytes) (token_view_of t))), d')
    \<and> tk_expires t = None \<and> tk_user t = u_id u \<and> tk_hash t = ae_sha env (token_prefix @ b64_encode bytes)
    \<and> api_tokens d' = api_tokens d @ [t] \<and> users d' = users d \<and> au_fault d' = (\<lambda>_. False)"
proof -
  have q: "au_fault d = (\<lambda>_. False)" using quiet_parts [OF d] by simp
  have "u_id u \<in> u_id ` set (users d)" using p(2) by blast
  then show ?thesis
    using p raw fresh q by (simp add: create_api_token_handler_def signed_in_def create_token_def create_api_token_def au_call_quiet
        and_then_def au_db_def map_err_def ret_def Let_def max_token_name_def token_expiry_def)
qed



section \<open>The first boot, twice\<close>

lemma disk_quiet: "bo_fault s = (\<lambda>_. False) \<Longrightarrow> disk q s = q (s\<lparr>bo_ops := Suc (bo_ops s)\<rparr>)"
  by (simp add: disk_def Let_def)

lemma setup_open_quiet:
  assumes "at_db quiet (bo_db s)" and "accounts s = []" and "validate_setup q = None" and "length (sq_password q) \<le> 72"
  shows "setup_open (Some q) s = (Inr q, s\<lparr>bo_db := (bo_db s)\<lparr>au_calls := Suc (au_calls (bo_db s))\<rparr>\<rparr>)"
  using assms quiet_parts [OF assms(1)]
  by (simp add: setup_open_def max_password_bytes_def and_then_def map_err_def on_boot_db_def count_users_def au_call_quiet accounts_def ret_def)

lemma check_token_quiet:
  assumes "bo_fault s = (\<lambda>_. False)" and "bo_file s = Some t" and "trim_space t \<noteq> []" and "provided = trim_space t"
  shows "check_setup_token provided s = (Inr (), s\<lparr>bo_ops := Suc (bo_ops s)\<rparr>)"
  using assms by (simp add: check_setup_token_def read_setup_token_def disk_quiet and_then_def reads_def ret_def)

lemma create_adds:
  assumes "at_db quiet (bo_db s)" and "ae_bcrypt env (sq_password q) = Some h"
    and "i \<notin> u_id ` set (accounts s)" and "sq_username q \<notin> u_name ` set (accounts s)"
  shows "accounts (snd (setup_create env i new now raw csrf fresh q s)) = accounts s @ [fresh_user i (sq_username q) h]"
    and "at_db quiet (bo_db (snd (setup_create env i new now raw csrf fresh q s)))"
proof -
  let ?d = "(bo_db s)\<lparr>au_calls := Suc (au_calls (bo_db s)), users := accounts s @ [fresh_user i (sq_username q) h]\<rparr>"
  let ?u = "fresh_user i (sq_username q) h"
  have q: "distinct (map u_id (users (bo_db s)))" "au_fault (bo_db s) = (\<lambda>_. False)" using quiet_parts [OF assms(1)] by simp_all
  have c: "create_user i (sq_username q) h (bo_db s) = (Inr ?u, ?d)"
    using assms(3,4) q(2) by (auto simp: create_user_def au_call_quiet accounts_def)
  obtain res d' where f: "issue_full_session env new now raw csrf ?u True ?d = (res, d')" by fastforce
  have e: "setup_create env i new now raw csrf fresh q s = (res, s\<lparr>bo_db := d'\<rparr>)"
    using assms(2) c f by (simp add: setup_create_def Let_def and_then_def attempt_def on_boot_db_def)
  have d: "at_db quiet ?d" using q assms(3) by (simp add: at_db_def quiet_def accounts_def fresh_user_def)
  have "users d' = users ?d"
    by (rule users_keep [OF vouched_at.keep_issue d f]) (simp add: vouched_at_def vouched_def)
  then show "accounts (snd (setup_create env i new now raw csrf fresh q s)) = accounts s @ [?u]" by (simp add: e accounts_def)
  show "at_db quiet (bo_db (snd (setup_create env i new now raw csrf fresh q s)))"
    using quiet_keep [OF quiet.keep_issued d f] by (simp add: e)
qed

text \<open>
  C23: Two requests to set up the first administrator, both with the token of the first boot, that pass its
  comparison before either removes the file, both create an account: the wizard made two administrators.
\<close>

theorem first_boot_admits_two:
  assumes "at_db quiet (bo_db s)" and "bo_fault s = (\<lambda>_. False)" and "accounts s = []" and "bo_file s = Some t" and "trim_space t \<noteq> []"
    and "validate_setup q = None" and "length (sq_password q) \<le> 72" and "sq_token q = trim_space t" and "ae_bcrypt env (sq_password q) = Some h"
    and "validate_setup q' = None" and "length (sq_password q') \<le> 72" and "sq_token q' = trim_space t" and "ae_bcrypt env (sq_password q') = Some h'"
    and "i \<noteq> i'" and "sq_username q \<noteq> sq_username q'"
  shows "\<exists>s1 s2 s3 s4 s5 s6. setup_open (Some q) s = (Inr q, s1) \<and> setup_open (Some q') s1 = (Inr q', s2)
    \<and> check_setup_token (sq_token q) s2 = (Inr (), s3) \<and> check_setup_token (sq_token q') s3 = (Inr (), s4)
    \<and> remove_setup_token s4 = (Inr (), s5) \<and> remove_setup_token s5 = (Inr (), s6)
    \<and> map u_name (accounts (snd (setup_create env i' new' now raw' csrf' fresh' q' (snd (setup_create env i new now raw csrf fresh q s6)))))
      = [sq_username q, sq_username q']"
proof -
  let ?s1 = "s\<lparr>bo_db := (bo_db s)\<lparr>au_calls := Suc (au_calls (bo_db s))\<rparr>\<rparr>"
  let ?s2 = "?s1\<lparr>bo_db := (bo_db ?s1)\<lparr>au_calls := Suc (au_calls (bo_db ?s1))\<rparr>\<rparr>"
  let ?s4 = "?s2\<lparr>bo_ops := Suc (Suc (bo_ops s))\<rparr>"
  let ?s6 = "?s4\<lparr>bo_ops := Suc (Suc (Suc (Suc (bo_ops s)))), bo_file := None\<rparr>"
  have q1: "at_db quiet (bo_db ?s1)" "at_db quiet (bo_db ?s6)" "accounts ?s1 = []" "accounts ?s6 = []"
    using assms(1,3) by (simp_all add: at_db_def accounts_def)
  have opens: "setup_open (Some q) s = (Inr q, ?s1)" "setup_open (Some q') ?s1 = (Inr q', ?s2)"
    using setup_open_quiet assms q1 by blast+
  have checks: "check_setup_token (sq_token q) ?s2 = (Inr (), ?s2\<lparr>bo_ops := Suc (bo_ops s)\<rparr>)"
    "check_setup_token (sq_token q') (?s2\<lparr>bo_ops := Suc (bo_ops s)\<rparr>) = (Inr (), ?s4)"
    using check_token_quiet [of ?s2 t] check_token_quiet [of "?s2\<lparr>bo_ops := Suc (bo_ops s)\<rparr>" t] assms(2,4,5,8,12) by simp_all
  have removes: "remove_setup_token ?s4 = (Inr (), ?s4\<lparr>bo_ops := Suc (Suc (Suc (bo_ops s))), bo_file := None\<rparr>)"
    "remove_setup_token (?s4\<lparr>bo_ops := Suc (Suc (Suc (bo_ops s))), bo_file := None\<rparr>) = (Inr (), ?s6)"
    using assms(2) by (simp_all add: remove_setup_token_def disk_quiet act_def)
  let ?t = "snd (setup_create env i new now raw csrf fresh q ?s6)"
  have a: "accounts ?t = [fresh_user i (sq_username q) h]" "at_db quiet (bo_db ?t)"
    using create_adds [OF q1(2) assms(9), of i] q1(4) by simp_all
  have "accounts (snd (setup_create env i' new' now raw' csrf' fresh' q' ?t)) = accounts ?t @ [fresh_user i' (sq_username q') h']"
    by (rule create_adds(1) [OF a(2) assms(13)]) (use a(1) assms(14,15) in \<open>auto simp: fresh_user_def\<close>)
  then have "map u_name (accounts (snd (setup_create env i' new' now raw' csrf' fresh' q' ?t))) = [sq_username q, sq_username q']"
    using a(1) by (simp add: fresh_user_def)
  then show ?thesis by (intro exI conjI) (rule opens checks removes | assumption)+
qed

section \<open>Instances\<close>

definition empty_boot :: boot where
  "empty_boot = \<lparr>bo_db = \<lparr>users = [], sessions = [], api_tokens = [], au_fault = (\<lambda>_. False), au_calls = 0\<rparr>,
     bo_file = Some ''tok'', bo_fault = (\<lambda>_. False), bo_ops = 0\<rparr>"

definition setup_as :: "string \<Rightarrow> setup_request" where
  "setup_as name = \<lparr>sq_username = name, sq_password = ''longpassword'', sq_token = ''tok''\<rparr>"

theorem first_boot_admits_two_witness:
  "\<exists>s6. map u_name (accounts (snd (setup_create demo_auth ''2'' ''s2'' 0 None None None (setup_as ''eve'')
     (snd (setup_create demo_auth ''1'' ''s1'' 0 None None None (setup_as ''ann'') s6))))) = [''ann'', ''eve'']"
proof -
  have v: "validate_setup (setup_as ''ann'') = None" "validate_setup (setup_as ''eve'') = None" "trim_space ''tok'' = ''tok''"
    by code_simp+
  have f: "length (sq_password (setup_as n)) \<le> 72" "sq_token (setup_as n) = ''tok''" "ae_bcrypt demo_auth (sq_password (setup_as n)) = Some ''longpassword''"
    "sq_username (setup_as n) = n" for n
    by (simp_all add: setup_as_def demo_auth_def)
  have e: "at_db quiet (bo_db empty_boot)" "bo_fault empty_boot = (\<lambda>_. False)" "accounts empty_boot = []" "bo_file empty_boot = Some ''tok''"
    by (simp_all add: empty_boot_def at_db_def quiet_def accounts_def)
  have t: "trim_space ''tok'' \<noteq> []" "sq_token (setup_as n) = trim_space ''tok''" for n using v(3) f(2) by simp_all
  have d: "''1'' \<noteq> ''2''" "sq_username (setup_as ''ann'') \<noteq> sq_username (setup_as ''eve'')" using f(4) by simp_all
  show ?thesis
    using first_boot_admits_two [OF e t(1) v(1) f(1) t(2) f(3) v(2) f(1) t(2) f(3) d,
        of "''s2''" 0 None None None "''s1''" None None None] unfolding f(4)
    by (elim exE conjE) (rule exI)
qed

definition bob_typo :: visit_at where
  "bob_typo = (demo_boot, demo_moment ''s1'' ''xy'' 0, Do_Login (Some \<lparr>lq_username = ''bob'', lq_password = ''pv'', lq_remember = False\<rparr>))"


end
