(* ===== verification/Spec2Isabelle.thy ===== *)
theory Spec2Isabelle
  imports Window_Sweeper Webhook_Handler Deploy_Success Crash_Loop Job_Engine Domain_Safety
    Scale_Safety Ops_Safety Guard_Safety Auth_Limits
begin

text \<open>
  VAC is a self-hosted deployment platform: a Go service (src/api) that receives webhooks and API
  calls, keeps its state in Postgres, and builds and runs compose stacks through docker behind a
  proxy. This development models the core of the service: the way a deployment goes, the loops that
  watch over running apps, the edge in front of them, and who may get at what.

  How the parts interact. A trigger endpoint, a webhook delivery, an approval or the window sweeper
  writes a row into the deployments table and hands its id to the worker; the worker runs the
  pipeline for it, at most a fixed number at a time; the pipeline moves the row through its
  statuses and settles the row and the app. A partial unique index lets an app have one active
  deployment, its lane. The crash-loop monitor and the job scheduler act on the running services; the
  route manager keeps Caddy in step with the database; idle apps are suspended and woken by their next
  visitor; guarded services admit visitors by signed tokens that the control plane hands out; and the control
  plane itself asks for a session or a token, and for destructive actions a fresh second proof.

  The theories.
  \<^item> VAC_Prelude: Go strings, integers and their wrap-around, and the state and error monad with its
    rules (keeps, triple) in the collection vac_wp. Go_Time: instants, durations, zones as offset functions.
  \<^item> Deploy_Status (deploy/status.go), Deploy_Window (webhook/deploywindow.go), Webhook_Match
    (webhook/webhook.go), Compose_Preflight (compose/preflight.go), Env_File (deploy/envfile.go) and
    Health_Check (deploy/healthcheck.go): the pure parts, one definition per Go function.
  \<^item> Store_Base (store/apps.go, services.go and neighbours) and Deployment_Store (store/deployments.go):
    the database is a record of tables. Every call first consults a fault function, by the
    number of the call, so that each statement is proved for any pattern of failing calls unless it
    says that the database answers. The unique index is a guard of the inserts and updates.
  \<^item> Deploy_Worker (deploy/worker.go): the queue, the pool and its contexts; the goroutines are the
    step relation worker_step.
  \<^item> Deploy_Pipeline (deploy/pipeline.go, MaintainOn and MaintainOff of proxy/manager.go): Run, stage
    by stage, with its early returns and deferred calls; the collaborators behind interfaces are
    the fields of pipe_env, and what they are asked is a trace. Deploy_Success: progress of a run.
  \<^item> Api_System, Deploy_Handlers (server/handler/deployments.go, approvals.go), Webhook_Handler
    (server/handler/webhooks.go) and Window_Sweeper (deploy/window_sweeper.go): the endpoints and the sweeper
    over the database and the worker together.
  \<^item> Store_Domains (store/domains.go) and Caddy_Config (caddy/config.go, client.go): the rows of the
    edge, and the client of Caddy's admin API, whose answers are a function of the request and of a world.
    Proxy_Hostname (proxy/hostname.go, network.go), Proxy_Routes and Proxy_Manager (proxy/manager.go,
    health.go): the routes an app calls for, and the manager's operations as steps over the database, Caddy
    and docker. Proxy_Safety and Proxy_Converge hold what is proved of them, the latter the refinement
    of the operations to moves of a table of routes.
  \<^item> Domain_Status (domainstatus), Cert_Upload (certupload) and Domain_Handlers (server/handler/domains.go,
    domain_cert.go, caddy_ask.go): the domain endpoints over the manager; Domain_Safety their lemmas.
  \<^item> Store_Apps (store/apps.go, app_registry.go, app_webhook.go), Stack_Ops (server/handler/stack_control.go,
    services.go) and App_Settings (maintenance.go, ratelimit.go, scaletozero.go, deploy_window.go, guest_access.go):
    the controls and settings of an app, over the route manager, the monitor and docker. Proxy_Frame says what
    they leave alone; Ops_Safety what they do to the routes.
  \<^item> Scale_To_Zero (scaletozero/waker.go, sweeper.go, store/scaletozero.go, server/handler/wake.go): suspension and
    wake, first as operations, then for one app as a step relation over the phases of concurrent goroutines;
    Scale_Safety their lemmas.
  \<^item> Web_Encoding: the query escapes and the URL-safe base64 of the standard library, with their round trips.
    Guard (guard/token.go, server/handler/guard.go): the login gate; Guard_Safety what it admits.
  \<^item> Auth_Store (store/users.go, api_tokens.go), Auth (auth/session.go, totp.go, token.go, server/middleware/auth.go,
    stepup.go, csrf.go) and Auth_Handlers (server/handler/auth.go, totp.go, stepup.go, sessions.go, api_tokens.go,
    setup.go, auth/setup_token.go and the routes of server.go): the accounts. Random bytes and new identifiers are
    arguments; a handler that checks and then counts is split, so that requests can be interleaved. Auth_Safety
    and Auth_Limits hold what is proved over histories of requests.
  \<^item> Crash_Loop (crashloop/monitor.go), Job_Scheduler (jobs/scheduler.go, with the schedules of
    backup/scheduler.go and retention/pruner.go) and Job_Engine (jobs/engine.go, store/jobs.go).

  The interfaces are locales, interpreted on the model: enqueuer (what the callers of the worker
  rely on), lane_settler (undoing a row whose enqueue was refused), run_prefix_invariant,
  run_invariant and run_db_invariant (what a predicate has to withstand to hold throughout a
  pipeline run), flight_guard (the in-flight set, interpreted for the job scheduler and for the waker), and
  session_frame with its extensions account_frame, signup_frame and route_frame (what a property of the accounts has
  to withstand to be kept by each group of account operations; interpreted on the vouching of sessions, the floor
  of used time steps, the count of failures and the absence of faults).

  What the lemmas show. The store keeps the index and its scoped writes refine moves of the lane;
  no endpoint and no sweep strands a row, except the webhook with a full queue, which is proved to;
  only authentic deliveries that match a rule act; a run touches its own row only, settles it, tells
  its subscribers last, never builds what the lint blocks, and succeeds when its collaborators
  answer; windows, globs, statuses, ports and environment files agree with reference definitions;
  a reconcile makes Caddy the table the database asks for, except for the routes of unassigned domains,
  which are proved to linger; no operation of the manager routes to a guarded service without its
  login check; the domains table keeps its shape; the on-demand hook knows whom it allows;
  the gate admits only whom the portal granted the host, and lets those in; transitions of an app never overlap,
  and the sweeper stops idle apps only; a session needs its factors, codes are accepted once and guesses are bounded,
  while a session can mint a token that skips step-up, a used code can enrol again, and two first-boot requests
  can both win, each of which is proved;
  the monitor trips at the configured rate and stops once; jobs fall due at their next slot, never
  overlap and are always accounted for.

  Bounds and fuel. Recursion is structural throughout: the retry loop of the health check counts
  its attempts down from the configured number, which bounds it exactly, and the rejection sampling of
  recovery codes recurses over the bytes drawn (it ends exactly when enough were usable); no fuel is used. Durations
  that Go multiplies are wrapped to int64, and results about them state the range they need.

  Not modelled. The SQL text and the connection pool; YAML, JSON, HMAC, bcrypt, TOTP codes and encryption, which are
  parameters; time-outs as such (their outcome is an argument); the updated_at columns; client addresses and user
  agents; the buckets of the rate limiter (its verdict is an argument); the audit rows of the accounts; log lines
  of the process. Parts that could still be modelled: the retention pruner, previews, the notification
  dispatcher, the backup engine, the diff of the audit trail, the app specification and the configuration. Left out for
  good: the embedded web interface, database provisioning, the docker and git command lines, metrics, streaming of
  logs, and other code that only calls outside. PROJECT.json lists every part.
\<close>

end
